(* ===== verification/Prelude.thy ===== *)
theory Prelude
  imports Main "HOL-Library.Word"
begin

unbundle bit_operations_syntax

text \<open>
  Shared vocabulary of the development: the machine types of
  \<^verbatim>\<open>include/base/basictypes.h\<close>, C memory as lists of bytes with the effect of
  \<^verbatim>\<open>memcpy\<close>, the collections of simplification rules the component theories add to,
  and the interface \<open>fixed_codec\<close> of a fixed-width big- or little-endian integer encoding.
\<close>

section \<open>Machine types\<close>

type_synonym byte = "8 word"
type_synonym u16 = "16 word"
type_synonym u32 = "32 word"
type_synonym u64 = "64 word"

named_theorems codec_simps \<open>lengths and round trips of the byte encodings\<close>
named_theorems mem_simps \<open>reads and writes of C memory\<close>
named_theorems bb_simps \<open>abstract effect of the byte buffer operations\<close>
named_theorems fifo_simps \<open>abstract effect of the FIFO operations\<close>

section \<open>C memory\<close>

text \<open>
  A block of memory is the list of its bytes. \<open>mem_read m p n\<close> are the \<open>n\<close> bytes
  from offset \<open>p\<close>; \<open>mem_write m p d\<close> is the block after
  \<^verbatim>\<open>memcpy(m + p, d, |d|)\<close>. Both are only used where the range lies in the block.
\<close>

definition mem_read :: "'a list \<Rightarrow> nat \<Rightarrow> nat \<Rightarrow> 'a list" where
  "mem_read m p n = take n (drop p m)"

definition mem_write :: "'a list \<Rightarrow> nat \<Rightarrow> 'a list \<Rightarrow> 'a list" where
  "mem_write m p d = take p m @ d @ drop (p + length d) m"

lemma length_mem_read [mem_simps]:
  "p + n \<le> length m \<Longrightarrow> length (mem_read m p n) = n"
  by (simp add: mem_read_def)

lemma length_mem_write [mem_simps]:
  "p + length d \<le> length m \<Longrightarrow> length (mem_write m p d) = length m"
  by (simp add: mem_write_def)

lemma mem_read_0 [mem_simps, simp]: "mem_read m p 0 = []"
  by (simp add: mem_read_def)

lemma mem_write_Nil [mem_simps, simp]: "mem_write m p [] = m"
  by (simp add: mem_write_def)

lemma nth_mem_write:
  assumes "p + length d \<le> length m" and "i < length m"
  shows "mem_write m p d ! i = (if p \<le> i \<and> i < p + length d then d ! (i - p) else m ! i)"
proof -
  consider "i < p" | "p \<le> i" "i < p + length d" | "p + length d \<le> i" by linarith
  then show ?thesis
  proof cases
    case 1
    with assms show ?thesis by (simp add: mem_write_def nth_append)
  next
    case 2
    then have "i - p < length d" by linarith
    with 2 assms show ?thesis by (simp add: mem_write_def nth_append)
  next
    case 3
    then obtain k where "i = p + length d + k" using le_Suc_ex by blast
    with assms show ?thesis by (simp add: mem_write_def nth_append)
  qed
qed

lemma nth_mem_read: "i < n \<Longrightarrow> p + n \<le> length m \<Longrightarrow> mem_read m p n ! i = m ! (p + i)"
  by (simp add: mem_read_def)

lemma mem_read_write_same [mem_simps]:
  "p + length d \<le> length m \<Longrightarrow> mem_read (mem_write m p d) p (length d) = d"
  by (simp add: mem_read_def mem_write_def)

lemma mem_read_write_end:
  assumes "s \<le> p" and "p + length d \<le> length m"
  shows "mem_read (mem_write m p d) s (p + length d - s) = mem_read m s (p - s) @ d"
  using assms by (simp add: mem_read_def mem_write_def drop_take)

lemma mem_read_split:
  "mem_read m p (a + b) = mem_read m p a @ mem_read m (p + a) b"
  by (simp add: mem_read_def take_add add.commute)

lemma mem_read_take: "k \<le> n \<Longrightarrow> take k (mem_read m p n) = mem_read m p k"
  by (simp add: mem_read_def min_absorb2 min.commute)

lemma mem_read_drop: "drop k (mem_read m p n) = mem_read m (p + k) (n - k)"
  by (simp add: mem_read_def drop_take add.commute)

section \<open>Words read as numbers\<close>

lemma unat_diff_le: "b \<le> a \<Longrightarrow> unat (a - b) = unat a - unat (b :: 'a::len word)"
  by (simp add: unat_sub_if' word_le_nat_alt)

lemma unat_diff_less: "a < b \<Longrightarrow> unat (b - a) = unat b - unat (a :: 'a::len word)"
  by (simp add: unat_diff_le less_imp_le)

lemma unat_add_small:
  "unat a + unat b < 2 ^ LENGTH('a) \<Longrightarrow> unat (a + b) = unat a + unat (b :: 'a::len word)"
  by (simp add: unat_word_ariths)

lemma unat_of_nat_small: "n < 2 ^ LENGTH('a) \<Longrightarrow> unat (of_nat n :: 'a::len word) = n"
  by (simp add: unat_of_nat take_bit_nat_eq_self)

section \<open>Fixed-width integer encodings\<close>

text \<open>
  What every reader and writer of a fixed-width integer promises: the encoding has
  \<open>width\<close> bytes, decoding looks only at the first \<open>width\<close> bytes, and the two are inverse.
\<close>

locale fixed_codec =
  fixes enc :: "'v \<Rightarrow> byte list" and dec :: "byte list \<Rightarrow> 'v" and width :: nat
  assumes enc_length: "length (enc v) = width"
    and dec_enc: "dec (enc v @ rest) = v"
    and enc_dec: "width \<le> length bs \<Longrightarrow> enc (dec bs) = take width bs"
begin

lemma dec_enc_nil: "dec (enc v) = v"
  using dec_enc [of v "[]"] by simp

lemma enc_eq_iff: "enc v = enc w \<longleftrightarrow> v = w"
  using dec_enc_nil by metis

lemma take_enc: "take width (enc v @ rest) = enc v"
  by (simp add: enc_length)

lemma drop_enc: "drop width (enc v @ rest) = rest"
  by (simp add: enc_length)

lemma dec_take: "width \<le> length bs \<Longrightarrow> dec (take width bs) = dec bs"
  using dec_enc [of "dec bs" "drop width bs"] dec_enc_nil [of "dec bs"]
  by (simp add: enc_dec)

lemma dec_eq_iff:
  assumes "width \<le> length bs"
  shows "dec bs = v \<longleftrightarrow> take width bs = enc v"
proof
  assume "dec bs = v"
  then show "take width bs = enc v" using enc_dec [OF assms] by simp
next
  assume "take width bs = enc v"
  then have "dec (take width bs) = v" by (simp add: dec_enc_nil)
  then show "dec bs = v" using dec_take [OF assms] by simp
qed

end

end
