(* ===== verification/FifoBuffer.thy ===== *)
theory FifoBuffer
  imports Prelude
begin

text \<open>
  \<^verbatim>\<open>FifoBuffer\<close> of \<^verbatim>\<open>src/base/stream.cc\<close>: the circular buffer behind both
  directions of a PseudoTcp connection. Beside plain reads and writes it can read at an offset
  without consuming, and write at an offset beyond the committed data (the holes are filled and
  committed later). The record has the members of the class and, in \<open>ff_events\<close>, the stream
  events posted to the owner thread, oldest first. The locks of the class serialise its
  operations, so each is one step here.
\<close>

section \<open>State and operations\<close>

datatype stream_state = SS_CLOSED | SS_OPENING | SS_OPEN
datatype stream_result = SR_ERROR | SR_SUCCESS | SR_BLOCK | SR_EOS
datatype stream_event = SE_OPEN | SE_READ | SE_WRITE | SE_CLOSE

record fifo_buffer =
  ff_state :: stream_state
  ff_buffer :: "byte list"
  ff_buffer_length :: nat
  ff_data_length :: nat
  ff_read_position :: nat
  ff_events :: "stream_event list"

definition FifoBuffer_new :: "nat \<Rightarrow> fifo_buffer" where
  "FifoBuffer_new sz = \<lparr>ff_state = SS_OPEN, ff_buffer = replicate sz 0, ff_buffer_length = sz,
     ff_data_length = 0, ff_read_position = 0, ff_events = []\<rparr>"

definition PostEvent :: "fifo_buffer \<Rightarrow> stream_event \<Rightarrow> fifo_buffer" where
  "PostEvent f e = f\<lparr>ff_events := ff_events f @ [e]\<rparr>"

definition GetBuffered :: "fifo_buffer \<Rightarrow> nat" where
  "GetBuffered f = ff_data_length f"

definition SetCapacity :: "fifo_buffer \<Rightarrow> nat \<Rightarrow> bool \<times> fifo_buffer" where
  "SetCapacity f sz =
     (if ff_data_length f > sz then (False, f)
      else if sz \<noteq> ff_buffer_length f then
        let buffer = replicate sz 0;
            copy = ff_data_length f;
            tail_copy = min copy (ff_buffer_length f - ff_read_position f);
            buffer = mem_write buffer 0 (mem_read (ff_buffer f) (ff_read_position f) tail_copy);
            buffer = mem_write buffer tail_copy (mem_read (ff_buffer f) 0 (copy - tail_copy))
        in (True, f\<lparr>ff_buffer := buffer, ff_read_position := 0, ff_buffer_length := sz\<rparr>)
      else (True, f))"

text \<open>The bytes copied to the caller are the second component; their number is
  \<^verbatim>\<open>*bytes_read\<close>.\<close>

definition ReadOffsetLocked :: "fifo_buffer \<Rightarrow> nat \<Rightarrow> nat \<Rightarrow> stream_result \<times> byte list" where
  "ReadOffsetLocked f bytes offset =
     (if offset \<ge> ff_data_length f then
        (if ff_state f \<noteq> SS_CLOSED then SR_BLOCK else SR_EOS, [])
      else
        let available = ff_data_length f - offset;
            read_position = (ff_read_position f + offset) mod ff_buffer_length f;
            copy = min bytes available;
            tail_copy = min copy (ff_buffer_length f - read_position)
        in (SR_SUCCESS, mem_read (ff_buffer f) read_position tail_copy @
              mem_read (ff_buffer f) 0 (copy - tail_copy)))"

text \<open>The result carries \<^verbatim>\<open>*bytes_written\<close>.\<close>

definition WriteOffsetLocked ::
    "fifo_buffer \<Rightarrow> byte list \<Rightarrow> nat \<Rightarrow> stream_result \<times> nat \<times> fifo_buffer" where
  "WriteOffsetLocked f p offset =
     (if ff_state f = SS_CLOSED then (SR_EOS, 0, f)
      else if ff_data_length f + offset \<ge> ff_buffer_length f then (SR_BLOCK, 0, f)
      else
        let available = ff_buffer_length f - ff_data_length f - offset;
            write_position =
              (ff_read_position f + ff_data_length f + offset) mod ff_buffer_length f;
            copy = min (length p) available;
            tail_copy = min copy (ff_buffer_length f - write_position);
            buffer = mem_write (ff_buffer f) write_position (take tail_copy p);
            buffer = mem_write buffer 0 (take (copy - tail_copy) (drop tail_copy p))
        in (SR_SUCCESS, copy, f\<lparr>ff_buffer := buffer\<rparr>))"

definition ReadOffset :: "fifo_buffer \<Rightarrow> nat \<Rightarrow> nat \<Rightarrow> stream_result \<times> byte list" where
  "ReadOffset f bytes offset = ReadOffsetLocked f bytes offset"

definition WriteOffset ::
    "fifo_buffer \<Rightarrow> byte list \<Rightarrow> nat \<Rightarrow> stream_result \<times> nat \<times> fifo_buffer" where
  "WriteOffset f p offset = WriteOffsetLocked f p offset"

definition fifo_Read :: "fifo_buffer \<Rightarrow> nat \<Rightarrow> stream_result \<times> byte list \<times> fifo_buffer" where
  "fifo_Read f bytes =
     (let was_writable = ff_data_length f < ff_buffer_length f;
          (result, out) = ReadOffsetLocked f bytes 0;
          copy = length out
      in if result = SR_SUCCESS then
           let f' = f\<lparr>ff_read_position := (ff_read_position f + copy) mod ff_buffer_length f,
                      ff_data_length := ff_data_length f - copy\<rparr>;
               f' = (if \<not> was_writable \<and> copy > 0 then PostEvent f' SE_WRITE else f')
           in (result, out, f')
         else (result, out, f))"

definition fifo_Write :: "fifo_buffer \<Rightarrow> byte list \<Rightarrow> stream_result \<times> nat \<times> fifo_buffer" where
  "fifo_Write f p =
     (let was_readable = ff_data_length f > 0;
          (result, copy, f1) = WriteOffsetLocked f p 0
      in if result = SR_SUCCESS then
           let f' = f1\<lparr>ff_data_length := ff_data_length f1 + copy\<rparr>;
               f' = (if \<not> was_readable \<and> copy > 0 then PostEvent f' SE_READ else f')
           in (result, copy, f')
         else (result, copy, f1))"

definition fifo_Close :: "fifo_buffer \<Rightarrow> fifo_buffer" where
  "fifo_Close f = f\<lparr>ff_state := SS_CLOSED\<rparr>"

definition GetReadData :: "fifo_buffer \<Rightarrow> byte list" where
  "GetReadData f =
     (let n = (if ff_read_position f + ff_data_length f \<le> ff_buffer_length f
               then ff_data_length f else ff_buffer_length f - ff_read_position f)
      in mem_read (ff_buffer f) (ff_read_position f) n)"

definition ConsumeReadData :: "fifo_buffer \<Rightarrow> nat \<Rightarrow> fifo_buffer" where
  "ConsumeReadData f sz =
     (let was_writable = ff_data_length f < ff_buffer_length f;
          f' = f\<lparr>ff_read_position := (ff_read_position f + sz) mod ff_buffer_length f,
                 ff_data_length := ff_data_length f - sz\<rparr>
      in if \<not> was_writable \<and> sz > 0 then PostEvent f' SE_WRITE else f')"

text \<open>Returns the offset and the size of the writable block, \<open>None\<close> for NULL.\<close>

definition GetWriteBuffer :: "fifo_buffer \<Rightarrow> (nat \<times> nat) option \<times> fifo_buffer" where
  "GetWriteBuffer f =
     (if ff_state f = SS_CLOSED then (None, f)
      else let f = (if ff_data_length f = 0 then f\<lparr>ff_read_position := 0\<rparr> else f);
               write_position = (ff_read_position f + ff_data_length f) mod ff_buffer_length f;
               n = (if write_position > ff_read_position f \<or> ff_data_length f = 0
                    then ff_buffer_length f - write_position
                    else ff_read_position f - write_position)
           in (Some (write_position, n), f))"

definition ConsumeWriteBuffer :: "fifo_buffer \<Rightarrow> nat \<Rightarrow> fifo_buffer" where
  "ConsumeWriteBuffer f sz =
     (let was_readable = ff_data_length f > 0;
          f' = f\<lparr>ff_data_length := ff_data_length f + sz\<rparr>
      in if \<not> was_readable \<and> sz > 0 then PostEvent f' SE_READ else f')"

definition GetWriteRemaining :: "fifo_buffer \<Rightarrow> nat" where
  "GetWriteRemaining f = ff_buffer_length f - ff_data_length f"

section \<open>The ring as a straight list\<close>

text \<open>
  \<open>ff_view\<close> is the whole buffer unrolled from the read position: committed data first, then
  the writable space in the order in which it will be committed.
\<close>

definition fifo_inv :: "fifo_buffer \<Rightarrow> bool" where
  "fifo_inv f \<longleftrightarrow> 0 < ff_buffer_length f \<and> length (ff_buffer f) = ff_buffer_length f \<and>
     ff_data_length f \<le> ff_buffer_length f \<and> ff_read_position f < ff_buffer_length f"

definition ff_view :: "fifo_buffer \<Rightarrow> byte list" where
  "ff_view f = rotate (ff_read_position f) (ff_buffer f)"

definition ff_contents :: "fifo_buffer \<Rightarrow> byte list" where
  "ff_contents f = take (ff_data_length f) (ff_view f)"

lemma length_ff_view [fifo_simps]: "fifo_inv f \<Longrightarrow> length (ff_view f) = ff_buffer_length f"
  by (simp add: ff_view_def fifo_inv_def)

lemma length_ff_contents [fifo_simps]: "fifo_inv f \<Longrightarrow> length (ff_contents f) = ff_data_length f"
  by (simp add: ff_contents_def length_ff_view fifo_inv_def)

text \<open>Copying out of the ring in two pieces reads a piece of the rotated list.\<close>

lemma ring_copy_out:
  assumes "pos < length buf" and "n \<le> length buf"
  defines "t \<equiv> min n (length buf - pos)"
  shows "mem_read buf pos t @ mem_read buf 0 (n - t) = take n (rotate pos buf)"
proof -
  have "rotate pos buf = drop pos buf @ take pos buf"
    using assms(1) by (simp add: rotate_drop_take)
  moreover have "n - (length buf - pos) \<le> pos" using assms(2) by linarith
  ultimately show ?thesis
    by (simp add: t_def mem_read_def min_def)
qed

text \<open>Copying into the ring in two pieces overwrites a piece of the rotated list.\<close>

lemma ring_copy_in:
  assumes rp: "rp < length buf" and fit: "off + length d \<le> length buf" and o: "off < length buf"
  defines "pos \<equiv> (rp + off) mod length buf"
  defines "t \<equiv> min (length d) (length buf - pos)"
  shows "rotate rp (mem_write (mem_write buf pos (take t d)) 0 (drop t d)) =
    mem_write (rotate rp buf) off d" (is "rotate rp ?b = ?r")
proof (rule nth_equalityI)
  let ?L = "length buf"
  have ne: "buf \<noteq> []" using rp by auto
  then have pL: "pos < ?L" by (simp add: pos_def)
  have t1: "t \<le> length d" "pos + t \<le> ?L" using pL by (auto simp: t_def)
  have l1: "length (mem_write buf pos (take t d)) = ?L"
    using t1 by (simp add: length_mem_write)
  have t2: "0 + length (drop t d) \<le> ?L" using fit by simp
  show len: "length (rotate rp ?b) = length ?r"
    using l1 t2 fit by (simp add: length_mem_write)
  fix i assume "i < length (rotate rp ?b)"
  then have i: "i < ?L" using l1 t2 by (simp add: length_mem_write)
  define j where "j = (rp + i) mod ?L"
  have jL: "j < ?L" using ne by (simp add: j_def)
  have A: "rotate rp ?b ! i = ?b ! j"
    using i l1 t2 by (simp add: nth_rotate length_mem_write j_def)
  have B: "?b ! j = (if j < length d - t then d ! (t + j)
      else if pos \<le> j \<and> j < pos + t then d ! (j - pos) else buf ! j)"
    using jL l1 t1 t2
    by (auto simp: nth_mem_write [of 0 "drop t d" "mem_write buf pos (take t d)"]
        nth_mem_write [of pos "take t d" buf])
  have C: "?r ! i = (if off \<le> i \<and> i < off + length d then d ! (i - off) else buf ! j)"
    using i fit by (simp add: nth_mem_write nth_rotate j_def)
  have jc: "j = rp + i \<and> rp + i < ?L \<or> j + ?L = rp + i \<and> ?L \<le> rp + i"
    using rp i by (auto simp: j_def mod_if)
  have pc: "pos = rp + off \<and> rp + off < ?L \<or> pos + ?L = rp + off \<and> ?L \<le> rp + off"
    using rp o by (auto simp: pos_def mod_if)
  have tc: "t = length d \<and> pos + length d \<le> ?L \<or> t + pos = ?L \<and> t < length d"
    using pL by (auto simp: t_def min_def)
  show "rotate rp ?b ! i = ?r ! i"
  proof (cases "off \<le> i \<and> i < off + length d")
    case True
    have "j < length d - t \<and> t + j = i - off \<or>
        \<not> j < length d - t \<and> pos \<le> j \<and> j < pos + t \<and> j - pos = i - off"
      using jc pc tc True i rp o fit by (elim disjE conjE) linarith+
    with True show ?thesis unfolding A B C by auto
  next
    case False
    then have "\<not> j < length d - t \<and> \<not> (pos \<le> j \<and> j < pos + t)"
      using jc pc tc i rp o fit by (elim disjE conjE) linarith+
    with False show ?thesis unfolding A B C by auto
  qed
qed

section \<open>What the operations do to the view\<close>

lemma ReadOffset_spec:
  assumes "fifo_inv f" and "off < ff_data_length f"
  shows "ReadOffset f n off = (SR_SUCCESS, take n (drop off (ff_contents f)))"
proof -
  let ?L = "ff_buffer_length f" and ?rp = "ff_read_position f"
  let ?pos = "(?rp + off) mod ?L" and ?c = "min n (ff_data_length f - off)"
  have L: "length (ff_buffer f) = ?L" "0 < ?L" "ff_data_length f \<le> ?L" "?rp < ?L"
    using assms(1) by (auto simp: fifo_inv_def)
  have "mem_read (ff_buffer f) ?pos (min ?c (?L - ?pos)) @
      mem_read (ff_buffer f) 0 (?c - min ?c (?L - ?pos)) = take ?c (rotate ?pos (ff_buffer f))"
    using ring_copy_out [of ?pos "ff_buffer f" ?c] L by simp
  also have "rotate ?pos (ff_buffer f) = rotate off (ff_view f)"
    unfolding L(1) [symmetric]
    by (subst rotate_conv_mod [symmetric]) (simp add: ff_view_def rotate_rotate add.commute)
  also have "take ?c (rotate off (ff_view f)) = take n (drop off (ff_contents f))"
    using L assms by (simp add: ff_contents_def rotate_drop_take length_ff_view drop_take min.commute)
  finally show ?thesis
    using assms(2) by (simp add: ReadOffset_def ReadOffsetLocked_def Let_def)
qed

lemma WriteOffset_spec:
  fixes d :: "byte list"
  assumes "fifo_inv f" and "ff_state f \<noteq> SS_CLOSED" and "ff_data_length f + off < ff_buffer_length f"
  defines "m \<equiv> min (length d) (ff_buffer_length f - ff_data_length f - off)"
  obtains f' where "WriteOffset f d off = (SR_SUCCESS, m, f')" "fifo_inv f'"
    "ff_view f' = mem_write (ff_view f) (ff_data_length f + off) (take m d)"
    "ff_data_length f' = ff_data_length f" "ff_buffer_length f' = ff_buffer_length f"
    "ff_state f' = ff_state f" "ff_events f' = ff_events f"
proof -
  let ?L = "ff_buffer_length f" and ?rp = "ff_read_position f" and ?n = "ff_data_length f"
  let ?pos = "(?rp + (?n + off)) mod ?L" and ?d = "take m d"
  let ?t = "min m (?L - ?pos)"
  define B where "B = mem_write (mem_write (ff_buffer f) ?pos (take ?t ?d)) 0 (drop ?t ?d)"
  have L: "length (ff_buffer f) = ?L" "0 < ?L" "?n \<le> ?L" "?rp < ?L"
    using assms(1) by (auto simp: fifo_inv_def)
  have m: "length ?d = m" "?n + off + m \<le> ?L" using assms(3) by (auto simp: m_def)
  have fits: "?pos + ?t \<le> ?L" using mod_less_divisor [OF L(2), of "?rp + (?n + off)"] by linarith
  have r: "rotate ?rp B = mem_write (ff_view f) (?n + off) ?d"
    using ring_copy_in [of ?rp "ff_buffer f" "?n + off" ?d] L m assms(3)
    by (simp add: ff_view_def B_def)
  have len: "length B = ?L"
    using L(1) m fits by (simp add: B_def length_mem_write)
  have w: "WriteOffset f d off = (SR_SUCCESS, m, f\<lparr>ff_buffer := B\<rparr>)"
    using assms(2,3)
    by (simp add: WriteOffset_def WriteOffsetLocked_def Let_def m_def B_def add.assoc drop_take
        min.commute)
  show thesis
  proof (rule that [OF w])
    show "fifo_inv (f\<lparr>ff_buffer := B\<rparr>)" using L len by (simp add: fifo_inv_def)
    show "ff_view (f\<lparr>ff_buffer := B\<rparr>) = mem_write (ff_view f) (?n + off) ?d"
      by (simp add: ff_view_def [of "f\<lparr>ff_buffer := B\<rparr>"] r)
  qed simp_all
qed

lemma ConsumeReadData_spec:
  assumes "fifo_inv f" and "k \<le> ff_data_length f"
  shows "fifo_inv (ConsumeReadData f k)" "ff_view (ConsumeReadData f k) = rotate k (ff_view f)"
    "ff_data_length (ConsumeReadData f k) = ff_data_length f - k"
    "ff_buffer_length (ConsumeReadData f k) = ff_buffer_length f"
    "ff_state (ConsumeReadData f k) = ff_state f"
proof -
  have "rotate ((ff_read_position f + k) mod length (ff_buffer f)) (ff_buffer f) =
      rotate k (rotate (ff_read_position f) (ff_buffer f))"
    by (subst rotate_conv_mod [symmetric]) (simp add: rotate_rotate add.commute)
  with assms show "fifo_inv (ConsumeReadData f k)"
      "ff_view (ConsumeReadData f k) = rotate k (ff_view f)"
    by (auto simp: ConsumeReadData_def PostEvent_def fifo_inv_def ff_view_def Let_def)
qed (simp_all add: ConsumeReadData_def PostEvent_def Let_def)

lemma ConsumeWriteBuffer_spec:
  assumes "fifo_inv f" and "k \<le> GetWriteRemaining f"
  shows "fifo_inv (ConsumeWriteBuffer f k)" "ff_view (ConsumeWriteBuffer f k) = ff_view f"
    "ff_data_length (ConsumeWriteBuffer f k) = ff_data_length f + k"
    "ff_buffer_length (ConsumeWriteBuffer f k) = ff_buffer_length f"
    "ff_state (ConsumeWriteBuffer f k) = ff_state f"
  using assms
  by (auto simp: ConsumeWriteBuffer_def PostEvent_def fifo_inv_def ff_view_def Let_def
      GetWriteRemaining_def)

section \<open>The interface the transport relies on\<close>

text \<open>
  A byte FIFO with staged writes, seen through its view. Clients use only these laws: the
  reassembly of out-of-order data is proved from them, once, inside the locale.
\<close>

locale staged_fifo =
  fixes inv :: "'s \<Rightarrow> bool" and is_open :: "'s \<Rightarrow> bool"
    and view :: "'s \<Rightarrow> byte list" and cap :: "'s \<Rightarrow> nat" and buffered :: "'s \<Rightarrow> nat"
    and read_off :: "'s \<Rightarrow> nat \<Rightarrow> nat \<Rightarrow> stream_result \<times> byte list"
    and write_off :: "'s \<Rightarrow> byte list \<Rightarrow> nat \<Rightarrow> stream_result \<times> nat \<times> 's"
    and consume_read :: "'s \<Rightarrow> nat \<Rightarrow> 's" and consume_write :: "'s \<Rightarrow> nat \<Rightarrow> 's"
  assumes view_length: "inv s \<Longrightarrow> length (view s) = cap s"
    and buffered_le: "inv s \<Longrightarrow> buffered s \<le> cap s"
    and read_off_law: "inv s \<Longrightarrow> off < buffered s \<Longrightarrow>
      read_off s n off = (SR_SUCCESS, take n (drop off (take (buffered s) (view s))))"
    and write_off_law: "inv s \<Longrightarrow> is_open s \<Longrightarrow> buffered s + off + length d \<le> cap s \<Longrightarrow>
      d \<noteq> [] \<Longrightarrow> \<exists>s'. write_off s d off = (SR_SUCCESS, length d, s') \<and> inv s' \<and> is_open s' \<and>
        view s' = mem_write (view s) (buffered s + off) d \<and> buffered s' = buffered s \<and>
        cap s' = cap s"
    and consume_write_law: "inv s \<Longrightarrow> buffered s + k \<le> cap s \<Longrightarrow>
      inv (consume_write s k) \<and> view (consume_write s k) = view s \<and>
      buffered (consume_write s k) = buffered s + k \<and> cap (consume_write s k) = cap s \<and>
      is_open (consume_write s k) = is_open s"
    and consume_read_law: "inv s \<Longrightarrow> k \<le> buffered s \<Longrightarrow>
      inv (consume_read s k) \<and> view (consume_read s k) = rotate k (view s) \<and>
      buffered (consume_read s k) = buffered s - k \<and> cap (consume_read s k) = cap s \<and>
      is_open (consume_read s k) = is_open s"
begin

definition contents :: "'s \<Rightarrow> byte list" where
  "contents s = take (buffered s) (view s)"

text \<open>\<open>staged s off d\<close>: the bytes \<open>d\<close> have been written \<open>off\<close> bytes past the
  committed data.\<close>

definition staged :: "'s \<Rightarrow> nat \<Rightarrow> byte list \<Rightarrow> bool" where
  "staged s off d \<longleftrightarrow> buffered s + off + length d \<le> cap s \<and>
     mem_read (view s) (buffered s + off) (length d) = d"

lemma staged_nthI:
  assumes "inv s" "buffered s + off + length d \<le> cap s"
    "\<And>i. i < length d \<Longrightarrow> view s ! (buffered s + off + i) = d ! i"
  shows "staged s off d"
  using assms by (auto simp: staged_def view_length mem_read_def intro!: nth_equalityI)

lemma staged_nth:
  "inv s \<Longrightarrow> staged s off d \<Longrightarrow> i < length d \<Longrightarrow> view s ! (buffered s + off + i) = d ! i"
  by (metis staged_def nth_mem_read view_length)

lemma contents_nth: "inv s \<Longrightarrow> i < buffered s \<Longrightarrow> contents s ! i = view s ! i"
  by (simp add: contents_def)

lemma length_contents: "inv s \<Longrightarrow> length (contents s) = buffered s"
  using buffered_le [of s] by (simp add: contents_def view_length)

lemma consume_read_contents:
  assumes "inv s" "k \<le> buffered s"
  shows "contents (consume_read s k) = drop k (contents s)"
proof -
  have "rotate k (view s) = drop k (view s) @ take k (view s)" if "k < length (view s)"
    using that by (simp add: rotate_drop_take)
  moreover have "k = length (view s) \<Longrightarrow> buffered s - k = 0"
    using assms buffered_le [OF assms(1)] by (simp add: view_length)
  moreover have "k < length (view s) \<or> k = length (view s)"
    using assms buffered_le [OF assms(1)] by (auto simp: view_length)
  ultimately show ?thesis
    using consume_read_law [OF assms] buffered_le [OF assms(1)] assms
    by (auto simp: contents_def drop_take view_length)
qed

text \<open>Committing staged data appends it to the contents.\<close>

lemma commit_staged:
  assumes "inv s" "staged s 0 d"
  shows "contents (consume_write s (length d)) = contents s @ d"
  using consume_write_law [OF assms(1), of "length d"] assms(2)
  by (simp add: contents_def staged_def mem_read_def take_add)

lemma write_stages:
  assumes "inv s" "is_open s" "buffered s + off + length d \<le> cap s" "d \<noteq> []"
  obtains s' where "write_off s d off = (SR_SUCCESS, length d, s')" "inv s'" "is_open s'"
    "staged s' off d" "contents s' = contents s" "buffered s' = buffered s" "cap s' = cap s"
    "view s' = mem_write (view s) (buffered s + off) d"
proof -
  obtain s' where s': "write_off s d off = (SR_SUCCESS, length d, s')" "inv s'" "is_open s'"
    "view s' = mem_write (view s) (buffered s + off) d" "buffered s' = buffered s" "cap s' = cap s"
    using write_off_law [OF assms] by blast
  have "staged s' off d"
    using s' assms by (simp add: staged_def view_length mem_read_write_same)
  moreover have "contents s' = contents s"
    using s' by (simp add: contents_def mem_write_def view_length [OF assms(1)] buffered_le [OF assms(1)])
  ultimately show thesis using that s' by blast
qed

text \<open>
  Reassembly: staged data survives a later write that stages the bytes in front of it, and
  committing both delivers them in order.
\<close>

lemma reassemble:
  assumes "inv s" "is_open s" "staged s (length d0) d1" "d0 \<noteq> []"
  obtains s' where "write_off s d0 0 = (SR_SUCCESS, length d0, s')"
    "contents (consume_write (consume_write s' (length d0)) (length d1)) = contents s @ d0 @ d1"
proof -
  have fit: "buffered s + 0 + length d0 \<le> cap s" using assms(3) by (simp add: staged_def)
  obtain s' where s': "write_off s d0 0 = (SR_SUCCESS, length d0, s')" "inv s'" "staged s' 0 d0"
    "contents s' = contents s" "buffered s' = buffered s" "cap s' = cap s"
    "view s' = mem_write (view s) (buffered s + 0) d0"
    using write_stages [OF assms(1,2) fit assms(4)] by metis
  let ?c = "consume_write s' (length d0)"
  have c: "inv ?c" "view ?c = view s'" "buffered ?c = buffered s + length d0" "cap ?c = cap s"
    using consume_write_law [OF s'(2), of "length d0"] fit s' by auto
  have "staged ?c 0 d1"
  proof (rule staged_nthI [OF c(1)])
    show "buffered ?c + 0 + length d1 \<le> cap ?c" using assms(3) c by (simp add: staged_def)
    fix i assume i: "i < length d1"
    have "buffered s + length d0 + i < length (view s)"
      using assms(3) i by (simp add: staged_def view_length [OF assms(1)])
    then show "view ?c ! (buffered ?c + 0 + i) = d1 ! i"
      using staged_nth [OF assms(1,3) i] fit
      by (simp add: c s' nth_mem_write view_length [OF assms(1)])
  qed
  then have "contents (consume_write ?c (length d1)) = contents s @ d0 @ d1"
    using commit_staged [OF c(1)] commit_staged [OF s'(2,3)] s'(4) by simp
  with s'(1) that show thesis by blast
qed

end

lemma WriteOffset_law:
  assumes "fifo_inv f" "ff_state f \<noteq> SS_CLOSED" "GetBuffered f + off + length d \<le> ff_buffer_length f"
    "d \<noteq> []"
  shows "\<exists>f'. WriteOffset f d off = (SR_SUCCESS, length d, f') \<and> fifo_inv f' \<and>
    ff_state f' \<noteq> SS_CLOSED \<and> ff_view f' = mem_write (ff_view f) (GetBuffered f + off) d \<and>
    GetBuffered f' = GetBuffered f \<and> ff_buffer_length f' = ff_buffer_length f"
proof -
  have lt: "ff_data_length f + off < ff_buffer_length f"
    using assms(3,4) by (cases d) (auto simp: GetBuffered_def)
  have "min (length d) (ff_buffer_length f - ff_data_length f - off) = length d"
    using assms(3) by (simp add: GetBuffered_def)
  with WriteOffset_spec [OF assms(1,2) lt, of d] assms(2) show ?thesis
    by (metis GetBuffered_def take_all order_refl)
qed

interpretation ff: staged_fifo fifo_inv "\<lambda>f. ff_state f \<noteq> SS_CLOSED" ff_view ff_buffer_length
  GetBuffered ReadOffset WriteOffset ConsumeReadData ConsumeWriteBuffer
  rewrites "staged_fifo.contents ff_view GetBuffered = ff_contents"
proof -
  show "staged_fifo fifo_inv (\<lambda>f. ff_state f \<noteq> SS_CLOSED) ff_view ff_buffer_length
      GetBuffered ReadOffset WriteOffset ConsumeReadData ConsumeWriteBuffer"
  proof unfold_locales
    show "\<And>s. fifo_inv s \<Longrightarrow> GetBuffered s \<le> ff_buffer_length s"
      by (simp add: fifo_inv_def GetBuffered_def)
    show "\<And>s off n. fifo_inv s \<Longrightarrow> off < GetBuffered s \<Longrightarrow> ReadOffset s n off =
        (SR_SUCCESS, take n (drop off (take (GetBuffered s) (ff_view s))))"
      by (simp add: ReadOffset_spec GetBuffered_def ff_contents_def)
  qed (use ConsumeReadData_spec ConsumeWriteBuffer_spec WriteOffset_law length_ff_view in
      \<open>auto simp: GetBuffered_def GetWriteRemaining_def\<close>)
  then show "staged_fifo.contents ff_view GetBuffered = ff_contents"
    by (intro ext) (simp add: staged_fifo.contents_def GetBuffered_def ff_contents_def)
qed

section \<open>The plain stream operations\<close>

lemma PostEvent_simps [simp]:
  "ff_state (PostEvent f e) = ff_state f" "ff_buffer (PostEvent f e) = ff_buffer f"
  "ff_buffer_length (PostEvent f e) = ff_buffer_length f"
  "ff_data_length (PostEvent f e) = ff_data_length f"
  "ff_read_position (PostEvent f e) = ff_read_position f"
  "fifo_inv (PostEvent f e) = fifo_inv f" "ff_view (PostEvent f e) = ff_view f"
  "ff_contents (PostEvent f e) = ff_contents f"
  by (simp_all add: PostEvent_def fifo_inv_def ff_view_def ff_contents_def)

text \<open>\<^verbatim>\<open>Read\<close> is \<^verbatim>\<open>ReadOffset\<close> at 0 followed by the consumption of what was
  copied.\<close>

lemma fifo_Read_eq:
  assumes "fifo_inv f" "0 < ff_data_length f"
  shows "fifo_Read f n = (SR_SUCCESS, take n (ff_contents f),
    ConsumeReadData f (min n (ff_data_length f)))"
proof -
  have "ff_contents f \<noteq> []" using length_ff_contents [OF assms(1)] assms(2) by auto
  with ReadOffset_spec [OF assms, of n] assms show ?thesis
    by (simp add: fifo_Read_def ReadOffset_def ConsumeReadData_def Let_def length_ff_contents
        min.commute)
qed

lemma fifo_Write_eq:
  fixes d :: "byte list"
  assumes "fifo_inv f" "ff_state f \<noteq> SS_CLOSED" "ff_data_length f < ff_buffer_length f"
  defines "m \<equiv> min (length d) (GetWriteRemaining f)"
  obtains f' where "fifo_Write f d = (SR_SUCCESS, m, ConsumeWriteBuffer f' m)" "fifo_inv f'"
    "ff_view f' = mem_write (ff_view f) (ff_data_length f) (take m d)"
    "ff_data_length f' = ff_data_length f" "ff_buffer_length f' = ff_buffer_length f"
    "ff_state f' = ff_state f"
proof -
  have "ff_data_length f + 0 < ff_buffer_length f" using assms(3) by simp
  from WriteOffset_spec [OF assms(1,2) this, of d] obtain f' where f':
    "WriteOffset f d 0 = (SR_SUCCESS, m, f')" "fifo_inv f'"
    "ff_view f' = mem_write (ff_view f) (ff_data_length f) (take m d)"
    "ff_data_length f' = ff_data_length f" "ff_buffer_length f' = ff_buffer_length f"
    "ff_state f' = ff_state f"
    by (metis add_0_right m_def GetWriteRemaining_def diff_zero)
  then have "fifo_Write f d = (SR_SUCCESS, m, ConsumeWriteBuffer f' m)"
    by (simp add: fifo_Write_def WriteOffset_def ConsumeWriteBuffer_def Let_def)
  with f' that show thesis by blast
qed

lemma fifo_Write_contents:
  assumes "fifo_inv f" "ff_state f \<noteq> SS_CLOSED" "ff_data_length f < ff_buffer_length f"
    "fifo_Write f d = (r, m, g)"
  shows "r = SR_SUCCESS \<and> m = min (length d) (GetWriteRemaining f) \<and> fifo_inv g \<and>
    ff_contents g = ff_contents f @ take m d \<and> ff_data_length g = ff_data_length f + m \<and>
    ff_buffer_length g = ff_buffer_length f \<and> ff_state g = ff_state f"
proof -
  obtain f' where f': "fifo_Write f d = (SR_SUCCESS, min (length d) (GetWriteRemaining f),
      ConsumeWriteBuffer f' (min (length d) (GetWriteRemaining f)))" "fifo_inv f'"
    "ff_view f' = mem_write (ff_view f) (ff_data_length f)
       (take (min (length d) (GetWriteRemaining f)) d)"
    "ff_data_length f' = ff_data_length f" "ff_buffer_length f' = ff_buffer_length f"
    "ff_state f' = ff_state f"
    using fifo_Write_eq [OF assms(1-3)] by metis
  then have eq: "r = SR_SUCCESS" "m = min (length d) (GetWriteRemaining f)"
      "g = ConsumeWriteBuffer f' m"
    using assms(4) by auto
  have le: "m \<le> GetWriteRemaining f'" using f' eq(2) by (simp add: GetWriteRemaining_def)
  note c = ConsumeWriteBuffer_spec [OF f'(2) le]
  have "ff_data_length f \<le> ff_buffer_length f" using assms(1) by (simp add: fifo_inv_def)
  then have "ff_contents g = ff_contents f @ take m d"
    using c f' eq le assms(1)
    by (simp add: ff_contents_def mem_write_def length_ff_view GetWriteRemaining_def)
  with c f' eq show ?thesis by simp
qed

lemma fifo_Read_contents:
  assumes "fifo_inv f" "fifo_Read f n = (r, out, g)"
  shows "(if ff_data_length f = 0 then out = [] \<and> g = f \<and>
      r = (if ff_state f = SS_CLOSED then SR_EOS else SR_BLOCK)
    else r = SR_SUCCESS \<and> out = take n (ff_contents f) \<and> fifo_inv g \<and>
      ff_contents g = drop n (ff_contents f) \<and> ff_state g = ff_state f \<and>
      ff_buffer_length g = ff_buffer_length f)"
proof (cases "ff_data_length f = 0")
  case True
  with assms(2) show ?thesis
    by (auto simp: fifo_Read_def ReadOffsetLocked_def Let_def split: if_splits)
next
  case False
  let ?k = "min n (ff_data_length f)"
  have eq: "r = SR_SUCCESS" "out = take n (ff_contents f)" "g = ConsumeReadData f ?k"
    using fifo_Read_eq [OF assms(1)] False assms(2) by auto
  have "ff_contents g = drop ?k (ff_contents f)"
    using ff.consume_read_contents [OF assms(1), of ?k] by (simp add: eq GetBuffered_def)
  also have "\<dots> = drop n (ff_contents f)"
    by (simp add: min_def length_ff_contents [OF assms(1)])
  finally show ?thesis
    using False eq ConsumeReadData_spec [OF assms(1), of ?k] by simp
qed

lemma fifo_Write_queue:
  assumes "fifo_inv f"
  shows "case fifo_Write f d of (r, m, g) \<Rightarrow>
      fifo_inv g \<and> m = (if r = SR_SUCCESS then min (length d) (GetWriteRemaining f) else 0) \<and>
      ff_contents g = ff_contents f @ take m d \<and>
      r = (if ff_state f = SS_CLOSED then SR_EOS
           else if length (ff_contents f) = ff_buffer_length f then SR_BLOCK else SR_SUCCESS)"
proof -
  obtain r m g where w: "fifo_Write f d = (r, m, g)" by (metis prod.exhaust)
  have dl: "length (ff_contents f) = ff_data_length f" by (rule length_ff_contents [OF assms])
  show ?thesis
  proof (cases "ff_state f = SS_CLOSED \<or> ff_data_length f = ff_buffer_length f")
    case True
    then show ?thesis
      using assms dl by (auto simp: fifo_Write_def WriteOffsetLocked_def)
  next
    case False
    then have "ff_data_length f < ff_buffer_length f" using assms by (auto simp: fifo_inv_def)
    from fifo_Write_contents [OF assms _ this w] False w dl show ?thesis by simp
  qed
qed

lemma fifo_Read_queue:
  assumes "fifo_inv f"
  shows "case fifo_Read f n of (r, out, g) \<Rightarrow>
      fifo_inv g \<and> ff_contents f = out @ ff_contents g \<and>
      (if ff_contents f = [] then r = (if ff_state f = SS_CLOSED then SR_EOS else SR_BLOCK)
       else r = SR_SUCCESS \<and> length out = min n (length (ff_contents f)))"
proof -
  obtain r out g where "fifo_Read f n = (r, out, g)" by (metis prod.exhaust)
  from fifo_Read_contents [OF assms this] this length_ff_contents [OF assms] assms show ?thesis
    by (auto split: if_splits)
qed

text \<open>
  C37. The ring buffer refines a bounded queue of bytes: \<^verbatim>\<open>Write\<close> appends as many of the given
  bytes as there is room for and blocks exactly when full (or reports end of stream when closed);
  \<^verbatim>\<open>Read\<close> removes the oldest bytes and blocks exactly when empty; the invariant is kept.
\<close>

theorem fifo_refines_queue:
  assumes "fifo_inv f"
  shows "(case fifo_Write f d of (r, m, g) \<Rightarrow>
      fifo_inv g \<and> m = (if r = SR_SUCCESS then min (length d) (GetWriteRemaining f) else 0) \<and>
      ff_contents g = ff_contents f @ take m d \<and>
      r = (if ff_state f = SS_CLOSED then SR_EOS
           else if length (ff_contents f) = ff_buffer_length f then SR_BLOCK else SR_SUCCESS)) \<and>
    (case fifo_Read f n of (r, out, g) \<Rightarrow>
      fifo_inv g \<and> ff_contents f = out @ ff_contents g \<and>
      (if ff_contents f = [] then r = (if ff_state f = SS_CLOSED then SR_EOS else SR_BLOCK)
       else r = SR_SUCCESS \<and> length out = min n (length (ff_contents f))))"
  by (rule conjI [OF fifo_Write_queue [OF assms] fifo_Read_queue [OF assms]])

theorem fifo_refines_queue_witness:
  "fifo_inv (FifoBuffer_new 4) \<and>
   (case fifo_Write (FifoBuffer_new 4) [1, 2, 3, 4, 5] of (r, m, g) \<Rightarrow>
      r = SR_SUCCESS \<and> m = 4 \<and> ff_contents g = [1, 2, 3, 4]) \<and>
   fst (fifo_Read (FifoBuffer_new 4) 2) = SR_BLOCK"
proof -
  have inv: "fifo_inv (FifoBuffer_new 4)" and e: "ff_contents (FifoBuffer_new 4) = []"
    by (simp_all add: fifo_inv_def FifoBuffer_new_def ff_contents_def)
  have "GetWriteRemaining (FifoBuffer_new 4) = 4" "ff_state (FifoBuffer_new 4) = SS_OPEN"
    "ff_buffer_length (FifoBuffer_new 4) = 4"
    by (simp_all add: GetWriteRemaining_def FifoBuffer_new_def)
  with inv e fifo_refines_queue [OF inv, of "[1, 2, 3, 4, 5]" 2] show ?thesis
    by (auto split: prod.splits)
qed

text \<open>
  Out-of-order reassembly: when \<open>d1\<close> has been staged behind a gap, writing the missing
  \<open>d0\<close> at offset 0 and committing both makes exactly \<open>d0\<close> followed by \<open>d1\<close> readable
  after the old contents.
\<close>

theorem fifo_reassembles:
  assumes "fifo_inv f" "ff_state f \<noteq> SS_CLOSED" "d0 \<noteq> []" "d1 \<noteq> []"
    "length (ff_contents f) + length d0 + length d1 \<le> ff_buffer_length f"
  shows "\<exists>f1 f2. WriteOffset f d1 (length d0) = (SR_SUCCESS, length d1, f1) \<and>
    ff_contents f1 = ff_contents f \<and>
    WriteOffset f1 d0 0 = (SR_SUCCESS, length d0, f2) \<and>
    ff_contents (ConsumeWriteBuffer (ConsumeWriteBuffer f2 (length d0)) (length d1)) =
      ff_contents f @ d0 @ d1"
proof -
  have "GetBuffered f + length d0 + length d1 \<le> ff_buffer_length f"
    using assms(5) by (simp add: GetBuffered_def length_ff_contents [OF assms(1)])
  then obtain f1 where f1: "WriteOffset f d1 (length d0) = (SR_SUCCESS, length d1, f1)"
    "fifo_inv f1" "ff_state f1 \<noteq> SS_CLOSED"
    "ff.staged f1 (length d0) d1" "ff_contents f1 = ff_contents f"
    using ff.write_stages [OF assms(1,2) _ assms(4)] by metis
  obtain f2 where "WriteOffset f1 d0 0 = (SR_SUCCESS, length d0, f2)"
    "ff_contents (ConsumeWriteBuffer (ConsumeWriteBuffer f2 (length d0)) (length d1)) =
       ff_contents f1 @ d0 @ d1"
    using ff.reassemble [OF f1(2-4) assms(3)] by metis
  with f1 show ?thesis by auto
qed

theorem fifo_reassembles_witness:
  "\<exists>f1 f2. WriteOffset (FifoBuffer_new 4) [3] 2 = (SR_SUCCESS, 1, f1) \<and>
    WriteOffset f1 [1, 2] 0 = (SR_SUCCESS, 2, f2) \<and>
    ff_contents (ConsumeWriteBuffer (ConsumeWriteBuffer f2 2) 1) = [1, 2, 3]"
  using fifo_reassembles [of "FifoBuffer_new 4" "[1, 2]" "[3]"]
  by (auto simp: fifo_inv_def FifoBuffer_new_def ff_contents_def numeral_2_eq_2)

lemma two_piece_copy:
  fixes a c :: "byte list"
  assumes "length a + length c \<le> sz"
  defines "B \<equiv> mem_write (mem_write (replicate sz 0) 0 a) (length a) c"
  shows "length B = sz" "take (length a + length c) B = a @ c"
  using assms(1) by (simp_all add: B_def mem_write_def)

lemma SetCapacity_spec:
  assumes "fifo_inv f" "0 < sz" "SetCapacity f sz = (ok, g)"
  shows "ok = (ff_data_length f \<le> sz) \<and> fifo_inv g \<and> ff_contents g = ff_contents f \<and>
    ff_data_length g = ff_data_length f \<and> ff_state g = ff_state f \<and>
    ff_buffer_length g = (if ok then sz else ff_buffer_length f)"
proof -
  let ?L = "ff_buffer_length f" and ?rp = "ff_read_position f" and ?n = "ff_data_length f"
  define t where "t = min ?n (?L - ?rp)"
  define a c where "a = mem_read (ff_buffer f) ?rp t" and "c = mem_read (ff_buffer f) 0 (?n - t)"
  define B where "B = mem_write (mem_write (replicate sz 0) 0 a) t c"
  have L: "length (ff_buffer f) = ?L" "0 < ?L" "?n \<le> ?L" "?rp < ?L"
    using assms(1) by (auto simp: fifo_inv_def)
  have ac: "a @ c = ff_contents f"
    using ring_copy_out [of ?rp "ff_buffer f" ?n] L
    by (simp add: ff_contents_def ff_view_def a_def c_def t_def)
  have la: "length a = t" "length a + length c = ?n"
    using L by (auto simp: length_mem_read a_def c_def t_def)
  have B: "length B = sz" "take ?n B = ff_contents f" if "?n \<le> sz"
    using two_piece_copy [of a c sz] that la ac by (simp_all add: B_def)
  have "SetCapacity f sz = (if ?n > sz then (False, f) else if sz \<noteq> ?L then
      (True, f\<lparr>ff_buffer := B, ff_read_position := 0, ff_buffer_length := sz\<rparr>) else (True, f))"
    by (simp add: SetCapacity_def B_def a_def c_def t_def Let_def)
  with B assms length_ff_contents [OF assms(1)] show ?thesis
    by (auto simp: fifo_inv_def ff_contents_def ff_view_def split: if_splits)
qed

text \<open>
  Resizing: \<^verbatim>\<open>SetCapacity\<close> is refused exactly when the data would not fit; otherwise
  (to a positive capacity) it keeps the contents byte for byte and the invariant.
\<close>

theorem SetCapacity_keeps_contents:
  assumes "fifo_inv f" "0 < sz"
  shows "(case SetCapacity f sz of (ok, g) \<Rightarrow>
     ok = (length (ff_contents f) \<le> sz) \<and> fifo_inv g \<and> ff_contents g = ff_contents f \<and>
     ff_buffer_length g = (if ok then sz else ff_buffer_length f))"
proof -
  obtain ok g where eq: "SetCapacity f sz = (ok, g)" by (metis prod.exhaust)
  from SetCapacity_spec [OF assms eq] length_ff_contents [OF assms(1)] show ?thesis
    by (simp add: eq)
qed

theorem SetCapacity_keeps_contents_witness:
  "fifo_inv (FifoBuffer_new 4) \<and> fst (SetCapacity (FifoBuffer_new 4) 9)"
  using SetCapacity_keeps_contents [of "FifoBuffer_new 4" 9]
  by (simp add: fifo_inv_def FifoBuffer_new_def ff_contents_def split: prod.splits)

end
