(* ===== verification/TimeUtils.thy ===== *)
theory TimeUtils
  imports Prelude
begin

text \<open>
  \<^verbatim>\<open>src/base/timeutils.cc\<close>: comparing 32-bit millisecond timestamps that wrap around.
  The file holds two implementations, selected by \<^verbatim>\<open>EFFICIENT_IMPLEMENTATION\<close>; both are
  modelled, and they are shown to agree but at one distance.
\<close>

definition LAST :: u32 where "LAST = 0xFFFFFFFF"
definition HALF :: u32 where "HALF = 0x80000000"

definition TimeIsBetween :: "u32 \<Rightarrow> u32 \<Rightarrow> u32 \<Rightarrow> bool" where
  "TimeIsBetween earlier middle later =
     (if earlier \<le> later then earlier \<le> middle \<and> middle \<le> later
      else \<not> (later < middle \<and> middle < earlier))"

text \<open>The compiled branch: the difference converted to \<^verbatim>\<open>int32\<close>.\<close>

definition TimeIsLaterOrEqual :: "u32 \<Rightarrow> u32 \<Rightarrow> bool" where
  "TimeIsLaterOrEqual earlier later =
     (let diff = sint (later - earlier) in diff \<ge> 0 \<and> (word_of_int diff :: u32) < HALF)"

definition TimeIsLater :: "u32 \<Rightarrow> u32 \<Rightarrow> bool" where
  "TimeIsLater earlier later =
     (let diff = sint (later - earlier) in diff > 0 \<and> (word_of_int diff :: u32) < HALF)"

definition TimeDiff :: "u32 \<Rightarrow> u32 \<Rightarrow> int" where
  "TimeDiff later earlier = sint (later - earlier)"

text \<open>The other branch.\<close>

definition TimeIsLaterOrEqual_alt :: "u32 \<Rightarrow> u32 \<Rightarrow> bool" where
  "TimeIsLaterOrEqual_alt earlier later = TimeIsBetween earlier later (earlier + HALF)"

definition TimeIsLater_alt :: "u32 \<Rightarrow> u32 \<Rightarrow> bool" where
  "TimeIsLater_alt earlier later = (\<not> TimeIsBetween later earlier (later + HALF))"

definition TimeDiff_alt :: "u32 \<Rightarrow> u32 \<Rightarrow> int" where
  "TimeDiff_alt later earlier =
     (if TimeIsBetween earlier later (earlier + HALF) then
        (if earlier \<le> later then uint (later - earlier) else uint (later + (LAST - earlier) + 1))
      else
        (if later \<le> earlier then - uint (earlier - later)
         else - uint (earlier + (LAST - later) + 1)))"

section \<open>Distances\<close>

lemma add_half_mod:
  assumes "0 \<le> x" "x < 2 ^ 32"
  shows "(x + 2 ^ 31) mod 2 ^ 32 = (if x < 2 ^ 31 then x + 2 ^ 31 else x - 2 ^ 31 :: int)"
proof (cases "x < 2 ^ 31")
  case False
  have "(x + 2 ^ 31) mod 2 ^ 32 = (x + 2 ^ 31 - 2 ^ 32) mod 2 ^ 32"
    by (rule minus_mod_self2 [symmetric])
  also have "\<dots> = x - 2 ^ 31" using False assms by (simp add: mod_pos_pos_trivial)
  finally show ?thesis using False by simp
qed (use assms in \<open>simp add: mod_pos_pos_trivial\<close>)

lemma sint_u32: "sint (w :: u32) = (if uint w < 2 ^ 31 then uint w else uint w - 2 ^ 32)"
  using uint_lt2p [of w] add_half_mod [of "uint w"]
  by (simp add: sint_uint signed_take_bit_eq_take_bit_shift take_bit_eq_mod)

lemma uint_sub_u32: "uint (a - b :: u32) = (if b \<le> a then uint a - uint b
    else uint a - uint b + 2 ^ 32)"
  by (simp add: uint_sub_if' word_le_def)

lemma uint_HALF_add: "uint (e + HALF) = (if uint e < 2 ^ 31 then uint e + 2 ^ 31
    else uint e - 2 ^ 31)"
  using uint_lt2p [of e] add_half_mod [of "uint e"] by (simp add: HALF_def uint_word_ariths)

lemma between_half:
  "TimeIsBetween e l (e + HALF) \<longleftrightarrow> uint (l - e) \<le> 2 ^ 31"
  using uint_lt2p [of e] uint_lt2p [of l]
  by (auto simp: TimeIsBetween_def word_le_def word_less_def uint_HALF_add uint_sub_u32)
    (use uint_ge_0 [of l] in linarith)

lemma word_of_sint: "(word_of_int (sint w) :: u32) = w"
  by simp

lemma later_iff: "TimeIsLaterOrEqual e l \<longleftrightarrow> uint (l - e) < 2 ^ 31"
  using uint_lt2p [of "l - e"]
  by (auto simp: TimeIsLaterOrEqual_def Let_def sint_u32 HALF_def word_less_def split: if_splits)

lemma strictly_later_iff: "TimeIsLater e l \<longleftrightarrow> 0 < uint (l - e) \<and> uint (l - e) < 2 ^ 31"
  using uint_lt2p [of "l - e"]
  by (auto simp: TimeIsLater_def Let_def sint_u32 HALF_def word_less_def split: if_splits)

lemma uint_sub_neg: "a \<noteq> (b :: u32) \<Longrightarrow> uint (a - b) = 2 ^ 32 - uint (b - a)"
  using uint_lt2p [of a] uint_lt2p [of b] by (auto simp: uint_sub_u32 word_le_def word_uint_eq_iff)

lemma add_LAST: "a + (LAST - b) + 1 = (a - b :: u32)"
  by (simp add: LAST_def)

lemma TimeDiff_alt_eq: "TimeDiff_alt l e = (if uint (l - e) \<le> 2 ^ 31 then uint (l - e)
    else - uint (e - l))"
  by (simp add: TimeDiff_alt_def between_half add_LAST)

section \<open>Properties\<close>

text \<open>
  The efficient comparisons and the reference ones through \<^verbatim>\<open>TimeIsBetween\<close> agree on every
  pair of timestamps, across the wrap-around, with one exception: at a distance of exactly
  \<open>2^31\<close> the efficient \<^verbatim>\<open>TimeIsLaterOrEqual\<close> is false and the reference one true.
  \<^verbatim>\<open>TimeDiff\<close> agrees everywhere as a 32-bit value.
\<close>

theorem time_implementations_agree:
  "TimeIsLaterOrEqual e l = (TimeIsLaterOrEqual_alt e l \<and> l - e \<noteq> HALF) \<and>
   TimeIsLater e l = TimeIsLater_alt e l \<and>
   (word_of_int (TimeDiff l e) :: u32) = word_of_int (TimeDiff_alt l e)"
proof (intro conjI)
  have h: "(l - e = HALF) \<longleftrightarrow> uint (l - e) = 2 ^ 31"
    by (simp add: HALF_def word_uint_eq_iff)
  show "TimeIsLaterOrEqual e l = (TimeIsLaterOrEqual_alt e l \<and> l - e \<noteq> HALF)"
    unfolding later_iff TimeIsLaterOrEqual_alt_def between_half h by auto
  show "TimeIsLater e l = TimeIsLater_alt e l"
  proof (cases "e = l")
    case False
    then show ?thesis
      using uint_sub_neg [OF False] uint_ge_0 [of "l - e"] uint_lt2p [of "e - l"]
      by (auto simp: strictly_later_iff TimeIsLater_alt_def between_half)
  qed (simp add: strictly_later_iff TimeIsLater_alt_def between_half)
  show "(word_of_int (TimeDiff l e) :: u32) = word_of_int (TimeDiff_alt l e)"
    unfolding TimeDiff_def word_of_sint TimeDiff_alt_eq by simp
qed

text \<open>
  A delay shorter than half the clock range is measured exactly, whatever the wrap-around:
  the difference between a time and the same time \<open>d\<close> milliseconds later is \<open>d\<close>, the
  reverse difference is \<open>-d\<close>, and the later time is recognised as later.
\<close>

theorem time_diff_exact:
  assumes "d < 2 ^ 31"
  shows "TimeDiff (t + of_nat d) t = int d \<and> TimeDiff t (t + of_nat d) = - int d \<and>
    TimeIsLaterOrEqual t (t + of_nat d) \<and> (0 < d \<longrightarrow> \<not> TimeIsLaterOrEqual (t + of_nat d) t)"
proof -
  have u: "uint (of_nat d :: u32) = int d"
    using assms by (simp add: unsigned_of_nat take_bit_nat_eq_self)
  have n: "uint (- of_nat d :: u32) = (if d = 0 then 0 else 2 ^ 32 - int d)"
    using assms u by (auto simp: uint_word_ariths zmod_zminus1_eq_if)
  show ?thesis
    using assms by (simp add: TimeDiff_def sint_u32 u n later_iff)
qed

theorem time_diff_exact_witness:
  "TimeDiff (0xFFFFFFF0 + of_nat 100) 0xFFFFFFF0 = 100 \<and>
   TimeIsLaterOrEqual 0xFFFFFFF0 (0xFFFFFFF0 + of_nat 100)"
  using time_diff_exact [of 100 "0xFFFFFFF0"] by simp

end
