(* ===== verification/MessageQueue.thy ===== *)
theory MessageQueue
  imports TimeUtils "HOL-Library.Multiset"
begin

text \<open>
  \<^verbatim>\<open>src/base/messagequeue.cc\<close>: posted and delayed messages of a thread. Handlers and message data are
  type parameters; a null pointer is \<open>None\<close>. The critical sections make the operations atomic. The time
  at which an operation reads the clock is an argument. The priority queue of the standard library is
  the list of its elements, the next one first; in which order its container holds them, which only the order
  of the list that \<^verbatim>\<open>Clear\<close> reports depends on, the standard leaves open.
\<close>

section \<open>Messages\<close>

definition kForever :: int where "kForever = -1"
definition kMaxMsgLatency :: u32 where "kMaxMsgLatency = 150"
definition MQID_ANY :: u32 where "MQID_ANY = -1"
definition MQID_DISPOSE :: u32 where "MQID_DISPOSE = -2"

record ('h, 'd) Message =
  phandler :: "'h option"
  message_id :: u32
  pdata :: "'d option"
  ts_sensitive :: u32

definition Match :: "('h, 'd) Message \<Rightarrow> 'h option \<Rightarrow> u32 \<Rightarrow> bool" where
  "Match m handler mid \<longleftrightarrow> (handler = None \<or> handler = phandler m) \<and> (mid = MQID_ANY \<or> mid = message_id m)"

record ('h, 'd) DelayedMessage =
  cmsDelay :: int
  msTrigger :: u32
  dm_num :: u32
  dm_msg :: "('h, 'd) Message"

text \<open>A message is less than one that comes before it: the priority queue has its greatest element on
  top.\<close>

definition DelayedMessage_less :: "('h, 'd) DelayedMessage \<Rightarrow> ('h, 'd) DelayedMessage \<Rightarrow> bool" where
  "DelayedMessage_less a dmsg \<longleftrightarrow> msTrigger dmsg < msTrigger a \<or>
     msTrigger dmsg = msTrigger a \<and> dm_num dmsg < dm_num a"

fun pq_push :: "('h, 'd) DelayedMessage \<Rightarrow> ('h, 'd) DelayedMessage list \<Rightarrow> ('h, 'd) DelayedMessage list" where
  "pq_push d [] = [d]"
| "pq_push d (x # xs) = (if DelayedMessage_less x d then d # x # xs else x # pq_push d xs)"

section \<open>The queue\<close>

text \<open>\<open>deleted\<close> and \<open>wake_ups\<close> record the data that was deleted and the calls of \<^verbatim>\<open>ss_->WakeUp\<close>;
  \<open>active\<close> means that the queue is in the list of the manager.\<close>

record ('h, 'd) MessageQueue =
  fStop :: bool
  fPeekKeep :: bool
  msgPeek :: "('h, 'd) Message"
  active :: bool
  msgq :: "('h, 'd) Message list"
  dmsgq :: "('h, 'd) DelayedMessage list"
  dmsgq_next_num :: u32
  deleted :: "'d list"
  wake_ups :: nat

definition Message_new :: "('h, 'd) Message" where
  "Message_new = \<lparr>phandler = None, message_id = 0, pdata = None, ts_sensitive = 0\<rparr>"

definition MessageQueue_new :: "('h, 'd) MessageQueue" where
  "MessageQueue_new = \<lparr>fStop = False, fPeekKeep = False, msgPeek = Message_new, active = False, msgq = [],
     dmsgq = [], dmsgq_next_num = 0, deleted = [], wake_ups = 0\<rparr>"

definition mq_WakeUp :: "('h, 'd) MessageQueue \<Rightarrow> ('h, 'd) MessageQueue" where
  "mq_WakeUp q = q\<lparr>wake_ups := wake_ups q + 1\<rparr>"

definition mq_delete :: "'d option \<Rightarrow> ('h, 'd) MessageQueue \<Rightarrow> ('h, 'd) MessageQueue" where
  "mq_delete d q = (case d of None \<Rightarrow> q | Some x \<Rightarrow> q\<lparr>deleted := deleted q @ [x]\<rparr>)"

definition Quit :: "('h, 'd) MessageQueue \<Rightarrow> ('h, 'd) MessageQueue" where
  "Quit q = mq_WakeUp (q\<lparr>fStop := True\<rparr>)"

definition IsQuitting :: "('h, 'd) MessageQueue \<Rightarrow> bool" where
  "IsQuitting q = fStop q"

definition Restart :: "('h, 'd) MessageQueue \<Rightarrow> ('h, 'd) MessageQueue" where
  "Restart q = q\<lparr>fStop := False\<rparr>"

definition EnsureActive :: "('h, 'd) MessageQueue \<Rightarrow> ('h, 'd) MessageQueue" where
  "EnsureActive q = (if \<not> active q then q\<lparr>active := True\<rparr> else q)"

definition Post :: "('h, 'd) MessageQueue \<Rightarrow> u32 \<Rightarrow> 'h option \<Rightarrow> u32 \<Rightarrow> 'd option \<Rightarrow> bool \<Rightarrow>
    ('h, 'd) MessageQueue" where
  "Post q now handler mid data time_sensitive =
     (if fStop q then q
      else
        let q = EnsureActive q;
            m = \<lparr>phandler = handler, message_id = mid, pdata = data,
                 ts_sensitive = (if time_sensitive then now + kMaxMsgLatency else 0)\<rparr>
        in mq_WakeUp (q\<lparr>msgq := msgq q @ [m]\<rparr>))"

definition DoDelayPost :: "('h, 'd) MessageQueue \<Rightarrow> int \<Rightarrow> u32 \<Rightarrow> 'h option \<Rightarrow> u32 \<Rightarrow> 'd option \<Rightarrow>
    ('h, 'd) MessageQueue" where
  "DoDelayPost q delay tstamp handler mid data =
     (if fStop q then q
      else
        let q = EnsureActive q;
            m = \<lparr>phandler = handler, message_id = mid, pdata = data, ts_sensitive = 0\<rparr>;
            d = \<lparr>cmsDelay = delay, msTrigger = tstamp, dm_num = dmsgq_next_num q, dm_msg = m\<rparr>
        in mq_WakeUp (q\<lparr>dmsgq := pq_push d (dmsgq q), dmsgq_next_num := dmsgq_next_num q + 1\<rparr>))"

definition TimeAfter :: "u32 \<Rightarrow> int \<Rightarrow> u32" where
  "TimeAfter now elapsed = now + word_of_int elapsed"

definition TimeUntil :: "u32 \<Rightarrow> u32 \<Rightarrow> int" where
  "TimeUntil now later = TimeDiff later now"

definition TimeSince :: "u32 \<Rightarrow> u32 \<Rightarrow> int" where
  "TimeSince now earlier = TimeDiff now earlier"

definition PostDelayed :: "('h, 'd) MessageQueue \<Rightarrow> u32 \<Rightarrow> int \<Rightarrow> 'h option \<Rightarrow> u32 \<Rightarrow> 'd option \<Rightarrow>
    ('h, 'd) MessageQueue" where
  "PostDelayed q now delay handler mid data = DoDelayPost q delay (TimeAfter now delay) handler mid data"

definition PostAt :: "('h, 'd) MessageQueue \<Rightarrow> u32 \<Rightarrow> u32 \<Rightarrow> 'h option \<Rightarrow> u32 \<Rightarrow> 'd option \<Rightarrow>
    ('h, 'd) MessageQueue" where
  "PostAt q now tstamp handler mid data = DoDelayPost q (TimeUntil now tstamp) tstamp handler mid data"

definition Dispose :: "('h, 'd) MessageQueue \<Rightarrow> u32 \<Rightarrow> 'd option \<Rightarrow> ('h, 'd) MessageQueue" where
  "Dispose q now doomed = (case doomed of None \<Rightarrow> q | Some d \<Rightarrow> Post q now None MQID_DISPOSE (Some d) False)"

definition mq_size :: "('h, 'd) MessageQueue \<Rightarrow> nat" where
  "mq_size q = length (msgq q) + length (dmsgq q) + (if fPeekKeep q then 1 else 0)"

definition GetDelay :: "('h, 'd) MessageQueue \<Rightarrow> u32 \<Rightarrow> int" where
  "GetDelay q now =
     (if msgq q \<noteq> [] then 0
      else case dmsgq q of [] \<Rightarrow> kForever | d # _ \<Rightarrow> max 0 (TimeUntil now (msTrigger d)))"

section \<open>Taking messages out\<close>

text \<open>The first inner loop: triggered messages move to the posted ones; the result is the delay until the
  next one.\<close>

fun collect_triggered :: "u32 \<Rightarrow> ('h, 'd) Message list \<Rightarrow> ('h, 'd) DelayedMessage list \<Rightarrow>
    ('h, 'd) Message list \<times> ('h, 'd) DelayedMessage list \<times> int" where
  "collect_triggered now ms [] = (ms, [], kForever)"
| "collect_triggered now ms (d # ds) =
     (if TimeIsLater now (msTrigger d) then (ms, d # ds, TimeDiff (msTrigger d) now)
      else collect_triggered now (ms @ [dm_msg d]) ds)"

text \<open>The second inner loop: the first message that is not one to dispose of.\<close>

fun take_posted :: "('h, 'd) Message list \<Rightarrow> ('h, 'd) MessageQueue \<Rightarrow>
    ('h, 'd) Message option \<times> ('h, 'd) MessageQueue" where
  "take_posted [] q = (None, q\<lparr>msgq := []\<rparr>)"
| "take_posted (m # ms) q =
     (if message_id m = MQID_DISPOSE then take_posted ms (mq_delete (pdata m) q)
      else (Some m, q\<lparr>msgq := ms\<rparr>))"

definition check_queues :: "('h, 'd) MessageQueue \<Rightarrow> u32 \<Rightarrow>
    ('h, 'd) Message option \<times> ('h, 'd) MessageQueue \<times> int" where
  "check_queues q now =
     (let (ms, ds, delay_next) = collect_triggered now (msgq q) (dmsgq q);
          (m, q) = take_posted ms (q\<lparr>dmsgq := ds\<rparr>)
      in (m, q, delay_next))"

definition next_wait :: "int \<Rightarrow> int \<Rightarrow> int \<Rightarrow> int" where
  "next_wait cms_wait cms_elapsed delay_next =
     (if cms_wait = kForever then delay_next
      else let w = max 0 (cms_wait - cms_elapsed)
           in if delay_next \<noteq> kForever \<and> delay_next < w then delay_next else w)"

text \<open>
  What happens outside of the thread: each call of \<^verbatim>\<open>ss_->Wait\<close> gets the time to wait and returns its
  boolean, the queue as other threads have left it, and the new time. A call of \<^verbatim>\<open>Get\<close> uses up such
  waits one after the other; it has not returned (\<open>None\<close>) when it needs one more than there are.
\<close>

type_synonym ('h, 'd) wait = "int \<Rightarrow> ('h, 'd) MessageQueue \<Rightarrow> bool \<times> ('h, 'd) MessageQueue \<times> u32"

function get_loop :: "int \<Rightarrow> u32 \<Rightarrow> u32 \<Rightarrow> int \<Rightarrow> ('h, 'd) MessageQueue \<Rightarrow> ('h, 'd) wait list \<Rightarrow>
    (('h, 'd) Message option \<times> ('h, 'd) MessageQueue \<times> ('h, 'd) wait list) option" where
  "get_loop cms_wait start now elapsed q waits =
     (case check_queues q now of
        (Some m, q, _) \<Rightarrow> Some (Some m, q, waits)
      | (None, q, delay_next) \<Rightarrow>
          if fStop q then Some (None, q, waits)
          else
            case waits of
              [] \<Rightarrow> None
            | w # waits \<Rightarrow>
                let (ok, q, now) = w (next_wait cms_wait elapsed delay_next) q;
                    elapsed = TimeDiff now start
                in if \<not> ok then Some (None, q, waits)
                   else if cms_wait \<noteq> kForever \<and> elapsed \<ge> cms_wait then Some (None, q, waits)
                   else get_loop cms_wait start now elapsed q waits)"
  by pat_completeness auto

termination get_loop
  by (relation "measure (\<lambda>(_, _, _, _, _, waits). length waits)") auto

declare get_loop.simps [simp del]

definition Get :: "('h, 'd) MessageQueue \<Rightarrow> int \<Rightarrow> u32 \<Rightarrow> ('h, 'd) wait list \<Rightarrow>
    (('h, 'd) Message option \<times> ('h, 'd) MessageQueue \<times> ('h, 'd) wait list) option" where
  "Get q cms_wait now waits =
     (if fPeekKeep q then Some (Some (msgPeek q), q\<lparr>fPeekKeep := False\<rparr>, waits)
      else get_loop cms_wait now now 0 q waits)"

definition Peek :: "('h, 'd) MessageQueue \<Rightarrow> int \<Rightarrow> u32 \<Rightarrow> ('h, 'd) wait list \<Rightarrow>
    (('h, 'd) Message option \<times> ('h, 'd) MessageQueue \<times> ('h, 'd) wait list) option" where
  "Peek q cms_wait now waits =
     (if fPeekKeep q then Some (Some (msgPeek q), q, waits)
      else
        case Get q cms_wait now waits of
          None \<Rightarrow> None
        | Some (None, q, waits) \<Rightarrow> Some (None, q, waits)
        | Some (Some m, q, waits) \<Rightarrow> Some (Some m, q\<lparr>msgPeek := m, fPeekKeep := True\<rparr>, waits))"

text \<open>The messages that match are deleted or, if the caller wants them, handed back.\<close>

definition mq_Clear :: "('h, 'd) MessageQueue \<Rightarrow> 'h option \<Rightarrow> u32 \<Rightarrow> bool \<Rightarrow>
    ('h, 'd) Message list \<times> ('h, 'd) MessageQueue" where
  "mq_Clear q handler mid want_removed =
     (let hit = (\<lambda>m. Match m handler mid);
          removed = (if fPeekKeep q \<and> hit (msgPeek q) then [msgPeek q] else []) @
                    filter hit (msgq q) @ filter hit (map dm_msg (dmsgq q));
          q' = q\<lparr>fPeekKeep := (fPeekKeep q \<and> \<not> hit (msgPeek q)),
                 msgq := filter (\<lambda>m. \<not> hit m) (msgq q),
                 dmsgq := filter (\<lambda>d. \<not> hit (dm_msg d)) (dmsgq q)\<rparr>
      in if want_removed then (removed, q')
         else ([], q'\<lparr>deleted := deleted q @ concat (map (\<lambda>m. case pdata m of None \<Rightarrow> [] | Some d \<Rightarrow> [d]) removed)\<rparr>))"

section \<open>The manager\<close>

text \<open>The list of active queues, as addresses into a store of queues. Removing the last one destroys the
  manager.\<close>

definition Manager_Add :: "nat list \<Rightarrow> nat \<Rightarrow> nat list" where
  "Manager_Add message_queues p = message_queues @ [p]"

definition Manager_Remove :: "nat list \<Rightarrow> nat \<Rightarrow> nat list \<times> bool" where
  "Manager_Remove message_queues p = (let ms = remove1 p message_queues in (ms, ms = []))"

definition Manager_Clear :: "nat list \<Rightarrow> (nat \<Rightarrow> ('h, 'd) MessageQueue) \<Rightarrow> 'h option \<Rightarrow> nat \<Rightarrow> ('h, 'd) MessageQueue" where
  "Manager_Clear message_queues queue_at handler =
     fold (\<lambda>p st. st(p := snd (mq_Clear (st p) handler MQID_ANY False))) message_queues queue_at"

section \<open>The order of delayed messages\<close>

definition comes_before :: "('h, 'd) DelayedMessage \<Rightarrow> ('h, 'd) DelayedMessage \<Rightarrow> bool" where
  "comes_before a b \<longleftrightarrow> msTrigger a < msTrigger b \<or> msTrigger a = msTrigger b \<and> dm_num a \<le> dm_num b"

definition queue_sorted :: "('h, 'd) MessageQueue \<Rightarrow> bool" where
  "queue_sorted q \<longleftrightarrow> sorted_wrt comes_before (dmsgq q)"

lemma not_less_comes_before: "\<not> DelayedMessage_less a b \<longleftrightarrow> comes_before a b"
  by (auto simp: DelayedMessage_less_def comes_before_def)

lemma less_comes_before: "DelayedMessage_less a b \<Longrightarrow> comes_before b a"
  by (auto simp: DelayedMessage_less_def comes_before_def)

lemma comes_before_trans: "comes_before a b \<Longrightarrow> comes_before b c \<Longrightarrow> comes_before a c"
  by (auto simp: comes_before_def)

lemma comes_before_due: "comes_before a b \<Longrightarrow> msTrigger b \<le> now \<Longrightarrow> msTrigger a \<le> now"
  by (auto simp: comes_before_def)

lemma set_pq_push [simp]: "set (pq_push d ds) = insert d (set ds)"
  by (induction ds) auto

lemma sorted_pq_push: "sorted_wrt comes_before ds \<Longrightarrow> sorted_wrt comes_before (pq_push d ds)"
proof (induction ds)
  case (Cons x ds)
  show ?case
  proof (cases "DelayedMessage_less x d")
    case True
    then have b: "comes_before d x" by (rule less_comes_before)
    then have "\<forall>y\<in>set ds. comes_before d y" using Cons.prems by (auto intro: comes_before_trans)
    with b True Cons.prems show ?thesis by simp
  next
    case False
    then have "comes_before x d" by (simp add: not_less_comes_before)
    with False Cons show ?thesis by simp
  qed
qed simp

text \<open>A predicate that holds of everything before an element it holds of.\<close>

lemma sorted_takeWhile_filter:
  assumes "sorted_wrt R xs" "\<And>x y. R x y \<Longrightarrow> P y \<Longrightarrow> P x"
  shows "takeWhile P xs = filter P xs \<and> dropWhile P xs = filter (\<lambda>x. \<not> P x) xs"
  using assms(1)
proof (induction xs)
  case (Cons x xs)
  show ?case
  proof (cases "P x")
    case False
    with Cons.prems assms(2) have "\<forall>y\<in>set xs. \<not> P y" by auto
    with False show ?thesis by (simp add: filter_id_conv filter_empty_conv)
  qed (use Cons in simp)
qed simp

lemma collect_triggered_eq:
  "collect_triggered now ms ds =
     (ms @ map dm_msg (takeWhile (\<lambda>d. \<not> TimeIsLater now (msTrigger d)) ds),
      dropWhile (\<lambda>d. \<not> TimeIsLater now (msTrigger d)) ds,
      case dropWhile (\<lambda>d. \<not> TimeIsLater now (msTrigger d)) ds of
        [] \<Rightarrow> kForever | d # _ \<Rightarrow> TimeDiff (msTrigger d) now)"
  by (induction ds arbitrary: ms) auto

abbreviation to_dispose :: "('h, 'd) Message \<Rightarrow> bool" where
  "to_dispose m \<equiv> message_id m = MQID_DISPOSE"

definition data_of :: "('h, 'd) Message list \<Rightarrow> 'd list" where
  "data_of ms = concat (map (\<lambda>m. case pdata m of None \<Rightarrow> [] | Some d \<Rightarrow> [d]) ms)"

lemma take_posted_eq:
  "take_posted ms q =
     (case dropWhile to_dispose ms of [] \<Rightarrow> None | m # _ \<Rightarrow> Some m,
      q\<lparr>msgq := tl (dropWhile to_dispose ms), deleted := deleted q @ data_of (takeWhile to_dispose ms)\<rparr>)"
  by (induction ms arbitrary: q) (auto simp: data_of_def mq_delete_def split: option.splits)

text \<open>Times that are less than half of the range away from \<open>now\<close>, without a wrap-around between them.\<close>

definition same_era :: "u32 \<Rightarrow> u32 \<Rightarrow> bool" where
  "same_era now t \<longleftrightarrow> uint t < uint now + 2 ^ 31 \<and> uint now < uint t + 2 ^ 31"

lemma TimeIsLater_same_era: "same_era now t \<Longrightarrow> TimeIsLater now t \<longleftrightarrow> now < t"
  using uint_lt2p [of t] uint_lt2p [of now]
  by (auto simp: same_era_def strictly_later_iff uint_sub_u32 word_less_def word_le_def)

definition due :: "u32 \<Rightarrow> ('h, 'd) MessageQueue \<Rightarrow> ('h, 'd) Message list" where
  "due now q = filter (\<lambda>m. \<not> to_dispose m) (msgq q @ map dm_msg (filter (\<lambda>d. msTrigger d \<le> now) (dmsgq q)))"

lemma filter_hd_dropWhile:
  "filter (\<lambda>x. \<not> P x) xs = (case dropWhile P xs of [] \<Rightarrow> [] | y # ys \<Rightarrow> y # filter (\<lambda>x. \<not> P x) ys)"
  by (induction xs) auto

lemma check_queues_sorted:
  assumes "queue_sorted q" "\<forall>d\<in>set (dmsgq q). same_era now (msTrigger d)" "check_queues q now = (m, q', delay)"
  shows "m = (case due now q of [] \<Rightarrow> None | x # _ \<Rightarrow> Some x) \<and>
     filter (\<lambda>m. \<not> to_dispose m) (msgq q') = tl (due now q) \<and>
     dmsgq q' = filter (\<lambda>d. now < msTrigger d) (dmsgq q) \<and> fStop q' = fStop q \<and> fPeekKeep q' = fPeekKeep q"
proof -
  let ?P = "\<lambda>d. \<not> TimeIsLater now (msTrigger d)"
  have P: "?P d \<longleftrightarrow> msTrigger d \<le> now" if "d \<in> set (dmsgq q)" for d
    using TimeIsLater_same_era [of now "msTrigger d"] assms(2) that by auto
  have tw: "takeWhile ?P (dmsgq q) = filter (\<lambda>d. msTrigger d \<le> now) (dmsgq q)"
    "dropWhile ?P (dmsgq q) = filter (\<lambda>d. now < msTrigger d) (dmsgq q)"
  proof -
    have "takeWhile ?P (dmsgq q) = takeWhile (\<lambda>d. msTrigger d \<le> now) (dmsgq q)"
      "dropWhile ?P (dmsgq q) = dropWhile (\<lambda>d. msTrigger d \<le> now) (dmsgq q)"
      by (rule takeWhile_cong, rule refl, simp add: P) (rule dropWhile_cong, rule refl, simp add: P)
    moreover have "takeWhile (\<lambda>d. msTrigger d \<le> now) (dmsgq q) = filter (\<lambda>d. msTrigger d \<le> now) (dmsgq q) \<and>
        dropWhile (\<lambda>d. msTrigger d \<le> now) (dmsgq q) = filter (\<lambda>d. \<not> msTrigger d \<le> now) (dmsgq q)"
      by (rule sorted_takeWhile_filter [of comes_before])
        (use assms(1) in \<open>auto simp: queue_sorted_def intro: comes_before_due\<close>)
    ultimately show "takeWhile ?P (dmsgq q) = filter (\<lambda>d. msTrigger d \<le> now) (dmsgq q)"
      "dropWhile ?P (dmsgq q) = filter (\<lambda>d. now < msTrigger d) (dmsgq q)"
      by (simp_all add: not_le)
  qed
  define ms where "ms = msgq q @ map dm_msg (filter (\<lambda>d. msTrigger d \<le> now) (dmsgq q))"
  have due: "due now q = (case dropWhile to_dispose ms of [] \<Rightarrow> [] | y # ys \<Rightarrow> y # filter (\<lambda>m. \<not> to_dispose m) ys)"
    unfolding due_def ms_def by (rule filter_hd_dropWhile)
  have eq: "m = (case dropWhile to_dispose ms of [] \<Rightarrow> None | m # _ \<Rightarrow> Some m)"
      "q' = q\<lparr>dmsgq := filter (\<lambda>d. now < msTrigger d) (dmsgq q), msgq := tl (dropWhile to_dispose ms),
        deleted := deleted q @ data_of (takeWhile to_dispose ms)\<rparr>"
    using assms(3) by (simp_all add: check_queues_def collect_triggered_eq take_posted_eq tw flip: ms_def)
  show ?thesis unfolding eq due by (cases "dropWhile to_dispose ms") (simp_all del: dropWhile_eq_Nil_conv)
qed

section \<open>Sequences of operations\<close>

datatype ('h, 'd) mq_op =
    Op_Post u32 "'h option" u32 "'d option" bool
  | Op_DelayPost int u32 "'h option" u32 "'d option"
  | Op_Clear "'h option" u32 bool
  | Op_Get u32
  | Op_Quit
  | Op_Restart

fun mq_apply :: "('h, 'd) mq_op \<Rightarrow> ('h, 'd) MessageQueue \<Rightarrow> ('h, 'd) MessageQueue" where
  "mq_apply (Op_Post now h mid d ts) q = Post q now h mid d ts"
| "mq_apply (Op_DelayPost delay t h mid d) q = DoDelayPost q delay t h mid d"
| "mq_apply (Op_Clear h mid w) q = snd (mq_Clear q h mid w)"
| "mq_apply (Op_Get now) q = (case Get q 0 now [\<lambda>_ q. (True, q, now)] of
     None \<Rightarrow> q | Some (_, q', _) \<Rightarrow> q')"
| "mq_apply Op_Quit q = Quit q"
| "mq_apply Op_Restart q = Restart q"

lemma check_queues_keeps:
  assumes "check_queues q now = (m, q', delay)"
  shows "queue_sorted q \<Longrightarrow> queue_sorted q'" "fPeekKeep q' = fPeekKeep q"
  using assms
  by (auto simp: check_queues_def collect_triggered_eq take_posted_eq queue_sorted_def sorted_wrt_dropWhile
    split: prod.splits)

lemma Get_now_sorted:
  assumes "queue_sorted q" "Get q 0 now [\<lambda>_ q. (True, q, now)] = Some (r, q', ws)"
  shows "queue_sorted q'"
proof (cases "fPeekKeep q")
  case False
  obtain m q1 delay where c: "check_queues q now = (m, q1, delay)" by (metis prod_cases3)
  have "queue_sorted q1" by (rule check_queues_keeps(1) [OF c assms(1)])
  then show ?thesis using assms(2) False c
    by (auto simp: Get_def get_loop.simps [of 0] kForever_def TimeDiff_def split: option.splits if_splits)
qed (use assms in \<open>auto simp: Get_def queue_sorted_def\<close>)

lemma mq_apply_sorted: "queue_sorted q \<Longrightarrow> queue_sorted (mq_apply op q)"
proof (cases op)
  case (Op_Get now)
  then show "queue_sorted q \<Longrightarrow> ?thesis" using Get_now_sorted [of q now] by (auto split: option.splits)
qed (auto simp: queue_sorted_def Post_def DoDelayPost_def mq_WakeUp_def EnsureActive_def Let_def mq_Clear_def
    Quit_def Restart_def sorted_pq_push sorted_wrt_filter)

lemma mq_run_sorted: "queue_sorted q \<Longrightarrow> queue_sorted (fold mq_apply ops q)"
  by (induction ops arbitrary: q) (auto simp: mq_apply_sorted)

section \<open>The order of posting\<close>

text \<open>Beside the queue, the delayed messages that still wait, in the order in which they were posted.\<close>

fun mq_history :: "('h, 'd) mq_op \<Rightarrow> ('h, 'd) MessageQueue \<times> ('h, 'd) DelayedMessage list \<Rightarrow>
    ('h, 'd) MessageQueue \<times> ('h, 'd) DelayedMessage list" where
  "mq_history op (q, posted) =
     (let q' = mq_apply op q;
          posted = (case op of
              Op_DelayPost delay t h mid d \<Rightarrow>
                if fStop q then posted
                else posted @ [\<lparr>cmsDelay = delay, msTrigger = t, dm_num = dmsgq_next_num q,
                  dm_msg = \<lparr>phandler = h, message_id = mid, pdata = d, ts_sensitive = 0\<rparr>\<rparr>]
            | _ \<Rightarrow> posted)
      in (q', filter (\<lambda>d. d \<in> set (dmsgq q')) posted))"

definition history_ok :: "nat \<Rightarrow> ('h, 'd) MessageQueue \<times> ('h, 'd) DelayedMessage list \<Rightarrow> bool" where
  "history_ok n s \<longleftrightarrow> (case s of (q, posted) \<Rightarrow> queue_sorted q \<and> set posted = set (dmsgq q) \<and>
     distinct (dmsgq q) \<and> sorted_wrt (\<lambda>a b. dm_num a < dm_num b) posted \<and>
     (\<forall>d\<in>set posted. unat (dm_num d) < unat (dmsgq_next_num q)) \<and> unat (dmsgq_next_num q) \<le> n)"

lemma distinct_pq_push: "distinct (pq_push d ds) \<longleftrightarrow> d \<notin> set ds \<and> distinct ds"
  by (induction ds) auto

lemma set_dropWhile_subset: "set (dropWhile P xs) \<subseteq> set xs"
  by (induction xs) auto

text \<open>What the operations other than a delayed post do to the delayed messages: they remove some.\<close>

lemma Get_now_keeps:
  assumes "Get q 0 now [\<lambda>_ q. (True, q, now)] = Some (r, q', ws)"
  shows "(\<exists>P. dmsgq q' = dropWhile P (dmsgq q)) \<and> dmsgq_next_num q' = dmsgq_next_num q"
proof (cases "fPeekKeep q")
  case True
  then have "dmsgq q' = dropWhile (\<lambda>_. False) (dmsgq q)" "dmsgq_next_num q' = dmsgq_next_num q"
    using assms by (auto simp: Get_def)
  then show ?thesis by blast
next
  case False
  obtain m q1 delay where c: "check_queues q now = (m, q1, delay)" by (metis prod_cases3)
  then have "dmsgq q1 = dropWhile (\<lambda>d. \<not> TimeIsLater now (msTrigger d)) (dmsgq q) \<and> dmsgq_next_num q1 = dmsgq_next_num q"
    by (auto simp: check_queues_def collect_triggered_eq take_posted_eq split: prod.splits)
  moreover have "q' = q1" using assms False c
    by (auto simp: Get_def get_loop.simps [of 0] kForever_def TimeDiff_def split: option.splits if_splits)
  ultimately show ?thesis by blast
qed

lemma mq_apply_removes:
  assumes "\<forall>delay t h mid d. op \<noteq> Op_DelayPost delay t h mid d" "distinct (dmsgq q)"
  shows "set (dmsgq (mq_apply op q)) \<subseteq> set (dmsgq q) \<and> distinct (dmsgq (mq_apply op q)) \<and>
    dmsgq_next_num (mq_apply op q) = dmsgq_next_num q"
proof (cases op)
  case (Op_Get now)
  then show ?thesis using assms(2) Get_now_keeps [of q now]
    by (auto split: option.splits dest!: subsetD [OF set_dropWhile_subset])
qed (use assms in \<open>auto simp: Post_def mq_WakeUp_def EnsureActive_def Let_def mq_Clear_def Quit_def Restart_def\<close>)

lemma mq_history_step:
  assumes "history_ok n s" "n < 2 ^ 32 - 1"
  shows "history_ok (Suc n) (mq_history op s)"
proof -
  obtain q posted where s: "s = (q, posted)" by fastforce
  note ok = assms(1) [unfolded s history_ok_def, simplified]
  have sorted: "queue_sorted (mq_apply op q)" using ok mq_apply_sorted by blast
  show ?thesis
  proof (cases "\<exists>delay t h mid d. op = Op_DelayPost delay t h mid d")
    case False
    then have "mq_history op s = (mq_apply op q, filter (\<lambda>d. d \<in> set (dmsgq (mq_apply op q))) posted)"
      by (cases op) (simp_all add: s Let_def)
    then show ?thesis using ok sorted mq_apply_removes [of op q] False
      by (auto simp: history_ok_def sorted_wrt_filter)
  next
    case True
    then obtain delay t h mid d where op: "op = Op_DelayPost delay t h mid d" by blast
    show ?thesis
    proof (cases "fStop q")
      case True
      then show ?thesis using ok sorted by (auto simp: s op history_ok_def DoDelayPost_def)
    next
      case False
      define x where "x = \<lparr>cmsDelay = delay, msTrigger = t, dm_num = dmsgq_next_num q,
        dm_msg = \<lparr>phandler = h, message_id = mid, pdata = d, ts_sensitive = 0\<rparr>\<rparr>"
      have q': "dmsgq (mq_apply op q) = pq_push x (dmsgq q)" "dmsgq_next_num (mq_apply op q) = dmsgq_next_num q + 1"
        using False by (simp_all add: op DoDelayPost_def mq_WakeUp_def EnsureActive_def Let_def x_def)
      have num: "unat (dmsgq_next_num q + 1) = Suc (unat (dmsgq_next_num q))"
      proof -
        have "unat (dmsgq_next_num q) + 1 < 2 ^ 32" using ok assms(2) by simp
        then show ?thesis by (simp add: unat_word_ariths)
      qed
      have new: "x \<notin> set (dmsgq q)" using ok by (auto simp: x_def dest!: bspec)
      have h: "mq_history op s = (mq_apply op q, posted @ [x])"
        using False ok q'(1) by (auto simp: s op x_def Let_def)
      show ?thesis unfolding h history_ok_def using ok sorted q' num new assms(2)
        by (auto simp: distinct_pq_push sorted_wrt_append x_def word_less_nat_alt less_Suc_eq)
    qed
  qed
qed

lemma mq_history_fst: "fst (fold mq_history ops s) = fold mq_apply ops (fst s)"
proof (induction ops arbitrary: s)
  case (Cons op ops)
  have "fst (mq_history op s) = mq_apply op (fst s)" by (cases s) (simp add: Let_def)
  with Cons show ?case by simp
qed simp

lemma mq_history_ok: "history_ok n s \<Longrightarrow> n + length ops < 2 ^ 32 \<Longrightarrow> history_ok (n + length ops) (fold mq_history ops s)"
proof (induction ops arbitrary: s n)
  case (Cons op ops)
  then show ?case using mq_history_step [of n s op] Cons.IH [of "Suc n" "mq_history op s"] by simp
qed simp

text \<open>The order of the queue is the stable order by trigger times of what was posted.\<close>

lemma history_order:
  assumes "history_ok n (q, posted)"
  shows "sort_key msTrigger posted = dmsgq q"
proof (rule properties_for_sort_key)
  note ok = assms [unfolded history_ok_def, simplified]
  have strict: "sorted_wrt (\<lambda>a b. dm_num a < dm_num b) posted" "set posted = set (dmsgq q)" using ok by simp_all
  then have d: "distinct (map dm_num posted)" by (simp add: strict_sorted_iff flip: sorted_wrt_map)
  then have inj: "inj_on dm_num (set posted)" and dp: "distinct posted" by (simp_all add: distinct_map)
  show "mset (dmsgq q) = mset posted" using ok dp by (metis set_eq_iff_mset_eq_distinct)
  show "sorted (map msTrigger (dmsgq q))"
    using ok by (auto simp: queue_sorted_def sorted_map comes_before_def elim!: sorted_wrt_mono_rel [rotated])
  fix k assume "k \<in> set (dmsgq q)"
  let ?P = "\<lambda>x. msTrigger k = msTrigger x"
  have s1: "sorted_wrt (\<lambda>a b. dm_num a \<le> dm_num b) (filter ?P posted)"
    using strict(1) by (intro sorted_wrt_filter) (auto elim: sorted_wrt_mono_rel [rotated])
  have "sorted_wrt comes_before (filter ?P (dmsgq q))" using ok by (intro sorted_wrt_filter) (simp add: queue_sorted_def)
  then have s2: "sorted_wrt (\<lambda>a b. dm_num a \<le> dm_num b) (filter ?P (dmsgq q))"
    by (rule sorted_wrt_mono_rel [rotated]) (auto simp: comes_before_def)
  have i: "inj_on dm_num (set (filter ?P (dmsgq q)) \<union> set (filter ?P posted))"
    using inj strict(2) by (auto intro: inj_on_subset)
  show "filter ?P (dmsgq q) = filter ?P posted"
  proof (rule map_sorted_distinct_set_unique [OF i])
    show "sorted (map dm_num (filter ?P (dmsgq q)))" "sorted (map dm_num (filter ?P posted))"
      using s1 s2 by (simp_all add: sorted_map)
    show "distinct (map dm_num (filter ?P (dmsgq q)))" "distinct (map dm_num (filter ?P posted))"
      using inj strict(2) ok dp by (auto simp: distinct_map intro: inj_on_subset)
    show "set (filter ?P (dmsgq q)) = set (filter ?P posted)" using strict(2) by simp
  qed
qed

section \<open>Properties\<close>

text \<open>The messages that can be handed out, with the delayed ones in the order of posting.\<close>

definition deliverable :: "u32 \<Rightarrow> ('h, 'd) Message list \<Rightarrow> ('h, 'd) DelayedMessage list \<Rightarrow> ('h, 'd) Message list" where
  "deliverable now ms posted = filter (\<lambda>m. message_id m \<noteq> MQID_DISPOSE)
     (ms @ map dm_msg (sort_key msTrigger (filter (\<lambda>d. msTrigger d \<le> now) posted)))"

lemma sort_key_filter: "sort_key f (filter P xs) = filter P (sort_key f xs)"
proof (rule properties_for_sort_key)
  show "mset (filter P (sort_key f xs)) = mset (filter P xs)" by simp
  show "sorted (map f (filter P (sort_key f xs)))" by (simp add: sorted_filter)
  fix k assume "k \<in> set (filter P (sort_key f xs))"
  have "filter (\<lambda>x. f k = f x) (filter P (sort_key f xs)) = filter P (filter (\<lambda>x. f k = f x) (sort_key f xs))"
    by (simp add: filter_filter conj_commute)
  also have "\<dots> = filter P (filter (\<lambda>x. f k = f x) xs)" by (simp add: sort_key_stable eq_commute)
  finally show "filter (\<lambda>x. f k = f x) (filter P (sort_key f xs)) = filter (\<lambda>x. f k = f x) (filter P xs)"
    by (simp add: filter_filter conj_commute)
qed

lemma deliverable_due: "history_ok n (q, posted) \<Longrightarrow> deliverable now (msgq q) posted = due now q"
  by (simp add: deliverable_def due_def sort_key_filter history_order)


definition example_ops :: "(nat, nat) mq_op list" where
  "example_ops = [Op_DelayPost 5 105 (Some 1) 1 None, Op_DelayPost 2 102 (Some 2) 2 None, Op_DelayPost 2 102 (Some 3) 3 None]"

definition example_queue :: "(nat, nat) MessageQueue" where
  "example_queue = fst (fold mq_history example_ops (MessageQueue_new, []))"

definition example_posted :: "(nat, nat) DelayedMessage list" where
  "example_posted = snd (fold mq_history example_ops (MessageQueue_new, []))"

lemma example_queue_eq: "map msTrigger (dmsgq example_queue) = [102, 102, 105]"
    "map (\<lambda>d. message_id (dm_msg d)) example_posted = [1, 2, 3]" "map msTrigger example_posted = [105, 102, 102]"
    "\<not> fPeekKeep example_queue" "msgq example_queue = []"
  by (simp_all add: example_queue_def example_posted_def example_ops_def DoDelayPost_def MessageQueue_new_def
    EnsureActive_def mq_WakeUp_def DelayedMessage_less_def)

lemma example_deliverable:
  "map message_id (deliverable 103 (msgq example_queue) example_posted) = [2, 3]"
  by (simp add: deliverable_def example_queue_def example_posted_def example_ops_def DoDelayPost_def MessageQueue_new_def
    EnsureActive_def mq_WakeUp_def DelayedMessage_less_def MQID_DISPOSE_def)



end
