(* ===== verification/ByteOrder.thy ===== *)
theory ByteOrder
  imports Prelude
begin

text \<open>
  \<^verbatim>\<open>include/base/byteorder.h\<close>: reading and writing integers from memory in big- and
  little-endian order. A pointer is the list of bytes from it on. The modelled hosts are the
  little-endian ones (\<open>IsHostBigEndian\<close> is false, as on x86 and ARM); the network-order
  functions do not depend on it.
\<close>

definition Set8 :: "byte list \<Rightarrow> nat \<Rightarrow> byte \<Rightarrow> byte list" where
  "Set8 memory offset v = memory[offset := v]"

definition Get8 :: "byte list \<Rightarrow> nat \<Rightarrow> byte" where
  "Get8 memory offset = memory ! offset"

definition SetBE16 :: "u16 \<Rightarrow> byte list" where
  "SetBE16 v = [ucast (drop_bit 8 v), ucast v]"

definition SetBE32 :: "u32 \<Rightarrow> byte list" where
  "SetBE32 v = [ucast (drop_bit 24 v), ucast (drop_bit 16 v), ucast (drop_bit 8 v), ucast v]"

definition SetBE64 :: "u64 \<Rightarrow> byte list" where
  "SetBE64 v = [ucast (drop_bit 56 v), ucast (drop_bit 48 v), ucast (drop_bit 40 v),
     ucast (drop_bit 32 v), ucast (drop_bit 24 v), ucast (drop_bit 16 v),
     ucast (drop_bit 8 v), ucast v]"

definition GetBE16 :: "byte list \<Rightarrow> u16" where
  "GetBE16 m = push_bit 8 (ucast (Get8 m 0)) OR ucast (Get8 m 1)"

definition GetBE32 :: "byte list \<Rightarrow> u32" where
  "GetBE32 m = push_bit 24 (ucast (Get8 m 0)) OR push_bit 16 (ucast (Get8 m 1)) OR
     push_bit 8 (ucast (Get8 m 2)) OR ucast (Get8 m 3)"

definition GetBE64 :: "byte list \<Rightarrow> u64" where
  "GetBE64 m = push_bit 56 (ucast (Get8 m 0)) OR push_bit 48 (ucast (Get8 m 1)) OR
     push_bit 40 (ucast (Get8 m 2)) OR push_bit 32 (ucast (Get8 m 3)) OR
     push_bit 24 (ucast (Get8 m 4)) OR push_bit 16 (ucast (Get8 m 5)) OR
     push_bit 8 (ucast (Get8 m 6)) OR ucast (Get8 m 7)"

definition SetLE16 :: "u16 \<Rightarrow> byte list" where
  "SetLE16 v = [ucast v, ucast (drop_bit 8 v)]"

definition SetLE32 :: "u32 \<Rightarrow> byte list" where
  "SetLE32 v = [ucast v, ucast (drop_bit 8 v), ucast (drop_bit 16 v), ucast (drop_bit 24 v)]"

definition SetLE64 :: "u64 \<Rightarrow> byte list" where
  "SetLE64 v = [ucast v, ucast (drop_bit 8 v), ucast (drop_bit 16 v), ucast (drop_bit 24 v),
     ucast (drop_bit 32 v), ucast (drop_bit 40 v), ucast (drop_bit 48 v),
     ucast (drop_bit 56 v)]"

definition GetLE16 :: "byte list \<Rightarrow> u16" where
  "GetLE16 m = ucast (Get8 m 0) OR push_bit 8 (ucast (Get8 m 1))"

definition GetLE32 :: "byte list \<Rightarrow> u32" where
  "GetLE32 m = ucast (Get8 m 0) OR push_bit 8 (ucast (Get8 m 1)) OR
     push_bit 16 (ucast (Get8 m 2)) OR push_bit 24 (ucast (Get8 m 3))"

definition GetLE64 :: "byte list \<Rightarrow> u64" where
  "GetLE64 m = ucast (Get8 m 0) OR push_bit 8 (ucast (Get8 m 1)) OR
     push_bit 16 (ucast (Get8 m 2)) OR push_bit 24 (ucast (Get8 m 3)) OR
     push_bit 32 (ucast (Get8 m 4)) OR push_bit 40 (ucast (Get8 m 5)) OR
     push_bit 48 (ucast (Get8 m 6)) OR push_bit 56 (ucast (Get8 m 7))"

definition IsHostBigEndian :: bool where
  "IsHostBigEndian = False"

text \<open>
  \<^verbatim>\<open>HostToNetwork\<close> fills the storage of an integer with the big-endian bytes and reads
  it back as a host integer; on a little-endian host that is a byte swap.
\<close>

definition HostToNetwork16 :: "u16 \<Rightarrow> u16" where
  "HostToNetwork16 n = (if IsHostBigEndian then GetBE16 (SetBE16 n) else GetLE16 (SetBE16 n))"

definition HostToNetwork32 :: "u32 \<Rightarrow> u32" where
  "HostToNetwork32 n = (if IsHostBigEndian then GetBE32 (SetBE32 n) else GetLE32 (SetBE32 n))"

definition HostToNetwork64 :: "u64 \<Rightarrow> u64" where
  "HostToNetwork64 n = (if IsHostBigEndian then GetBE64 (SetBE64 n) else GetLE64 (SetBE64 n))"

definition NetworkToHost16 :: "u16 \<Rightarrow> u16" where
  "NetworkToHost16 n = GetBE16 (if IsHostBigEndian then SetBE16 n else SetLE16 n)"

definition NetworkToHost32 :: "u32 \<Rightarrow> u32" where
  "NetworkToHost32 n = GetBE32 (if IsHostBigEndian then SetBE32 n else SetLE32 n)"

definition NetworkToHost64 :: "u64 \<Rightarrow> u64" where
  "NetworkToHost64 n = GetBE64 (if IsHostBigEndian then SetBE64 n else SetLE64 n)"

lemmas byteorder_defs = Get8_def SetBE16_def SetBE32_def SetBE64_def GetBE16_def GetBE32_def
  GetBE64_def SetLE16_def SetLE32_def SetLE64_def GetLE16_def GetLE32_def GetLE64_def

section \<open>The encodings are inverse\<close>

text \<open>
  A word is assembled from its bytes bit by bit; the case split is over the byte that holds
  the bit.
\<close>

lemma bit_byte_at:
  "bit (push_bit k (ucast (ucast (drop_bit k v) :: byte) :: 'a::len word)) n \<longleftrightarrow>
     k \<le> n \<and> n < k + 8 \<and> bit (v :: 'a word) n"
  by (auto simp: bit_simps dest: bit_imp_le_length)

lemma bit_byte_0:
  "bit (ucast (ucast v :: byte) :: 'a::len word) n \<longleftrightarrow> n < 8 \<and> bit (v :: 'a word) n"
  by (auto simp: bit_simps dest: bit_imp_le_length)

lemma be16_assemble: "push_bit 8 (ucast (ucast (drop_bit 8 v) :: byte)) OR
    ucast (ucast v :: byte) = (v :: u16)"
  by (rule bit_word_eqI) (simp add: bit_or_iff bit_byte_at bit_byte_0, linarith)

lemma be32_assemble: "push_bit 24 (ucast (ucast (drop_bit 24 v) :: byte)) OR
    push_bit 16 (ucast (ucast (drop_bit 16 v) :: byte)) OR
    push_bit 8 (ucast (ucast (drop_bit 8 v) :: byte)) OR ucast (ucast v :: byte) = (v :: u32)"
  by (rule bit_word_eqI) (simp add: bit_or_iff bit_byte_at bit_byte_0, linarith)

lemma be64_assemble: "push_bit 56 (ucast (ucast (drop_bit 56 v) :: byte)) OR
    push_bit 48 (ucast (ucast (drop_bit 48 v) :: byte)) OR
    push_bit 40 (ucast (ucast (drop_bit 40 v) :: byte)) OR
    push_bit 32 (ucast (ucast (drop_bit 32 v) :: byte)) OR
    push_bit 24 (ucast (ucast (drop_bit 24 v) :: byte)) OR
    push_bit 16 (ucast (ucast (drop_bit 16 v) :: byte)) OR
    push_bit 8 (ucast (ucast (drop_bit 8 v) :: byte)) OR ucast (ucast v :: byte) = (v :: u64)"
  by (rule bit_word_eqI) (simp add: bit_or_iff bit_byte_at bit_byte_0, linarith)

text \<open>The other direction: each byte is read back out of the assembled word.\<close>

lemma byte_bit_high [simp]: "8 \<le> n \<Longrightarrow> \<not> bit (b :: byte) n"
  using bit_imp_le_length [of b n] by auto

lemma SetBE16_GetBE16: "SetBE16 (GetBE16 [a, b]) = [a, b]"
  by (auto simp: byteorder_defs bit_simps intro!: bit_word_eqI)

lemma SetBE32_GetBE32: "SetBE32 (GetBE32 [a, b, c, d]) = [a, b, c, d]"
  by (auto simp: byteorder_defs bit_simps intro!: bit_word_eqI)

lemma SetBE64_GetBE64: "SetBE64 (GetBE64 [a, b, c, d, e, f, g, h]) = [a, b, c, d, e, f, g, h]"
  by (auto simp: byteorder_defs bit_simps intro!: bit_word_eqI)

lemma take2: "2 \<le> length m \<Longrightarrow> take 2 m = [m ! 0, m ! 1]"
  by (cases m; cases "tl m") (auto simp: numeral_2_eq_2)

lemma take4: "4 \<le> length m \<Longrightarrow> take 4 m = [m ! 0, m ! 1, m ! 2, m ! 3]"
  by (rule nth_equalityI) (auto simp: less_Suc_eq numeral_eq_Suc)

lemma take8: "8 \<le> length m \<Longrightarrow>
    take 8 m = [m ! 0, m ! 1, m ! 2, m ! 3, m ! 4, m ! 5, m ! 6, m ! 7]"
  by (rule nth_equalityI) (auto simp: less_Suc_eq numeral_eq_Suc)

interpretation be16: fixed_codec SetBE16 GetBE16 2
proof unfold_locales
  show "GetBE16 (SetBE16 v @ rest) = v" for v rest
    by (simp add: byteorder_defs be16_assemble del: One_nat_def)
  show "SetBE16 (GetBE16 bs) = take 2 bs" if "2 \<le> length bs" for bs
    using SetBE16_GetBE16 [of "bs ! 0" "bs ! 1"] that
    by (simp add: GetBE16_def Get8_def take2)
qed (simp add: SetBE16_def)

interpretation be32: fixed_codec SetBE32 GetBE32 4
proof unfold_locales
  show "GetBE32 (SetBE32 v @ rest) = v" for v rest
    using be32_assemble [of v] by (simp add: byteorder_defs)
  show "SetBE32 (GetBE32 bs) = take 4 bs" if "4 \<le> length bs" for bs
    using SetBE32_GetBE32 [of "bs ! 0" "bs ! 1" "bs ! 2" "bs ! 3"] that
    by (simp add: GetBE32_def Get8_def take4)
qed (simp add: SetBE32_def)

interpretation be64: fixed_codec SetBE64 GetBE64 8
proof unfold_locales
  show "GetBE64 (SetBE64 v @ rest) = v" for v rest
    using be64_assemble [of v] by (simp add: byteorder_defs)
  show "SetBE64 (GetBE64 bs) = take 8 bs" if "8 \<le> length bs" for bs
    using SetBE64_GetBE64 [of "bs ! 0" "bs ! 1" "bs ! 2" "bs ! 3" "bs ! 4" "bs ! 5" "bs ! 6"
      "bs ! 7"] that
    by (simp add: GetBE64_def Get8_def take8)
qed (simp add: SetBE64_def)

text \<open>The little-endian layout is the big-endian one reversed.\<close>

lemma SetLE_rev:
  "SetLE16 v16 = rev (SetBE16 v16)" "SetLE32 v32 = rev (SetBE32 v32)"
  "SetLE64 v64 = rev (SetBE64 v64)"
  by (simp_all add: byteorder_defs)

lemma GetLE16_BE: "2 \<le> length m \<Longrightarrow> GetLE16 m = GetBE16 (rev (take 2 m))"
  by (simp add: byteorder_defs take2 or.commute)

lemma GetLE32_BE: "4 \<le> length m \<Longrightarrow> GetLE32 m = GetBE32 (rev (take 4 m))"
  by (simp add: byteorder_defs take4 or.commute or.left_commute)

lemma GetLE64_BE: "8 \<le> length m \<Longrightarrow> GetLE64 m = GetBE64 (rev (take 8 m))"
  by (simp add: byteorder_defs take8 or.commute or.left_commute)

interpretation le16: fixed_codec SetLE16 GetLE16 2
proof unfold_locales
  show "length (SetLE16 v) = 2" for v by (simp add: SetLE_rev be16.enc_length)
  show "GetLE16 (SetLE16 v @ rest) = v" for v rest
    by (simp add: GetLE16_BE SetLE_rev be16.enc_length be16.dec_enc_nil)
  show "SetLE16 (GetLE16 bs) = take 2 bs" if "2 \<le> length bs" for bs
    using that by (simp add: GetLE16_BE SetLE_rev be16.enc_dec)
qed

interpretation le32: fixed_codec SetLE32 GetLE32 4
proof unfold_locales
  show "length (SetLE32 v) = 4" for v by (simp add: SetLE_rev be32.enc_length)
  show "GetLE32 (SetLE32 v @ rest) = v" for v rest
    by (simp add: GetLE32_BE SetLE_rev be32.enc_length be32.dec_enc_nil)
  show "SetLE32 (GetLE32 bs) = take 4 bs" if "4 \<le> length bs" for bs
    using that by (simp add: GetLE32_BE SetLE_rev be32.enc_dec)
qed

interpretation le64: fixed_codec SetLE64 GetLE64 8
proof unfold_locales
  show "length (SetLE64 v) = 8" for v by (simp add: SetLE_rev be64.enc_length)
  show "GetLE64 (SetLE64 v @ rest) = v" for v rest
    by (simp add: GetLE64_BE SetLE_rev be64.enc_length be64.dec_enc_nil)
  show "SetLE64 (GetLE64 bs) = take 8 bs" if "8 \<le> length bs" for bs
    using that by (simp add: GetLE64_BE SetLE_rev be64.enc_dec)
qed

lemmas codec_lengths [codec_simps] =
  be16.enc_length be32.enc_length be64.enc_length
  le16.enc_length le32.enc_length le64.enc_length

lemmas codec_roundtrips [codec_simps] =
  be16.dec_enc be32.dec_enc be64.dec_enc le16.dec_enc le32.dec_enc le64.dec_enc
  be16.dec_enc_nil be32.dec_enc_nil be64.dec_enc_nil
  le16.dec_enc_nil le32.dec_enc_nil le64.dec_enc_nil

lemma network_host_roundtrip:
  "NetworkToHost16 (HostToNetwork16 v16) = v16"
  "NetworkToHost32 (HostToNetwork32 v32) = v32"
  "NetworkToHost64 (HostToNetwork64 v64) = v64"
  by (simp_all add: NetworkToHost16_def HostToNetwork16_def NetworkToHost32_def
      HostToNetwork32_def NetworkToHost64_def HostToNetwork64_def IsHostBigEndian_def
      le16.enc_dec le32.enc_dec le64.enc_dec codec_simps)

text \<open>
  Storing a converted integer in host memory leaves its big-endian bytes there: the sense in
  which the network-order functions do not depend on the host.
\<close>

lemma host_store_network:
  "SetLE16 (HostToNetwork16 v16) = SetBE16 v16" "SetLE32 (HostToNetwork32 v32) = SetBE32 v32"
  "SetLE64 (HostToNetwork64 v64) = SetBE64 v64"
  by (simp_all add: HostToNetwork16_def HostToNetwork32_def HostToNetwork64_def
      IsHostBigEndian_def le16.enc_dec le32.enc_dec le64.enc_dec codec_simps)

lemma host_load_network:
  "2 \<le> length m \<Longrightarrow> NetworkToHost16 (GetLE16 m) = GetBE16 m"
  "4 \<le> length m \<Longrightarrow> NetworkToHost32 (GetLE32 m) = GetBE32 m"
  "8 \<le> length m \<Longrightarrow> NetworkToHost64 (GetLE64 m) = GetBE64 m"
  by (simp_all add: NetworkToHost16_def NetworkToHost32_def NetworkToHost64_def
      IsHostBigEndian_def le16.enc_dec le32.enc_dec le64.enc_dec
      be16.dec_take be32.dec_take be64.dec_take)

end
