(* ===== verification/ByteBuffer.thy ===== *)
theory ByteBuffer
  imports ByteOrder
begin

text \<open>
  \<^verbatim>\<open>src/base/bytebuffer.cc\<close>: a growable byte buffer with a read position. The record
  holds the members of the class; \<open>bb_contents\<close> is the unread part, and the lemmas say what
  every operation does to it. Uninitialised storage (\<^verbatim>\<open>new char[n]\<close>) is zero-filled in
  the model; nothing reads it before it is written. Sizes are \<^verbatim>\<open>size_t\<close> values below the
  address space and are modelled as \<^typ>\<open>nat\<close>.
\<close>

section \<open>State and operations\<close>

datatype byte_order = ORDER_NETWORK | ORDER_HOST

record byte_buffer =
  bb_bytes :: "byte list"
  bb_size :: nat
  bb_start :: nat
  bb_end :: nat
  bb_version :: int
  bb_order :: byte_order

record read_position =
  rp_start :: nat
  rp_version :: int

definition DEFAULT_SIZE :: nat where
  "DEFAULT_SIZE = 4096"

definition Construct :: "byte list option \<Rightarrow> nat \<Rightarrow> byte_order \<Rightarrow> byte_buffer" where
  "Construct bytes len ord =
     (let mem = replicate len 0 in
      case bytes of
        Some bs \<Rightarrow> \<lparr>bb_bytes = mem_write mem 0 (take len bs), bb_size = len, bb_start = 0,
                    bb_end = len, bb_version = 0, bb_order = ord\<rparr>
      | None \<Rightarrow> \<lparr>bb_bytes = mem, bb_size = len, bb_start = 0, bb_end = 0, bb_version = 0,
                 bb_order = ord\<rparr>)"

definition ByteBuffer_new :: "byte_order \<Rightarrow> byte_buffer" where
  "ByteBuffer_new ord = Construct None DEFAULT_SIZE ord"

definition ByteBuffer_of :: "byte list \<Rightarrow> byte_buffer" where
  "ByteBuffer_of bytes = Construct (Some bytes) (length bytes) ORDER_NETWORK"

definition Data :: "byte_buffer \<Rightarrow> byte list" where
  "Data b = mem_read (bb_bytes b) (bb_start b) (bb_end b - bb_start b)"

definition Length :: "byte_buffer \<Rightarrow> nat" where
  "Length b = bb_end b - bb_start b"

definition Capacity :: "byte_buffer \<Rightarrow> nat" where
  "Capacity b = bb_size b - bb_start b"

text \<open>A read returns \<open>None\<close> where the code returns \<^verbatim>\<open>false\<close>; the buffer is then
  unchanged.\<close>

definition ReadBytes :: "byte_buffer \<Rightarrow> nat \<Rightarrow> (byte list \<times> byte_buffer) option" where
  "ReadBytes b len =
     (if len > Length b then None
      else Some (mem_read (bb_bytes b) (bb_start b) len, b\<lparr>bb_start := bb_start b + len\<rparr>))"

definition ReadString :: "byte_buffer \<Rightarrow> byte list \<Rightarrow> nat \<Rightarrow> (byte list \<times> byte_buffer) option" where
  "ReadString b val len =
     (if len > Length b then None
      else Some (val @ mem_read (bb_bytes b) (bb_start b) len,
                 b\<lparr>bb_start := bb_start b + len\<rparr>))"

definition ReadUInt8 :: "byte_buffer \<Rightarrow> (byte \<times> byte_buffer) option" where
  "ReadUInt8 b = (case ReadBytes b 1 of None \<Rightarrow> None | Some (v, b') \<Rightarrow> Some (Get8 v 0, b'))"

definition ReadUInt16 :: "byte_buffer \<Rightarrow> (u16 \<times> byte_buffer) option" where
  "ReadUInt16 b = (case ReadBytes b 2 of None \<Rightarrow> None
     | Some (m, b') \<Rightarrow> let v = GetLE16 m in
         Some (if bb_order b = ORDER_NETWORK then NetworkToHost16 v else v, b'))"

text \<open>Three bytes are read into a zeroed 32-bit integer: its upper three in memory order for
  network order, its lower three for a little-endian host.\<close>

definition ReadUInt24 :: "byte_buffer \<Rightarrow> (u32 \<times> byte_buffer) option" where
  "ReadUInt24 b = (case ReadBytes b 3 of None \<Rightarrow> None
     | Some (m, b') \<Rightarrow>
         let v = GetLE32 (if bb_order b = ORDER_NETWORK \<or> IsHostBigEndian
                          then 0 # m else m @ [0]) in
         Some (if bb_order b = ORDER_NETWORK then NetworkToHost32 v else v, b'))"

definition ReadUInt32 :: "byte_buffer \<Rightarrow> (u32 \<times> byte_buffer) option" where
  "ReadUInt32 b = (case ReadBytes b 4 of None \<Rightarrow> None
     | Some (m, b') \<Rightarrow> let v = GetLE32 m in
         Some (if bb_order b = ORDER_NETWORK then NetworkToHost32 v else v, b'))"

definition ReadUInt64 :: "byte_buffer \<Rightarrow> (u64 \<times> byte_buffer) option" where
  "ReadUInt64 b = (case ReadBytes b 8 of None \<Rightarrow> None
     | Some (m, b') \<Rightarrow> let v = GetLE64 m in
         Some (if bb_order b = ORDER_NETWORK then NetworkToHost64 v else v, b'))"

definition Resize :: "byte_buffer \<Rightarrow> nat \<Rightarrow> byte_buffer" where
  "Resize b sz =
     (let len = min (bb_end b - bb_start b) sz;
          live = mem_read (bb_bytes b) (bb_start b) len;
          b' = (if sz \<le> bb_size b then b\<lparr>bb_bytes := mem_write (bb_bytes b) 0 live\<rparr>
                else let cap = max sz (3 * bb_size b div 2) in
                     b\<lparr>bb_size := cap, bb_bytes := mem_write (replicate cap 0) 0 live\<rparr>)
      in b'\<lparr>bb_start := 0, bb_end := len, bb_version := bb_version b + 1\<rparr>)"

text \<open>Returns the offset of the reserved bytes in place of the pointer.\<close>

definition ReserveWriteBuffer :: "byte_buffer \<Rightarrow> nat \<Rightarrow> nat \<times> byte_buffer" where
  "ReserveWriteBuffer b len =
     (let b' = (if Length b + len > Capacity b then Resize b (Length b + len) else b)
      in (bb_end b', b'\<lparr>bb_end := bb_end b' + len\<rparr>))"

definition WriteBytes :: "byte_buffer \<Rightarrow> byte list \<Rightarrow> byte_buffer" where
  "WriteBytes b val =
     (let (p, b') = ReserveWriteBuffer b (length val)
      in b'\<lparr>bb_bytes := mem_write (bb_bytes b') p val\<rparr>)"

definition WriteUInt8 :: "byte_buffer \<Rightarrow> byte \<Rightarrow> byte_buffer" where
  "WriteUInt8 b val = WriteBytes b [val]"

definition WriteUInt16 :: "byte_buffer \<Rightarrow> u16 \<Rightarrow> byte_buffer" where
  "WriteUInt16 b val =
     (let v = (if bb_order b = ORDER_NETWORK then HostToNetwork16 val else val)
      in WriteBytes b (SetLE16 v))"

definition WriteUInt24 :: "byte_buffer \<Rightarrow> u32 \<Rightarrow> byte_buffer" where
  "WriteUInt24 b val =
     (let v = (if bb_order b = ORDER_NETWORK then HostToNetwork32 val else val);
          start = (if bb_order b = ORDER_NETWORK \<or> IsHostBigEndian then 1 else 0)
      in WriteBytes b (mem_read (SetLE32 v) start 3))"

definition WriteUInt32 :: "byte_buffer \<Rightarrow> u32 \<Rightarrow> byte_buffer" where
  "WriteUInt32 b val =
     (let v = (if bb_order b = ORDER_NETWORK then HostToNetwork32 val else val)
      in WriteBytes b (SetLE32 v))"

definition WriteUInt64 :: "byte_buffer \<Rightarrow> u64 \<Rightarrow> byte_buffer" where
  "WriteUInt64 b val =
     (let v = (if bb_order b = ORDER_NETWORK then HostToNetwork64 val else val)
      in WriteBytes b (SetLE64 v))"

definition WriteString :: "byte_buffer \<Rightarrow> byte list \<Rightarrow> byte_buffer" where
  "WriteString b val = WriteBytes b val"

definition Shift :: "byte_buffer \<Rightarrow> nat \<Rightarrow> byte_buffer" where
  "Shift b sz =
     (if sz > Length b then b
      else let e = Length b - sz in
        b\<lparr>bb_end := e,
          bb_bytes := mem_write (bb_bytes b) 0 (mem_read (bb_bytes b) (bb_start b + sz) e),
          bb_start := 0\<rparr>)"

definition Consume :: "byte_buffer \<Rightarrow> nat \<Rightarrow> bool \<times> byte_buffer" where
  "Consume b sz =
     (if sz > Length b then (False, b) else (True, b\<lparr>bb_start := bb_start b + sz\<rparr>))"

definition GetReadPosition :: "byte_buffer \<Rightarrow> read_position" where
  "GetReadPosition b = \<lparr>rp_start = bb_start b, rp_version = bb_version b\<rparr>"

definition SetReadPosition :: "byte_buffer \<Rightarrow> read_position \<Rightarrow> bool \<times> byte_buffer" where
  "SetReadPosition b position =
     (if rp_version position \<noteq> bb_version b then (False, b)
      else (True, b\<lparr>bb_start := rp_start position\<rparr>))"

definition Clear :: "byte_buffer \<Rightarrow> byte_buffer" where
  "Clear b = b\<lparr>bb_bytes := replicate (bb_size b) 0, bb_start := 0, bb_end := 0,
               bb_version := bb_version b + 1\<rparr>"

section \<open>Invariant and abstraction\<close>

definition bb_inv :: "byte_buffer \<Rightarrow> bool" where
  "bb_inv b \<longleftrightarrow> bb_start b \<le> bb_end b \<and> bb_end b \<le> bb_size b \<and>
     length (bb_bytes b) = bb_size b"

lemma Data_length [bb_simps]: "bb_inv b \<Longrightarrow> length (Data b) = Length b"
  by (simp add: bb_inv_def Data_def Length_def length_mem_read)

lemma Construct_spec [bb_simps]:
  "bb_inv (Construct None n ord)" "Data (Construct None n ord) = []"
  "bb_inv (Construct (Some bs) (length bs) ord)" "Data (Construct (Some bs) (length bs) ord) = bs"
  "bb_order (Construct bo n ord) = ord"
  by (auto simp: Construct_def bb_inv_def Data_def mem_read_def mem_write_def Let_def
      split: option.split)

lemma ByteBuffer_new_spec [bb_simps]:
  "bb_inv (ByteBuffer_new ord)" "Data (ByteBuffer_new ord) = []"
  "bb_order (ByteBuffer_new ord) = ord"
  by (simp_all add: ByteBuffer_new_def bb_simps)

lemma ByteBuffer_of_spec [bb_simps]:
  "bb_inv (ByteBuffer_of bs)" "Data (ByteBuffer_of bs) = bs"
  "bb_order (ByteBuffer_of bs) = ORDER_NETWORK"
  by (simp_all add: ByteBuffer_of_def bb_simps)

lemma Resize_spec:
  assumes "bb_inv b"
  shows "bb_inv (Resize b sz)" and "Data (Resize b sz) = take sz (Data b)"
    and "bb_order (Resize b sz) = bb_order b"
    and "bb_start (Resize b sz) = 0" and "bb_end (Resize b sz) = min (Length b) sz"
    and "sz \<le> bb_size (Resize b sz)"
    and "bb_version (Resize b sz) = bb_version b + 1"
  using assms
  by (auto simp: Resize_def bb_inv_def Let_def Length_def Data_def mem_read_def mem_write_def
      min.commute)

lemma WriteBytes_spec:
  assumes inv: "bb_inv b"
  shows "bb_inv (WriteBytes b val) \<and> Data (WriteBytes b val) = Data b @ val \<and>
    bb_order (WriteBytes b val) = bb_order b"
proof -
  define b' where "b' = (if Length b + length val > Capacity b
    then Resize b (Length b + length val) else b)"
  have b': "bb_inv b' \<and> Data b' = Data b \<and> bb_order b' = bb_order b \<and>
      bb_end b' + length val \<le> bb_size b'"
  proof (cases "Length b + length val > Capacity b")
    case True
    have "length (Data b) \<le> Length b + length val" by (simp add: Data_length inv)
    then show ?thesis
      using Resize_spec [OF inv, of "Length b + length val"] by (simp add: b'_def True)
  next
    case False
    with inv show ?thesis by (auto simp: b'_def bb_inv_def Length_def Capacity_def)
  qed
  have w: "WriteBytes b val = b'\<lparr>bb_end := bb_end b' + length val,
      bb_bytes := mem_write (bb_bytes b') (bb_end b') val\<rparr>"
    by (simp add: WriteBytes_def ReserveWriteBuffer_def b'_def Let_def)
  have "Data (WriteBytes b val) = Data b' @ val"
    using b' mem_read_write_end [of "bb_start b'" "bb_end b'" val "bb_bytes b'"]
    by (simp add: w Data_def bb_inv_def)
  moreover have "bb_inv (WriteBytes b val)"
    using b' by (simp add: w bb_inv_def length_mem_write)
  ultimately show ?thesis using b' by (simp add: w)
qed

lemma ReadBytes_None [bb_simps]: "bb_inv b \<Longrightarrow> ReadBytes b n = None \<longleftrightarrow> length (Data b) < n"
  by (auto simp: ReadBytes_def Data_length)

lemma ReadBytes_SomeE:
  assumes "ReadBytes b n = Some (v, b')" and "bb_inv b"
  shows "n \<le> length (Data b)" "v = take n (Data b)" "bb_inv b'" "Data b' = drop n (Data b)"
    "bb_order b' = bb_order b" "bb_bytes b' = bb_bytes b" "bb_end b' = bb_end b"
    "bb_version b' = bb_version b" "bb_size b' = bb_size b"
  using assms
  by (auto simp: ReadBytes_def Data_length Data_def mem_read_take mem_read_drop bb_inv_def
      Length_def length_mem_read split: if_splits)

lemma ReadBytes_Some:
  assumes "bb_inv b" and "n \<le> length (Data b)"
  obtains b' where "ReadBytes b n = Some (take n (Data b), b')" "bb_inv b'"
    "Data b' = drop n (Data b)" "bb_order b' = bb_order b"
proof -
  from assms have "ReadBytes b n \<noteq> None" by (simp add: ReadBytes_None)
  then obtain v b' where r: "ReadBytes b n = Some (v, b')" by auto
  from ReadBytes_SomeE [OF r assms(1)] r that show thesis by simp
qed

lemma ReadString_spec: "ReadString b val n =
    map_option (\<lambda>(v, b'). (val @ v, b')) (ReadBytes b n)"
  by (simp add: ReadString_def ReadBytes_def)

section \<open>Network-order buffers\<close>

text \<open>
  \<open>net_buf b xs\<close>: the buffer is well formed, in network order, and \<open>xs\<close> is what is
  left to read. Reads and writes refine taking bytes off \<open>xs\<close> and appending to it.
\<close>

definition net_buf :: "byte_buffer \<Rightarrow> byte list \<Rightarrow> bool" where
  "net_buf b xs \<longleftrightarrow> bb_inv b \<and> bb_order b = ORDER_NETWORK \<and> Data b = xs"

lemma net_buf_new [simp]: "net_buf (ByteBuffer_new ORDER_NETWORK) []"
  by (simp add: net_buf_def bb_simps)

lemma net_buf_of [simp]: "net_buf (ByteBuffer_of bs) bs"
  by (simp add: net_buf_def bb_simps)

lemma net_buf_Length: "net_buf b xs \<Longrightarrow> Length b = length xs"
  by (auto simp: net_buf_def Data_length)

lemma net_buf_Data: "net_buf b xs \<Longrightarrow> Data b = xs"
  by (simp add: net_buf_def)

lemma net_buf_WriteBytes: "net_buf b xs \<Longrightarrow> net_buf (WriteBytes b ys) (xs @ ys)"
  using WriteBytes_spec [of b ys] by (simp add: net_buf_def)

lemma net_buf_WriteString: "net_buf b xs \<Longrightarrow> net_buf (WriteString b ys) (xs @ ys)"
  by (simp add: WriteString_def net_buf_WriteBytes)

lemma net_buf_ReadBytes_short: "net_buf b xs \<Longrightarrow> length xs < n \<Longrightarrow> ReadBytes b n = None"
  by (auto simp: net_buf_def ReadBytes_None)

lemma net_buf_ReadBytes:
  assumes "net_buf b xs" and "n \<le> length xs"
  shows "\<exists>b'. ReadBytes b n = Some (take n xs, b') \<and> net_buf b' (drop n xs)"
proof -
  from assms obtain b' where "ReadBytes b n = Some (take n (Data b), b')" "bb_inv b'"
    "Data b' = drop n (Data b)" "bb_order b' = bb_order b"
    by (auto simp: net_buf_def intro: ReadBytes_Some)
  with assms show ?thesis by (auto simp: net_buf_def)
qed

lemma net_buf_ReadString:
  assumes "net_buf b xs" and "n \<le> length xs"
  shows "\<exists>b'. ReadString b val n = Some (val @ take n xs, b') \<and> net_buf b' (drop n xs)"
  using net_buf_ReadBytes [OF assms] by (auto simp: ReadString_spec)

lemma net_buf_ReadString_short:
  "net_buf b xs \<Longrightarrow> length xs < n \<Longrightarrow> ReadString b val n = None"
  by (simp add: ReadString_spec net_buf_ReadBytes_short)

lemma net_buf_Consume:
  assumes "net_buf b xs"
  shows "Consume b n = (False, b) \<and> length xs < n \<or>
    (\<exists>b'. Consume b n = (True, b') \<and> n \<le> length xs \<and> net_buf b' (drop n xs))"
  using assms
  by (auto simp: net_buf_def Consume_def Length_def Data_def bb_inv_def mem_read_drop
      length_mem_read)

section \<open>Integer fields of a buffer\<close>

text \<open>
  What a reader and a writer of one kind of integer field promise to the message formats
  built on the buffer. \<open>ok\<close> restricts the values that survive the trip (24-bit fields).
\<close>

locale buf_field =
  fixes wr :: "byte_buffer \<Rightarrow> 'v \<Rightarrow> byte_buffer"
    and rd :: "byte_buffer \<Rightarrow> ('v \<times> byte_buffer) option"
    and enc :: "'v \<Rightarrow> byte list" and dec :: "byte list \<Rightarrow> 'v" and width :: nat
    and ok :: "'v \<Rightarrow> bool"
  assumes wr_net: "net_buf b xs \<Longrightarrow> net_buf (wr b v) (xs @ enc v)"
    and rd_net: "net_buf b xs \<Longrightarrow> width \<le> length xs \<Longrightarrow>
      \<exists>b'. rd b = Some (dec xs, b') \<and> net_buf b' (drop width xs)"
    and rd_short: "net_buf b xs \<Longrightarrow> length xs < width \<Longrightarrow> rd b = None"
    and enc_width: "length (enc v) = width"
    and dec_enc: "ok v \<Longrightarrow> dec (enc v @ rest) = v"
begin

lemma rd_enc: "net_buf b (enc v @ rest) \<Longrightarrow> ok v \<Longrightarrow>
    \<exists>b'. rd b = Some (v, b') \<and> net_buf b' rest"
  using rd_net [of b "enc v @ rest"] by (simp add: enc_width dec_enc)

lemma rd_wr: "net_buf b [] \<Longrightarrow> ok v \<Longrightarrow> \<exists>b'. rd (wr b v) = Some (v, b') \<and> net_buf b' []"
  using rd_enc [of "wr b v" v "[]"] wr_net [of b "[]" v] by simp

lemma rd_None_iff: "net_buf b xs \<Longrightarrow> rd b = None \<longleftrightarrow> length xs < width"
  using rd_net [of b xs] rd_short [of b xs] by (cases "length xs < width") auto

lemma rd_SomeD:
  assumes "net_buf b xs" and "rd b = Some (v, b')"
  shows "width \<le> length xs" "v = dec xs" "net_buf b' (drop width xs)"
proof -
  show w: "width \<le> length xs" using rd_None_iff [OF assms(1)] assms(2) by auto
  show "v = dec xs" "net_buf b' (drop width xs)" using rd_net [OF assms(1) w] assms(2) by auto
qed

lemma wr_all: "net_buf b xs \<Longrightarrow> net_buf (foldl wr b vs) (xs @ concat (map enc vs))"
proof (induction vs arbitrary: b xs)
  case (Cons v vs)
  from Cons.IH [OF wr_net [OF Cons.prems]] show ?case by simp
qed simp

lemma length_enc_all: "length (concat (map enc vs)) = width * length vs"
  by (induction vs) (simp_all add: enc_width)

end

interpretation f8: buf_field WriteUInt8 ReadUInt8 "\<lambda>v. [v]" hd 1 "\<lambda>_. True"
proof unfold_locales
  fix b and xs :: "byte list"
  show "net_buf (WriteUInt8 b v) (xs @ [v])" if "net_buf b xs" for v
    using that by (simp add: WriteUInt8_def net_buf_WriteBytes)
  show "\<exists>b'. ReadUInt8 b = Some (hd xs, b') \<and> net_buf b' (drop 1 xs)"
    if "net_buf b xs" "1 \<le> length xs"
    using net_buf_ReadBytes [OF that] that(2)
    by (cases xs) (auto simp: ReadUInt8_def Get8_def)
qed (simp_all add: ReadUInt8_def net_buf_ReadBytes_short)

lemma net_order: "net_buf b xs \<Longrightarrow> bb_order b = ORDER_NETWORK"
  by (simp add: net_buf_def)

interpretation f16: buf_field WriteUInt16 ReadUInt16 SetBE16 GetBE16 2 "\<lambda>_. True"
proof unfold_locales
  fix b and xs :: "byte list"
  show "net_buf (WriteUInt16 b v) (xs @ SetBE16 v)" if "net_buf b xs" for v
    using that by (simp add: WriteUInt16_def net_buf_WriteBytes net_order host_store_network)
  show "\<exists>b'. ReadUInt16 b = Some (GetBE16 xs, b') \<and> net_buf b' (drop 2 xs)"
    if "net_buf b xs" "2 \<le> length xs"
    using net_buf_ReadBytes [OF that] that
    by (auto simp: ReadUInt16_def net_order host_load_network be16.dec_take)
qed (simp_all add: ReadUInt16_def net_buf_ReadBytes_short codec_simps)

interpretation f32: buf_field WriteUInt32 ReadUInt32 SetBE32 GetBE32 4 "\<lambda>_. True"
proof unfold_locales
  fix b and xs :: "byte list"
  show "net_buf (WriteUInt32 b v) (xs @ SetBE32 v)" if "net_buf b xs" for v
    using that by (simp add: WriteUInt32_def net_buf_WriteBytes net_order host_store_network)
  show "\<exists>b'. ReadUInt32 b = Some (GetBE32 xs, b') \<and> net_buf b' (drop 4 xs)"
    if "net_buf b xs" "4 \<le> length xs"
    using net_buf_ReadBytes [OF that] that
    by (auto simp: ReadUInt32_def net_order host_load_network be32.dec_take)
qed (simp_all add: ReadUInt32_def net_buf_ReadBytes_short codec_simps)

interpretation f64: buf_field WriteUInt64 ReadUInt64 SetBE64 GetBE64 8 "\<lambda>_. True"
proof unfold_locales
  fix b and xs :: "byte list"
  show "net_buf (WriteUInt64 b v) (xs @ SetBE64 v)" if "net_buf b xs" for v
    using that by (simp add: WriteUInt64_def net_buf_WriteBytes net_order host_store_network)
  show "\<exists>b'. ReadUInt64 b = Some (GetBE64 xs, b') \<and> net_buf b' (drop 8 xs)"
    if "net_buf b xs" "8 \<le> length xs"
    using net_buf_ReadBytes [OF that] that
    by (auto simp: ReadUInt64_def net_order host_load_network be64.dec_take)
qed (simp_all add: ReadUInt64_def net_buf_ReadBytes_short codec_simps)

text \<open>24-bit fields keep the low three bytes of the integer.\<close>

lemma SetBE32_top_zero:
  assumes "v < 2 ^ 24"
  shows "SetBE32 v = 0 # drop 1 (SetBE32 v)"
proof -
  have "drop_bit 24 v = 0" using assms by (simp add: drop_bit_eq_div div_word_less)
  then show ?thesis by (simp add: SetBE32_def)
qed

interpretation f24: buf_field WriteUInt24 ReadUInt24 "\<lambda>v. drop 1 (SetBE32 v)"
  "\<lambda>xs. GetBE32 (0 # xs)" 3 "\<lambda>v. v < 2 ^ 24"
proof unfold_locales
  fix b and xs :: "byte list"
  show "net_buf (WriteUInt24 b v) (xs @ drop 1 (SetBE32 v))" if "net_buf b xs" for v
    using net_buf_WriteBytes [OF that, of "drop 1 (SetBE32 v)"] that
    by (simp add: WriteUInt24_def net_order host_store_network mem_read_def codec_simps)
  show "\<exists>b'. ReadUInt24 b = Some (GetBE32 (0 # xs), b') \<and> net_buf b' (drop 3 xs)"
    if "net_buf b xs" "3 \<le> length xs"
    using net_buf_ReadBytes [OF that] that be32.dec_take [of "0 # xs"]
    by (auto simp: ReadUInt24_def net_order host_load_network)
  show "length (drop 1 (SetBE32 v)) = 3" for v by (simp add: codec_simps)
  show "GetBE32 (0 # drop 1 (SetBE32 v) @ rest) = v" if "v < 2 ^ 24" for v rest
    using be32.dec_enc [of v rest] SetBE32_top_zero [OF that] by (metis append_Cons)
qed (simp add: ReadUInt24_def net_buf_ReadBytes_short)

section \<open>Properties of the buffer\<close>

text \<open>
  A remembered read position, restored while the version is unchanged, gives back what was
  unread when it was taken, whatever was read or consumed in between: such operations change
  only \<open>bb_start\<close>.
\<close>

definition same_storage :: "byte_buffer \<Rightarrow> byte_buffer \<Rightarrow> bool" where
  "same_storage b b' \<longleftrightarrow> bb_bytes b' = bb_bytes b \<and> bb_end b' = bb_end b \<and>
     bb_version b' = bb_version b \<and> bb_size b' = bb_size b \<and> bb_order b' = bb_order b"

lemma same_storage_trans: "same_storage a b \<Longrightarrow> same_storage b c \<Longrightarrow> same_storage a c"
  by (simp add: same_storage_def)

lemma ReadBytes_storage: "ReadBytes b n = Some (v, b') \<Longrightarrow> same_storage b b'"
  by (auto simp: ReadBytes_def same_storage_def split: if_splits)

lemma Consume_storage: "same_storage b (snd (Consume b n))"
  by (simp add: Consume_def same_storage_def)

lemma restore_position:
  "same_storage b b' \<Longrightarrow> SetReadPosition b' (GetReadPosition b) = (True, b)"
  by (simp add: SetReadPosition_def GetReadPosition_def same_storage_def)

text \<open>
  Reading and writing: \<^verbatim>\<open>WriteBytes\<close> always succeeds, growing or compacting the storage
  as needed, keeps the buffer well formed and appends exactly the given bytes to the unread data;
  reading them back after the data in front of them returns them unchanged.
\<close>

theorem write_then_read:
  assumes "bb_inv b"
  shows "bb_inv (WriteBytes b val) \<and> Data (WriteBytes b val) = Data b @ val \<and>
    (\<exists>b1 b2. ReadBytes (WriteBytes b val) (Length b) = Some (Data b, b1) \<and>
       ReadBytes b1 (length val) = Some (val, b2) \<and> Data b2 = [] \<and> bb_inv b2)"
proof -
  let ?w = "WriteBytes b val"
  have w: "bb_inv ?w" "Data ?w = Data b @ val" using WriteBytes_spec [OF assms] by auto
  have len: "length (Data b) = Length b" by (rule Data_length [OF assms])
  obtain b1 where b1: "ReadBytes ?w (Length b) = Some (Data b, b1)" "bb_inv b1" "Data b1 = val"
    using ReadBytes_Some [OF w(1), of "Length b"] w(2) len by auto
  obtain b2 where "ReadBytes b1 (length val) = Some (val, b2)" "bb_inv b2" "Data b2 = []"
    using ReadBytes_Some [OF b1(2), of "length val"] b1(3) by auto
  with w b1 show ?thesis by auto
qed

theorem write_then_read_witness:
  "bb_inv (ByteBuffer_of [7]) \<and>
   Data (WriteBytes (ByteBuffer_of [7]) [1, 2]) = [7, 1, 2]"
  using write_then_read [of "ByteBuffer_of [7]" "[1, 2]"] by (simp add: bb_simps)

text \<open>
  A network-order buffer carries every 8-, 16-, 32- and 64-bit value, and every 24-bit value
  below \<open>2^24\<close>: a sequence of one write of each, read back in the same order, returns the
  values and leaves the buffer empty.
\<close>

theorem uint_roundtrip:
  assumes "v24 < 2 ^ 24"
  shows "\<exists>b1 b2 b3 b4 b5.
    (let b = WriteUInt64 (WriteUInt32 (WriteUInt24 (WriteUInt16 (WriteUInt8
               (ByteBuffer_new ORDER_NETWORK) v8) v16) v24) v32) v64
     in ReadUInt8 b = Some (v8, b1) \<and> ReadUInt16 b1 = Some (v16, b2) \<and>
        ReadUInt24 b2 = Some (v24, b3) \<and> ReadUInt32 b3 = Some (v32, b4) \<and>
        ReadUInt64 b4 = Some (v64, b5) \<and> Length b5 = 0)"
proof -
  let ?b = "WriteUInt64 (WriteUInt32 (WriteUInt24 (WriteUInt16 (WriteUInt8
     (ByteBuffer_new ORDER_NETWORK) v8) v16) v24) v32) v64"
  have "net_buf ?b ([] @ [v8] @ SetBE16 v16 @ drop 1 (SetBE32 v24) @ SetBE32 v32 @ SetBE64 v64 @ [])"
    using f64.wr_net [OF f32.wr_net [OF f24.wr_net [OF f16.wr_net [OF f8.wr_net [OF net_buf_new]]]]]
    by simp
  then obtain b1 where 1: "ReadUInt8 ?b = Some (v8, b1)"
      "net_buf b1 (SetBE16 v16 @ drop 1 (SetBE32 v24) @ SetBE32 v32 @ SetBE64 v64 @ [])"
    using f8.rd_enc [of ?b v8] by auto
  obtain b2 where 2: "ReadUInt16 b1 = Some (v16, b2)"
      "net_buf b2 (drop 1 (SetBE32 v24) @ SetBE32 v32 @ SetBE64 v64 @ [])"
    using f16.rd_enc [OF 1(2)] by auto
  obtain b3 where 3: "ReadUInt24 b2 = Some (v24, b3)" "net_buf b3 (SetBE32 v32 @ SetBE64 v64 @ [])"
    using f24.rd_enc [OF 2(2) assms] by auto
  obtain b4 where 4: "ReadUInt32 b3 = Some (v32, b4)" "net_buf b4 (SetBE64 v64 @ [])"
    using f32.rd_enc [OF 3(2)] by auto
  obtain b5 where 5: "ReadUInt64 b4 = Some (v64, b5)" "net_buf b5 []"
    using f64.rd_enc [OF 4(2)] by auto
  from 1(1) 2(1) 3(1) 4(1) 5(1) net_buf_Length [OF 5(2)] show ?thesis by auto
qed

theorem uint_roundtrip_witness:
  "(0x123456 :: u32) < 2 ^ 24 \<and> (\<exists>b1 b2 b3 b4 b5.
    (let b = WriteUInt64 (WriteUInt32 (WriteUInt24 (WriteUInt16 (WriteUInt8
               (ByteBuffer_new ORDER_NETWORK) 1) 2) 0x123456) 4) 5
     in ReadUInt8 b = Some (1, b1) \<and> ReadUInt16 b1 = Some (2, b2) \<and>
        ReadUInt24 b2 = Some (0x123456, b3) \<and> ReadUInt32 b3 = Some (4, b4) \<and>
        ReadUInt64 b4 = Some (5, b5) \<and> Length b5 = 0))"
  using uint_roundtrip [of "0x123456" 1 2 4 5] by simp

text \<open>
  Read positions: a position taken with \<^verbatim>\<open>GetReadPosition\<close> and restored after any
  successful read and any \<^verbatim>\<open>Consume\<close> gives the buffer back exactly as it was; after a
  \<^verbatim>\<open>Resize\<close> or \<^verbatim>\<open>Clear\<close> the restore is refused and changes nothing.
\<close>

theorem read_position_roundtrip:
  assumes "ReadBytes b n = Some (v, b1)"
  shows "SetReadPosition (snd (Consume b1 k)) (GetReadPosition b) = (True, b) \<and>
    SetReadPosition (Resize b1 sz) (GetReadPosition b) = (False, Resize b1 sz) \<and>
    SetReadPosition (Clear b1) (GetReadPosition b) = (False, Clear b1)"
proof -
  have s: "same_storage b b1" by (rule ReadBytes_storage [OF assms])
  have "SetReadPosition (snd (Consume b1 k)) (GetReadPosition b) = (True, b)"
    by (rule restore_position [OF same_storage_trans [OF s Consume_storage]])
  with s show ?thesis
    by (simp add: SetReadPosition_def GetReadPosition_def Resize_def Clear_def same_storage_def
        Let_def)
qed

theorem read_position_roundtrip_witness:
  "SetReadPosition (snd (Consume (snd (the (ReadBytes (ByteBuffer_of [1, 2, 3]) 1))) 1))
     (GetReadPosition (ByteBuffer_of [1, 2, 3])) = (True, ByteBuffer_of [1, 2, 3])"
  using read_position_roundtrip [of "ByteBuffer_of [1, 2, 3]" 1 "[1]"
    "snd (the (ReadBytes (ByteBuffer_of [1, 2, 3]) 1))" 1 0]
  by (simp add: ReadBytes_def ByteBuffer_of_def Construct_def Length_def mem_read_def
      mem_write_def)

text \<open>
  The header says that \<^verbatim>\<open>Shift\<close> invalidates remembered positions; the code does not
  change the version, so after a shift an old position is still accepted, and on this buffer
  restoring it puts the read position behind the end of the data.
\<close>

theorem shift_keeps_position_valid:
  "\<exists>b. bb_inv b \<and> (let b1 = snd (Consume b 3);
       (ok, b2) = SetReadPosition (Shift b1 0) (GetReadPosition b1)
     in bb_inv (Shift b1 0) \<and> ok \<and> \<not> bb_inv b2)"
  by (rule exI [of _ "ByteBuffer_of [1, 2, 3, 4]"])
    (simp add: SetReadPosition_def GetReadPosition_def Consume_def Shift_def ByteBuffer_of_def
      Construct_def bb_inv_def Length_def mem_read_def mem_write_def Let_def)

end
