(* ===== verification/Crc32.thy ===== *)
theory Crc32
  imports Prelude
begin

text \<open>
  \<^verbatim>\<open>src/base/crc32.cc\<close>: the table-driven CRC-32 of the STUN FINGERPRINT attribute, and
  its equivalence with the bit-at-a-time definition of RFC 1952.
\<close>

definition kCrc32Polynomial :: u32 where
  "kCrc32Polynomial = 0xEDB88320"

text \<open>One iteration of the inner loop of the table initialisation.\<close>

definition crc32_step :: "u32 \<Rightarrow> u32" where
  "crc32_step c = (if c AND 1 \<noteq> 0 then kCrc32Polynomial XOR drop_bit 1 c else drop_bit 1 c)"

fun crc32_steps :: "nat \<Rightarrow> u32 \<Rightarrow> u32" where
  "crc32_steps 0 c = c"
| "crc32_steps (Suc n) c = crc32_steps n (crc32_step c)"

text \<open>The static table starts as zeros and is filled on first use.\<close>

definition EnsureCrc32TableInited :: "u32 list \<Rightarrow> u32 list" where
  "EnsureCrc32TableInited t =
     (if t ! (length t - 1) \<noteq> 0 then t
      else map (\<lambda>i. crc32_steps 8 (of_nat i)) [0..<length t])"

definition kCrc32Table :: "u32 list" where
  "kCrc32Table = EnsureCrc32TableInited (replicate 256 0)"

definition crc32_byte :: "u32 \<Rightarrow> byte \<Rightarrow> u32" where
  "crc32_byte c u = (kCrc32Table ! unat ((c XOR ucast u) AND 0xFF)) XOR drop_bit 8 c"

definition UpdateCrc32 :: "u32 \<Rightarrow> byte list \<Rightarrow> u32" where
  "UpdateCrc32 start buf = foldl crc32_byte (start XOR 0xFFFFFFFF) buf XOR 0xFFFFFFFF"

definition ComputeCrc32 :: "byte list \<Rightarrow> u32" where
  "ComputeCrc32 buf = UpdateCrc32 0 buf"

text \<open>The reference: every bit of every byte is shifted through the register.\<close>

definition crc32_ref :: "u32 \<Rightarrow> byte list \<Rightarrow> u32" where
  "crc32_ref start buf =
     foldl (\<lambda>c u. crc32_steps 8 (c XOR ucast u)) (start XOR 0xFFFFFFFF) buf XOR 0xFFFFFFFF"

section \<open>The table computes eight steps\<close>

lemma and1_bit: "(c AND 1 \<noteq> (0 :: u32)) = bit c 0"
  by (simp add: and_one_eq bit_0 odd_iff_mod_2_eq_one mod2_eq_if)

lemma crc32_step_xor: "crc32_step (a XOR b) = crc32_step a XOR crc32_step b"
  by (auto simp: crc32_step_def and1_bit bit_xor_iff drop_bit_xor xor.assoc xor.left_commute)

lemma crc32_steps_xor: "crc32_steps n (a XOR b) = crc32_steps n a XOR crc32_steps n b"
  by (induction n arbitrary: a b) (simp_all add: crc32_step_xor)

text \<open>Where the low bits are zero the steps only shift.\<close>

lemma crc32_steps_shift: "(\<And>k. k < n \<Longrightarrow> \<not> bit c k) \<Longrightarrow> crc32_steps n c = drop_bit n c"
proof (induction n arbitrary: c)
  case (Suc n)
  have "\<not> bit c 0" using Suc.prems by blast
  then have "crc32_step c = drop_bit 1 c" by (simp add: crc32_step_def and1_bit)
  moreover have "crc32_steps n (drop_bit 1 c) = drop_bit n (drop_bit 1 c)"
    by (rule Suc.IH) (use Suc.prems in \<open>simp add: bit_drop_bit_eq\<close>)
  ultimately show ?case by simp
qed simp

lemma low_high_split: "c = (c AND 0xFF) XOR (c AND NOT (0xFF :: u32))"
  by (rule bit_word_eqI) (auto simp: bit_simps)

lemma bit_FF: "bit (0xFF :: u32) n = (n < 8)"
proof -
  have e: "(0xFF :: u32) = mask 8" by (simp add: mask_eq_exp_minus_1)
  show ?thesis unfolding e bit_mask_iff by auto
qed

lemma crc32_steps_8: "crc32_steps 8 c = crc32_steps 8 (c AND 0xFF) XOR drop_bit 8 c"
proof -
  have "crc32_steps 8 c = crc32_steps 8 (c AND 0xFF) XOR crc32_steps 8 (c AND NOT 0xFF)"
    by (subst low_high_split) (rule crc32_steps_xor)
  also have "crc32_steps 8 (c AND NOT 0xFF) = drop_bit 8 (c AND NOT 0xFF)"
    by (rule crc32_steps_shift) (simp only: bit_and_iff bit_not_iff bit_FF, simp)
  also have "drop_bit 8 (c AND NOT (0xFF :: u32)) = drop_bit 8 c"
    by (rule bit_word_eqI)
      (simp only: bit_drop_bit_eq comp_apply bit_and_iff bit_not_iff bit_FF,
        auto dest: bit_imp_le_length)
  finally show ?thesis .
qed

lemma kCrc32Table_nth: "i < 256 \<Longrightarrow> kCrc32Table ! i = crc32_steps 8 (of_nat i)"
  by (simp add: kCrc32Table_def EnsureCrc32TableInited_def)

lemma unat_low_byte: "unat ((c :: u32) AND 0xFF) < 256"
proof -
  have "unat (c AND 0xFF) \<le> unat (0xFF :: u32)"
    by (rule word_and_le1 [THEN word_le_nat_alt [THEN iffD1]])
  then show ?thesis by simp
qed

lemma crc32_byte_steps: "crc32_byte c u = crc32_steps 8 (c XOR ucast u)"
proof -
  have "drop_bit 8 (c XOR ucast u) = drop_bit 8 (c :: u32)"
    by (rule bit_word_eqI) (auto simp: bit_simps dest: bit_imp_le_length [of u])
  then show ?thesis
    unfolding crc32_byte_def
    by (subst crc32_steps_8) (simp add: kCrc32Table_nth unat_low_byte)
qed

text \<open>The lazy initialisation is idempotent: a filled table is recognised and kept.\<close>

lemma table_stays_inited: "EnsureCrc32TableInited kCrc32Table = kCrc32Table"
proof -
  have "length kCrc32Table = 256" by (simp add: kCrc32Table_def EnsureCrc32TableInited_def)
  moreover have "crc32_steps 8 255 \<noteq> 0"
    by code_simp
  ultimately show ?thesis
    by (simp add: EnsureCrc32TableInited_def [of kCrc32Table] kCrc32Table_nth)
qed

section \<open>Properties\<close>

text \<open>
  C40. The table-driven checksum equals the bit-serial CRC-32 of RFC 1952, and it is incremental as
  the header promises: updating with the result of an earlier update continues the checksum.
\<close>

theorem crc32_correct:
  "UpdateCrc32 start buf = crc32_ref start buf \<and>
   UpdateCrc32 (UpdateCrc32 start a) b = UpdateCrc32 start (a @ b)"
proof -
  have "crc32_byte = (\<lambda>c u. crc32_steps 8 (c XOR ucast u))"
    by (intro ext) (rule crc32_byte_steps)
  then show ?thesis by (simp add: UpdateCrc32_def crc32_ref_def xor.assoc)
qed

end
