(* ===== verification/MessageDigest.thy ===== *)
theory MessageDigest
  imports Prelude
begin

text \<open>
  \<^verbatim>\<open>ComputeDigest\<close> and \<^verbatim>\<open>ComputeHmac\<close> of \<^verbatim>\<open>src/base/messagedigest.cc\<close>.
  \<^verbatim>\<open>MessageDigest\<close> is an abstract class, implemented by OpenSSL or by the classes of the
  library; a digest object is a record with its output size and its hash function, and the bytes
  given to \<^verbatim>\<open>Update\<close> since the last \<^verbatim>\<open>Finish\<close> are hashed together.
\<close>

record message_digest =
  dg_Size :: nat
  dg_hash :: "byte list \<Rightarrow> byte list"

definition kBlockSize :: nat where
  "kBlockSize = 64"

text \<open>The returned bytes are what is written to \<^verbatim>\<open>output\<close>; their number is the return
  value, 0 if the output buffer is too small.\<close>

definition dg_Finish :: "message_digest \<Rightarrow> byte list \<Rightarrow> nat \<Rightarrow> byte list" where
  "dg_Finish dg updates out_len = (if out_len < dg_Size dg then [] else dg_hash dg updates)"

definition ComputeDigest :: "message_digest \<Rightarrow> byte list \<Rightarrow> nat \<Rightarrow> byte list" where
  "ComputeDigest dg input out_len = dg_Finish dg input out_len"

definition ComputeHmac :: "message_digest \<Rightarrow> byte list \<Rightarrow> byte list \<Rightarrow> nat \<Rightarrow> byte list" where
  "ComputeHmac dg key input out_len =
     (let block_len = kBlockSize in
      if dg_Size dg > 32 then []
      else
        let new_key = (if length key > block_len
              then ComputeDigest dg key block_len @ replicate (block_len - dg_Size dg) 0
              else key @ replicate (block_len - length key) 0);
            o_pad = map (\<lambda>i. 0x5c XOR (new_key ! i)) [0..<block_len];
            i_pad = map (\<lambda>i. 0x36 XOR (new_key ! i)) [0..<block_len];
            inner = dg_Finish dg (i_pad @ input) (dg_Size dg)
        in dg_Finish dg (o_pad @ inner) out_len)"

text \<open>The documented contract of a digest: \<^verbatim>\<open>Finish\<close> writes \<^verbatim>\<open>Size()\<close> bytes.\<close>

definition digest_ok :: "message_digest \<Rightarrow> bool" where
  "digest_ok dg \<longleftrightarrow> (\<forall>xs. length (dg_hash dg xs) = dg_Size dg)"

lemma length_ComputeHmac:
  "digest_ok dg \<Longrightarrow> dg_Size dg \<le> 32 \<Longrightarrow> dg_Size dg \<le> n \<Longrightarrow>
     length (ComputeHmac dg key input n) = dg_Size dg"
  by (simp add: ComputeHmac_def dg_Finish_def digest_ok_def Let_def)

lemma map_xor_key: "length k = n \<Longrightarrow> map (\<lambda>i. c XOR (k ! i)) [0..<n] = map ((XOR) c) k"
  by (rule nth_equalityI) auto

text \<open>
  \<^verbatim>\<open>ComputeHmac\<close> is the HMAC of RFC 2104 for every digest of at most 32 bytes: with the
  key hashed when it is longer than a block and padded with zeros to a block, the result is
  \<open>H(K xor opad, H(K xor ipad, text))\<close>; larger digests are refused with an empty result.
\<close>

theorem hmac_rfc2104:
  assumes "digest_ok dg"
  shows "ComputeHmac dg key input (dg_Size dg) =
    (if dg_Size dg > 32 then []
     else let k = (if length key > 64 then dg_hash dg key else key);
              K = k @ replicate (64 - length k) 0
          in dg_hash dg (map ((XOR) 0x5c) K @ dg_hash dg (map ((XOR) 0x36) K @ input)))"
proof -
  have "length (dg_hash dg key @ replicate (64 - dg_Size dg) 0) = 64" if "dg_Size dg \<le> 32"
    using assms that by (simp add: digest_ok_def)
  moreover have "length (key @ replicate (64 - length key) 0) = 64" if "\<not> 64 < length key"
    using that by simp
  ultimately show ?thesis
    using assms
    by (simp add: ComputeHmac_def dg_Finish_def ComputeDigest_def kBlockSize_def digest_ok_def
        map_xor_key Let_def)
qed

theorem hmac_rfc2104_witness:
  "digest_ok \<lparr>dg_Size = 1, dg_hash = \<lambda>xs. [of_nat (length xs)]\<rparr> \<and>
   ComputeHmac \<lparr>dg_Size = 1, dg_hash = \<lambda>xs. [of_nat (length xs)]\<rparr> [1, 2] [3] 1 = [65]"
  using hmac_rfc2104 [of "\<lparr>dg_Size = 1, dg_hash = \<lambda>xs. [of_nat (length xs)]\<rparr>" "[1, 2]" "[3]"]
  by (simp add: digest_ok_def)

end
