(* ===== verification/StunMessage.thy ===== *)
theory StunMessage
  imports ByteBuffer Crc32 MessageDigest "HOL-Library.Monad_Syntax"
begin

text \<open>
  \<^verbatim>\<open>src/p2p/base/stun.cc\<close> and \<^verbatim>\<open>include/p2p/base/stun.h\<close>: STUN messages and their
  attributes. The attribute classes are the constructors of \<open>stun_value\<close>; an attribute also
  has the type and the length member of its base class. A message class (STUN, GTURN relay, TURN,
  ICE) is its virtual \<^verbatim>\<open>GetAttributeValueType\<close>, passed as the argument \<open>vt\<close>. The owner
  of an XOR address is the transaction id of the message it belongs to. A read that fails is
  \<open>None\<close>: the half-read message and buffer, which every caller drops, are not modelled.
\<close>

section \<open>Constants and types\<close>

definition STUN_ATTR_MAPPED_ADDRESS :: u16 where "STUN_ATTR_MAPPED_ADDRESS = 0x0001"
definition STUN_ATTR_USERNAME :: u16 where "STUN_ATTR_USERNAME = 0x0006"
definition STUN_ATTR_MESSAGE_INTEGRITY :: u16 where "STUN_ATTR_MESSAGE_INTEGRITY = 0x0008"
definition STUN_ATTR_ERROR_CODE :: u16 where "STUN_ATTR_ERROR_CODE = 0x0009"
definition STUN_ATTR_UNKNOWN_ATTRIBUTES :: u16 where "STUN_ATTR_UNKNOWN_ATTRIBUTES = 0x000a"
definition STUN_ATTR_REALM :: u16 where "STUN_ATTR_REALM = 0x0014"
definition STUN_ATTR_NONCE :: u16 where "STUN_ATTR_NONCE = 0x0015"
definition STUN_ATTR_XOR_MAPPED_ADDRESS :: u16 where "STUN_ATTR_XOR_MAPPED_ADDRESS = 0x0020"
definition STUN_ATTR_SOFTWARE :: u16 where "STUN_ATTR_SOFTWARE = 0x8022"
definition STUN_ATTR_ALTERNATE_SERVER :: u16 where "STUN_ATTR_ALTERNATE_SERVER = 0x8023"
definition STUN_ATTR_FINGERPRINT :: u16 where "STUN_ATTR_FINGERPRINT = 0x8028"
definition STUN_ATTR_RETRANSMIT_COUNT :: u16 where "STUN_ATTR_RETRANSMIT_COUNT = 0xFF00"

datatype stun_value_type = STUN_VALUE_UNKNOWN | STUN_VALUE_ADDRESS | STUN_VALUE_XOR_ADDRESS
  | STUN_VALUE_UINT32 | STUN_VALUE_UINT64 | STUN_VALUE_BYTE_STRING | STUN_VALUE_ERROR_CODE
  | STUN_VALUE_UINT16_LIST

definition kStunTypeMask :: u32 where "kStunTypeMask = 0x0110"
definition kStunAttributeHeaderSize :: nat where "kStunAttributeHeaderSize = 4"
definition kStunHeaderSize :: nat where "kStunHeaderSize = 20"
definition kStunTransactionIdOffset :: nat where "kStunTransactionIdOffset = 8"
definition kStunTransactionIdLength :: nat where "kStunTransactionIdLength = 12"
definition kStunMagicCookie :: u32 where "kStunMagicCookie = 0x2112A442"
definition kStunMagicCookieLength :: nat where "kStunMagicCookieLength = 4"
definition kStunLegacyTransactionIdLength :: nat where "kStunLegacyTransactionIdLength = 16"
definition kStunMessageIntegritySize :: nat where "kStunMessageIntegritySize = 20"
definition STUN_FINGERPRINT_XOR_VALUE :: u32 where "STUN_FINGERPRINT_XOR_VALUE = 0x5354554E"
definition EMPTY_TRANSACTION_ID :: "byte list" where "EMPTY_TRANSACTION_ID = replicate 16 0x30"

text \<open>An address as its bytes in memory, in network order.\<close>

datatype ip_address = AF_UNSPEC | AF_INET "byte list" | AF_INET6 "byte list"

record socket_address =
  sk_ip :: ip_address
  sk_port :: u16

datatype stun_value = Address socket_address | XorAddress socket_address
  | UInt32 u32 | UInt64 u64 | ByteString "byte list"
  | ErrorCode byte byte "byte list" \<comment> \<open>class, number, reason\<close>
  | UInt16List "u16 list"

record stun_attribute =
  at_type :: u16
  at_length :: u16
  at_value :: stun_value

record stun_message =
  sm_type :: u16
  sm_length :: u16
  sm_transaction_id :: "byte list"
  sm_attrs :: "stun_attribute list"

fun value_type :: "stun_value \<Rightarrow> stun_value_type" where
  "value_type (Address _) = STUN_VALUE_ADDRESS"
| "value_type (XorAddress _) = STUN_VALUE_XOR_ADDRESS"
| "value_type (UInt32 _) = STUN_VALUE_UINT32"
| "value_type (UInt64 _) = STUN_VALUE_UINT64"
| "value_type (ByteString _) = STUN_VALUE_BYTE_STRING"
| "value_type (ErrorCode _ _ _) = STUN_VALUE_ERROR_CODE"
| "value_type (UInt16List _) = STUN_VALUE_UINT16_LIST"

section \<open>Message classes\<close>

definition StunMessage_GetAttributeValueType :: "u16 \<Rightarrow> stun_value_type" where
  "StunMessage_GetAttributeValueType t =
     (if t = STUN_ATTR_MAPPED_ADDRESS then STUN_VALUE_ADDRESS
      else if t = STUN_ATTR_USERNAME then STUN_VALUE_BYTE_STRING
      else if t = STUN_ATTR_MESSAGE_INTEGRITY then STUN_VALUE_BYTE_STRING
      else if t = STUN_ATTR_ERROR_CODE then STUN_VALUE_ERROR_CODE
      else if t = STUN_ATTR_UNKNOWN_ATTRIBUTES then STUN_VALUE_UINT16_LIST
      else if t = STUN_ATTR_REALM then STUN_VALUE_BYTE_STRING
      else if t = STUN_ATTR_NONCE then STUN_VALUE_BYTE_STRING
      else if t = STUN_ATTR_XOR_MAPPED_ADDRESS then STUN_VALUE_XOR_ADDRESS
      else if t = STUN_ATTR_SOFTWARE then STUN_VALUE_BYTE_STRING
      else if t = STUN_ATTR_ALTERNATE_SERVER then STUN_VALUE_BYTE_STRING
      else if t = STUN_ATTR_FINGERPRINT then STUN_VALUE_UINT32
      else if t = STUN_ATTR_RETRANSMIT_COUNT then STUN_VALUE_UINT32
      else STUN_VALUE_UNKNOWN)"

definition RelayMessage_GetAttributeValueType :: "u16 \<Rightarrow> stun_value_type" where
  "RelayMessage_GetAttributeValueType t =
     (if t = 0x000d then STUN_VALUE_UINT32            \<comment> \<open>LIFETIME\<close>
      else if t = 0x000f then STUN_VALUE_BYTE_STRING  \<comment> \<open>MAGIC_COOKIE\<close>
      else if t = 0x0010 then STUN_VALUE_UINT32       \<comment> \<open>BANDWIDTH\<close>
      else if t = 0x0011 then STUN_VALUE_ADDRESS      \<comment> \<open>DESTINATION_ADDRESS\<close>
      else if t = 0x0012 then STUN_VALUE_ADDRESS      \<comment> \<open>SOURCE_ADDRESS2\<close>
      else if t = 0x0013 then STUN_VALUE_BYTE_STRING  \<comment> \<open>DATA\<close>
      else if t = 0x8001 then STUN_VALUE_UINT32       \<comment> \<open>OPTIONS\<close>
      else StunMessage_GetAttributeValueType t)"

definition TurnMessage_GetAttributeValueType :: "u16 \<Rightarrow> stun_value_type" where
  "TurnMessage_GetAttributeValueType t =
     (if t = 0x000C then STUN_VALUE_UINT32            \<comment> \<open>CHANNEL_NUMBER\<close>
      else if t = 0x000d then STUN_VALUE_UINT32       \<comment> \<open>TURN_LIFETIME\<close>
      else if t = 0x0012 then STUN_VALUE_XOR_ADDRESS  \<comment> \<open>XOR_PEER_ADDRESS\<close>
      else if t = 0x0013 then STUN_VALUE_BYTE_STRING  \<comment> \<open>DATA\<close>
      else if t = 0x0016 then STUN_VALUE_XOR_ADDRESS  \<comment> \<open>XOR_RELAYED_ADDRESS\<close>
      else if t = 0x0018 then STUN_VALUE_BYTE_STRING  \<comment> \<open>EVEN_PORT\<close>
      else if t = 0x0019 then STUN_VALUE_UINT32       \<comment> \<open>REQUESTED_TRANSPORT\<close>
      else if t = 0x001A then STUN_VALUE_BYTE_STRING  \<comment> \<open>DONT_FRAGMENT\<close>
      else if t = 0x0022 then STUN_VALUE_BYTE_STRING  \<comment> \<open>RESERVATION_TOKEN\<close>
      else StunMessage_GetAttributeValueType t)"

definition IceMessage_GetAttributeValueType :: "u16 \<Rightarrow> stun_value_type" where
  "IceMessage_GetAttributeValueType t =
     (if t = 0x0024 then STUN_VALUE_UINT32            \<comment> \<open>PRIORITY\<close>
      else if t = 0x0025 then STUN_VALUE_BYTE_STRING  \<comment> \<open>USE_CANDIDATE\<close>
      else if t = 0x8029 then STUN_VALUE_UINT64       \<comment> \<open>ICE_CONTROLLED\<close>
      else if t = 0x802A then STUN_VALUE_UINT64       \<comment> \<open>ICE_CONTROLLING\<close>
      else StunMessage_GetAttributeValueType t)"

section \<open>Attributes\<close>

subsection \<open>Padding\<close>

definition ConsumePadding :: "stun_attribute \<Rightarrow> byte_buffer \<Rightarrow> byte_buffer" where
  "ConsumePadding a buf =
     (let remainder = unat (at_length a) mod 4
      in if remainder > 0 then snd (Consume buf (4 - remainder)) else buf)"

definition WritePadding :: "stun_attribute \<Rightarrow> byte_buffer \<Rightarrow> byte_buffer" where
  "WritePadding a buf =
     (let remainder = unat (at_length a) mod 4
      in if remainder > 0 then WriteBytes buf (take (4 - remainder) (replicate 4 0)) else buf)"

subsection \<open>Addresses\<close>

fun family :: "ip_address \<Rightarrow> byte" where
  "family (AF_INET _) = 1"
| "family (AF_INET6 _) = 2"
| "family AF_UNSPEC = 0"

fun address_length :: "ip_address \<Rightarrow> u16" where \<comment> \<open>EnsureAddressLength\<close>
  "address_length (AF_INET _) = 8"
| "address_length (AF_INET6 _) = 20"
| "address_length AF_UNSPEC = 0"

definition StunAddressAttribute_Read ::
    "u16 \<Rightarrow> byte_buffer \<Rightarrow> (socket_address \<times> byte_buffer) option" where
  "StunAddressAttribute_Read len b =
     do { (dummy, b) \<leftarrow> ReadUInt8 b;
          (stun_family, b) \<leftarrow> ReadUInt8 b;
          (port, b) \<leftarrow> ReadUInt16 b;
          if stun_family = 1 then
            if len \<noteq> 8 then None
            else do { (v4addr, b) \<leftarrow> ReadBytes b 4;
                      Some (\<lparr>sk_ip = AF_INET v4addr, sk_port = port\<rparr>, b) }
          else if stun_family = 2 then
            if len \<noteq> 20 then None
            else do { (v6addr, b) \<leftarrow> ReadBytes b 16;
                      Some (\<lparr>sk_ip = AF_INET6 v6addr, sk_port = port\<rparr>, b) }
          else None }"

text \<open>The switch of both \<^verbatim>\<open>Write\<close> methods over the address family.\<close>

fun write_ip :: "byte_buffer \<Rightarrow> ip_address \<Rightarrow> byte_buffer" where
  "write_ip b (AF_INET v4addr) = WriteBytes b v4addr"
| "write_ip b (AF_INET6 v6addr) = WriteBytes b v6addr"
| "write_ip b AF_UNSPEC = b"

definition StunAddressAttribute_Write :: "socket_address \<Rightarrow> byte_buffer \<Rightarrow> bool \<times> byte_buffer" where
  "StunAddressAttribute_Write addr b =
     (if family (sk_ip addr) = 0 then (False, b)
      else
        let b = WriteUInt8 b 0;
            b = WriteUInt8 b (family (sk_ip addr));
            b = WriteUInt16 b (sk_port addr)
        in (True, write_ip b (sk_ip addr)))"

text \<open>The 32-bit exclusive-ors work on integers in network order, that is byte by byte.\<close>

definition xor_bytes :: "byte list \<Rightarrow> byte list \<Rightarrow> byte list" where
  "xor_bytes xs ys = map2 (XOR) xs ys"

fun GetXoredIP :: "byte list option \<Rightarrow> ip_address \<Rightarrow> ip_address" where
  "GetXoredIP (Some tid) (AF_INET v4addr) = AF_INET (xor_bytes v4addr (SetBE32 kStunMagicCookie))"
| "GetXoredIP (Some tid) (AF_INET6 v6addr) =
     (if length tid = kStunTransactionIdLength
      then AF_INET6 (xor_bytes v6addr (SetBE32 kStunMagicCookie @ tid))
      else AF_UNSPEC)"
| "GetXoredIP _ _ = AF_UNSPEC"

definition xor_port :: "u16 \<Rightarrow> u16" where
  "xor_port port = port XOR ucast (drop_bit 16 kStunMagicCookie)"

definition StunXorAddressAttribute_Read ::
    "byte list option \<Rightarrow> u16 \<Rightarrow> byte_buffer \<Rightarrow> (socket_address \<times> byte_buffer) option" where
  "StunXorAddressAttribute_Read owner len b =
     do { (addr, b) \<leftarrow> StunAddressAttribute_Read len b;
          let xoredport = xor_port (sk_port addr);
          let xored_ip = GetXoredIP owner (sk_ip addr);
          Some (\<lparr>sk_ip = xored_ip, sk_port = xoredport\<rparr>, b) }"

definition StunXorAddressAttribute_Write ::
    "byte list option \<Rightarrow> socket_address \<Rightarrow> byte_buffer \<Rightarrow> bool \<times> byte_buffer" where
  "StunXorAddressAttribute_Write owner addr b =
     (if family (sk_ip addr) = 0 then (False, b)
      else
        let xored_ip = GetXoredIP owner (sk_ip addr) in
        if xored_ip = AF_UNSPEC then (False, b)
        else
          let b = WriteUInt8 b 0;
              b = WriteUInt8 b (family (sk_ip addr));
              b = WriteUInt16 b (xor_port (sk_port addr))
          in (True, write_ip b xored_ip))"

subsection \<open>Error codes\<close>

definition error_code :: "byte \<Rightarrow> byte \<Rightarrow> int" where
  "error_code cls num = uint cls * 100 + uint num"

definition SetCode :: "int \<Rightarrow> byte \<times> byte" where
  "SetCode code = (word_of_int (code div 100), word_of_int (code mod 100))"

definition SetReason :: "stun_attribute \<Rightarrow> byte list \<Rightarrow> stun_attribute" where
  "SetReason a reason =
     (case at_value a of
        ErrorCode cls num _ \<Rightarrow> a\<lparr>at_length := 4 + of_nat (length reason),
                                  at_value := ErrorCode cls num reason\<rparr>
      | _ \<Rightarrow> a)"

definition StunErrorCodeAttribute_new :: "u16 \<Rightarrow> int \<Rightarrow> byte list \<Rightarrow> stun_attribute" where
  "StunErrorCodeAttribute_new type code reason =
     (let (cls, num) = SetCode code
      in SetReason \<lparr>at_type = type, at_length = 0, at_value = ErrorCode cls num []\<rparr> reason)"

subsection \<open>Constructors and setters of the other classes\<close>

definition StunAddressAttribute_new :: "u16 \<Rightarrow> socket_address \<Rightarrow> stun_attribute" where
  "StunAddressAttribute_new type addr =
     \<lparr>at_type = type, at_length = address_length (sk_ip addr), at_value = Address addr\<rparr>"

definition StunXorAddressAttribute_new :: "u16 \<Rightarrow> socket_address \<Rightarrow> stun_attribute" where
  "StunXorAddressAttribute_new type addr =
     \<lparr>at_type = type, at_length = address_length (sk_ip addr), at_value = XorAddress addr\<rparr>"

definition StunUInt32Attribute_new :: "u16 \<Rightarrow> u32 \<Rightarrow> stun_attribute" where
  "StunUInt32Attribute_new type value = \<lparr>at_type = type, at_length = 4, at_value = UInt32 value\<rparr>"

definition StunUInt64Attribute_new :: "u16 \<Rightarrow> u64 \<Rightarrow> stun_attribute" where
  "StunUInt64Attribute_new type value = \<lparr>at_type = type, at_length = 8, at_value = UInt64 value\<rparr>"

definition CopyBytes :: "stun_attribute \<Rightarrow> byte list \<Rightarrow> stun_attribute" where
  "CopyBytes a bytes = a\<lparr>at_value := ByteString bytes, at_length := of_nat (length bytes)\<rparr>"

definition StunByteStringAttribute_new :: "u16 \<Rightarrow> byte list \<Rightarrow> stun_attribute" where
  "StunByteStringAttribute_new type bytes =
     CopyBytes \<lparr>at_type = type, at_length = 0, at_value = ByteString []\<rparr> bytes"

definition AddType :: "stun_attribute \<Rightarrow> u16 \<Rightarrow> stun_attribute" where
  "AddType a value =
     (case at_value a of
        UInt16List ts \<Rightarrow> a\<lparr>at_value := UInt16List (ts @ [value]),
                           at_length := of_nat (length (ts @ [value]) * 2)\<rparr>
      | _ \<Rightarrow> a)"

definition CreateUnknownAttributes :: stun_attribute where
  "CreateUnknownAttributes =
     \<lparr>at_type = STUN_ATTR_UNKNOWN_ATTRIBUTES, at_length = 0, at_value = UInt16List []\<rparr>"

subsection \<open>Bits of a 32-bit attribute\<close>

definition GetBit :: "u32 \<Rightarrow> nat \<Rightarrow> bool" where
  "GetBit bits index = (drop_bit index bits AND 1 \<noteq> 0)"

definition SetBit :: "u32 \<Rightarrow> nat \<Rightarrow> bool \<Rightarrow> u32" where
  "SetBit bits index value =
     (bits AND NOT (push_bit index 1)) OR (if value then push_bit index 1 else 0)"

subsection \<open>Reading and writing an attribute body\<close>

fun read_uint16s :: "nat \<Rightarrow> byte_buffer \<Rightarrow> u16 list \<Rightarrow> (u16 list \<times> byte_buffer) option" where
  "read_uint16s 0 b attr_types = Some (attr_types, b)"
| "read_uint16s (Suc i) b attr_types =
     do { (attr, b) \<leftarrow> ReadUInt16 b; read_uint16s i b (attr_types @ [attr]) }"

fun attr_Read :: "byte list option \<Rightarrow> stun_attribute \<Rightarrow> byte_buffer \<Rightarrow>
    (stun_attribute \<times> byte_buffer) option" where
  "attr_Read owner a b =
     (case at_value a of
        Address _ \<Rightarrow>
          do { (addr, b) \<leftarrow> StunAddressAttribute_Read (at_length a) b;
               Some (a\<lparr>at_value := Address addr, at_length := address_length (sk_ip addr)\<rparr>, b) }
      | XorAddress _ \<Rightarrow>
          do { (addr, b) \<leftarrow> StunXorAddressAttribute_Read owner (at_length a) b;
               Some (a\<lparr>at_value := XorAddress addr, at_length := address_length (sk_ip addr)\<rparr>, b) }
      | UInt32 _ \<Rightarrow>
          if at_length a \<noteq> 4 then None
          else do { (bits, b) \<leftarrow> ReadUInt32 b; Some (a\<lparr>at_value := UInt32 bits\<rparr>, b) }
      | UInt64 _ \<Rightarrow>
          if at_length a \<noteq> 8 then None
          else do { (bits, b) \<leftarrow> ReadUInt64 b; Some (a\<lparr>at_value := UInt64 bits\<rparr>, b) }
      | ByteString _ \<Rightarrow>
          do { (bytes, b) \<leftarrow> ReadBytes b (unat (at_length a));
               Some (a\<lparr>at_value := ByteString bytes\<rparr>, ConsumePadding a b) }
      | ErrorCode _ _ reason \<Rightarrow>
          if at_length a < 4 then None
          else do { (val, b) \<leftarrow> ReadUInt32 b;
                    let cls = ucast (drop_bit 8 val AND 0x7);
                    let num = ucast (val AND 0xff);
                    (reason, b) \<leftarrow> ReadString b reason (unat (at_length a) - 4);
                    Some (a\<lparr>at_value := ErrorCode cls num reason\<rparr>, ConsumePadding a b) }
      | UInt16List attr_types \<Rightarrow>
          if unat (at_length a) mod 2 \<noteq> 0 then None
          else do { (attr_types, b) \<leftarrow> read_uint16s (unat (at_length a) div 2) b attr_types;
                    Some (a\<lparr>at_value := UInt16List attr_types\<rparr>, ConsumePadding a b) })"

definition error_code_word :: "byte \<Rightarrow> byte \<Rightarrow> u32" where \<comment> \<open>\<^verbatim>\<open>class_ << 8 | number_\<close>\<close>
  "error_code_word cls num = push_bit 8 (ucast cls) OR ucast num"

fun attr_Write :: "byte list option \<Rightarrow> stun_attribute \<Rightarrow> byte_buffer \<Rightarrow> bool \<times> byte_buffer" where
  "attr_Write owner a b =
     (case at_value a of
        Address addr \<Rightarrow> StunAddressAttribute_Write addr b
      | XorAddress addr \<Rightarrow> StunXorAddressAttribute_Write owner addr b
      | UInt32 bits \<Rightarrow> (True, WriteUInt32 b bits)
      | UInt64 bits \<Rightarrow> (True, WriteUInt64 b bits)
      | ByteString bytes \<Rightarrow> (True, WritePadding a (WriteBytes b (take (unat (at_length a)) bytes)))
      | ErrorCode cls num reason \<Rightarrow>
          (True, WritePadding a (WriteString (WriteUInt32 b (error_code_word cls num)) reason))
      | UInt16List attr_types \<Rightarrow> (True, WritePadding a (foldl WriteUInt16 b attr_types)))"

subsection \<open>Creation\<close>

fun StunAttribute_Create :: "stun_value_type \<Rightarrow> u16 \<Rightarrow> u16 \<Rightarrow> stun_attribute option" where
  "StunAttribute_Create STUN_VALUE_ADDRESS t len =
     Some \<lparr>at_type = t, at_length = len, at_value = Address \<lparr>sk_ip = AF_UNSPEC, sk_port = 0\<rparr>\<rparr>"
| "StunAttribute_Create STUN_VALUE_XOR_ADDRESS t len =
     Some \<lparr>at_type = t, at_length = len, at_value = XorAddress \<lparr>sk_ip = AF_UNSPEC, sk_port = 0\<rparr>\<rparr>"
| "StunAttribute_Create STUN_VALUE_UINT32 t len =
     Some \<lparr>at_type = t, at_length = 4, at_value = UInt32 0\<rparr>"
| "StunAttribute_Create STUN_VALUE_UINT64 t len =
     Some \<lparr>at_type = t, at_length = 8, at_value = UInt64 0\<rparr>"
| "StunAttribute_Create STUN_VALUE_BYTE_STRING t len =
     Some \<lparr>at_type = t, at_length = len, at_value = ByteString []\<rparr>"
| "StunAttribute_Create STUN_VALUE_ERROR_CODE t len =
     Some \<lparr>at_type = t, at_length = len, at_value = ErrorCode 0 0 []\<rparr>"
| "StunAttribute_Create STUN_VALUE_UINT16_LIST t len =
     Some \<lparr>at_type = t, at_length = len, at_value = UInt16List []\<rparr>"
| "StunAttribute_Create STUN_VALUE_UNKNOWN t len = None"

section \<open>Messages\<close>

definition IsValidTransactionId :: "byte list \<Rightarrow> bool" where
  "IsValidTransactionId tid \<longleftrightarrow> length tid = kStunTransactionIdLength \<or>
     length tid = kStunLegacyTransactionIdLength"

definition StunMessage_new :: stun_message where
  "StunMessage_new = \<lparr>sm_type = 0, sm_length = 0, sm_transaction_id = EMPTY_TRANSACTION_ID,
     sm_attrs = []\<rparr>"

definition IsLegacy :: "stun_message \<Rightarrow> bool" where
  "IsLegacy m = (length (sm_transaction_id m) = kStunLegacyTransactionIdLength)"

definition SetType :: "stun_message \<Rightarrow> int \<Rightarrow> stun_message" where
  "SetType m type = m\<lparr>sm_type := word_of_int type\<rparr>"

definition SetTransactionID :: "stun_message \<Rightarrow> byte list \<Rightarrow> bool \<times> stun_message" where
  "SetTransactionID m str =
     (if \<not> IsValidTransactionId str then (False, m) else (True, m\<lparr>sm_transaction_id := str\<rparr>))"

definition AddAttribute :: "(u16 \<Rightarrow> stun_value_type) \<Rightarrow> stun_message \<Rightarrow> stun_attribute \<Rightarrow>
    bool \<times> stun_message" where
  "AddAttribute vt m attr =
     (if value_type (at_value attr) \<noteq> vt (at_type attr) then (False, m)
      else
        let attr_length = unat (at_length attr);
            attr_length = (if attr_length mod 4 \<noteq> 0 then attr_length + (4 - attr_length mod 4)
                           else attr_length)
        in (True, m\<lparr>sm_attrs := sm_attrs m @ [attr],
                    sm_length := sm_length m + of_nat (attr_length + 4)\<rparr>))"

definition GetAttribute :: "stun_message \<Rightarrow> u16 \<Rightarrow> stun_attribute option" where
  "GetAttribute m type = find (\<lambda>a. at_type a = type) (sm_attrs m)"

definition GetAddress :: "stun_message \<Rightarrow> u16 \<Rightarrow> stun_attribute option" where
  "GetAddress m type =
     (if type = STUN_ATTR_MAPPED_ADDRESS then
        case GetAttribute m STUN_ATTR_MAPPED_ADDRESS of
          None \<Rightarrow> GetAttribute m STUN_ATTR_XOR_MAPPED_ADDRESS
        | Some a \<Rightarrow> Some a
      else GetAttribute m type)"

text \<open>The loop of \<^verbatim>\<open>Write\<close> over the attributes.\<close>

fun write_attrs :: "byte list option \<Rightarrow> stun_attribute list \<Rightarrow> byte_buffer \<Rightarrow> bool \<times> byte_buffer" where
  "write_attrs owner [] b = (True, b)"
| "write_attrs owner (a # as) b =
     (let b = WriteUInt16 b (at_type a);
          b = WriteUInt16 b (at_length a);
          (ok, b) = attr_Write owner a b
      in if \<not> ok then (False, b) else write_attrs owner as b)"

definition StunMessage_Write :: "stun_message \<Rightarrow> byte_buffer \<Rightarrow> bool \<times> byte_buffer" where
  "StunMessage_Write m b =
     (let b = WriteUInt16 b (sm_type m);
          b = WriteUInt16 b (sm_length m);
          b = (if \<not> IsLegacy m then WriteUInt32 b kStunMagicCookie else b);
          b = WriteString b (sm_transaction_id m)
      in write_attrs (Some (sm_transaction_id m)) (sm_attrs m) b)"

subsection \<open>Reading a message\<close>

text \<open>Skipping an attribute the message class does not know: the padded length is a
  \<^verbatim>\<open>uint16\<close> and wraps.\<close>

definition skip_length :: "u16 \<Rightarrow> u16" where
  "skip_length attr_length =
     (if attr_length mod 4 \<noteq> 0 then attr_length + (4 - attr_length mod 4) else attr_length)"

definition read_attribute :: "(u16 \<Rightarrow> stun_value_type) \<Rightarrow> byte list \<Rightarrow> byte_buffer \<Rightarrow>
    (stun_attribute option \<times> byte_buffer) option" where
  "read_attribute vt tid b =
     do { (attr_type, b) \<leftarrow> ReadUInt16 b;
          (attr_length, b) \<leftarrow> ReadUInt16 b;
          case StunAttribute_Create (vt attr_type) attr_type attr_length of
            None \<Rightarrow> (case Consume b (unat (skip_length attr_length)) of
                       (ok, b) \<Rightarrow> if ok then Some (None, b) else None)
          | Some attr \<Rightarrow>
              do { (attr, b) \<leftarrow> attr_Read (Some tid) attr b; Some (Some attr, b) } }"

text \<open>The loop over the attributes; each turn takes at least the attribute header off the
  buffer.\<close>

function read_attrs :: "(u16 \<Rightarrow> stun_value_type) \<Rightarrow> byte list \<Rightarrow> stun_attribute list \<Rightarrow>
    byte_buffer \<Rightarrow> (stun_attribute list \<times> byte_buffer) option" where
  "read_attrs vt tid attrs b =
     (if Length b > 0 then
        case read_attribute vt tid b of
          None \<Rightarrow> None
        | Some (None, b') \<Rightarrow> read_attrs vt tid attrs b'
        | Some (Some attr, b') \<Rightarrow> read_attrs vt tid (attrs @ [attr]) b'
      else Some (attrs, b))"
  by pat_completeness auto

lemma ReadBytes_Length: "ReadBytes b n = Some (v, b') \<Longrightarrow> Length b' + n = Length b"
  by (auto simp: ReadBytes_def Length_def split: if_splits)

lemma ReadUInt_Length:
  "ReadUInt8 b = Some (v8, b') \<Longrightarrow> Length b' + 1 = Length b"
  "ReadUInt16 b = Some (v16, b') \<Longrightarrow> Length b' + 2 = Length b"
  "ReadUInt32 b = Some (v32, b') \<Longrightarrow> Length b' + 4 = Length b"
  "ReadUInt64 b = Some (v64, b') \<Longrightarrow> Length b' + 8 = Length b"
  by (auto simp: ReadUInt8_def ReadUInt16_def ReadUInt32_def ReadUInt64_def Let_def
      dest!: ReadBytes_Length split: option.splits)

lemma ReadString_Length: "ReadString b s n = Some (v, b') \<Longrightarrow> Length b' + n = Length b"
  by (auto simp: ReadString_spec dest: ReadBytes_Length)

lemma Consume_Length: "Length (snd (Consume b n)) \<le> Length b"
  by (auto simp: Consume_def Length_def)

lemma Consume_ok_Length: "Consume b n = (ok, b') \<Longrightarrow> Length b' \<le> Length b"
  using Consume_Length [of b n] by simp

lemma ConsumePadding_Length: "Length (ConsumePadding a b) \<le> Length b"
  by (simp add: ConsumePadding_def Consume_Length Let_def)

lemma read_uint16s_Length:
  "read_uint16s n b ts = Some (ts', b') \<Longrightarrow> Length b' \<le> Length b"
  by (induction n b ts rule: read_uint16s.induct)
    (fastforce split: bind_splits dest: ReadUInt_Length)+

lemma StunAddressAttribute_Read_Length:
  "StunAddressAttribute_Read len b = Some (addr, b') \<Longrightarrow> Length b' \<le> Length b"
  by (fastforce simp: StunAddressAttribute_Read_def split: bind_splits if_splits
      dest!: ReadUInt_Length ReadBytes_Length)

lemmas attr_read_Length = ReadUInt_Length ReadBytes_Length ReadString_Length
  read_uint16s_Length StunAddressAttribute_Read_Length

lemma attr_Read_Length: "attr_Read owner a b = Some (a', b') \<Longrightarrow> Length b' \<le> Length b"
  by (auto simp: StunXorAddressAttribute_Read_def Let_def
      split: stun_value.splits bind_splits if_splits dest!: attr_read_Length
      intro!: order_trans [OF ConsumePadding_Length])

lemma read_attribute_Length:
  assumes "read_attribute vt tid b = Some (r, b')"
  shows "Length b' < Length b"
  using assms
  by (auto simp: read_attribute_def simp del: attr_Read.simps
      split: bind_splits option.splits if_splits prod.splits
      dest!: ReadUInt_Length attr_Read_Length Consume_ok_Length)

termination read_attrs
  by (relation "measure (\<lambda>(_, _, _, b). Length b)") (auto dest: read_attribute_Length)

declare read_attrs.simps [simp del]

definition StunMessage_Read :: "(u16 \<Rightarrow> stun_value_type) \<Rightarrow> byte_buffer \<Rightarrow>
    (stun_message \<times> byte_buffer) option" where
  "StunMessage_Read vt b =
     do { (type, b) \<leftarrow> ReadUInt16 b;
          if type AND 0x8000 \<noteq> 0 then None
          else do {
            (len, b) \<leftarrow> ReadUInt16 b;
            (magic_cookie, b) \<leftarrow> ReadString b [] kStunMagicCookieLength;
            (transaction_id, b) \<leftarrow> ReadString b [] kStunTransactionIdLength;
            let tid = (if NetworkToHost32 (GetLE32 magic_cookie) \<noteq> kStunMagicCookie
                       then magic_cookie @ transaction_id else transaction_id);
            if unat len \<noteq> Length b then None
            else do {
              (attrs, b) \<leftarrow> read_attrs vt tid [] b;
              Some (\<lparr>sm_type = type, sm_length = len, sm_transaction_id = tid,
                     sm_attrs = attrs\<rparr>, b) } } }"

section \<open>Message types\<close>

definition IsStunRequestType :: "int \<Rightarrow> bool" where
  "IsStunRequestType msg_type \<longleftrightarrow> msg_type AND uint kStunTypeMask = 0x000"

definition IsStunIndicationType :: "int \<Rightarrow> bool" where
  "IsStunIndicationType msg_type \<longleftrightarrow> msg_type AND uint kStunTypeMask = 0x010"

definition IsStunSuccessResponseType :: "int \<Rightarrow> bool" where
  "IsStunSuccessResponseType msg_type \<longleftrightarrow> msg_type AND uint kStunTypeMask = 0x100"

definition IsStunErrorResponseType :: "int \<Rightarrow> bool" where
  "IsStunErrorResponseType msg_type \<longleftrightarrow> msg_type AND uint kStunTypeMask = 0x110"

definition GetStunSuccessResponseType :: "int \<Rightarrow> int" where
  "GetStunSuccessResponseType req_type =
     (if IsStunRequestType req_type then req_type OR 0x100 else - 1)"

definition GetStunErrorResponseType :: "int \<Rightarrow> int" where
  "GetStunErrorResponseType req_type =
     (if IsStunRequestType req_type then req_type OR 0x110 else - 1)"

end
