(* ===== verification/Transition.thy ===== *)
theory Transition
  imports Prelude
begin

text \<open>
  Transition systems with partial steps. A component that is called from outside has a step
  function from a state and a call to the next state, \<open>None\<close> where the call has undefined
  behaviour, and a predicate for the calls its callers may make.
\<close>

inductive reachable :: "('s \<Rightarrow> bool) \<Rightarrow> ('s \<Rightarrow> 'c \<Rightarrow> bool) \<Rightarrow> ('s \<Rightarrow> 'c \<Rightarrow> 's option) \<Rightarrow> 's \<Rightarrow> bool"
  for init and permitted and step
  where
    reachable_init: "reachable init permitted step s" if "init s"
  | reachable_step: "reachable init permitted step s'"
      if "reachable init permitted step s" and "permitted s c" and "step s c = Some s'"

text \<open>A whole sequence of calls, each permitted in the state it is made in.\<close>

fun run_calls :: "('s \<Rightarrow> 'c \<Rightarrow> 's option) \<Rightarrow> 's \<Rightarrow> 'c list \<Rightarrow> 's option" where
  "run_calls step s [] = Some s"
| "run_calls step s (c # cs) = (case step s c of None \<Rightarrow> None | Some s' \<Rightarrow> run_calls step s' cs)"

fun permitted_calls :: "('s \<Rightarrow> 'c \<Rightarrow> bool) \<Rightarrow> ('s \<Rightarrow> 'c \<Rightarrow> 's option) \<Rightarrow> 's \<Rightarrow> 'c list \<Rightarrow> bool" where
  "permitted_calls permitted step s [] = True"
| "permitted_calls permitted step s (c # cs) = (permitted s c \<and>
     (case step s c of None \<Rightarrow> True | Some s' \<Rightarrow> permitted_calls permitted step s' cs))"

lemma reachable_run:
  "reachable init permitted step s \<Longrightarrow> permitted_calls permitted step s cs \<Longrightarrow>
    run_calls step s cs = Some s' \<Longrightarrow> reachable init permitted step s'"
proof (induction cs arbitrary: s)
  case (Cons c cs)
  then obtain u where u: "step s c = Some u" "run_calls step u cs = Some s'"
    by (auto split: option.splits)
  then have "reachable init permitted step u"
    using Cons.prems(1,2) by (auto intro: reachable_step)
  with Cons.IH u Cons.prems(2) show ?case by simp
qed simp

text \<open>The contract of a component: an invariant that holds at the start, and that makes every
  permitted call defined and is kept by it.\<close>

locale safe_system =
  fixes init :: "'s \<Rightarrow> bool" and permitted :: "'s \<Rightarrow> 'c \<Rightarrow> bool"
    and step :: "'s \<Rightarrow> 'c \<Rightarrow> 's option" and inv :: "'s \<Rightarrow> bool"
  assumes init_inv: "init s \<Longrightarrow> inv s"
    and step_safe: "inv s \<Longrightarrow> permitted s c \<Longrightarrow> \<exists>s'. step s c = Some s' \<and> inv s'"
begin

lemma reachable_inv: "reachable init permitted step s \<Longrightarrow> inv s"
proof (induction rule: reachable.induct)
  case (reachable_step s c s')
  with step_safe [of s c] show ?case by auto
qed (rule init_inv)

lemma reachable_defined:
  "reachable init permitted step s \<Longrightarrow> permitted s c \<Longrightarrow> \<exists>s'. step s c = Some s'"
  using reachable_inv step_safe by blast

lemma run_defined:
  "inv s \<Longrightarrow> permitted_calls permitted step s cs \<Longrightarrow> \<exists>s'. run_calls step s cs = Some s' \<and> inv s'"
proof (induction cs arbitrary: s)
  case (Cons c cs)
  from Cons.prems step_safe [of s c] obtain u where "step s c = Some u" "inv u" by auto
  with Cons show ?case by simp
qed simp

end

end
