(* ===== verification/StunRequest.thy ===== *)
theory StunRequest
  imports MessageQueue StunMessage Transition
begin

text \<open>
  \<^verbatim>\<open>src/p2p/base/stunrequest.cc\<close>: requests that are sent again until they are answered or give up, on the
  message queue of their thread. Request objects live in a store, their addresses are numbers; using the
  address of a deleted object, or violating an assertion of the code, is \<open>None\<close>. The virtual methods
  \<^verbatim>\<open>OnResponse\<close>, \<^verbatim>\<open>OnErrorResponse\<close> and \<^verbatim>\<open>OnTimeout\<close> and the signal that sends a packet are
  recorded as events; \<^verbatim>\<open>Prepare\<close> is an argument.
\<close>

section \<open>State\<close>

definition MSG_STUN_SEND :: u32 where "MSG_STUN_SEND = 1"
definition MAX_SENDS :: int where "MAX_SENDS = 9"
definition DELAY_UNIT :: int where "DELAY_UNIT = 100"
definition DELAY_MAX_FACTOR :: int where "DELAY_MAX_FACTOR = 16"

text \<open>\<open>rq_class\<close> is the class of the message object, which \<^verbatim>\<open>CreateNew\<close> uses for the response.\<close>

record StunRequest =
  rq_count :: int
  rq_timeout :: bool
  rq_managed :: bool
  rq_msg :: stun_message
  rq_class :: "u16 \<Rightarrow> stun_value_type"
  rq_tstamp :: u32

datatype stun_event =
    SentPacket nat u32 "byte list"
  | OnResponse nat stun_message
  | OnErrorResponse nat stun_message
  | OnTimeout nat

record StunRequestManager =
  sr_requests :: "(byte list \<times> nat) list"
  sr_heap :: "nat \<Rightarrow> StunRequest option"
  sr_thread :: "(nat, unit) MessageQueue"
  sr_events :: "stun_event list"

definition StunRequestManager_new :: StunRequestManager where
  "StunRequestManager_new = \<lparr>sr_requests = [], sr_heap = (\<lambda>_. None), sr_thread = MessageQueue_new, sr_events = []\<rparr>"

definition StunRequest_new :: "stun_message \<Rightarrow> (u16 \<Rightarrow> stun_value_type) \<Rightarrow> byte list \<Rightarrow> StunRequest" where
  "StunRequest_new request cls random_id =
     \<lparr>rq_count = 0, rq_timeout = False, rq_managed = False,
      rq_msg = request\<lparr>sm_transaction_id := random_id\<rparr>, rq_class = cls, rq_tstamp = 0\<rparr>"

definition rq_id :: "StunRequest \<Rightarrow> byte list" where
  "rq_id r = sm_transaction_id (rq_msg r)"

definition rq_type :: "StunRequest \<Rightarrow> int" where
  "rq_type r = uint (sm_type (rq_msg r))"

definition put_request :: "StunRequestManager \<Rightarrow> nat \<Rightarrow> StunRequest \<Rightarrow> StunRequestManager" where
  "put_request m p r = m\<lparr>sr_heap := (sr_heap m)(p := Some r)\<rparr>"

definition log_event :: "StunRequestManager \<Rightarrow> stun_event \<Rightarrow> StunRequestManager" where
  "log_event m e = m\<lparr>sr_events := sr_events m @ [e]\<rparr>"

section \<open>Requests\<close>

definition rq_Construct :: "(stun_message \<Rightarrow> stun_message) \<Rightarrow> StunRequest \<Rightarrow> StunRequest option" where
  "rq_Construct prepare r =
     (if sm_type (rq_msg r) = 0 then
        let msg = prepare (rq_msg r)
        in if sm_type msg = 0 then None else Some (r\<lparr>rq_msg := msg\<rparr>)
      else Some r)"

definition GetNextDelay :: "StunRequest \<Rightarrow> int \<times> StunRequest" where
  "GetNextDelay r =
     (let delay = DELAY_UNIT * min (2 ^ nat (rq_count r)) DELAY_MAX_FACTOR;
          r = r\<lparr>rq_count := rq_count r + 1\<rparr>
      in (delay, if rq_count r = MAX_SENDS then r\<lparr>rq_timeout := True\<rparr> else r))"

definition Elapsed :: "u32 \<Rightarrow> StunRequest \<Rightarrow> u32" where
  "Elapsed now r = word_of_int (TimeSince now (rq_tstamp r))"

section \<open>The manager\<close>

definition SendDelayed :: "(stun_message \<Rightarrow> stun_message) \<Rightarrow> u32 \<Rightarrow> StunRequestManager \<Rightarrow> nat \<Rightarrow> int \<Rightarrow>
    StunRequestManager option" where
  "SendDelayed prepare now m p delay =
     (case sr_heap m p of
        None \<Rightarrow> None
      | Some r \<Rightarrow>
          if rq_managed r then None
          else if map_of (sr_requests m) (rq_id r) \<noteq> None then None
          else
            case rq_Construct prepare (r\<lparr>rq_managed := True\<rparr>) of
              None \<Rightarrow> None
            | Some r \<Rightarrow>
                let m = put_request m p r
                in Some (m\<lparr>sr_requests := (rq_id r, p) # filter (\<lambda>(i, _). i \<noteq> rq_id r) (sr_requests m),
                           sr_thread := PostDelayed (sr_thread m) now delay (Some p) MSG_STUN_SEND None\<rparr>))"

definition sr_Send :: "(stun_message \<Rightarrow> stun_message) \<Rightarrow> u32 \<Rightarrow> StunRequestManager \<Rightarrow> nat \<Rightarrow>
    StunRequestManager option" where
  "sr_Send prepare now m p = SendDelayed prepare now m p 0"

definition thread_Clear :: "StunRequestManager \<Rightarrow> nat \<Rightarrow> StunRequestManager" where
  "thread_Clear m p = m\<lparr>sr_thread := snd (mq_Clear (sr_thread m) (Some p) MQID_ANY False)\<rparr>"

definition sr_Remove :: "StunRequestManager \<Rightarrow> nat \<Rightarrow> StunRequestManager option" where
  "sr_Remove m p =
     (case sr_heap m p of
        None \<Rightarrow> None
      | Some r \<Rightarrow>
          if \<not> rq_managed r then None
          else
            case map_of (sr_requests m) (rq_id r) of
              None \<Rightarrow> Some m
            | Some p' \<Rightarrow>
                if p' \<noteq> p then None
                else Some (thread_Clear (m\<lparr>sr_requests := filter (\<lambda>(i, _). i \<noteq> rq_id r) (sr_requests m)\<rparr>) p))"

text \<open>The destructor of a request.\<close>

definition delete_request :: "StunRequestManager \<Rightarrow> nat \<Rightarrow> StunRequestManager option" where
  "delete_request m p =
     (case sr_Remove m p of
        None \<Rightarrow> None
      | Some m \<Rightarrow> let m = thread_Clear m p in Some (m\<lparr>sr_heap := (sr_heap m)(p := None)\<rparr>))"

fun delete_all :: "StunRequestManager \<Rightarrow> nat list \<Rightarrow> StunRequestManager option" where
  "delete_all m [] = Some m"
| "delete_all m (p # ps) = (case delete_request m p of None \<Rightarrow> None | Some m \<Rightarrow> delete_all m ps)"

definition sr_Clear :: "StunRequestManager \<Rightarrow> StunRequestManager option" where
  "sr_Clear m = delete_all m (map snd (sr_requests m))"

text \<open>The destructor of the manager takes each request out of the map before it deletes it.\<close>

fun delete_popped :: "StunRequestManager \<Rightarrow> (byte list \<times> nat) list \<Rightarrow> StunRequestManager option" where
  "delete_popped m [] = Some m"
| "delete_popped m ((_, p) # rs) =
     (case delete_request (m\<lparr>sr_requests := rs\<rparr>) p of None \<Rightarrow> None | Some m \<Rightarrow> delete_popped m rs)"

definition delete_manager :: "StunRequestManager \<Rightarrow> StunRequestManager option" where
  "delete_manager m = delete_popped m (sr_requests m)"

definition CheckResponse :: "StunRequestManager \<Rightarrow> stun_message \<Rightarrow> (bool \<times> StunRequestManager) option" where
  "CheckResponse m msg =
     (case map_of (sr_requests m) (sm_transaction_id msg) of
        None \<Rightarrow> Some (False, m)
      | Some p \<Rightarrow>
          case sr_heap m p of
            None \<Rightarrow> None
          | Some r \<Rightarrow>
              if uint (sm_type msg) = GetStunSuccessResponseType (rq_type r) then
                map_option (\<lambda>m. (True, m)) (delete_request (log_event m (OnResponse p msg)) p)
              else if uint (sm_type msg) = GetStunErrorResponseType (rq_type r) then
                map_option (\<lambda>m. (True, m)) (delete_request (log_event m (OnErrorResponse p msg)) p)
              else Some (False, m))"

definition CheckResponse_bytes :: "StunRequestManager \<Rightarrow> byte list \<Rightarrow> (bool \<times> StunRequestManager) option" where
  "CheckResponse_bytes m data =
     (if length data < 20 then Some (False, m)
      else
        case map_of (sr_requests m) (mem_read data kStunTransactionIdOffset kStunTransactionIdLength) of
          None \<Rightarrow> Some (False, m)
        | Some p \<Rightarrow>
            case sr_heap m p of
              None \<Rightarrow> None
            | Some r \<Rightarrow>
                case StunMessage_Read (rq_class r) (ByteBuffer_of data) of
                  None \<Rightarrow> Some (False, m)
                | Some (response, _) \<Rightarrow> CheckResponse m response)"

text \<open>The handler of the message that the manager posts. \<^verbatim>\<open>GetNextDelay\<close> is virtual; the argument is its
  implementation.\<close>

definition rq_OnMessage_by :: "(StunRequest \<Rightarrow> int \<times> StunRequest) \<Rightarrow> u32 \<Rightarrow> StunRequestManager \<Rightarrow> nat \<Rightarrow>
    StunRequestManager option" where
  "rq_OnMessage_by next_delay now m p =
     (case sr_heap m p of
        None \<Rightarrow> None
      | Some r \<Rightarrow>
          if \<not> rq_managed r then None
          else if rq_timeout r then delete_request (log_event m (OnTimeout p)) p
          else
            let r = r\<lparr>rq_tstamp := now\<rparr>;
                buf = snd (StunMessage_Write (rq_msg r) (ByteBuffer_new ORDER_NETWORK));
                m = log_event m (SentPacket p now (Data buf));
                (delay, r) = next_delay r;
                m = put_request m p r
            in Some (m\<lparr>sr_thread := PostDelayed (sr_thread m) now delay (Some p) MSG_STUN_SEND None\<rparr>))"

definition rq_OnMessage :: "u32 \<Rightarrow> StunRequestManager \<Rightarrow> nat \<Rightarrow> StunRequestManager option" where
  "rq_OnMessage now m p = rq_OnMessage_by GetNextDelay now m p"

text \<open>One turn of the thread's message loop that does not wait: take a message out of the queue and hand
  it to its handler.\<close>

definition thread_turn :: "u32 \<Rightarrow> StunRequestManager \<Rightarrow> StunRequestManager option" where
  "thread_turn now m =
     (case Get (sr_thread m) 0 now [\<lambda>_ q. (True, q, now)] of
        None \<Rightarrow> None
      | Some (None, q, _) \<Rightarrow> Some (m\<lparr>sr_thread := q\<rparr>)
      | Some (Some msg, q, _) \<Rightarrow>
          case phandler msg of
            None \<Rightarrow> None
          | Some p \<Rightarrow> if message_id msg \<noteq> MSG_STUN_SEND then None else rq_OnMessage now (m\<lparr>sr_thread := q\<rparr>) p)"

end
