(* ===== verification/StunRequestSafety.thy ===== *)
theory StunRequestSafety
  imports StunRequest
begin

text \<open>
  What every call of the STUN request manager keeps: the map, the store and the queue of the thread agree, so
  that no message reaches a request that was deleted, and the history of every request is a bounded number of
  sendings with at most one outcome.
\<close>

section \<open>The messages of the thread\<close>

definition thread_msgs :: "(nat, unit) MessageQueue \<Rightarrow> (nat, unit) Message set" where
  "thread_msgs q = set (msgq q) \<union> dm_msg ` set (dmsgq q)"

lemma thread_msgs_PostDelayed:
  "thread_msgs (PostDelayed q now delay h mid d) \<subseteq>
     insert \<lparr>phandler = h, message_id = mid, pdata = d, ts_sensitive = 0\<rparr> (thread_msgs q)"
  "fPeekKeep (PostDelayed q now delay h mid d) = fPeekKeep q"
  by (auto simp: thread_msgs_def PostDelayed_def DoDelayPost_def mq_WakeUp_def EnsureActive_def Let_def)

lemma thread_msgs_Clear:
  assumes "\<not> fPeekKeep q"
  shows "thread_msgs (snd (mq_Clear q (Some p) MQID_ANY False)) = {m \<in> thread_msgs q. phandler m \<noteq> Some p}"
    "\<not> fPeekKeep (snd (mq_Clear q (Some p) MQID_ANY False))"
  using assms by (auto simp: thread_msgs_def mq_Clear_def Let_def Match_def)

lemma set_tl_dropWhile: "set (tl (dropWhile P xs)) \<subseteq> set xs"
  by (induction xs) auto

lemma thread_msgs_Get:
  assumes "\<not> fPeekKeep q"
  obtains r q' where "Get q 0 now [\<lambda>_ q. (True, q, now)] = Some (r, q', if r = None \<and> \<not> fStop q then [] else [\<lambda>_ q. (True, q, now)])"
    "thread_msgs q' \<subseteq> thread_msgs q" "\<not> fPeekKeep q'" "\<And>m. r = Some m \<Longrightarrow> m \<in> thread_msgs q"
proof -
  obtain r q' delay where c: "check_queues q now = (r, q', delay)" by (metis prod_cases3)
  let ?P = "\<lambda>d. \<not> TimeIsLater now (msTrigger d)"
  let ?ms = "msgq q @ map dm_msg (takeWhile ?P (dmsgq q))"
  have eq: "r = (case dropWhile to_dispose ?ms of [] \<Rightarrow> None | m # _ \<Rightarrow> Some m)"
      "msgq q' = tl (dropWhile to_dispose ?ms)" "dmsgq q' = dropWhile ?P (dmsgq q)" "fPeekKeep q' = fPeekKeep q"
      "fStop q' = fStop q"
    using c by (auto simp: check_queues_def collect_triggered_eq take_posted_eq)
  have sub: "set ?ms \<subseteq> thread_msgs q" by (auto simp: thread_msgs_def dest: set_takeWhileD)
  have "set (msgq q') \<subseteq> set ?ms" unfolding eq(2) by (rule set_tl_dropWhile)
  with sub have "set (msgq q') \<subseteq> thread_msgs q" by blast
  moreover have "dm_msg ` set (dmsgq q') \<subseteq> thread_msgs q"
    unfolding eq(3) by (auto simp: thread_msgs_def dest: set_dropWhileD)
  ultimately have "thread_msgs q' \<subseteq> thread_msgs q" unfolding thread_msgs_def [of q'] by blast
  moreover have "m \<in> thread_msgs q" if rm: "r = Some m" for m
  proof -
    obtain ys where "dropWhile to_dispose ?ms = m # ys" using rm eq(1)
      by (cases "dropWhile to_dispose ?ms") (simp_all del: dropWhile_eq_Nil_conv)
    then have "m \<in> set ?ms" using set_dropWhileD [of m to_dispose ?ms] by simp
    with sub show ?thesis by blast
  qed
  moreover have "Get q 0 now [\<lambda>_ q. (True, q, now)] =
      Some (r, q', if r = None \<and> \<not> fStop q then [] else [\<lambda>_ q. (True, q, now)])"
    using assms c eq(5) by (auto simp: Get_def get_loop.simps [of 0] kForever_def TimeDiff_def split: option.splits)
  ultimately show thesis using that [of r q'] eq(4) assms by simp
qed

section \<open>Invariants\<close>

text \<open>The requests in the map are the ones that were handed to the manager, and every message of the thread
  goes to one of them.\<close>

definition managed :: "StunRequestManager \<Rightarrow> nat \<Rightarrow> bool" where
  "managed m p \<longleftrightarrow> (\<exists>r. sr_heap m p = Some r \<and> rq_managed r)"

definition routed :: "StunRequestManager \<Rightarrow> (nat, unit) Message \<Rightarrow> bool" where
  "routed m msg \<longleftrightarrow> (\<exists>p. phandler msg = Some p \<and> message_id msg = MSG_STUN_SEND \<and> managed m p)"

lemma routed_mono: "routed m msg \<Longrightarrow> (\<And>p. phandler msg = Some p \<Longrightarrow> managed m p \<Longrightarrow> managed m' p) \<Longrightarrow> routed m' msg"
  by (auto simp: routed_def)

definition sr_struct :: "StunRequestManager \<Rightarrow> bool" where
  "sr_struct m \<longleftrightarrow> distinct (map fst (sr_requests m)) \<and> \<not> fPeekKeep (sr_thread m) \<and>
     (\<forall>i p. (i, p) \<in> set (sr_requests m) \<longleftrightarrow> (\<exists>r. sr_heap m p = Some r \<and> rq_managed r \<and> rq_id r = i)) \<and>
     (\<forall>msg\<in>thread_msgs (sr_thread m). routed m msg)"

lemma sr_struct_lookup:
  assumes "sr_struct m" "sr_heap m p = Some r" "rq_managed r"
  shows "map_of (sr_requests m) (rq_id r) = Some p"
  using assms by (auto simp: sr_struct_def intro: map_of_is_SomeI)

lemma sr_struct_found:
  assumes "sr_struct m" "map_of (sr_requests m) i = Some p"
  obtains r where "sr_heap m p = Some r" "rq_managed r" "rq_id r = i"
  using assms by (auto simp: sr_struct_def dest: map_of_SomeD)

lemma sr_struct_events [simp]: "sr_struct (log_event m e) = sr_struct m"
  by (simp add: sr_struct_def log_event_def routed_def managed_def)

lemma delete_request_struct:
  assumes "sr_struct m" "sr_heap m p = Some r" "rq_managed r"
  shows "\<exists>m'. delete_request m p = Some m' \<and> sr_struct m' \<and> sr_heap m' = (sr_heap m)(p := None) \<and>
    sr_events m' = sr_events m"
proof -
  let ?q = "snd (mq_Clear (snd (mq_Clear (sr_thread m) (Some p) MQID_ANY False)) (Some p) MQID_ANY False)"
  let ?m = "m\<lparr>sr_requests := filter (\<lambda>(i, _). i \<noteq> rq_id r) (sr_requests m), sr_thread := ?q,
      sr_heap := (sr_heap m)(p := None)\<rparr>"
  have eq: "delete_request m p = Some ?m"
    using assms(2,3) sr_struct_lookup [OF assms]
    by (simp add: delete_request_def sr_Remove_def thread_Clear_def)
  have nk: "\<not> fPeekKeep (sr_thread m)" using assms(1) by (simp add: sr_struct_def)
  have q: "thread_msgs ?q = {x \<in> thread_msgs (sr_thread m). phandler x \<noteq> Some p}" "\<not> fPeekKeep ?q"
    using thread_msgs_Clear [OF nk, of p] thread_msgs_Clear [OF thread_msgs_Clear(2) [OF nk], of p p] by auto
  have "distinct (map fst (sr_requests ?m))" using assms(1)
    by (simp add: sr_struct_def distinct_map_filter)
  moreover have "(i, p') \<in> set (sr_requests ?m) \<longleftrightarrow>
      (\<exists>r'. sr_heap ?m p' = Some r' \<and> rq_managed r' \<and> rq_id r' = i)" for i p'
  proof -
    have uniq: "p' = p \<longleftrightarrow> i = rq_id r" if ip: "(i, p') \<in> set (sr_requests m)"
    proof
      assume "i = rq_id r"
      moreover have "map_of (sr_requests m) i = Some p'" using ip assms(1)
        by (auto simp: sr_struct_def intro: map_of_is_SomeI)
      ultimately show "p' = p" using sr_struct_lookup [OF assms] by simp
    next
      assume "p' = p"
      then show "i = rq_id r" using ip assms by (auto simp: sr_struct_def)
    qed
    show ?thesis using assms(1) uniq by (auto simp: sr_struct_def)
  qed
  moreover have "routed ?m msg" if msg: "msg \<in> thread_msgs ?q" for msg
  proof (rule routed_mono)
    show "routed m msg" using msg q(1) assms(1) by (auto simp: sr_struct_def)
    show "phandler msg = Some p' \<Longrightarrow> managed m p' \<Longrightarrow> managed ?m p'" for p'
      using msg q(1) by (auto simp: managed_def)
  qed
  ultimately have "sr_struct ?m" using q(2) by (simp add: sr_struct_def)
  with eq show ?thesis by simp
qed

lemma put_request_struct:
  assumes "sr_struct m" "sr_heap m p = Some r" "rq_managed r" "rq_managed r'" "rq_id r' = rq_id r"
  shows "sr_struct (put_request m p r')"
proof -
  have "routed (put_request m p r') msg" if "msg \<in> thread_msgs (sr_thread m)" for msg
    by (rule routed_mono [of m]) (use that assms in \<open>auto simp: sr_struct_def managed_def put_request_def\<close>)
  then show ?thesis using assms by (auto simp: sr_struct_def put_request_def)
qed

lemma post_struct:
  assumes "sr_struct m" "managed m p"
  shows "sr_struct (m\<lparr>sr_thread := PostDelayed (sr_thread m) now delay (Some p) MSG_STUN_SEND None\<rparr>)"
proof -
  let ?q = "PostDelayed (sr_thread m) now delay (Some p) MSG_STUN_SEND None"
  have "routed m msg" if "msg \<in> thread_msgs ?q" for msg
    using that assms thread_msgs_PostDelayed(1) [of "sr_thread m" now delay "Some p" MSG_STUN_SEND None]
    by (auto simp: sr_struct_def routed_def)
  then have "\<forall>msg\<in>thread_msgs ?q. routed (m\<lparr>sr_thread := ?q\<rparr>) msg" by (simp add: routed_def managed_def)
  then show ?thesis using assms thread_msgs_PostDelayed(2) [of "sr_thread m" now delay "Some p" MSG_STUN_SEND None]
    by (simp add: sr_struct_def)
qed

lemma register_struct:
  assumes "sr_struct m" "sr_heap m p = Some r" "\<not> rq_managed r" "map_of (sr_requests m) (rq_id r) = None"
    "rq_managed r'" "rq_id r' = rq_id r"
  shows "sr_struct ((put_request m p r')\<lparr>sr_requests := (rq_id r', p) # filter (\<lambda>(i, _). i \<noteq> rq_id r') (sr_requests m)\<rparr>)"
    (is "sr_struct ?m")
proof -
  have new: "\<forall>x\<in>set (sr_requests m). fst x \<noteq> rq_id r" using assms(4) by (force simp: map_of_eq_None_iff)
  have id: "filter (\<lambda>(i, _). i \<noteq> rq_id r') (sr_requests m) = sr_requests m"
    by (rule filter_True) (use new assms(6) in auto)
  have "routed ?m msg" if "msg \<in> thread_msgs (sr_thread m)" for msg
    by (rule routed_mono [of m]) (use that assms in \<open>auto simp: sr_struct_def managed_def put_request_def\<close>)
  moreover have "(i, p') \<in> set (sr_requests ?m) \<longleftrightarrow>
      (\<exists>r. sr_heap ?m p' = Some r \<and> rq_managed r \<and> rq_id r = i)" for i p'
    using assms id by (auto simp: sr_struct_def put_request_def)
  moreover have "distinct (map fst (sr_requests ?m))" using assms(1,6) new id by (auto simp: sr_struct_def)
  ultimately show ?thesis using assms(1) by (simp add: sr_struct_def put_request_def)
qed

section \<open>Histories\<close>

fun about :: "stun_event \<Rightarrow> nat" where
  "about (SentPacket p _ _) = p"
| "about (OnResponse p _) = p"
| "about (OnErrorResponse p _) = p"
| "about (OnTimeout p) = p"

fun is_sent :: "stun_event \<Rightarrow> bool" where
  "is_sent (SentPacket _ _ _) = True"
| "is_sent _ = False"

text \<open>What has happened to a request: \<open>True\<close> for a packet sent, \<open>False\<close> for a response or a timeout.\<close>

definition history :: "stun_event list \<Rightarrow> nat \<Rightarrow> bool list" where
  "history evs p = map is_sent (filter (\<lambda>e. about e = p) evs)"

lemma history_snoc: "history (evs @ [e]) p = history evs p @ (if about e = p then [is_sent e] else [])"
  by (simp add: history_def)

definition request_ok :: "bool list \<Rightarrow> StunRequest \<Rightarrow> bool" where
  "request_ok h r \<longleftrightarrow> 0 \<le> rq_count r \<and> rq_count r \<le> MAX_SENDS \<and> (rq_timeout r \<longleftrightarrow> rq_count r = MAX_SENDS) \<and>
     h = replicate (nat (rq_count r)) True"

definition finite_history :: "bool list \<Rightarrow> bool" where
  "finite_history h \<longleftrightarrow> (\<exists>k \<le> nat MAX_SENDS. h = replicate k True \<or> h = replicate k True @ [False])"

definition sr_hist :: "StunRequestManager \<Rightarrow> bool" where
  "sr_hist m \<longleftrightarrow> (\<forall>p. finite_history (history (sr_events m) p)) \<and>
     (\<forall>p r. sr_heap m p = Some r \<longrightarrow> request_ok (history (sr_events m) p) r)"

definition sr_inv :: "StunRequestManager \<Rightarrow> bool" where
  "sr_inv m \<longleftrightarrow> sr_struct m \<and> sr_hist m"

lemma request_ok_finite: "request_ok h r \<Longrightarrow> finite_history h \<and> finite_history (h @ [False])"
  unfolding request_ok_def finite_history_def
  by (intro conjI exI [of _ "nat (rq_count r)"]) (auto simp: nat_le_iff)

lemma request_ok_next:
  assumes "request_ok h r" "\<not> rq_timeout r"
  shows "request_ok (h @ [True]) (snd (GetNextDelay (r\<lparr>rq_tstamp := now\<rparr>)))"
proof -
  have "nat (rq_count r + 1) = Suc (nat (rq_count r))" using assms(1) by (simp add: request_ok_def nat_add_distrib)
  then have "h @ [True] = replicate (nat (rq_count r + 1)) True" using assms(1)
    by (simp add: request_ok_def replicate_append_same)
  then show ?thesis using assms by (auto simp: request_ok_def GetNextDelay_def Let_def)
qed

text \<open>An outcome is logged and the request deleted.\<close>

lemma finish_request:
  assumes "sr_inv m" "sr_heap m p = Some r" "rq_managed r" "about e = p" "\<not> is_sent e"
  shows "\<exists>m'. delete_request (log_event m e) p = Some m' \<and> sr_inv m'"
proof -
  let ?m = "log_event m e"
  have "sr_struct ?m" using assms(1) by (simp add: sr_inv_def)
  moreover have "sr_heap ?m p = Some r" using assms(2) by (simp add: log_event_def)
  ultimately
  obtain m' where
    d: "delete_request ?m p = Some m'" "sr_struct m'" "sr_heap m' = (sr_heap m)(p := None)"
      "sr_events m' = sr_events m @ [e]"
    using delete_request_struct [of ?m p r] assms(3) by (auto simp: log_event_def)
  have "request_ok (history (sr_events m) p) r" using assms(1,2) unfolding sr_inv_def sr_hist_def by blast
  then have "finite_history (history (sr_events m) p @ [False])" using request_ok_finite by blast
  then have "sr_hist m'" using assms(1,4,5) d(3,4) by (auto simp: sr_hist_def sr_inv_def history_snoc)
  with d show ?thesis by (auto simp: sr_inv_def)
qed

lemma delete_request_inv:
  assumes "sr_inv m" "sr_heap m p = Some r" "rq_managed r"
  shows "\<exists>m'. delete_request m p = Some m' \<and> sr_inv m' \<and> sr_heap m' = (sr_heap m)(p := None)"
proof -
  obtain m' where "delete_request m p = Some m'" "sr_struct m'" "sr_heap m' = (sr_heap m)(p := None)"
      "sr_events m' = sr_events m"
    using delete_request_struct [of m p r] assms by (auto simp: sr_inv_def)
  moreover from this have "sr_hist m'" using assms(1) by (simp add: sr_inv_def sr_hist_def)
  ultimately show ?thesis by (auto simp: sr_inv_def)
qed

lemma delete_all_inv:
  assumes "sr_inv m" "distinct ps" "\<forall>p\<in>set ps. managed m p"
  shows "\<exists>m'. delete_all m ps = Some m' \<and> sr_inv m'"
  using assms
proof (induction ps arbitrary: m)
  case (Cons p ps)
  obtain r where "sr_heap m p = Some r" "rq_managed r" using Cons.prems(3) by (auto simp: managed_def)
  from delete_request_inv [OF Cons.prems(1) this] obtain u
    where u: "delete_request m p = Some u" "sr_inv u" "sr_heap u = (sr_heap m)(p := None)" by blast
  have "\<forall>x\<in>set ps. managed u x" using Cons.prems(2,3) u(3) by (auto simp: managed_def)
  from Cons.IH [OF u(2) _ this] Cons.prems(2) u(1) show ?case by simp
qed simp

lemma sr_struct_distinct:
  assumes s: "sr_struct m"
  shows "distinct (map snd (sr_requests m))"
proof -
  have "inj_on snd (set (sr_requests m))"
  proof (rule inj_onI)
    fix x y assume "x \<in> set (sr_requests m)" "y \<in> set (sr_requests m)" "snd x = snd y"
    then show "x = y" using s unfolding sr_struct_def by (metis option.inject prod.collapse)
  qed
  moreover have "distinct (sr_requests m)" using s by (simp add: sr_struct_def distinct_map)
  ultimately show ?thesis by (simp add: distinct_map)
qed

lemma sr_Clear_inv:
  assumes "sr_inv m"
  shows "\<exists>m'. sr_Clear m = Some m' \<and> sr_inv m'"
  unfolding sr_Clear_def
proof (rule delete_all_inv [OF assms])
  have s: "sr_struct m" using assms by (simp add: sr_inv_def)
  show "\<forall>p\<in>set (map snd (sr_requests m)). managed m p" using s by (auto simp: sr_struct_def managed_def)
  show "distinct (map snd (sr_requests m))" by (rule sr_struct_distinct [OF s])
qed

lemma CheckResponse_inv:
  assumes "sr_inv m"
  shows "\<exists>ok m'. CheckResponse m msg = Some (ok, m') \<and> sr_inv m'"
proof (cases "map_of (sr_requests m) (sm_transaction_id msg)")
  case (Some p)
  have "sr_struct m" using assms by (simp add: sr_inv_def)
  from sr_struct_found [OF this Some] obtain r where r: "sr_heap m p = Some r" "rq_managed r" by blast
  from finish_request [OF assms r, of "OnResponse p msg"] finish_request [OF assms r, of "OnErrorResponse p msg"]
  show ?thesis using Some r(1) assms by (auto simp: CheckResponse_def)
qed (use assms in \<open>auto simp: CheckResponse_def\<close>)

lemma CheckResponse_bytes_inv:
  assumes "sr_inv m"
  shows "\<exists>ok m'. CheckResponse_bytes m data = Some (ok, m') \<and> sr_inv m'"
proof (cases "map_of (sr_requests m) (mem_read data kStunTransactionIdOffset kStunTransactionIdLength)")
  case (Some p)
  have "sr_struct m" using assms by (simp add: sr_inv_def)
  from sr_struct_found [OF this Some] obtain r where "sr_heap m p = Some r" by blast
  with Some assms CheckResponse_inv [OF assms] show ?thesis
    by (auto simp: CheckResponse_bytes_def split: option.splits prod.splits)
qed (use assms in \<open>auto simp: CheckResponse_bytes_def\<close>)

lemma GetNextDelay_keeps:
  "rq_managed (snd (GetNextDelay r)) = rq_managed r" "rq_id (snd (GetNextDelay r)) = rq_id r"
  by (simp_all add: GetNextDelay_def Let_def rq_id_def)

text \<open>A sending, for every implementation of \<^verbatim>\<open>GetNextDelay\<close> that leaves the request in its manager.\<close>

lemma rq_OnMessage_struct:
  assumes "sr_struct m" "sr_heap m p = Some r" "rq_managed r" "\<not> rq_timeout r"
    and r': "r' = snd (next_delay (r\<lparr>rq_tstamp := now\<rparr>))" "rq_managed r'" "rq_id r' = rq_id r"
  shows "\<exists>m'. rq_OnMessage_by next_delay now m p = Some m' \<and> sr_struct m' \<and> sr_heap m' = (sr_heap m)(p := Some r') \<and>
    sr_requests m' = sr_requests m \<and> sr_events m' = sr_events m @
      [SentPacket p now (Data (snd (StunMessage_Write (rq_msg r) (ByteBuffer_new ORDER_NETWORK))))]"
proof -
  define e where "e = SentPacket p now (Data (snd (StunMessage_Write (rq_msg r) (ByteBuffer_new ORDER_NETWORK))))"
  define delay where "delay = fst (next_delay (r\<lparr>rq_tstamp := now\<rparr>))"
  define u where "u = put_request (log_event m e) p r'"
  let ?m = "u\<lparr>sr_thread := PostDelayed (sr_thread u) now delay (Some p) MSG_STUN_SEND None\<rparr>"
  have eq: "rq_OnMessage_by next_delay now m p = Some ?m"
    using assms(2-4) by (simp add: rq_OnMessage_by_def Let_def u_def e_def delay_def r'(1) split: prod.split)
  have "sr_struct u" unfolding u_def
    by (rule put_request_struct [OF _ _ assms(3) r'(2,3)]) (use assms(1,2) in \<open>simp_all\<close>, simp add: log_event_def)
  moreover have "managed u p" using r'(2) by (simp add: u_def put_request_def managed_def)
  ultimately have "sr_struct ?m" by (rule post_struct)
  with eq show ?thesis by (simp add: u_def put_request_def log_event_def e_def)
qed

lemma rq_OnMessage_inv:
  assumes "sr_inv m" "managed m p"
  shows "\<exists>m'. rq_OnMessage now m p = Some m' \<and> sr_inv m'"
proof -
  obtain r where r: "sr_heap m p = Some r" "rq_managed r" using assms(2) by (auto simp: managed_def)
  show ?thesis
  proof (cases "rq_timeout r")
    case True
    then show ?thesis using finish_request [OF assms(1) r, of "OnTimeout p"] r
      by (simp add: rq_OnMessage_def rq_OnMessage_by_def)
  next
    case False
    define r' where "r' = snd (GetNextDelay (r\<lparr>rq_tstamp := now\<rparr>))"
    have r': "rq_managed r'" "rq_id r' = rq_id r" using r(2)
      by (simp_all add: r'_def GetNextDelay_keeps) (simp add: rq_id_def)
    have s: "sr_struct m" "sr_hist m" using assms(1) by (simp_all add: sr_inv_def)
    obtain m' e where m': "rq_OnMessage now m p = Some m'" "sr_struct m'" "sr_heap m' = (sr_heap m)(p := Some r')"
        "sr_events m' = sr_events m @ [e]" "about e = p" "is_sent e"
      using rq_OnMessage_struct [where next_delay = GetNextDelay, OF s(1) r False r'_def r'] by (auto simp: rq_OnMessage_def)
    have "request_ok (history (sr_events m) p) r" using s(2) r(1) unfolding sr_hist_def by blast
    from request_ok_next [OF this False, of now]
    have ok: "request_ok (history (sr_events m) p @ [True]) r'" by (simp add: r'_def)
    have "sr_hist m'" using s(2) ok request_ok_finite [OF ok] m'(5,6) unfolding sr_hist_def m'(3,4) history_snoc
      by auto
    with m' show ?thesis by (simp add: sr_inv_def)
  qed
qed

lemma thread_turn_inv:
  assumes "sr_inv m"
  shows "\<exists>m'. thread_turn now m = Some m' \<and> sr_inv m'"
proof -
  have s: "sr_struct m" using assms by (simp add: sr_inv_def)
  then have nk: "\<not> fPeekKeep (sr_thread m)" by (simp add: sr_struct_def)
  obtain r q' ws where g: "Get (sr_thread m) 0 now [\<lambda>_ q. (True, q, now)] = Some (r, q', ws)"
      "thread_msgs q' \<subseteq> thread_msgs (sr_thread m)" "\<not> fPeekKeep q'" "\<And>x. r = Some x \<Longrightarrow> x \<in> thread_msgs (sr_thread m)"
    using thread_msgs_Get [OF nk, of now] by metis
  let ?m = "m\<lparr>sr_thread := q'\<rparr>"
  have routed: "routed ?m x = routed m x" for x by (simp add: routed_def managed_def)
  then have "sr_struct ?m" using s g(2,3) by (auto simp: sr_struct_def)
  then have inv: "sr_inv ?m" using assms by (simp add: sr_inv_def sr_hist_def)
  show ?thesis
  proof (cases r)
    case None
    with g(1) inv show ?thesis by (simp add: thread_turn_def)
  next
    case (Some msg)
    then have "routed m msg" using g(4) s by (auto simp: sr_struct_def)
    then obtain p where p: "phandler msg = Some p" "message_id msg = MSG_STUN_SEND" "managed ?m p"
      by (auto simp: routed_def managed_def)
    from rq_OnMessage_inv [OF inv p(3), of now] g(1) Some p(1,2) show ?thesis by (simp add: thread_turn_def)
  qed
qed

section \<open>The manager as a transition system\<close>

datatype stun_call =
    Call_new nat stun_message "u16 \<Rightarrow> stun_value_type" "byte list"
  | Call_SendDelayed "stun_message \<Rightarrow> stun_message" u32 nat int
  | Call_CheckResponse "byte list"
  | Call_thread_turn u32
  | Call_delete nat
  | Call_Clear

fun stun_step :: "StunRequestManager \<Rightarrow> stun_call \<Rightarrow> StunRequestManager option" where
  "stun_step m (Call_new p msg cls i) = Some (put_request m p (StunRequest_new msg cls i))"
| "stun_step m (Call_SendDelayed prepare now p delay) = SendDelayed prepare now m p delay"
| "stun_step m (Call_CheckResponse data) = map_option snd (CheckResponse_bytes m data)"
| "stun_step m (Call_thread_turn now) = thread_turn now m"
| "stun_step m (Call_delete p) = delete_request m p"
| "stun_step m Call_Clear = sr_Clear m"

text \<open>A new request gets an address that was never used; a request is sent once, with a transaction id
  that no open request has, and \<^verbatim>\<open>Prepare\<close> sets its type and leaves its id; only a request of the manager is
  deleted. Packets and the time are arbitrary.\<close>

fun stun_permitted :: "StunRequestManager \<Rightarrow> stun_call \<Rightarrow> bool" where
  "stun_permitted m (Call_new p msg cls i) = (sr_heap m p = None \<and> history (sr_events m) p = [])"
| "stun_permitted m (Call_SendDelayed prepare now p delay) =
     (case sr_heap m p of None \<Rightarrow> False
      | Some r \<Rightarrow> \<not> rq_managed r \<and> map_of (sr_requests m) (rq_id r) = None \<and> sm_type (prepare (rq_msg r)) \<noteq> 0 \<and>
          sm_transaction_id (prepare (rq_msg r)) = sm_transaction_id (rq_msg r))"
| "stun_permitted m (Call_delete p) = managed m p"
| "stun_permitted m _ = True"

definition stun_start :: "StunRequestManager \<Rightarrow> bool" where
  "stun_start m \<longleftrightarrow> m = StunRequestManager_new"

lemma new_request_struct:
  assumes "sr_struct m" "sr_heap m p = None"
  shows "sr_struct (put_request m p (StunRequest_new msg cls i))"
proof -
  let ?m = "put_request m p (StunRequest_new msg cls i)"
  have "routed ?m x" if "x \<in> thread_msgs (sr_thread m)" for x
    by (rule routed_mono [of m]) (use that assms in \<open>auto simp: sr_struct_def managed_def put_request_def\<close>)
  then show ?thesis using assms by (auto simp: sr_struct_def put_request_def StunRequest_new_def)
qed

lemma new_request_inv:
  assumes "sr_inv m" "sr_heap m p = None" "history (sr_events m) p = []"
  shows "sr_inv (put_request m p (StunRequest_new msg cls i))"
  using new_request_struct assms
  by (auto simp: sr_inv_def sr_hist_def put_request_def request_ok_def StunRequest_new_def MAX_SENDS_def)

lemma SendDelayed_struct:
  assumes "sr_struct m" and r: "sr_heap m p = Some r" "\<not> rq_managed r" "map_of (sr_requests m) (rq_id r) = None"
    and prepare: "sm_type (prepare (rq_msg r)) \<noteq> 0" "sm_transaction_id (prepare (rq_msg r)) = sm_transaction_id (rq_msg r)"
    and r': "r' = r\<lparr>rq_managed := True, rq_msg := if sm_type (rq_msg r) = 0 then prepare (rq_msg r) else rq_msg r\<rparr>"
  shows "\<exists>m'. SendDelayed prepare now m p delay = Some m' \<and> sr_struct m' \<and> sr_heap m' = (sr_heap m)(p := Some r') \<and>
    sr_events m' = sr_events m \<and> map_of (sr_requests m') (rq_id r) = Some p"
proof -
  have c: "rq_Construct prepare (r\<lparr>rq_managed := True\<rparr>) = Some r'" "rq_managed r'" "rq_id r' = rq_id r"
    using prepare by (simp_all add: r' rq_Construct_def Let_def rq_id_def)
  define u where "u = (put_request m p r')\<lparr>sr_requests := (rq_id r', p) # filter (\<lambda>(i, _). i \<noteq> rq_id r') (sr_requests m)\<rparr>"
  let ?m = "u\<lparr>sr_thread := PostDelayed (sr_thread u) now delay (Some p) MSG_STUN_SEND None\<rparr>"
  have eq: "SendDelayed prepare now m p delay = Some ?m"
    using r c by (simp add: SendDelayed_def u_def put_request_def)
  have "sr_struct u" unfolding u_def by (rule register_struct [OF assms(1) r c(2,3)])
  moreover have "managed u p" using c(2) by (simp add: u_def put_request_def managed_def)
  ultimately have "sr_struct ?m" by (rule post_struct)
  with eq c(3) show ?thesis by (simp add: u_def put_request_def)
qed

lemma SendDelayed_inv:
  assumes "sr_inv m" "stun_permitted m (Call_SendDelayed prepare now p delay)"
  shows "\<exists>m'. SendDelayed prepare now m p delay = Some m' \<and> sr_inv m'"
proof -
  obtain r where r: "sr_heap m p = Some r" "\<not> rq_managed r" "map_of (sr_requests m) (rq_id r) = None"
      "sm_type (prepare (rq_msg r)) \<noteq> 0" "sm_transaction_id (prepare (rq_msg r)) = sm_transaction_id (rq_msg r)"
    using assms(2) by (auto split: option.splits)
  define r' where "r' = r\<lparr>rq_managed := True, rq_msg := if sm_type (rq_msg r) = 0 then prepare (rq_msg r) else rq_msg r\<rparr>"
  have s: "sr_struct m" "sr_hist m" using assms(1) by (simp_all add: sr_inv_def)
  obtain m' where m': "SendDelayed prepare now m p delay = Some m'" "sr_struct m'" "sr_heap m' = (sr_heap m)(p := Some r')"
      "sr_events m' = sr_events m"
    using SendDelayed_struct [where prepare = prepare, OF s(1) r r'_def] by blast
  have "request_ok h r' = request_ok h r" for h by (simp add: request_ok_def r'_def)
  then have "sr_hist m'" using s(2) r(1) m'(3,4) by (auto simp: sr_hist_def)
  with m' show ?thesis by (simp add: sr_inv_def)
qed

lemma stun_step_safe:
  assumes "sr_inv m" "stun_permitted m c"
  shows "\<exists>m'. stun_step m c = Some m' \<and> sr_inv m'"
proof (cases c)
  case (Call_CheckResponse data)
  then show ?thesis using CheckResponse_bytes_inv [OF assms(1), of data] by auto
next
  case (Call_delete p)
  then obtain r where "sr_heap m p = Some r" "rq_managed r" using assms(2) by (auto simp: managed_def)
  then show ?thesis using delete_request_inv [OF assms(1)] Call_delete by auto
qed (use assms new_request_inv SendDelayed_inv thread_turn_inv sr_Clear_inv in simp_all)

lemma stun_start_inv: "sr_inv StunRequestManager_new"
  by (auto simp: StunRequestManager_new_def sr_inv_def sr_struct_def sr_hist_def thread_msgs_def
    MessageQueue_new_def history_def finite_history_def)

interpretation requests: safe_system stun_start stun_permitted stun_step sr_inv
proof unfold_locales
  show "stun_start m \<Longrightarrow> sr_inv m" for m by (simp add: stun_start_def stun_start_inv)
  show "sr_inv m \<Longrightarrow> stun_permitted m c \<Longrightarrow> \<exists>m'. stun_step m c = Some m' \<and> sr_inv m'" for m c
    by (rule stun_step_safe)
qed

section \<open>The end of the manager\<close>

text \<open>The destructor deletes every request, and with them every message that is on its way to one.\<close>

definition unrouted :: "StunRequestManager \<Rightarrow> nat set \<Rightarrow> bool" where
  "unrouted m ps \<longleftrightarrow> \<not> fPeekKeep (sr_thread m) \<and> (\<forall>msg\<in>thread_msgs (sr_thread m). phandler msg \<in> Some ` ps)"

lemma delete_popped_defined:
  assumes "distinct (map fst rs)" "distinct (map snd rs)" "unrouted m (snd ` set rs)"
    "\<And>i p. (i, p) \<in> set rs \<Longrightarrow> \<exists>r. sr_heap m p = Some r \<and> rq_managed r \<and> rq_id r = i"
  shows "\<exists>m'. delete_popped m rs = Some m' \<and> thread_msgs (sr_thread m') = {} \<and>
    (\<forall>p. sr_heap m' p = (if p \<in> snd ` set rs then None else sr_heap m p))"
  using assms
proof (induction rs arbitrary: m)
  case (Cons x rs)
  obtain i p where x: "x = (i, p)" by fastforce
  obtain r where r: "sr_heap m p = Some r" "rq_managed r" "rq_id r = i" using Cons.prems(4) x by auto
  have "map_of rs i = None" using Cons.prems(1) x by (simp add: map_of_eq_None_iff)
  then obtain u where u: "delete_request (m\<lparr>sr_requests := rs\<rparr>) p = Some u" "sr_heap u = (sr_heap m)(p := None)"
      "sr_thread u = snd (mq_Clear (sr_thread m) (Some p) MQID_ANY False)"
    using r by (simp add: delete_request_def sr_Remove_def thread_Clear_def)
  have "unrouted u (snd ` set rs)"
    using Cons.prems(3) x u(3) thread_msgs_Clear [of "sr_thread m" p] by (auto simp: unrouted_def)
  moreover have "\<exists>r. sr_heap u q = Some r \<and> rq_managed r \<and> rq_id r = j" if "(j, q) \<in> set rs" for j q
  proof -
    have "q \<noteq> p" using Cons.prems(2) x that by force
    then show ?thesis using Cons.prems(4) [of j q] that u(2) by simp
  qed
  ultimately obtain m' where "delete_popped u rs = Some m'" "thread_msgs (sr_thread m') = {}"
      "\<forall>q. sr_heap m' q = (if q \<in> snd ` set rs then None else sr_heap u q)"
    using Cons.IH [of u] Cons.prems(1,2) by auto
  then show ?case using u(1,2) x by auto
qed (auto simp: unrouted_def)

lemma delete_manager_defined:
  assumes s: "sr_struct m"
  shows "\<exists>m'. delete_manager m = Some m' \<and> thread_msgs (sr_thread m') = {} \<and> (\<forall>p. \<not> managed m' p)"
proof -
  have in_map: "p \<in> snd ` set (sr_requests m)" if managed: "managed m p" for p
  proof -
    obtain r where "sr_heap m p = Some r" "rq_managed r" using managed by (auto simp: managed_def)
    then have "(rq_id r, p) \<in> set (sr_requests m)" using s unfolding sr_struct_def by blast
    then show ?thesis by force
  qed
  have "\<exists>m'. delete_popped m (sr_requests m) = Some m' \<and> thread_msgs (sr_thread m') = {} \<and>
      (\<forall>p. sr_heap m' p = (if p \<in> snd ` set (sr_requests m) then None else sr_heap m p))"
  proof (rule delete_popped_defined)
    show "distinct (map fst (sr_requests m))" using s by (simp add: sr_struct_def)
    show "distinct (map snd (sr_requests m))" by (rule sr_struct_distinct [OF s])
    show "unrouted m (snd ` set (sr_requests m))"
      using s in_map by (auto simp: unrouted_def sr_struct_def routed_def)
  qed (use s in \<open>auto simp: sr_struct_def\<close>)
  then obtain m' where m': "delete_popped m (sr_requests m) = Some m'" "thread_msgs (sr_thread m') = {}"
      "\<And>p. sr_heap m' p = (if p \<in> snd ` set (sr_requests m) then None else sr_heap m p)"
    by blast
  have "\<not> managed m' p" for p using in_map [of p] m'(3) [of p] by (auto simp: managed_def split: if_splits)
  with m' show ?thesis by (simp add: delete_manager_def)
qed

section \<open>Properties\<close>

definition example_request :: stun_message where
  "example_request = \<lparr>sm_type = 1, sm_length = 0, sm_transaction_id = replicate 12 7, sm_attrs = []\<rparr>"

text \<open>
  C16. Whatever requests are made, whatever packets arrive and however the thread's messages and the time
  advance: every permitted call is defined, so no message ever reaches a request that was deleted and no
  assertion fails; and every request is sent at most nine times, gets at most one response, error response or
  timeout, and is not sent again after it.
\<close>

theorem stun_requests_bounded:
  assumes "reachable stun_start stun_permitted stun_step m" "stun_permitted m c"
  shows "(\<exists>m'. stun_step m c = Some m') \<and>
    (\<exists>k \<le> 9. history (sr_events m) p = replicate k True \<or> history (sr_events m) p = replicate k True @ [False])"
proof -
  have inv: "sr_inv m" by (rule requests.reachable_inv [OF assms(1)])
  then have "finite_history (history (sr_events m) p)" by (simp add: sr_inv_def sr_hist_def)
  then show ?thesis using stun_step_safe [OF inv assms(2)] by (auto simp: finite_history_def MAX_SENDS_def)
qed

theorem stun_requests_bounded_witness:
  "\<exists>m. run_calls stun_step StunRequestManager_new
      [Call_new 0 example_request (\<lambda>_. STUN_VALUE_UNKNOWN) (replicate 12 7), Call_SendDelayed (\<lambda>x. x) 5 0 0,
       Call_thread_turn 5] = Some m \<and>
     (\<exists>m'. stun_step m (Call_thread_turn 105) = Some m') \<and>
     (\<exists>k \<le> 9. history (sr_events m) 0 = replicate k True \<or> history (sr_events m) 0 = replicate k True @ [False])"
proof -
  let ?cs = "[Call_new 0 example_request (\<lambda>_. STUN_VALUE_UNKNOWN) (replicate 12 7), Call_SendDelayed (\<lambda>x. x) 5 0 0,
       Call_thread_turn 5]"
  have p: "permitted_calls stun_permitted stun_step StunRequestManager_new ?cs"
    by (simp add: StunRequestManager_new_def history_def put_request_def StunRequest_new_def example_request_def
      SendDelayed_def rq_Construct_def Let_def split: option.split)
  obtain m where m: "run_calls stun_step StunRequestManager_new ?cs = Some m"
    using requests.run_defined [OF _ p] by (auto simp: stun_start_inv)
  have "reachable stun_start stun_permitted stun_step m"
    by (rule reachable_run [OF reachable_init p m]) (simp add: stun_start_def)
  from stun_requests_bounded [OF this, of "Call_thread_turn 105" 0] m show ?thesis by auto
qed

end
