(* ===== verification/StunRequestSchedule.thy ===== *)
theory StunRequestSchedule
  imports StunRequestSafety
begin

text \<open>
  The times at which a STUN request that gets no answer is sent, on the message queue of its thread, up to its
  timeout.
\<close>

section \<open>A request that is not answered\<close>

text \<open>One request, whose message is the only one in the queue of the thread.\<close>

definition alone :: "StunRequestManager \<Rightarrow> nat \<Rightarrow> StunRequest \<Rightarrow> u32 \<Rightarrow> bool" where
  "alone m p r t \<longleftrightarrow> sr_requests m = [(rq_id r, p)] \<and> sr_heap m p = Some r \<and> rq_managed r \<and>
     \<not> fStop (sr_thread m) \<and> \<not> fPeekKeep (sr_thread m) \<and> msgq (sr_thread m) = [] \<and>
     (\<exists>n c. dmsgq (sr_thread m) = [\<lparr>cmsDelay = c, msTrigger = t, dm_num = n,
        dm_msg = \<lparr>phandler = Some p, message_id = MSG_STUN_SEND, pdata = None, ts_sensitive = 0\<rparr>\<rparr>])"

definition wire_bytes :: "stun_message \<Rightarrow> byte list" where
  "wire_bytes msg = Data (snd (StunMessage_Write msg (ByteBuffer_new ORDER_NETWORK)))"

lemma alone_Get:
  assumes "alone m p r t" "\<not> TimeIsLater now t"
  shows "Get (sr_thread m) 0 now ws = Some (Some \<lparr>phandler = Some p, message_id = MSG_STUN_SEND, pdata = None,
      ts_sensitive = 0\<rparr>, (sr_thread m)\<lparr>dmsgq := [], msgq := []\<rparr>, ws)"
  using assms
  by (auto simp: alone_def Get_def get_loop.simps [of 0] check_queues_def MSG_STUN_SEND_def MQID_DISPOSE_def)

lemma not_later_refl: "\<not> TimeIsLater t t"
  by (simp add: strictly_later_iff)

lemma alone_send:
  assumes "alone m p r t" "\<not> rq_timeout r"
  shows "\<exists>m'. thread_turn t m = Some m' \<and>
    alone m' p (snd (GetNextDelay (r\<lparr>rq_tstamp := t\<rparr>))) (t + word_of_int (fst (GetNextDelay r))) \<and>
    sr_events m' = sr_events m @ [SentPacket p t (wire_bytes (rq_msg r))]"
  using assms alone_Get [OF assms(1) not_later_refl]
  by (simp add: thread_turn_def rq_OnMessage_def rq_OnMessage_by_def log_event_def put_request_def alone_def PostDelayed_def
    DoDelayPost_def EnsureActive_def mq_WakeUp_def TimeAfter_def GetNextDelay_def Let_def wire_bytes_def rq_id_def)

lemma alone_timeout:
  assumes "alone m p r t" "rq_timeout r"
  shows "\<exists>m'. thread_turn t m = Some m' \<and> sr_requests m' = [] \<and> sr_heap m' p = None \<and>
    sr_events m' = sr_events m @ [OnTimeout p]"
  using assms alone_Get [OF assms(1) not_later_refl]
  by (simp add: thread_turn_def rq_OnMessage_def rq_OnMessage_by_def log_event_def alone_def delete_request_def sr_Remove_def
    thread_Clear_def Let_def)

lemma alone_early:
  assumes "alone m p r t" "TimeIsLater now t"
  shows "\<exists>m'. thread_turn now m = Some m' \<and> alone m' p r t \<and> sr_events m' = sr_events m"
  using assms
  by (auto simp: thread_turn_def alone_def Get_def get_loop.simps [of 0] check_queues_def kForever_def TimeDiff_def)

fun run_turns :: "u32 list \<Rightarrow> StunRequestManager \<Rightarrow> StunRequestManager option" where
  "run_turns [] m = Some m"
| "run_turns (t # ts) m = (case thread_turn t m of None \<Rightarrow> None | Some m \<Rightarrow> run_turns ts m)"

lemma run_turns_append:
  "run_turns (ts @ us) m = (case run_turns ts m of None \<Rightarrow> None | Some m \<Rightarrow> run_turns us m)"
  by (induction ts arbitrary: m) (auto split: option.splits)

lemma run_early:
  assumes "alone m p r t" "\<forall>x\<in>set es. TimeIsLater x t"
  shows "\<exists>m'. run_turns es m = Some m' \<and> alone m' p r t \<and> sr_events m' = sr_events m"
  using assms
proof (induction es arbitrary: m)
  case (Cons x es)
  from alone_early [of m p r t x] Cons.prems obtain u
    where "thread_turn x m = Some u" "alone u p r t" "sr_events u = sr_events m" by auto
  with Cons.IH [of u] Cons.prems(2) show ?case by auto
qed auto

text \<open>The time after the first sending at which the next one, or in the end the timeout, is due.\<close>

fun send_offset :: "nat \<Rightarrow> nat" where
  "send_offset 0 = 0"
| "send_offset (Suc k) = send_offset k + 100 * min (2 ^ k) 16"

lemma send_offsets: "map send_offset [0..<10] = [0, 100, 300, 700, 1500, 3100, 4700, 6300, 7900, 9500]"
  by code_simp

lemma GetNextDelay_offset:
  assumes "rq_count r = int k"
  shows "t + of_nat (send_offset k) + word_of_int (fst (GetNextDelay r)) = (t + of_nat (send_offset (Suc k)) :: u32)"
proof -
  have "fst (GetNextDelay r) = int (100 * min (2 ^ k) 16)"
    using assms by (simp add: GetNextDelay_def Let_def DELAY_UNIT_def DELAY_MAX_FACTOR_def of_nat_min)
  then show ?thesis by simp
qed

definition turns_before :: "(nat \<Rightarrow> u32 list) \<Rightarrow> u32 \<Rightarrow> nat \<Rightarrow> u32 list" where
  "turns_before early t k = concat (map (\<lambda>i. early i @ [t + of_nat (send_offset i)]) [0..<k])"

lemma turns_before_Suc:
  "turns_before early t (Suc k) = turns_before early t k @ early k @ [t + of_nat (send_offset k)]"
  by (simp add: turns_before_def)

lemma run_sends:
  assumes "alone m p r t" "rq_count r = 0" "\<not> rq_timeout r" "k \<le> 9"
    "\<forall>i < k. \<forall>x\<in>set (early i). TimeIsLater x (t + of_nat (send_offset i))"
  shows "\<exists>m' r'. run_turns (turns_before early t k) m = Some m' \<and> alone m' p r' (t + of_nat (send_offset k)) \<and>
    rq_count r' = int k \<and> (rq_timeout r' \<longleftrightarrow> k = 9) \<and> rq_msg r' = rq_msg r \<and>
    sr_events m' = sr_events m @ map (\<lambda>i. SentPacket p (t + of_nat (send_offset i)) (wire_bytes (rq_msg r))) [0..<k]"
  using assms(4,5)
proof (induction k)
  case 0
  then show ?case using assms(1-3) by (auto simp: turns_before_def)
next
  case (Suc k)
  then obtain m1 r1 where 1: "run_turns (turns_before early t k) m = Some m1"
      "alone m1 p r1 (t + of_nat (send_offset k))" "rq_count r1 = int k" "\<not> rq_timeout r1" "rq_msg r1 = rq_msg r"
      "sr_events m1 = sr_events m @ map (\<lambda>i. SentPacket p (t + of_nat (send_offset i)) (wire_bytes (rq_msg r))) [0..<k]"
    by auto
  obtain m2 where 2: "run_turns (early k) m1 = Some m2" "alone m2 p r1 (t + of_nat (send_offset k))"
      "sr_events m2 = sr_events m1"
    using run_early [OF 1(2), of "early k"] Suc.prems(2) by auto
  let ?r = "snd (GetNextDelay (r1\<lparr>rq_tstamp := t + of_nat (send_offset k)\<rparr>))"
  obtain m3 where 3: "thread_turn (t + of_nat (send_offset k)) m2 = Some m3"
      "alone m3 p ?r (t + of_nat (send_offset (Suc k)))"
      "sr_events m3 = sr_events m2 @ [SentPacket p (t + of_nat (send_offset k)) (wire_bytes (rq_msg r1))]"
    using alone_send [OF 2(2) 1(4)] GetNextDelay_offset [OF 1(3), of t] by auto
  have "rq_count ?r = int (Suc k)" "rq_timeout ?r \<longleftrightarrow> Suc k = 9" "rq_msg ?r = rq_msg r"
    using 1(3,4,5) Suc.prems(1) by (auto simp: GetNextDelay_def Let_def MAX_SENDS_def)
  moreover have "run_turns (turns_before early t (Suc k)) m = Some m3"
    using 1(1) 2(1) 3(1) by (simp add: turns_before_Suc run_turns_append)
  ultimately show ?case using 3(2,3) 2(3) 1(5,6) by (intro exI [of _ m3] exI [of _ ?r]) simp
qed

text \<open>
  C17. A request that is handed to an idle manager at time \<open>t\<close> and gets no answer is sent exactly nine times, at
  0, 100, 300, 700, 1500, 3100, 4700, 6300 and 7900 ms after \<open>t\<close>, times out after 9500 ms and is then gone,
  however often the thread looks at its queue in between and wherever the clock wraps around.
\<close>

theorem stun_request_schedule:
  assumes "sm_type msg \<noteq> 0"
    "\<forall>i < 10. \<forall>x\<in>set (early i). TimeIsLater x (t + of_nat (send_offset i))"
  shows "\<exists>m m'. sr_Send prepare t (put_request StunRequestManager_new p (StunRequest_new msg cls i)) p = Some m \<and>
     run_turns (turns_before early t 10) m = Some m' \<and> sr_requests m' = [] \<and> sr_heap m' p = None \<and>
     sr_events m' = map (\<lambda>d. SentPacket p (t + d) (wire_bytes (msg\<lparr>sm_transaction_id := i\<rparr>)))
       [0, 100, 300, 700, 1500, 3100, 4700, 6300, 7900] @ [OnTimeout p]"
proof -
  let ?r = "(StunRequest_new msg cls i)\<lparr>rq_managed := True\<rparr>"
  obtain m where m: "sr_Send prepare t (put_request StunRequestManager_new p (StunRequest_new msg cls i)) p = Some m"
      "alone m p ?r t" "sr_events m = []"
    using assms(1)
    by (simp add: sr_Send_def SendDelayed_def put_request_def StunRequestManager_new_def StunRequest_new_def
      rq_Construct_def PostDelayed_def DoDelayPost_def MessageQueue_new_def EnsureActive_def mq_WakeUp_def alone_def
      TimeAfter_def rq_id_def Let_def)
  have "rq_count ?r = 0" "\<not> rq_timeout ?r" by (simp_all add: StunRequest_new_def)
  from run_sends [OF m(2) this, of 9 early] assms(2) obtain m1 r1 where 1: "run_turns (turns_before early t 9) m = Some m1"
      "alone m1 p r1 (t + of_nat (send_offset 9))" "rq_timeout r1"
      "sr_events m1 = map (\<lambda>i. SentPacket p (t + of_nat (send_offset i)) (wire_bytes (rq_msg ?r))) [0..<9]"
    using m(3) by auto
  obtain m2 where 2: "run_turns (early 9) m1 = Some m2" "alone m2 p r1 (t + of_nat (send_offset 9))"
      "sr_events m2 = sr_events m1"
    using run_early [OF 1(2), of "early 9"] assms(2) by auto
  obtain m3 where 3: "thread_turn (t + of_nat (send_offset 9)) m2 = Some m3" "sr_requests m3 = []" "sr_heap m3 p = None"
      "sr_events m3 = sr_events m2 @ [OnTimeout p]"
    using alone_timeout [OF 2(2) 1(3)] by auto
  have ten: "turns_before early t 10 = turns_before early t 9 @ early 9 @ [t + of_nat (send_offset 9)]"
    using turns_before_Suc [of early t 9] by (simp del: send_offset.simps)
  have "run_turns (turns_before early t 10) m = Some m3"
    unfolding ten run_turns_append using 1(1) 2(1) 3(1) by simp
  moreover have "map (\<lambda>i. SentPacket p (t + of_nat (send_offset i)) w) [0..<9] =
      map (\<lambda>d. SentPacket p (t + d) w) [0, 100, 300, 700, 1500, 3100, 4700, 6300, 7900]" for w
    by (simp add: upt_rec numeral_eq_Suc)
  ultimately show ?thesis using m(1) 3 2(3) 1(4) by (auto simp: StunRequest_new_def)
qed

theorem stun_request_schedule_witness:
  "\<exists>m m'. sr_Send (\<lambda>x. x) 4294967290 (put_request StunRequestManager_new 3 (StunRequest_new example_request
        (\<lambda>_. STUN_VALUE_UNKNOWN) (replicate 12 7))) 3 = Some m \<and>
     run_turns (turns_before (\<lambda>i. if i = 1 then [20] else []) 4294967290 10) m = Some m' \<and>
     sr_requests m' = [] \<and> sr_heap m' 3 = None \<and>
     sr_events m' = map (\<lambda>d. SentPacket 3 (4294967290 + d)
         (wire_bytes (example_request\<lparr>sm_transaction_id := replicate 12 7\<rparr>)))
       [0, 100, 300, 700, 1500, 3100, 4700, 6300, 7900] @ [OnTimeout 3]"
  by (rule stun_request_schedule) (simp_all add: example_request_def strictly_later_iff)

end
