(* ===== verification/IpAddress.thy ===== *)
theory IpAddress
  imports StunMessage
begin

text \<open>
  \<^verbatim>\<open>src/base/ipaddress.cc\<close>: classification, order, truncation and prefix lengths of IP addresses. An
  address is the datatype \<open>ip_address\<close> of \<open>StunMessage\<close>, its bytes in network order; the C code reads
  them through 32-bit words of the host. Conversions to and from text are the system's and not modelled.
\<close>

section \<open>Operations\<close>

definition INADDR_ANY :: u32 where "INADDR_ANY = 0"
definition INADDR_LOOPBACK :: u32 where "INADDR_LOOPBACK = 0x7F000001"
definition in6addr_any :: "byte list" where "in6addr_any = replicate 16 0"
definition in6addr_loopback :: "byte list" where "in6addr_loopback = replicate 15 0 @ [1]"

text \<open>The prefixes are \<^verbatim>\<open>in6_addr\<close> constants, padded with zeros.\<close>

definition in6_prefix :: "byte list \<Rightarrow> byte list" where
  "in6_prefix bs = bs @ replicate (16 - length bs) 0"

definition kV4MappedPrefix :: "byte list" where "kV4MappedPrefix = in6_prefix (replicate 10 0 @ [0xFF, 0xFF, 0])"
definition k6To4Prefix :: "byte list" where "k6To4Prefix = in6_prefix [0x20, 0x02, 0]"
definition kTeredoPrefix :: "byte list" where "kTeredoPrefix = in6_prefix [0x20, 0x01, 0, 0]"
definition kV4CompatibilityPrefix :: "byte list" where "kV4CompatibilityPrefix = in6_prefix [0]"
definition k6BonePrefix :: "byte list" where "k6BonePrefix = in6_prefix [0x3f, 0xfe, 0]"

definition IPAddress_v4 :: "u32 \<Rightarrow> ip_address" where
  "IPAddress_v4 ip_in_host_byte_order = AF_INET (SetLE32 (HostToNetwork32 ip_in_host_byte_order))"

fun v4AddressAsHostOrderInteger :: "ip_address \<Rightarrow> u32" where
  "v4AddressAsHostOrderInteger (AF_INET bs) = NetworkToHost32 (GetLE32 bs)"
| "v4AddressAsHostOrderInteger _ = 0"

fun ip_Size :: "ip_address \<Rightarrow> nat" where
  "ip_Size (AF_INET _) = 4"
| "ip_Size (AF_INET6 _) = 16"
| "ip_Size AF_UNSPEC = 0"

text \<open>\<^verbatim>\<open>memcmp\<close> of equally long blocks.\<close>

fun memcmp_less :: "byte list \<Rightarrow> byte list \<Rightarrow> bool" where
  "memcmp_less (x # xs) (y # ys) \<longleftrightarrow> x < y \<or> (x = y \<and> memcmp_less xs ys)"
| "memcmp_less _ _ \<longleftrightarrow> False"

fun ip_less :: "ip_address \<Rightarrow> ip_address \<Rightarrow> bool" where
  "ip_less (AF_INET a) (AF_INET b) \<longleftrightarrow> NetworkToHost32 (GetLE32 a) < NetworkToHost32 (GetLE32 b)"
| "ip_less (AF_INET6 a) (AF_INET6 b) \<longleftrightarrow> memcmp_less a b"
| "ip_less AF_UNSPEC AF_UNSPEC \<longleftrightarrow> False"
| "ip_less AF_UNSPEC _ \<longleftrightarrow> True"
| "ip_less (AF_INET _) (AF_INET6 _) \<longleftrightarrow> True"
| "ip_less _ _ \<longleftrightarrow> False"

definition ip_greater :: "ip_address \<Rightarrow> ip_address \<Rightarrow> bool" where
  "ip_greater a b \<longleftrightarrow> a \<noteq> b \<and> \<not> ip_less a b"

definition ExtractMappedAddress :: "byte list \<Rightarrow> byte list" where
  "ExtractMappedAddress in6 = mem_read in6 12 4"

text \<open>The length is in bits and a multiple of eight.\<close>

definition IPIsHelper :: "byte list \<Rightarrow> byte list \<Rightarrow> nat \<Rightarrow> bool" where
  "IPIsHelper addr tomatch len \<longleftrightarrow> take (len div 8) addr = take (len div 8) tomatch"

definition IPIs6Bone :: "byte list \<Rightarrow> bool" where "IPIs6Bone a = IPIsHelper a k6BonePrefix 16"
definition IPIs6To4 :: "byte list \<Rightarrow> bool" where "IPIs6To4 a = IPIsHelper a k6To4Prefix 16"
definition IPIsSiteLocal :: "byte list \<Rightarrow> bool" where
  "IPIsSiteLocal a \<longleftrightarrow> a ! 0 = 0xFE \<and> a ! 1 AND 0xC0 = 0xC0"
definition IPIsULA :: "byte list \<Rightarrow> bool" where "IPIsULA a \<longleftrightarrow> a ! 0 AND 0xFE = 0xFC"
definition IPIsTeredo :: "byte list \<Rightarrow> bool" where "IPIsTeredo a = IPIsHelper a kTeredoPrefix 32"
definition IPIsV4Compatibility :: "byte list \<Rightarrow> bool" where
  "IPIsV4Compatibility a = IPIsHelper a kV4CompatibilityPrefix 96"
definition IPIsV4Mapped :: "byte list \<Rightarrow> bool" where "IPIsV4Mapped a = IPIsHelper a kV4MappedPrefix 96"

fun Normalized :: "ip_address \<Rightarrow> ip_address" where
  "Normalized (AF_INET6 a) = (if \<not> IPIsV4Mapped a then AF_INET6 a else AF_INET (ExtractMappedAddress a))"
| "Normalized ip = ip"

fun AsIPv6Address :: "ip_address \<Rightarrow> ip_address" where
  "AsIPv6Address (AF_INET a) = AF_INET6 (mem_write kV4MappedPrefix 12 a)"
| "AsIPv6Address ip = ip"

definition IsPrivateV4 :: "u32 \<Rightarrow> bool" where
  "IsPrivateV4 ip_in_host_order \<longleftrightarrow>
     drop_bit 24 ip_in_host_order = 127 \<or>
     drop_bit 24 ip_in_host_order = 10 \<or>
     drop_bit 20 ip_in_host_order = (push_bit 4 172 OR 1) \<or>
     drop_bit 16 ip_in_host_order = (push_bit 8 192 OR 168) \<or>
     drop_bit 16 ip_in_host_order = (push_bit 8 169 OR 254)"

fun IPIsAny :: "ip_address \<Rightarrow> bool" where
  "IPIsAny (AF_INET a) \<longleftrightarrow> AF_INET a = IPAddress_v4 INADDR_ANY"
| "IPIsAny (AF_INET6 a) \<longleftrightarrow> a = in6addr_any"
| "IPIsAny AF_UNSPEC \<longleftrightarrow> False"

fun IPIsLoopback :: "ip_address \<Rightarrow> bool" where
  "IPIsLoopback (AF_INET a) \<longleftrightarrow> AF_INET a = IPAddress_v4 INADDR_LOOPBACK"
| "IPIsLoopback (AF_INET6 a) \<longleftrightarrow> a = in6addr_loopback"
| "IPIsLoopback AF_UNSPEC \<longleftrightarrow> False"

fun IPIsPrivate :: "ip_address \<Rightarrow> bool" where
  "IPIsPrivate (AF_INET a) \<longleftrightarrow> IsPrivateV4 (v4AddressAsHostOrderInteger (AF_INET a))"
| "IPIsPrivate (AF_INET6 a) \<longleftrightarrow> (a ! 0 = 0xFE \<and> a ! 1 = 0x80) \<or> IPIsLoopback (AF_INET6 a)"
| "IPIsPrivate AF_UNSPEC \<longleftrightarrow> False"

definition IPIsUnspec :: "ip_address \<Rightarrow> bool" where
  "IPIsUnspec ip \<longleftrightarrow> ip = AF_UNSPEC"

definition v6_as_ints :: "byte list \<Rightarrow> u32 list" where
  "v6_as_ints a = map (\<lambda>i. GetLE32 (mem_read a (4 * i) 4)) [0..<4]"

fun HashIP :: "ip_address \<Rightarrow> u64" where
  "HashIP (AF_INET a) = ucast (GetLE32 a)"
| "HashIP (AF_INET6 a) = ucast (v6_as_ints a ! 0 XOR v6_as_ints a ! 1 XOR v6_as_ints a ! 2 XOR v6_as_ints a ! 3)"
| "HashIP AF_UNSPEC = 0"

text \<open>The word that the end of the prefix lies in is masked, the ones behind it are cleared.\<close>

definition truncate_v6 :: "byte list \<Rightarrow> nat \<Rightarrow> byte list" where
  "truncate_v6 a len =
     (let position = len div 32;
          inner_length = 32 - (len - position * 32);
          inner_mask = ucast (push_bit inner_length (0xFFFFFFFF :: u64)) :: u32;
          ints = v6_as_ints a
      in concat (map (\<lambda>i.
           SetLE32 (if i = position then HostToNetwork32 (NetworkToHost32 (ints ! i) AND inner_mask)
                    else if i > position then 0
                    else ints ! i)) [0..<4]))"

fun TruncateIP :: "ip_address \<Rightarrow> int \<Rightarrow> ip_address" where
  "TruncateIP (AF_INET a) len =
     (if len < 0 then AF_UNSPEC
      else if len > 31 then AF_INET a
      else if len = 0 then IPAddress_v4 INADDR_ANY
      else
        let mask = push_bit (32 - nat len) 0xFFFFFFFF;
            host_order_ip = NetworkToHost32 (GetLE32 a)
        in AF_INET (SetLE32 (HostToNetwork32 (host_order_ip AND mask))))"
| "TruncateIP (AF_INET6 a) len =
     (if len < 0 then AF_UNSPEC
      else if len > 127 then AF_INET6 a
      else if len = 0 then AF_INET6 in6addr_any
      else AF_INET6 (truncate_v6 a (nat len)))"
| "TruncateIP AF_UNSPEC len = AF_UNSPEC"

definition trailing_zeroes :: "u32 \<Rightarrow> nat" where
  "trailing_zeroes w =
     (let w = w AND - w;
          zeroes = 32 - (if w \<noteq> 0 then 1 else 0);
          zeroes = zeroes - (if w AND 0x0000FFFF \<noteq> 0 then 16 else 0);
          zeroes = zeroes - (if w AND 0x00FF00FF \<noteq> 0 then 8 else 0);
          zeroes = zeroes - (if w AND 0x0F0F0F0F \<noteq> 0 then 4 else 0);
          zeroes = zeroes - (if w AND 0x33333333 \<noteq> 0 then 2 else 0)
      in zeroes - (if w AND 0x55555555 \<noteq> 0 then 1 else 0))"

definition count_bits :: "nat \<Rightarrow> u32 \<Rightarrow> nat" where
  "count_bits bits word_to_count =
     (if word_to_count = 0 then bits else bits + (32 - trailing_zeroes word_to_count))"

fun CountIPMaskBits :: "ip_address \<Rightarrow> nat" where
  "CountIPMaskBits (AF_INET a) = count_bits 0 (NetworkToHost32 (GetLE32 a))"
| "CountIPMaskBits (AF_INET6 a) =
     (let i = length (takeWhile (\<lambda>w. w = 0xFFFFFFFF) (v6_as_ints a))
      in count_bits (i * 32) (if i < 4 then NetworkToHost32 (v6_as_ints a ! i) else 0))"
| "CountIPMaskBits AF_UNSPEC = 0"

definition IPAddressPrecedence :: "ip_address \<Rightarrow> int" where
  "IPAddressPrecedence ip =
     (case ip of
        AF_INET _ \<Rightarrow> 30
      | AF_INET6 a \<Rightarrow>
          if IPIsLoopback ip then 60
          else if IPIsULA a then 50
          else if IPIsV4Mapped a then 30
          else if IPIs6To4 a then 20
          else if IPIsTeredo a then 10
          else if IPIsV4Compatibility a \<or> IPIsSiteLocal a \<or> IPIs6Bone a then 1
          else 40
      | AF_UNSPEC \<Rightarrow> 0)"

section \<open>Prefixes\<close>

text \<open>The bits of an address, most significant first.\<close>

definition addr_bit :: "byte list \<Rightarrow> nat \<Rightarrow> bool" where
  "addr_bit a i \<longleftrightarrow> bit (a ! (i div 8)) (7 - i mod 8)"

lemma SetBE32_bit:
  assumes "i < 32"
  shows "addr_bit (SetBE32 v) i \<longleftrightarrow> bit v (31 - i)"
proof -
  define k j where "k = i div 8" and "j = i mod 8"
  have i: "i = 8 * k + j" "j < 8" "k = 0 \<or> k = 1 \<or> k = 2 \<or> k = 3" using assms by (auto simp: k_def j_def)
  have "bit (SetBE32 v ! k) (7 - j) \<longleftrightarrow> bit v (31 - (8 * k + j))"
    using i(2,3) by (elim disjE) (auto simp: SetBE32_def bit_simps)
  then show ?thesis by (simp add: addr_bit_def k_def j_def)
qed

lemma addr_bit_take: "i < 8 * n \<Longrightarrow> addr_bit (take n a) i = addr_bit a i"
  by (simp add: addr_bit_def less_mult_imp_div_less mult.commute)

lemma GetBE32_bit:
  assumes "4 \<le> length a" "i < 32"
  shows "bit (GetBE32 a) (31 - i) = addr_bit a i"
proof -
  have "addr_bit a i = addr_bit (SetBE32 (GetBE32 a)) i"
    using assms by (simp add: be32.enc_dec addr_bit_take)
  then show ?thesis using assms(2) by (simp add: SetBE32_bit)
qed

lemma all_ones: "(0xFFFFFFFF :: u32) = mask 32" "(0xFFFFFFFF :: u64) = mask 32"
  by (simp_all add: mask_eq_exp_minus_1)

lemma bit_mask32: "bit (push_bit n (0xFFFFFFFF :: u32)) j \<longleftrightarrow> n \<le> j \<and> j < 32"
  unfolding all_ones by (auto simp: bit_simps)

lemma bit_inner_mask: "bit (ucast (push_bit n (0xFFFFFFFF :: u64)) :: u32) j \<longleftrightarrow> n \<le> j \<and> j < 32"
  unfolding all_ones by (auto simp: bit_simps)

lemma addr_bit_append:
  "addr_bit (a @ b) i = (if i < 8 * length a then addr_bit a i else addr_bit b (i - 8 * length a))"
proof (cases "i < 8 * length a")
  case True
  then show ?thesis by (simp add: addr_bit_def nth_append less_mult_imp_div_less mult.commute)
next
  case False
  define k where "k = i - 8 * length a"
  have i: "i = 8 * length a + k" using False by (simp add: k_def)
  show ?thesis unfolding i by (simp add: addr_bit_def nth_append)
qed

lemma addr_bit_words:
  "i < 32 * length ws \<Longrightarrow> addr_bit (concat (map SetBE32 ws)) i \<longleftrightarrow> bit (ws ! (i div 32)) (31 - i mod 32)"
proof (induction ws arbitrary: i)
  case (Cons w ws)
  show ?case
  proof (cases "i < 32")
    case True
    then show ?thesis by (simp add: addr_bit_append codec_simps SetBE32_bit)
  next
    case False
    then obtain k where k: "i = 32 + k" by (metis add.commute le_add_diff_inverse2 not_less)
    have "(32 + k) div 32 = Suc (k div 32)" by simp
    then show ?thesis using Cons k by (simp add: addr_bit_append codec_simps)
  qed
qed simp

lemma words_of_address:
  assumes "length a = 4 * n"
  shows "concat (map (\<lambda>i. SetBE32 (GetBE32 (mem_read a (4 * i) 4))) [0..<n]) = a"
  using assms
proof (induction n arbitrary: a)
  case (Suc n)
  have "map (\<lambda>i. SetBE32 (GetBE32 (mem_read a (4 * i) 4))) [0..<Suc n] =
      SetBE32 (GetBE32 (mem_read a 0 4)) # map (\<lambda>i. SetBE32 (GetBE32 (mem_read (drop 4 a) (4 * i) 4))) [0..<n]"
    by (simp add: upt_rec [of 0] map_Suc_upt [symmetric] mem_read_def add.commute del: upt.simps)
  then show ?case using Suc.IH [of "drop 4 a"] Suc.prems
    by (simp add: be32.enc_dec mem_read_def del: upt.simps)
qed simp

lemma addr_bit_word:
  assumes "length a = 4 * n" "i < 32 * n"
  shows "addr_bit a i \<longleftrightarrow> bit (GetBE32 (mem_read a (4 * (i div 32)) 4)) (31 - i mod 32)"
proof -
  have "addr_bit a i = addr_bit (concat (map SetBE32 (map (\<lambda>i. GetBE32 (mem_read a (4 * i) 4)) [0..<n]))) i"
    using words_of_address [OF assms(1)] by (simp add: comp_def)
  also have "\<dots> = bit (map (\<lambda>i. GetBE32 (mem_read a (4 * i) 4)) [0..<n] ! (i div 32)) (31 - i mod 32)"
    using assms(2) by (intro addr_bit_words) simp
  finally show ?thesis using assms(2) by (simp add: less_mult_imp_div_less mult.commute)
qed

text \<open>The truncated address, word by word.\<close>

definition prefix_word :: "nat \<Rightarrow> nat \<Rightarrow> u32 \<Rightarrow> u32" where
  "prefix_word n i w =
     (if i = n div 32 then w AND ucast (push_bit (32 - n mod 32) (0xFFFFFFFF :: u64))
      else if i > n div 32 then 0 else w)"

lemma SetLE32_zero: "SetLE32 0 = SetBE32 0"
  by (simp add: SetLE32_def SetBE32_def)

lemma truncate_v6_words:
  assumes "length a = 16"
  shows "truncate_v6 a n =
    concat (map SetBE32 (map (\<lambda>i. prefix_word n i (GetBE32 (mem_read a (4 * i) 4))) [0..<4]))"
proof -
  have "SetLE32 (GetLE32 (mem_read a (4 * i) 4)) = SetBE32 (GetBE32 (mem_read a (4 * i) 4))" if "i < 4" for i
    using that assms by (simp add: le32.enc_dec be32.enc_dec mem_read_def)
  moreover have "NetworkToHost32 (GetLE32 (mem_read a (4 * i) 4)) = GetBE32 (mem_read a (4 * i) 4)" if "i < 4" for i
    using that assms by (simp add: host_load_network mem_read_def)
  moreover have "n - n div 32 * 32 = n mod 32" by (simp add: minus_div_mult_eq_mod)
  ultimately show ?thesis
    by (auto simp: truncate_v6_def v6_as_ints_def prefix_word_def Let_def host_store_network SetLE32_zero
      comp_def intro!: arg_cong [of _ _ concat] map_cong)
qed

lemma bit_prefix_word:
  assumes "i < 128" "length a = 16"
  shows "bit (prefix_word n (i div 32) (GetBE32 (mem_read a (4 * (i div 32)) 4))) (31 - i mod 32) \<longleftrightarrow>
    i < n \<and> addr_bit a i"
proof -
  have "i div 32 = n div 32 \<Longrightarrow> (32 - n mod 32 \<le> 31 - i mod 32) \<longleftrightarrow> i < n"
    using mod_less_divisor [of 32 i] mod_less_divisor [of 32 n] div_mult_mod_eq [of i 32] div_mult_mod_eq [of n 32]
    by linarith
  moreover have "i div 32 > n div 32 \<Longrightarrow> \<not> i < n" "i div 32 < n div 32 \<Longrightarrow> i < n"
    using div_le_mono [of i n 32] div_le_mono [of n i 32] by linarith+
  ultimately show ?thesis
    using addr_bit_word [of a 4 i] assms
    by (auto simp: prefix_word_def bit_and_iff bit_inner_mask)
qed

lemma truncate_v6_bit:
  assumes "length a = 16" "i < 128"
  shows "addr_bit (truncate_v6 a n) i \<longleftrightarrow> i < n \<and> addr_bit a i"
  unfolding truncate_v6_words [OF assms(1)]
  using assms bit_prefix_word [OF assms(2,1), of n] by (subst addr_bit_words) (simp_all add: less_mult_imp_div_less)

fun ip_octets :: "ip_address \<Rightarrow> byte list" where
  "ip_octets (AF_INET a) = a"
| "ip_octets (AF_INET6 a) = a"
| "ip_octets AF_UNSPEC = []"

lemma truncate_v4_bit:
  assumes "length a = 4" "i < 32" "0 < n" "n < 32"
  shows "addr_bit (SetLE32 (HostToNetwork32 (NetworkToHost32 (GetLE32 a) AND push_bit (32 - n) 0xFFFFFFFF))) i \<longleftrightarrow>
    i < n \<and> addr_bit a i"
proof -
  have "32 - n \<le> 31 - i \<longleftrightarrow> i < n" "31 - i < 32" using assms by linarith+
  then show ?thesis using assms GetBE32_bit [of a i]
    by (simp add: host_store_network host_load_network SetBE32_bit bit_and_iff bit_mask32 conj_commute)
qed

lemma addr_bit_zeros: "i < 8 * n \<Longrightarrow> \<not> addr_bit (replicate n 0) i"
  by (simp add: addr_bit_def less_mult_imp_div_less mult.commute)

lemma any_v4: "IPAddress_v4 INADDR_ANY = AF_INET (replicate 4 0)"
  by (simp add: IPAddress_v4_def INADDR_ANY_def host_store_network SetBE32_def numeral_eq_Suc)

text \<open>
  C14. Truncating an address to a prefix of \<open>n\<close> bits keeps its family and its first \<open>n\<close> bits and
  clears all others, for both families and every \<open>n\<close> that is not negative.
\<close>

theorem TruncateIP_keeps_prefix:
  assumes "ip = AF_INET a \<and> length a = 4 \<or> ip = AF_INET6 a \<and> length a = 16" "i < 8 * ip_Size ip"
  shows "ip_Size (TruncateIP ip (int n)) = ip_Size ip \<and>
    (addr_bit (ip_octets (TruncateIP ip (int n))) i \<longleftrightarrow> i < n \<and> addr_bit (ip_octets ip) i)"
  using assms(1)
proof
  assume ip: "ip = AF_INET a \<and> length a = 4"
  consider "n = 0" | "0 < n" "n < 32" | "32 \<le> n" by linarith
  then show ?thesis
    by cases (use ip assms(2) truncate_v4_bit [of a i n] addr_bit_zeros [of i 4] in \<open>auto simp: any_v4 Let_def\<close>)
next
  assume ip: "ip = AF_INET6 a \<and> length a = 16"
  consider "n = 0" | "0 < n" "n < 128" | "128 \<le> n" by linarith
  then show ?thesis
    by cases (use ip assms(2) truncate_v6_bit [of a i n] addr_bit_zeros [of i 16] in \<open>auto simp: in6addr_any_def\<close>)
qed

lemma small_numbers: "[0..<33] = [0, 1, 2, 3, 4, 5, 6, 7, 8, 9, 10, 11, 12, 13, 14, 15, 16, 17, 18, 19, 20, 21, 22, 23, 24, 25, 26, 27, 28, 29, 30, 31, 32]"
  by code_simp

lemma count_bits_mask:
  assumes "n \<le> 32"
  shows "count_bits b (push_bit (32 - n) 0xFFFFFFFF) = b + n"
proof -
  have "list_all (\<lambda>n. count_bits b (push_bit (32 - n) 0xFFFFFFFF) = b + n) [0, 1, 2, 3, 4, 5, 6, 7, 8, 9, 10, 11, 12, 13, 14, 15, 16, 17, 18, 19, 20, 21, 22, 23, 24, 25, 26, 27, 28, 29, 30, 31, 32]"
    by (simp add: count_bits_def trailing_zeroes_def Let_def push_bit_eq_mult)
  then show ?thesis using assms unfolding small_numbers [symmetric] by (simp add: list_all_iff)
qed

text \<open>The mask of a prefix as an address.\<close>

lemma v6_as_ints_words:
  assumes "length ws = 4"
  shows "v6_as_ints (concat (map SetBE32 ws)) = map HostToNetwork32 ws"
proof -
  obtain w0 w1 w2 w3 where ws: "ws = [w0, w1, w2, w3]"
    using assms by (auto simp: length_Suc_conv numeral_eq_Suc)
  have le: "GetLE32 (SetBE32 w) = HostToNetwork32 w" for w by (simp add: HostToNetwork32_def IsHostBigEndian_def)
  show ?thesis unfolding ws v6_as_ints_def
    by (simp add: upt_rec [of _ 4] mem_read_def codec_simps le del: upt.simps)
qed

lemma HostToNetwork32_ones: "HostToNetwork32 w = 0xFFFFFFFF \<longleftrightarrow> w = 0xFFFFFFFF"
proof
  assume "HostToNetwork32 w = 0xFFFFFFFF"
  then have "NetworkToHost32 (HostToNetwork32 w) = NetworkToHost32 0xFFFFFFFF" by simp
  moreover have "NetworkToHost32 0xFFFFFFFF = 0xFFFFFFFF" by code_simp
  ultimately show "w = 0xFFFFFFFF" by (simp add: network_host_roundtrip)
qed (simp, code_simp)

lemma inner_mask_eq: "ucast (push_bit n (0xFFFFFFFF :: u64)) = push_bit n (0xFFFFFFFF :: u32)"
  by (rule bit_word_eqI) (simp add: bit_inner_mask bit_mask32)

lemma ones_and_mask: "(0xFFFFFFFF :: u32) AND push_bit k 0xFFFFFFFF = push_bit k 0xFFFFFFFF"
  by (rule bit_word_eqI) (unfold all_ones, simp add: bit_simps)

lemma inner_mask_not_ones: "0 < n \<Longrightarrow> push_bit n (0xFFFFFFFF :: u32) \<noteq> 0xFFFFFFFF"
proof
  assume "0 < n" "push_bit n (0xFFFFFFFF :: u32) = 0xFFFFFFFF"
  then have "bit (push_bit n (0xFFFFFFFF :: u32)) 0 = bit (push_bit 0 (0xFFFFFFFF :: u32)) 0" by simp
  then show False using \<open>0 < n\<close> unfolding bit_mask32 by simp
qed

lemma mask_bits_v6:
  assumes "0 < n" "n < 128"
  shows "CountIPMaskBits (AF_INET6 (truncate_v6 (replicate 16 255) n)) = n"
proof -
  let ?m = "push_bit (32 - n mod 32) (0xFFFFFFFF :: u32)"
  let ?ws = "map (\<lambda>i. prefix_word n i 0xFFFFFFFF) [0..<4]"
  have ones: "GetBE32 (mem_read (replicate 16 255) (4 * i) 4) = 0xFFFFFFFF" if "i < 4" for i
  proof -
    have "SetBE32 0xFFFFFFFF = replicate 4 255" by code_simp
    then have "mem_read (replicate 16 255) (4 * i) 4 = SetBE32 0xFFFFFFFF"
      using that by (simp add: mem_read_def take_replicate drop_replicate min_def)
    then show ?thesis by (simp add: be32.dec_enc_nil)
  qed
  have w: "v6_as_ints (truncate_v6 (replicate 16 255) n) = map HostToNetwork32 ?ws"
  proof -
    have "map (\<lambda>i. prefix_word n i (GetBE32 (mem_read (replicate 16 255) (4 * i) 4))) [0..<4] = ?ws"
      using ones by (intro map_cong) simp_all
    then show ?thesis using v6_as_ints_words [of ?ws] by (simp only: truncate_v6_words length_replicate) simp
  qed
  have ne: "?m \<noteq> 0xFFFFFFFF" by (rule inner_mask_not_ones) (simp add: mod_less_divisor)
  define k where "k = n div 32"
  have "k = 0 \<or> k = 1 \<or> k = 2 \<or> k = 3" using assms(2) by (auto simp: k_def)
  moreover have four: "[0..<4] = [0, 1, 2, 3]" by code_simp
  ultimately have len: "length (takeWhile (\<lambda>w. w = 0xFFFFFFFF) (map HostToNetwork32 ?ws)) = k"
    using ne unfolding prefix_word_def k_def [symmetric] four
    by (elim disjE) (simp_all add: HostToNetwork32_ones inner_mask_eq ones_and_mask)
  have k4: "k < 4" using assms(2) by (simp add: k_def less_mult_imp_div_less)
  then have "map HostToNetwork32 ?ws ! k = HostToNetwork32 ?m"
    by (simp add: prefix_word_def k_def inner_mask_eq ones_and_mask)
  then have "CountIPMaskBits (AF_INET6 (truncate_v6 (replicate 16 255) n)) = count_bits (k * 32) ?m"
    using k4 unfolding CountIPMaskBits.simps w Let_def len by (simp only: if_True network_host_roundtrip)
  also have "\<dots> = k * 32 + n mod 32" by (rule count_bits_mask) simp
  finally show ?thesis by (simp add: k_def)
qed

lemma mask_bits_v4:
  assumes "0 < n" "n < 32"
  shows "CountIPMaskBits (TruncateIP (AF_INET (replicate 4 255)) (int n)) = n"
proof -
  have "NetworkToHost32 (GetLE32 (replicate 4 255)) = 0xFFFFFFFF" by code_simp
  then show ?thesis using assms count_bits_mask [of n 0]
    by (simp add: ones_and_mask Let_def le32.dec_enc_nil network_host_roundtrip)
qed

lemma mask_bits_ends:
  "CountIPMaskBits (IPAddress_v4 INADDR_ANY) = 0" "CountIPMaskBits (AF_INET6 in6addr_any) = 0"
  "CountIPMaskBits (AF_INET (replicate 4 255)) = 32" "CountIPMaskBits (AF_INET6 (replicate 16 255)) = 128"
  by code_simp+

text \<open>
  C15. The length of a network mask is counted correctly: for each family, the mask of a prefix of \<open>n\<close>
  bits, which is what truncating the address of all ones to \<open>n\<close> bits gives, has \<open>n\<close> bits.
\<close>

theorem mask_length_roundtrip:
  "CountIPMaskBits (TruncateIP (AF_INET (replicate 4 255)) (int n)) = min n 32 \<and>
   CountIPMaskBits (TruncateIP (AF_INET6 (replicate 16 255)) (int n)) = min n 128"
proof
  consider "n = 0" | "0 < n" "n < 32" | "32 \<le> n" by linarith
  then show "CountIPMaskBits (TruncateIP (AF_INET (replicate 4 255)) (int n)) = min n 32"
    by cases (simp add: mask_bits_ends del: CountIPMaskBits.simps,
      simp add: mask_bits_v4 del: CountIPMaskBits.simps TruncateIP.simps,
      simp add: mask_bits_ends del: CountIPMaskBits.simps)
  consider "n = 0" | "0 < n" "n < 128" | "128 \<le> n" by linarith
  then show "CountIPMaskBits (TruncateIP (AF_INET6 (replicate 16 255)) (int n)) = min n 128"
    by cases (simp_all add: mask_bits_v6 mask_bits_ends del: CountIPMaskBits.simps)
qed

theorem TruncateIP_keeps_prefix_witness:
  "ip_Size (TruncateIP (AF_INET [192, 168, 77, 200]) (int 20)) = 4 \<and>
   addr_bit (ip_octets (TruncateIP (AF_INET [192, 168, 77, 200]) (int 20))) 17 \<and>
   \<not> addr_bit (ip_octets (TruncateIP (AF_INET [192, 168, 77, 200]) (int 20))) 24"
  using TruncateIP_keeps_prefix [of "AF_INET [192, 168, 77, 200]" "[192, 168, 77, 200]" 17 20]
    TruncateIP_keeps_prefix [of "AF_INET [192, 168, 77, 200]" "[192, 168, 77, 200]" 24 20]
  by (simp add: addr_bit_def bit_numeral_rec del: TruncateIP.simps)

end
