(* ===== verification/IceConnection.thy ===== *)
theory IceConnection
  imports StunRequest IpAddress
begin

text \<open>
  Candidates and connections of \<^verbatim>\<open>include/p2p/base/candidate.h\<close> and \<^verbatim>\<open>src/p2p/base/port.cc\<close>: the part of a
  \<^verbatim>\<open>Connection\<close> that does not need its port. Signals and the message that deletes the connection are
  recorded in \<open>cn_events\<close>. A violated assertion of the code is \<open>None\<close>.
\<close>

section \<open>Candidates\<close>

record Candidate =
  cd_id :: "byte list"
  cd_component :: int
  cd_protocol :: "byte list"
  cd_address :: socket_address
  cd_priority :: u32
  cd_username :: "byte list"
  cd_password :: "byte list"
  cd_type :: "byte list"
  cd_network_name :: "byte list"
  cd_generation :: u32
  cd_foundation :: "byte list"
  cd_related_address :: socket_address

definition IsEquivalent :: "Candidate \<Rightarrow> Candidate \<Rightarrow> bool" where
  "IsEquivalent a c \<longleftrightarrow>
     cd_id a = cd_id c \<and> cd_component a = cd_component c \<and> cd_protocol a = cd_protocol c \<and>
     cd_address a = cd_address c \<and> cd_username a = cd_username c \<and> cd_password a = cd_password c \<and>
     cd_type a = cd_type c \<and> cd_generation a = cd_generation c \<and> cd_foundation a = cd_foundation c \<and>
     cd_related_address a = cd_related_address c"

definition GetPriority :: "Candidate \<Rightarrow> u32 \<Rightarrow> u32" where
  "GetPriority c type_preference =
     (let addr_pref = IPAddressPrecedence (sk_ip (cd_address c))
      in push_bit 24 type_preference OR push_bit 8 (word_of_int addr_pref) OR word_of_int (256 - cd_component c))"

section \<open>State\<close>

definition CONNECTION_READ_TIMEOUT :: u32 where "CONNECTION_READ_TIMEOUT = 30 * 1000"
definition CONNECTION_WRITE_TIMEOUT :: u32 where "CONNECTION_WRITE_TIMEOUT = 15 * 1000"
definition CONNECTION_WRITE_CONNECT_TIMEOUT :: u32 where "CONNECTION_WRITE_CONNECT_TIMEOUT = 5 * 1000"
definition CONNECTION_WRITE_CONNECT_FAILURES :: u32 where "CONNECTION_WRITE_CONNECT_FAILURES = 5"
definition CONNECTION_RESPONSE_TIMEOUT :: int where "CONNECTION_RESPONSE_TIMEOUT = 5 * 1000"
definition MINIMUM_RTT :: u32 where "MINIMUM_RTT = 100"
definition MAXIMUM_RTT :: u32 where "MAXIMUM_RTT = 3000"
definition DEFAULT_RTT :: u32 where "DEFAULT_RTT = MAXIMUM_RTT"
definition RTT_RATIO :: u32 where "RTT_RATIO = 3"

datatype read_state = STATE_READ_INIT | STATE_READABLE | STATE_READ_TIMEOUT
datatype write_state = STATE_WRITABLE | STATE_WRITE_UNRELIABLE | STATE_WRITE_INIT | STATE_WRITE_TIMEOUT
datatype check_state = STATE_WAITING | STATE_INPROGRESS | STATE_SUCCEEDED | STATE_FAILED

datatype conn_event = SignalStateChange | PostDelete | SignalReadPacket "byte list" | SignalUseCandidate
  | SignalDestroyed

text \<open>\<open>cn_recv_total\<close> and \<open>cn_send_total\<close> are the totals of the rate trackers.\<close>

record Connection =
  cn_local_candidate_index :: nat
  cn_remote_candidate :: Candidate
  cn_read_state :: read_state
  cn_write_state :: write_state
  cn_connected :: bool
  cn_pruned :: bool
  cn_requests :: StunRequestManager
  cn_rtt :: u32
  cn_last_ping_sent :: u32
  cn_last_ping_received :: u32
  cn_last_data_received :: u32
  cn_last_ping_response_received :: u32
  cn_pings_since_last_response :: "u32 list"
  cn_recv_total :: nat
  cn_send_total :: nat
  cn_reported :: bool
  cn_nominated :: bool
  cn_state :: check_state
  cn_error :: int
  cn_events :: "conn_event list"

definition Connection_new :: "nat \<Rightarrow> Candidate \<Rightarrow> Connection" where
  "Connection_new index remote_candidate =
     \<lparr>cn_local_candidate_index = index, cn_remote_candidate = remote_candidate,
      cn_read_state = STATE_READ_INIT, cn_write_state = STATE_WRITE_INIT, cn_connected = True, cn_pruned = False,
      cn_requests = StunRequestManager_new, cn_rtt = DEFAULT_RTT, cn_last_ping_sent = 0,
      cn_last_ping_received = 0, cn_last_data_received = 0, cn_last_ping_response_received = 0,
      cn_pings_since_last_response = [], cn_recv_total = 0, cn_send_total = 0, cn_reported = False,
      cn_nominated = False, cn_state = STATE_WAITING, cn_error = 0, cn_events = []\<rparr>"

definition cn_signal :: "conn_event \<Rightarrow> Connection \<Rightarrow> Connection" where
  "cn_signal e c = c\<lparr>cn_events := cn_events c @ [e]\<rparr>"

section \<open>State changes\<close>

definition conn_CheckTimeout :: "Connection \<Rightarrow> Connection" where
  "conn_CheckTimeout c =
     (if (cn_read_state c = STATE_READ_TIMEOUT \<or> cn_read_state c = STATE_READ_INIT) \<and>
         cn_write_state c = STATE_WRITE_TIMEOUT
      then cn_signal PostDelete c else c)"

definition set_read_state :: "read_state \<Rightarrow> Connection \<Rightarrow> Connection" where
  "set_read_state value c =
     (let old_value = cn_read_state c;
          c = c\<lparr>cn_read_state := value\<rparr>
      in if value \<noteq> old_value then conn_CheckTimeout (cn_signal SignalStateChange c) else c)"

definition set_write_state :: "write_state \<Rightarrow> Connection \<Rightarrow> Connection" where
  "set_write_state value c =
     (let old_value = cn_write_state c;
          c = c\<lparr>cn_write_state := value\<rparr>
      in if value \<noteq> old_value then conn_CheckTimeout (cn_signal SignalStateChange c) else c)"

definition set_state :: "check_state \<Rightarrow> Connection \<Rightarrow> Connection" where
  "set_state state c = c\<lparr>cn_state := state\<rparr>"

definition set_connected :: "bool \<Rightarrow> Connection \<Rightarrow> Connection" where
  "set_connected value c = c\<lparr>cn_connected := value\<rparr>"

definition set_nominated :: "bool \<Rightarrow> Connection \<Rightarrow> Connection" where
  "set_nominated nominated c = c\<lparr>cn_nominated := nominated\<rparr>"

definition Prune :: "Connection \<Rightarrow> Connection option" where
  "Prune c =
     (if cn_pruned c then Some c
      else
        case sr_Clear (cn_requests c) of
          None \<Rightarrow> None
        | Some requests \<Rightarrow>
            Some (set_write_state STATE_WRITE_TIMEOUT (c\<lparr>cn_pruned := True, cn_requests := requests\<rparr>)))"

definition conn_Destroy :: "Connection \<Rightarrow> Connection" where
  "conn_Destroy c = set_write_state STATE_WRITE_TIMEOUT (set_read_state STATE_READ_TIMEOUT c)"

definition ReceivedPing :: "u32 \<Rightarrow> Connection \<Rightarrow> Connection" where
  "ReceivedPing now c = set_read_state STATE_READABLE (c\<lparr>cn_last_ping_received := now\<rparr>)"

text \<open>A packet that is not STUN.\<close>

definition data_received :: "u32 \<Rightarrow> byte list \<Rightarrow> Connection \<Rightarrow> Connection" where
  "data_received now data c =
     (if cn_read_state c = STATE_READABLE then
        let c = cn_signal (SignalReadPacket data)
                  (c\<lparr>cn_last_data_received := now, cn_recv_total := cn_recv_total c + length data\<rparr>)
        in if \<not> cn_pruned c \<and> cn_write_state c = STATE_WRITE_TIMEOUT then set_write_state STATE_WRITE_INIT c else c
      else c)"

text \<open>\<^verbatim>\<open>OnMessage\<close>: the posted deletion. What is left of the object is its last signal.\<close>

definition conn_OnMessage :: "Connection \<Rightarrow> Connection" where
  "conn_OnMessage c = cn_signal SignalDestroyed c"

section \<open>Timeouts\<close>

definition TooManyFailures :: "u32 list \<Rightarrow> u32 \<Rightarrow> u32 \<Rightarrow> u32 \<Rightarrow> bool" where
  "TooManyFailures pings_since_last_response maximum_failures rtt_estimate now =
     (if length pings_since_last_response < unat maximum_failures then False
      else pings_since_last_response ! (unat maximum_failures - 1) + rtt_estimate < now)"

definition TooLongWithoutResponse :: "u32 list \<Rightarrow> u32 \<Rightarrow> u32 \<Rightarrow> bool" where
  "TooLongWithoutResponse pings_since_last_response maximum_time now =
     (if length pings_since_last_response = 0 then False
      else pings_since_last_response ! 0 + maximum_time < now)"

definition ConservativeRTTEstimate :: "u32 \<Rightarrow> u32" where
  "ConservativeRTTEstimate rtt = max MINIMUM_RTT (min MAXIMUM_RTT (2 * rtt))"

definition UpdateState :: "u32 \<Rightarrow> Connection \<Rightarrow> Connection" where
  "UpdateState now c =
     (let rtt = ConservativeRTTEstimate (cn_rtt c);
          c = (if cn_read_state c = STATE_READABLE \<and>
                  cn_last_ping_received c + CONNECTION_READ_TIMEOUT \<le> now \<and>
                  cn_last_data_received c + CONNECTION_READ_TIMEOUT \<le> now
               then set_read_state STATE_READ_TIMEOUT c else c);
          c = (if cn_write_state c = STATE_WRITABLE \<and>
                  TooManyFailures (cn_pings_since_last_response c) CONNECTION_WRITE_CONNECT_FAILURES rtt now \<and>
                  TooLongWithoutResponse (cn_pings_since_last_response c) CONNECTION_WRITE_CONNECT_TIMEOUT now
               then set_write_state STATE_WRITE_UNRELIABLE c else c)
      in if (cn_write_state c = STATE_WRITE_UNRELIABLE \<or> cn_write_state c = STATE_WRITE_INIT) \<and>
            TooLongWithoutResponse (cn_pings_since_last_response c) CONNECTION_WRITE_TIMEOUT now
         then set_write_state STATE_WRITE_TIMEOUT c else c)"

section \<open>Ping responses\<close>

text \<open>Every ping is sent once: after the delay the request times out.\<close>

definition ConnectionRequest_GetNextDelay :: "StunRequest \<Rightarrow> int \<times> StunRequest" where
  "ConnectionRequest_GetNextDelay r = (CONNECTION_RESPONSE_TIMEOUT, r\<lparr>rq_timeout := True\<rparr>)"

definition OnConnectionRequestResponse :: "u32 \<Rightarrow> u32 \<Rightarrow> Connection \<Rightarrow> Connection" where
  "OnConnectionRequestResponse now rtt c =
     (let c = set_state STATE_SUCCEEDED (set_write_state STATE_WRITABLE c)
      in c\<lparr>cn_pings_since_last_response := [], cn_last_ping_response_received := now,
           cn_rtt := (RTT_RATIO * cn_rtt c + rtt) div (RTT_RATIO + 1)\<rparr>)"

definition conn_failed :: "Connection \<Rightarrow> Connection" where
  "conn_failed c = set_write_state STATE_WRITE_TIMEOUT (set_state STATE_FAILED c)"

end
