(* ===== verification/StunCodec.thy ===== *)
theory StunCodec
  imports StunMessage
begin

text \<open>
  The wire format of STUN messages as a function to byte lists, and the proofs that the readers
  and writers of \<open>StunMessage\<close> implement it: every well-formed message survives a
  \<^verbatim>\<open>Write\<close> followed by a \<^verbatim>\<open>Read\<close>.
\<close>

section \<open>The wire format\<close>

definition padding :: "u16 \<Rightarrow> byte list" where
  "padding len = (let r = unat len mod 4 in if r > 0 then replicate (4 - r) 0 else [])"

definition pad4 :: "nat \<Rightarrow> nat" where
  "pad4 n = (if n mod 4 \<noteq> 0 then n + (4 - n mod 4) else n)"

fun ip_bytes :: "ip_address \<Rightarrow> byte list" where
  "ip_bytes (AF_INET v) = v"
| "ip_bytes (AF_INET6 v) = v"
| "ip_bytes AF_UNSPEC = []"

definition address_bytes :: "byte \<Rightarrow> u16 \<Rightarrow> ip_address \<Rightarrow> byte list" where
  "address_bytes fam port ip = [0] @ [fam] @ SetBE16 port @ ip_bytes ip"

fun value_bytes :: "byte list \<Rightarrow> u16 \<Rightarrow> stun_value \<Rightarrow> byte list" where
  "value_bytes tid len (Address a) = address_bytes (family (sk_ip a)) (sk_port a) (sk_ip a)"
| "value_bytes tid len (XorAddress a) = address_bytes (family (sk_ip a)) (xor_port (sk_port a))
     (GetXoredIP (Some tid) (sk_ip a))"
| "value_bytes tid len (UInt32 v) = SetBE32 v"
| "value_bytes tid len (UInt64 v) = SetBE64 v"
| "value_bytes tid len (ByteString bs) = bs @ padding len"
| "value_bytes tid len (ErrorCode c n r) = SetBE32 (error_code_word c n) @ r @ padding len"
| "value_bytes tid len (UInt16List ts) = concat (map SetBE16 ts) @ padding len"

definition attr_bytes :: "byte list \<Rightarrow> stun_attribute \<Rightarrow> byte list" where
  "attr_bytes tid a = SetBE16 (at_type a) @ SetBE16 (at_length a) @
     value_bytes tid (at_length a) (at_value a)"

definition header_bytes :: "stun_message \<Rightarrow> byte list" where
  "header_bytes m = SetBE16 (sm_type m) @ SetBE16 (sm_length m) @
     (if IsLegacy m then [] else SetBE32 kStunMagicCookie) @ sm_transaction_id m"

definition message_bytes :: "stun_message \<Rightarrow> byte list" where
  "message_bytes m = header_bytes m @ concat (map (attr_bytes (sm_transaction_id m)) (sm_attrs m))"

section \<open>Well-formed messages\<close>

fun ip_ok :: "ip_address \<Rightarrow> bool" where
  "ip_ok (AF_INET v) \<longleftrightarrow> length v = 4"
| "ip_ok (AF_INET6 v) \<longleftrightarrow> length v = 16"
| "ip_ok AF_UNSPEC \<longleftrightarrow> False"

text \<open>An XOR-ed IPv6 address needs the 96-bit transaction id of RFC 5389.\<close>

fun is_v6 :: "ip_address \<Rightarrow> bool" where
  "is_v6 (AF_INET6 _) = True"
| "is_v6 _ = False"

fun value_ok :: "byte list \<Rightarrow> u16 \<Rightarrow> stun_value \<Rightarrow> bool" where
  "value_ok tid len (Address a) \<longleftrightarrow> ip_ok (sk_ip a) \<and> len = address_length (sk_ip a)"
| "value_ok tid len (XorAddress a) \<longleftrightarrow> ip_ok (sk_ip a) \<and> len = address_length (sk_ip a) \<and>
     (is_v6 (sk_ip a) \<longrightarrow> length tid = kStunTransactionIdLength)"
| "value_ok tid len (UInt32 v) \<longleftrightarrow> len = 4"
| "value_ok tid len (UInt64 v) \<longleftrightarrow> len = 8"
| "value_ok tid len (ByteString bs) \<longleftrightarrow> unat len = length bs"
| "value_ok tid len (ErrorCode c n r) \<longleftrightarrow> unat len = 4 + length r \<and> c < 8"
| "value_ok tid len (UInt16List ts) \<longleftrightarrow> unat len = 2 * length ts"

definition attr_ok :: "(u16 \<Rightarrow> stun_value_type) \<Rightarrow> byte list \<Rightarrow> stun_attribute \<Rightarrow> bool" where
  "attr_ok vt tid a \<longleftrightarrow> value_type (at_value a) = vt (at_type a) \<and>
     value_ok tid (at_length a) (at_value a)"

definition attr_size :: "stun_attribute \<Rightarrow> nat" where
  "attr_size a = pad4 (unat (at_length a)) + 4"

text \<open>A legacy transaction id must not start with the magic cookie, or the reader takes the
  message for one of RFC 5389.\<close>

definition message_ok :: "(u16 \<Rightarrow> stun_value_type) \<Rightarrow> stun_message \<Rightarrow> bool" where
  "message_ok vt m \<longleftrightarrow> sm_type m AND 0x8000 = 0 \<and> IsValidTransactionId (sm_transaction_id m) \<and>
     (IsLegacy m \<longrightarrow> take 4 (sm_transaction_id m) \<noteq> SetBE32 kStunMagicCookie) \<and>
     list_all (attr_ok vt (sm_transaction_id m)) (sm_attrs m) \<and>
     unat (sm_length m) = sum_list (map attr_size (sm_attrs m))"

section \<open>Writing\<close>

lemma length_padding: "length (padding len) = pad4 (unat len) - unat len"
  by (simp add: padding_def pad4_def Let_def)

lemma net_WritePadding: "net_buf b xs \<Longrightarrow> net_buf (WritePadding a b) (xs @ padding (at_length a))"
  using net_buf_WriteBytes [of b xs]
  by (auto simp: WritePadding_def padding_def Let_def take_replicate min_def)

lemma net_write_ip: "net_buf b xs \<Longrightarrow> net_buf (write_ip b ip) (xs @ ip_bytes ip)"
  by (cases ip) (simp_all add: net_buf_WriteBytes)

lemma ip_ok_family: "ip_ok ip \<Longrightarrow> family ip \<noteq> 0"
  by (cases ip) auto

lemma length_xor_bytes: "length (xor_bytes xs ys) = min (length xs) (length ys)"
  by (simp add: xor_bytes_def)

lemma xor_xor_bytes: "length xs \<le> length ys \<Longrightarrow> xor_bytes (xor_bytes xs ys) ys = xs"
  by (rule nth_equalityI) (auto simp: xor_bytes_def xor.assoc)

lemma GetXoredIP_ok:
  assumes "ip_ok ip" and "is_v6 ip \<longrightarrow> length tid = kStunTransactionIdLength"
  shows "ip_ok (GetXoredIP (Some tid) ip)" and "family (GetXoredIP (Some tid) ip) = family ip"
    and "address_length (GetXoredIP (Some tid) ip) = address_length ip"
    and "GetXoredIP (Some tid) (GetXoredIP (Some tid) ip) = ip"
    and "GetXoredIP (Some tid) ip \<noteq> AF_UNSPEC"
  using assms
  by (cases ip; simp add: length_xor_bytes xor_xor_bytes codec_simps kStunTransactionIdLength_def)+

lemma xor_port_involution: "xor_port (xor_port p) = p"
  by (simp add: xor_port_def xor.assoc)

lemma net_WriteAddress:
  assumes "net_buf b xs"
  shows "net_buf (write_ip (WriteUInt16 (WriteUInt8 (WriteUInt8 b 0) fam) port) ip)
    (xs @ address_bytes fam port ip)"
  using net_write_ip [OF f16.wr_net [OF f8.wr_net [OF f8.wr_net [OF assms]]]]
  by (simp add: address_bytes_def)

lemma net_attr_Write:
  assumes "net_buf b xs" and "value_ok tid (at_length a) (at_value a)"
  shows "\<exists>b'. attr_Write (Some tid) a b = (True, b') \<and>
    net_buf b' (xs @ value_bytes tid (at_length a) (at_value a))"
proof (cases "at_value a")
  case (Address addr)
  with assms show ?thesis
    by (simp add: StunAddressAttribute_Write_def Let_def ip_ok_family net_WriteAddress)
next
  case (XorAddress addr)
  with assms show ?thesis
    by (simp add: StunXorAddressAttribute_Write_def Let_def ip_ok_family net_WriteAddress
        GetXoredIP_ok)
next
  case (ByteString bs)
  with assms net_WritePadding [OF net_buf_WriteBytes [OF assms(1), of bs], of a]
  show ?thesis by simp
next
  case (ErrorCode c n r)
  with net_WritePadding [OF net_buf_WriteString [OF f32.wr_net [OF assms(1)]], of a]
  show ?thesis by simp
next
  case (UInt16List ts)
  with net_WritePadding [OF f16.wr_all [OF assms(1), of ts], of a] show ?thesis by simp
qed (simp_all add: f32.wr_net f64.wr_net assms)

lemma net_write_attrs:
  assumes "net_buf b xs" and "list_all (attr_ok vt tid) as"
  shows "\<exists>b'. write_attrs (Some tid) as b = (True, b') \<and>
    net_buf b' (xs @ concat (map (attr_bytes tid) as))"
  using assms
proof (induction as arbitrary: b xs)
  case (Cons a as)
  let ?b1 = "WriteUInt16 (WriteUInt16 b (at_type a)) (at_length a)"
  have "value_ok tid (at_length a) (at_value a)" using Cons.prems(2) by (simp add: attr_ok_def)
  from net_attr_Write [OF f16.wr_net [OF f16.wr_net [OF Cons.prems(1)]] this]
  obtain b2 where b2: "attr_Write (Some tid) a ?b1 = (True, b2)" "net_buf b2 (xs @ attr_bytes tid a)"
    by (auto simp: attr_bytes_def)
  from Cons.IH [OF b2(2)] Cons.prems(2) b2(1) show ?case by (simp del: attr_Write.simps)
qed simp

lemma net_header:
  assumes "net_buf b xs"
  shows "net_buf (WriteString (if \<not> IsLegacy m then WriteUInt32 (WriteUInt16 (WriteUInt16 b
      (sm_type m)) (sm_length m)) kStunMagicCookie else WriteUInt16 (WriteUInt16 b (sm_type m))
      (sm_length m)) (sm_transaction_id m)) (xs @ header_bytes m)"
  using net_buf_WriteString [OF f32.wr_net [OF f16.wr_net [OF f16.wr_net [OF assms]]]]
    net_buf_WriteString [OF f16.wr_net [OF f16.wr_net [OF assms]]]
  by (simp add: header_bytes_def)

lemma net_StunMessage_Write:
  assumes "list_all (attr_ok vt (sm_transaction_id m)) (sm_attrs m)" and "net_buf b xs"
  shows "\<exists>b'. StunMessage_Write m b = (True, b') \<and> net_buf b' (xs @ message_bytes m)"
  using net_write_attrs [OF net_header [OF assms(2), of m] assms(1)]
  by (simp add: StunMessage_Write_def message_bytes_def Let_def)

section \<open>Reading\<close>

lemma net_ReadBytes_append:
  "net_buf b (xs @ rest) \<Longrightarrow> n = length xs \<Longrightarrow> \<exists>b'. ReadBytes b n = Some (xs, b') \<and> net_buf b' rest"
  using net_buf_ReadBytes [of b "xs @ rest" n] by simp

lemma net_ReadString_append:
  "net_buf b (xs @ rest) \<Longrightarrow> n = length xs \<Longrightarrow>
    \<exists>b'. ReadString b s n = Some (s @ xs, b') \<and> net_buf b' rest"
  using net_buf_ReadString [of b "xs @ rest" n s] by simp

lemma net_ConsumePadding:
  assumes "net_buf b (padding (at_length a) @ rest)"
  shows "net_buf (ConsumePadding a b) rest"
  using assms net_buf_Consume [OF assms, of "4 - unat (at_length a) mod 4"]
  by (auto simp: ConsumePadding_def padding_def Let_def)

lemma net_ReadAddress:
  assumes "net_buf b (address_bytes (family ip) port ip @ rest)" and "ip_ok ip"
    and "len = address_length ip"
  shows "\<exists>b'. StunAddressAttribute_Read len b = Some (\<lparr>sk_ip = ip, sk_port = port\<rparr>, b') \<and>
    net_buf b' rest"
proof -
  from assms(1) have "net_buf b ([0] @ [family ip] @ SetBE16 port @ ip_bytes ip @ rest)"
    by (simp add: address_bytes_def)
  from f8.rd_enc [OF this] obtain b1 where b1: "ReadUInt8 b = Some (0, b1)"
      "net_buf b1 ([family ip] @ SetBE16 port @ ip_bytes ip @ rest)" by auto
  from f8.rd_enc [OF b1(2)] obtain b2 where b2: "ReadUInt8 b1 = Some (family ip, b2)"
      "net_buf b2 (SetBE16 port @ ip_bytes ip @ rest)" by auto
  from f16.rd_enc [OF b2(2)] obtain b3 where b3: "ReadUInt16 b2 = Some (port, b3)"
      "net_buf b3 (ip_bytes ip @ rest)" by auto
  from net_ReadBytes_append [OF b3(2) refl] obtain b4 where
    b4: "ReadBytes b3 (length (ip_bytes ip)) = Some (ip_bytes ip, b4)" "net_buf b4 rest" by auto
  from b1(1) b2(1) b3(1) b4 assms(2,3) show ?thesis
    by (cases ip) (simp_all add: StunAddressAttribute_Read_def)
qed

lemma net_read_uint16s:
  "net_buf b (concat (map SetBE16 ts) @ rest) \<Longrightarrow>
    \<exists>b'. read_uint16s (length ts) b acc = Some (acc @ ts, b') \<and> net_buf b' rest"
proof (induction ts arbitrary: b acc)
  case (Cons t ts)
  from f16.rd_enc [of b t "concat (map SetBE16 ts) @ rest"] Cons.prems obtain b1 where
    "ReadUInt16 b = Some (t, b1)" "net_buf b1 (concat (map SetBE16 ts) @ rest)" by auto
  with Cons.IH [of b1 "acc @ [t]"] show ?case by simp
qed simp

lemma error_code_word_fields:
  assumes "c < 8"
  shows "ucast (drop_bit 8 (error_code_word c n) AND 0x7) = c"
    and "ucast (error_code_word c n AND 0xff) = n"
proof -
  have c: "i < 3" if "bit c i" for i
  proof -
    have "take_bit 3 c = c" using assms
      by (simp add: take_bit_eq_mod word_arith_nat_mod unat_arith_simps)
    then show ?thesis using that by (metis bit_take_bit_iff)
  qed
  have m7: "(0x7 :: u32) = mask 3" by (simp add: mask_eq_exp_minus_1)
  have mff: "(0xff :: u32) = mask 8" by (simp add: mask_eq_exp_minus_1)
  show "ucast (drop_bit 8 (error_code_word c n) AND 0x7) = c"
    unfolding error_code_word_def m7
    by (rule bit_word_eqI) (use c in \<open>auto simp: bit_simps dest: bit_imp_le_length\<close>)
  show "ucast (error_code_word c n AND 0xff) = n"
    unfolding error_code_word_def mff
    by (rule bit_word_eqI) (auto simp: bit_simps)
qed

lemma net_attr_Read:
  assumes ok: "value_ok tid (at_length a) (at_value a)"
    and create: "StunAttribute_Create (value_type (at_value a)) (at_type a) (at_length a) = Some a0"
    and b: "net_buf b (value_bytes tid (at_length a) (at_value a) @ rest)"
  shows "\<exists>b'. attr_Read (Some tid) a0 b = Some (a, b') \<and> net_buf b' rest"
proof (cases "at_value a")
  case (Address addr)
  with ok create net_ReadAddress [of b "sk_ip addr" "sk_port addr" rest] b show ?thesis by auto
next
  case (XorAddress addr)
  let ?ip = "GetXoredIP (Some tid) (sk_ip addr)"
  from ok XorAddress have k: "ip_ok (sk_ip addr)" "at_length a = address_length (sk_ip addr)"
    "is_v6 (sk_ip addr) \<longrightarrow> length tid = kStunTransactionIdLength" by auto
  from b XorAddress net_ReadAddress [of b ?ip "xor_port (sk_port addr)" rest] k
  obtain b' where "StunAddressAttribute_Read (at_length a) b =
      Some (\<lparr>sk_ip = ?ip, sk_port = xor_port (sk_port addr)\<rparr>, b')" "net_buf b' rest"
    by (auto simp: GetXoredIP_ok)
  with create XorAddress k show ?thesis
    by (auto simp: StunXorAddressAttribute_Read_def GetXoredIP_ok xor_port_involution Let_def)
next
  case (UInt32 v)
  with b f32.rd_enc [of b v rest] ok create show ?thesis by auto
next
  case (UInt64 v)
  with b f64.rd_enc [of b v rest] ok create show ?thesis by auto
next
  case (ByteString bs)
  with b net_ReadBytes_append [of b bs "padding (at_length a) @ rest" "length bs"]
  obtain b1 where "ReadBytes b (length bs) = Some (bs, b1)" "net_buf b1 (padding (at_length a) @ rest)"
    by auto
  with ByteString ok create net_ConsumePadding [of b1 a0 rest] show ?thesis by auto
next
  case (ErrorCode c n r)
  with b f32.rd_enc [of b "error_code_word c n" "r @ padding (at_length a) @ rest"]
  obtain b1 where b1: "ReadUInt32 b = Some (error_code_word c n, b1)"
    "net_buf b1 (r @ padding (at_length a) @ rest)" by auto
  from net_ReadString_append [OF b1(2) refl, of "[]"] obtain b2 where
    b2: "ReadString b1 [] (length r) = Some (r, b2)" "net_buf b2 (padding (at_length a) @ rest)"
    by auto
  from b1 b2 ErrorCode ok create net_ConsumePadding [of b2 a0 rest] show ?thesis
    by (auto simp: error_code_word_fields word_less_nat_alt Let_def)
next
  case (UInt16List ts)
  with b net_read_uint16s [of b ts "padding (at_length a) @ rest" "[]"]
  obtain b1 where "read_uint16s (length ts) b [] = Some (ts, b1)"
    "net_buf b1 (padding (at_length a) @ rest)" by auto
  with UInt16List ok create net_ConsumePadding [of b1 a0 rest] show ?thesis by auto
qed

lemma create_known: "v \<noteq> STUN_VALUE_UNKNOWN \<Longrightarrow> \<exists>a0. StunAttribute_Create v t len = Some a0"
  by (cases v) auto

lemma value_type_known: "value_type v \<noteq> STUN_VALUE_UNKNOWN"
  by (cases v) auto

lemma net_read_attribute:
  assumes "attr_ok vt tid a" and "net_buf b (attr_bytes tid a @ rest)"
  shows "\<exists>b'. read_attribute vt tid b = Some (Some a, b') \<and> net_buf b' rest"
proof -
  from assms(1) have vt: "vt (at_type a) = value_type (at_value a)"
    and ok: "value_ok tid (at_length a) (at_value a)" by (simp_all add: attr_ok_def)
  let ?body = "value_bytes tid (at_length a) (at_value a) @ rest"
  from assms(2) f16.rd_enc [of b "at_type a" "SetBE16 (at_length a) @ ?body"]
  obtain b1 where b1: "ReadUInt16 b = Some (at_type a, b1)"
    "net_buf b1 (SetBE16 (at_length a) @ ?body)" by (auto simp: attr_bytes_def)
  from f16.rd_enc [OF b1(2)] obtain b2 where
    b2: "ReadUInt16 b1 = Some (at_length a, b2)" "net_buf b2 ?body" by auto
  obtain a0 where a0: "StunAttribute_Create (value_type (at_value a)) (at_type a) (at_length a)
      = Some a0" using create_known [OF value_type_known] by blast
  from net_attr_Read [OF ok a0 b2(2)] b1(1) b2(1) a0 vt show ?thesis
    by (auto simp: read_attribute_def simp del: attr_Read.simps)
qed

lemma attr_bytes_nonempty: "attr_bytes tid a \<noteq> []"
  by (simp add: attr_bytes_def SetBE16_def)

lemma net_read_attrs:
  assumes "list_all (attr_ok vt tid) as"
    and "net_buf b (concat (map (attr_bytes tid) as))"
  shows "\<exists>b'. read_attrs vt tid acc b = Some (acc @ as, b') \<and> net_buf b' []"
  using assms
proof (induction as arbitrary: b acc)
  case Nil
  then show ?case using net_buf_Length [of b "[]"] by (simp add: read_attrs.simps [of _ _ _ b])
next
  case (Cons a as)
  from Cons.prems net_read_attribute [of vt tid a b "concat (map (attr_bytes tid) as)"]
  obtain b' where b': "read_attribute vt tid b = Some (Some a, b')"
    "net_buf b' (concat (map (attr_bytes tid) as))" by auto
  have "Length b > 0" using net_buf_Length [OF Cons.prems(2)] attr_bytes_nonempty [of tid a] by simp
  with b' Cons.IH [of b' "acc @ [a]"] Cons.prems(1) show ?case
    by (simp add: read_attrs.simps [of _ _ _ b])
qed

lemma length_xored_ip: "ip_ok ip \<Longrightarrow> (is_v6 ip \<longrightarrow> length tid = kStunTransactionIdLength) \<Longrightarrow>
    length (ip_bytes (GetXoredIP (Some tid) ip)) = length (ip_bytes ip)"
  by (cases ip) (simp_all add: length_xor_bytes codec_simps kStunTransactionIdLength_def)

lemma length_address_bytes: "ip_ok ip \<Longrightarrow> length (address_bytes f p ip) = unat (address_length ip)"
  by (cases ip) (simp_all add: address_bytes_def codec_simps)

lemma length_value_bytes:
  assumes "value_ok tid len v"
  shows "length (value_bytes tid len v) = pad4 (unat len)"
proof -
  have pad: "n \<le> pad4 n" for n
    using mod_less_divisor [of 4 n] by (simp add: pad4_def; linarith)
  show ?thesis using assms pad [of "unat len"] f16.length_enc_all
    by (cases v) (auto simp: length_padding codec_simps length_address_bytes GetXoredIP_ok,
        auto simp: pad4_def length_address_bytes GetXoredIP_ok elim: ip_ok.elims)
qed

lemma length_attr_bytes: "attr_ok vt tid a \<Longrightarrow> length (attr_bytes tid a) = attr_size a"
  by (simp add: attr_ok_def attr_bytes_def attr_size_def codec_simps length_value_bytes)

lemma length_attrs_bytes:
  "list_all (attr_ok vt tid) as \<Longrightarrow>
    length (concat (map (attr_bytes tid) as)) = sum_list (map attr_size as)"
  by (induction as) (auto simp: length_attr_bytes)

lemma network_cookie: "length c = 4 \<Longrightarrow> NetworkToHost32 (GetLE32 c) = kStunMagicCookie \<longleftrightarrow>
    c = SetBE32 kStunMagicCookie"
  using be32.dec_eq_iff [of c kStunMagicCookie] by (simp add: host_load_network)

text \<open>The transaction id as the reader finds it: four bytes where the cookie would be, then
  twelve.\<close>

lemma message_ok_tid:
  assumes "message_ok vt m"
  obtains c t where "length c = 4" "length t = 12"
    "header_bytes m = SetBE16 (sm_type m) @ SetBE16 (sm_length m) @ c @ t"
    "sm_transaction_id m = (if c = SetBE32 kStunMagicCookie then t else c @ t)"
proof (cases "IsLegacy m")
  case True
  with assms show ?thesis
    by (intro that [of "take 4 (sm_transaction_id m)" "drop 4 (sm_transaction_id m)"])
      (auto simp: message_ok_def header_bytes_def IsLegacy_def kStunLegacyTransactionIdLength_def)
next
  case False
  with assms show ?thesis
    by (intro that [of "SetBE32 kStunMagicCookie" "sm_transaction_id m"])
      (auto simp: message_ok_def header_bytes_def IsLegacy_def codec_simps IsValidTransactionId_def
        kStunTransactionIdLength_def)
qed

lemma net_StunMessage_Read:
  assumes ok: "message_ok vt m" and b: "net_buf b (message_bytes m)"
  shows "\<exists>b'. StunMessage_Read vt b = Some (m, b') \<and> net_buf b' []"
proof -
  let ?as = "concat (map (attr_bytes (sm_transaction_id m)) (sm_attrs m))"
  from message_ok_tid [OF ok] obtain c t where ct: "length c = 4" "length t = 12"
    "header_bytes m = SetBE16 (sm_type m) @ SetBE16 (sm_length m) @ c @ t"
    and tid: "sm_transaction_id m = (if c = SetBE32 kStunMagicCookie then t else c @ t)" by metis
  from b ct f16.rd_enc [of b "sm_type m" "SetBE16 (sm_length m) @ c @ t @ ?as"] obtain b1 where
    b1: "ReadUInt16 b = Some (sm_type m, b1)" "net_buf b1 (SetBE16 (sm_length m) @ c @ t @ ?as)"
    by (auto simp: message_bytes_def)
  from f16.rd_enc [OF b1(2)] obtain b2 where
    b2: "ReadUInt16 b1 = Some (sm_length m, b2)" "net_buf b2 (c @ t @ ?as)" by auto
  from net_ReadString_append [OF b2(2) refl, of "[]"] ct(1) obtain b3 where
    b3: "ReadString b2 [] kStunMagicCookieLength = Some (c, b3)" "net_buf b3 (t @ ?as)"
    by (auto simp: kStunMagicCookieLength_def)
  from net_ReadString_append [OF b3(2) refl, of "[]"] ct(2) obtain b4 where
    b4: "ReadString b3 [] kStunTransactionIdLength = Some (t, b4)" "net_buf b4 ?as"
    by (auto simp: kStunTransactionIdLength_def)
  have attrs: "list_all (attr_ok vt (sm_transaction_id m)) (sm_attrs m)"
    using ok by (simp add: message_ok_def)
  from net_read_attrs [OF attrs b4(2), of "[]"] obtain b5 where
    b5: "read_attrs vt (sm_transaction_id m) [] b4 = Some (sm_attrs m, b5)" "net_buf b5 []" by auto
  have "unat (sm_length m) = Length b4"
    using ok net_buf_Length [OF b4(2)] length_attrs_bytes [OF attrs] by (simp add: message_ok_def)
  with b1(1) b2(1) b3(1) b4(1) b5 ok tid network_cookie [OF ct(1)] show ?thesis
    by (auto simp: StunMessage_Read_def message_ok_def Let_def)
qed

section \<open>Building messages\<close>

lemma AddAttribute_spec:
  assumes "message_ok vt m" and "attr_ok vt (sm_transaction_id m) a"
    and "unat (sm_length m) + attr_size a < 2 ^ 16"
  shows "\<exists>m'. AddAttribute vt m a = (True, m') \<and> message_ok vt m' \<and>
    m' = m\<lparr>sm_attrs := sm_attrs m @ [a], sm_length := sm_length m + of_nat (attr_size a)\<rparr> \<and>
    unat (sm_length m') = unat (sm_length m) + attr_size a"
proof -
  let ?m' = "m\<lparr>sm_attrs := sm_attrs m @ [a], sm_length := sm_length m + of_nat (attr_size a)\<rparr>"
  have add: "AddAttribute vt m a = (True, ?m')"
    using assms(2) by (simp add: AddAttribute_def attr_ok_def attr_size_def pad4_def Let_def)
  have len: "unat (sm_length m + of_nat (attr_size a)) = unat (sm_length m) + attr_size a"
    using assms(3) by (simp add: unat_add_small unat_of_nat_small)
  show ?thesis using assms(1,2) add len by (simp add: message_ok_def IsLegacy_def)
qed

lemma net_StunMessage_Write_new:
  assumes "message_ok vt m"
  shows "\<exists>b. StunMessage_Write m (ByteBuffer_new ORDER_NETWORK) = (True, b) \<and>
    Data b = message_bytes m \<and> Length b = length (message_bytes m)"
  using net_StunMessage_Write [of vt m, OF _ net_buf_new] assms net_buf_Data net_buf_Length
  by (fastforce simp: message_ok_def)

section \<open>Attribute classes\<close>

text \<open>Every attribute object of a message is of the class that the message class names for its
  type, which the accessors rely on when they cast.\<close>

definition typed_attrs :: "(u16 \<Rightarrow> stun_value_type) \<Rightarrow> stun_attribute list \<Rightarrow> bool" where
  "typed_attrs vt as \<longleftrightarrow> list_all (\<lambda>a. value_type (at_value a) = vt (at_type a)) as"

lemma create_typed: "StunAttribute_Create v t len = Some a \<Longrightarrow> value_type (at_value a) = v \<and>
    at_type a = t"
  by (cases v) auto

lemma attr_Read_typed: "attr_Read owner a b = Some (a', b') \<Longrightarrow>
    value_type (at_value a') = value_type (at_value a) \<and> at_type a' = at_type a"
  by (auto simp: Let_def split: stun_value.splits bind_splits if_splits)

lemma read_attribute_typed:
  "read_attribute vt tid b = Some (Some a, b') \<Longrightarrow> value_type (at_value a) = vt (at_type a)"
  by (auto simp: read_attribute_def simp del: attr_Read.simps dest!: create_typed attr_Read_typed
      split: bind_splits option.splits prod.splits if_splits)

lemma read_attrs_typed:
  "read_attrs vt tid acc b = Some (as, b') \<Longrightarrow> typed_attrs vt acc \<Longrightarrow> typed_attrs vt as"
proof (induction vt tid acc b rule: read_attrs.induct)
  case (1 vt tid acc b)
  note run = 1(3) [unfolded read_attrs.simps [of _ _ acc b]]
  show ?case
  proof (cases "Length b > 0")
    case True
    with run obtain r b1 where r: "read_attribute vt tid b = Some (r, b1)"
      by (auto split: option.splits)
    show ?thesis
    proof (cases r)
      case None
      with 1(1) [OF True r] 1(4) run True r show ?thesis by simp
    next
      case (Some a)
      with r have "typed_attrs vt (acc @ [a])"
        using 1(4) by (auto simp: typed_attrs_def dest: read_attribute_typed)
      with 1(2) [OF True r] Some run True r show ?thesis by simp
    qed
  qed (use run 1(4) in simp)
qed

lemma find_typed: "find P as = Some a \<Longrightarrow> typed_attrs vt as \<Longrightarrow>
    value_type (at_value a) = vt (at_type a) \<and> P a"
  by (auto simp: typed_attrs_def list_all_iff find_Some_iff)

section \<open>Properties\<close>

text \<open>
  C19. STUN round trip: a well-formed message (every attribute of the class its type has, the
  length fields consistent, a valid transaction id) is written successfully, and reading the
  written bytes succeeds, consumes all of them and gives back the same message, for every message
  class and every kind of attribute, XOR-ed addresses and padded strings included.
\<close>

theorem stun_roundtrip:
  assumes "message_ok vt m"
  shows "\<exists>b b'. StunMessage_Write m (ByteBuffer_new ORDER_NETWORK) = (True, b) \<and>
    StunMessage_Read vt (ByteBuffer_of (Data b)) = Some (m, b') \<and> Length b' = 0"
proof -
  from net_StunMessage_Write_new [OF assms] obtain b where
    b: "StunMessage_Write m (ByteBuffer_new ORDER_NETWORK) = (True, b)" "Data b = message_bytes m"
    by auto
  from net_StunMessage_Read [OF assms net_buf_of] obtain b' where
    "StunMessage_Read vt (ByteBuffer_of (message_bytes m)) = Some (m, b')" "net_buf b' []" by blast
  with b net_buf_Length [of b' "[]"] show ?thesis by auto
qed

definition sample_message :: stun_message where
  "sample_message =
     (let m = (SetType StunMessage_new 0x0101)\<lparr>sm_transaction_id := replicate 12 7\<rparr>;
          m = snd (AddAttribute IceMessage_GetAttributeValueType m
                (StunXorAddressAttribute_new STUN_ATTR_XOR_MAPPED_ADDRESS
                  \<lparr>sk_ip = AF_INET [10, 0, 0, 1], sk_port = 3478\<rparr>));
          m = snd (AddAttribute IceMessage_GetAttributeValueType m
                (StunByteStringAttribute_new STUN_ATTR_USERNAME [97, 98, 99]))
      in m)"

lemmas sample_defs = sample_message_def SetType_def StunMessage_new_def AddAttribute_def
  StunXorAddressAttribute_new_def StunByteStringAttribute_new_def CopyBytes_def
  IceMessage_GetAttributeValueType_def StunMessage_GetAttributeValueType_def
  STUN_ATTR_XOR_MAPPED_ADDRESS_def STUN_ATTR_USERNAME_def STUN_ATTR_MAPPED_ADDRESS_def
  STUN_ATTR_MESSAGE_INTEGRITY_def STUN_ATTR_ERROR_CODE_def STUN_ATTR_UNKNOWN_ATTRIBUTES_def
  STUN_ATTR_REALM_def STUN_ATTR_NONCE_def

lemma sample_message_ok: "message_ok IceMessage_GetAttributeValueType sample_message"
  by (simp add: sample_defs message_ok_def IsValidTransactionId_def IsLegacy_def attr_ok_def
      attr_size_def pad4_def kStunTransactionIdLength_def kStunLegacyTransactionIdLength_def
      Let_def)

theorem stun_roundtrip_witness:
  "message_ok IceMessage_GetAttributeValueType sample_message \<and>
   (\<exists>b b'. StunMessage_Write sample_message (ByteBuffer_new ORDER_NETWORK) = (True, b) \<and>
     StunMessage_Read IceMessage_GetAttributeValueType (ByteBuffer_of (Data b)) =
       Some (sample_message, b') \<and> Length b' = 0)"
  using stun_roundtrip [OF sample_message_ok] sample_message_ok by blast

text \<open>
  Building: adding a well-formed attribute to a well-formed message that has room for it in
  its 16-bit length succeeds, appends the attribute, grows the length by the padded size of the
  attribute and leaves the message well formed; an attribute of another class than its type has
  is refused and changes nothing.
\<close>

theorem AddAttribute_keeps_wellformed:
  assumes "message_ok vt m" and "value_ok (sm_transaction_id m) (at_length a) (at_value a)"
    and "unat (sm_length m) + attr_size a < 2 ^ 16"
  shows "if value_type (at_value a) = vt (at_type a)
    then \<exists>m'. AddAttribute vt m a = (True, m') \<and> message_ok vt m' \<and>
      sm_attrs m' = sm_attrs m @ [a] \<and> unat (sm_length m') = unat (sm_length m) + attr_size a \<and>
      sm_transaction_id m' = sm_transaction_id m \<and> sm_type m' = sm_type m
    else AddAttribute vt m a = (False, m)"
proof (cases "value_type (at_value a) = vt (at_type a)")
  case True
  with assms(2) have "attr_ok vt (sm_transaction_id m) a" by (simp add: attr_ok_def)
  from AddAttribute_spec [OF assms(1) this assms(3)] True show ?thesis by auto
next
  case False
  then show ?thesis by (simp add: AddAttribute_def)
qed

theorem AddAttribute_keeps_wellformed_witness:
  "\<exists>m'. AddAttribute IceMessage_GetAttributeValueType sample_message
     (StunUInt32Attribute_new 0x0024 99) = (True, m') \<and> message_ok IceMessage_GetAttributeValueType m'"
  using AddAttribute_keeps_wellformed [OF sample_message_ok, of "StunUInt32Attribute_new 0x0024 99"]
  by (auto simp: sample_defs StunUInt32Attribute_new_def attr_size_def pad4_def Let_def)

text \<open>
  C39. Class safety of the accessors: whatever bytes a message is read from, and whatever is then
  added to it, an attribute found by its type is an object of the class the message class names
  for that type, so the casts in \<^verbatim>\<open>GetUInt32\<close>, \<^verbatim>\<open>GetByteString\<close> and the other accessors are
  safe.
\<close>

theorem accessor_casts_safe:
  assumes "StunMessage_Read vt b = Some (m, b')" and "snd (AddAttribute vt m a) = m'"
    and "GetAttribute m' t = Some x"
  shows "value_type (at_value x) = vt t \<and> at_type x = t"
proof -
  from assms(1) obtain tid b0 b1 where "read_attrs vt tid [] b0 = Some (sm_attrs m, b1)"
    by (auto simp: StunMessage_Read_def Let_def split: bind_splits if_splits)
  from read_attrs_typed [OF this] have "typed_attrs vt (sm_attrs m)" by (simp add: typed_attrs_def)
  then have "typed_attrs vt (sm_attrs m')"
    using assms(2) by (auto simp: AddAttribute_def typed_attrs_def Let_def split: if_splits)
  from find_typed [OF _ this, of "\<lambda>a. at_type a = t" x] assms(3) show ?thesis
    by (simp add: GetAttribute_def)
qed

theorem accessor_casts_safe_witness:
  "\<exists>m b' x. StunMessage_Read IceMessage_GetAttributeValueType
      (ByteBuffer_of (message_bytes sample_message)) = Some (m, b') \<and>
    GetAttribute (snd (AddAttribute IceMessage_GetAttributeValueType m
      (StunUInt32Attribute_new 0x0024 99))) STUN_ATTR_USERNAME = Some x \<and>
    value_type (at_value x) = STUN_VALUE_BYTE_STRING"
proof -
  let ?vt = IceMessage_GetAttributeValueType and ?a = "StunUInt32Attribute_new 0x0024 99"
  from net_StunMessage_Read [OF sample_message_ok net_buf_of] obtain b' where
    r: "StunMessage_Read ?vt (ByteBuffer_of (message_bytes sample_message)) = Some (sample_message, b')"
    by blast
  obtain x where x: "GetAttribute (snd (AddAttribute ?vt sample_message ?a)) STUN_ATTR_USERNAME = Some x"
    by (simp add: GetAttribute_def sample_defs StunUInt32Attribute_new_def Let_def)
  from accessor_casts_safe [OF r refl x] have "value_type (at_value x) = STUN_VALUE_BYTE_STRING"
    by (simp add: sample_defs)
  with r x show ?thesis by blast
qed

end
