(* ===== verification/StunIntegrity.thy ===== *)
theory StunIntegrity
  imports StunCodec
begin

text \<open>
  The MESSAGE-INTEGRITY and FINGERPRINT attributes of \<^verbatim>\<open>src/p2p/base/stun.cc\<close>: how they are
  added to a message and checked on received bytes. The SHA-1 and MD5 digests come from
  \<^verbatim>\<open>MessageDigestFactory\<close> and are the arguments \<open>sha1\<close> and \<open>md5\<close>. The validation of
  MESSAGE-INTEGRITY returns \<open>None\<close> where the C code reads outside the given bytes.
\<close>

section \<open>Operations\<close>

definition load_BE16 :: "byte list \<Rightarrow> nat \<Rightarrow> u16 option" where
  "load_BE16 data p = (if p + 2 \<le> length data then Some (GetBE16 (drop p data)) else None)"

definition skip_attribute :: "nat \<Rightarrow> u16 \<Rightarrow> nat" where
  "skip_attribute current_pos attr_length =
     (let current_pos = current_pos + 2 + 2 + unat attr_length
      in if unat attr_length mod 4 \<noteq> 0 then current_pos + (4 - unat attr_length mod 4)
         else current_pos)"

text \<open>The search loop: \<open>Some None\<close> where the code goes on to return \<^verbatim>\<open>false\<close>.\<close>

function find_message_integrity :: "byte list \<Rightarrow> nat \<Rightarrow> nat option option" where
  "find_message_integrity data current_pos =
     (if current_pos < length data then
        do { attr_type \<leftarrow> load_BE16 data current_pos;
             attr_length \<leftarrow> load_BE16 data (current_pos + 2);
             if attr_type = STUN_ATTR_MESSAGE_INTEGRITY then
               if unat attr_length \<noteq> kStunMessageIntegritySize \<or>
                  current_pos + unat attr_length > length data
               then Some None else Some (Some current_pos)
             else find_message_integrity data (skip_attribute current_pos attr_length) }
      else Some None)"
  by pat_completeness auto

lemma skip_attribute_size: "skip_attribute pos l = pos + (pad4 (unat l) + 4)"
  using mod_less_divisor [of 4 "unat l"] by (simp add: skip_attribute_def pad4_def Let_def; linarith)

termination find_message_integrity
  by (relation "measure (\<lambda>(data, pos). length data - pos)") (auto simp: skip_attribute_size)

declare find_message_integrity.simps [simp del]

text \<open>The copy of the bytes in front of the attribute, its length field adjusted when other
  attributes follow.\<close>

definition integrity_temp_data :: "byte list \<Rightarrow> nat \<Rightarrow> byte list" where
  "integrity_temp_data data mi_pos =
     (let attr_end = mi_pos + kStunAttributeHeaderSize + kStunMessageIntegritySize;
          temp_data = take mi_pos data
      in if length data > attr_end then
           let extra_offset = length data - attr_end;
               new_adjusted_len = length data - extra_offset - kStunHeaderSize
           in mem_write temp_data 2 (SetBE16 (of_nat new_adjusted_len))
         else temp_data)"

definition ValidateMessageIntegrity ::
    "message_digest \<Rightarrow> byte list \<Rightarrow> byte list \<Rightarrow> bool option" where
  "ValidateMessageIntegrity sha1 data password =
     (if length data mod 4 \<noteq> 0 then Some False
      else do {
        msg_length \<leftarrow> load_BE16 data 2;
        if length data \<noteq> unat msg_length + kStunHeaderSize then Some False
        else do {
          found \<leftarrow> find_message_integrity data kStunHeaderSize;
          case found of
            None \<Rightarrow> Some False
          | Some mi_pos \<Rightarrow>
              let hmac = ComputeHmac sha1 password (integrity_temp_data data mi_pos)
                    kStunMessageIntegritySize
              in if length hmac \<noteq> kStunMessageIntegritySize then Some False
                 else if mi_pos + kStunAttributeHeaderSize + kStunMessageIntegritySize \<le> length data
                 then Some (mem_read data (mi_pos + kStunAttributeHeaderSize)
                              kStunMessageIntegritySize = hmac)
                 else None } })"

text \<open>\<open>set_last\<close> updates the attribute just added, through the pointer kept to it.\<close>

definition set_last :: "stun_message \<Rightarrow> stun_attribute \<Rightarrow> stun_message" where
  "set_last m a = m\<lparr>sm_attrs := butlast (sm_attrs m) @ [a]\<rparr>"

definition AddMessageIntegrity :: "message_digest \<Rightarrow> (u16 \<Rightarrow> stun_value_type) \<Rightarrow> stun_message \<Rightarrow>
    byte list \<Rightarrow> bool \<times> stun_message" where
  "AddMessageIntegrity sha1 vt m key =
     (let msg_integrity_attr = StunByteStringAttribute_new STUN_ATTR_MESSAGE_INTEGRITY
            (replicate kStunMessageIntegritySize 0x30);
          (added, m) = AddAttribute vt m msg_integrity_attr;
          (ok, buf) = StunMessage_Write m (ByteBuffer_new ORDER_NETWORK)
      in if \<not> ok then (False, m)
         else
           let msg_len_for_hmac = Length buf - kStunAttributeHeaderSize -
                 unat (at_length msg_integrity_attr);
               hmac = ComputeHmac sha1 key (take msg_len_for_hmac (Data buf))
                 kStunMessageIntegritySize
           in if length hmac \<noteq> kStunMessageIntegritySize then (False, m)
              else (True, if added then set_last m (CopyBytes msg_integrity_attr hmac) else m))"

definition ValidateFingerprint :: "byte list \<Rightarrow> bool" where
  "ValidateFingerprint data =
     (let fingerprint_attr_size = kStunAttributeHeaderSize + 4 in
      if length data mod 4 \<noteq> 0 \<or> length data < kStunHeaderSize + fingerprint_attr_size then False
      else if GetBE32 (drop (kStunTransactionIdOffset - kStunMagicCookieLength) data)
                \<noteq> kStunMagicCookie then False
      else
        let fingerprint_attr_data = drop (length data - fingerprint_attr_size) data in
        if GetBE16 fingerprint_attr_data \<noteq> STUN_ATTR_FINGERPRINT \<or>
           GetBE16 (drop 2 fingerprint_attr_data) \<noteq> 4 then False
        else
          let fingerprint = GetBE32 (drop kStunAttributeHeaderSize fingerprint_attr_data)
          in fingerprint XOR STUN_FINGERPRINT_XOR_VALUE =
               ComputeCrc32 (take (length data - fingerprint_attr_size) data))"

definition AddFingerprint :: "(u16 \<Rightarrow> stun_value_type) \<Rightarrow> stun_message \<Rightarrow> bool \<times> stun_message" where
  "AddFingerprint vt m =
     (let fingerprint_attr = StunUInt32Attribute_new STUN_ATTR_FINGERPRINT 0;
          (added, m) = AddAttribute vt m fingerprint_attr;
          (ok, buf) = StunMessage_Write m (ByteBuffer_new ORDER_NETWORK)
      in if \<not> ok then (False, m)
         else
           let msg_len_for_crc32 = Length buf - kStunAttributeHeaderSize -
                 unat (at_length fingerprint_attr);
               c = ComputeCrc32 (take msg_len_for_crc32 (Data buf))
           in (True, if added then set_last m (fingerprint_attr\<lparr>at_value :=
                       UInt32 (c XOR STUN_FINGERPRINT_XOR_VALUE)\<rparr>) else m))"

definition ComputeStunCredentialHash :: "message_digest \<Rightarrow> byte list \<Rightarrow> byte list \<Rightarrow> byte list \<Rightarrow>
    byte list option" where
  "ComputeStunCredentialHash md5 username realm password =
     (let input = username @ [0x3A] @ realm @ [0x3A] @ password;
          hash = ComputeDigest md5 input 64
      in if length hash = 0 then None else Some hash)"

definition message_classes :: "(u16 \<Rightarrow> stun_value_type) set" where
  "message_classes = {StunMessage_GetAttributeValueType, RelayMessage_GetAttributeValueType,
     TurnMessage_GetAttributeValueType, IceMessage_GetAttributeValueType}"

section \<open>What the attributes are added to\<close>

lemma length_header_bytes: "message_ok vt m \<Longrightarrow> length (header_bytes m) = 20"
  by (elim message_ok_tid) (simp add: codec_simps)

lemma length_message_bytes:
  assumes "message_ok vt m"
  shows "length (message_bytes m) = 20 + unat (sm_length m)"
  using length_attrs_bytes [of vt "sm_transaction_id m" "sm_attrs m"] length_header_bytes [OF assms]
    assms by (simp add: message_bytes_def message_ok_def)

lemma message_bytes_mod4: 
  assumes "message_ok vt m"
  shows "length (message_bytes m) mod 4 = 0"
proof -
  have "4 dvd attr_size a" for a
    by (simp add: attr_size_def pad4_def) presburger
  then have "4 dvd sum_list (map attr_size as)" for as by (induction as) simp_all
  then show ?thesis
    using assms length_message_bytes [OF assms] by (simp add: message_ok_def)
qed

text \<open>A message with one more attribute.\<close>

definition with_attr :: "stun_message \<Rightarrow> stun_attribute \<Rightarrow> stun_message" where
  "with_attr m a = m\<lparr>sm_attrs := sm_attrs m @ [a], sm_length := sm_length m + of_nat (attr_size a)\<rparr>"

lemma with_attr_simps [simp]:
  "sm_type (with_attr m a) = sm_type m"
  "sm_transaction_id (with_attr m a) = sm_transaction_id m"
  "sm_attrs (with_attr m a) = sm_attrs m @ [a]"
  "IsLegacy (with_attr m a) = IsLegacy m"
  "sm_length (with_attr m a) = sm_length m + of_nat (attr_size a)"
  by (simp_all add: with_attr_def IsLegacy_def)

lemma with_attr_ok:
  assumes "message_ok vt m" and "attr_ok vt (sm_transaction_id m) a"
    and "unat (sm_length m) + attr_size a < 2 ^ 16"
  shows "message_ok vt (with_attr m a)" and "AddAttribute vt m a = (True, with_attr m a)"
    and "unat (sm_length (with_attr m a)) = unat (sm_length m) + attr_size a"
  using AddAttribute_spec [OF assms] by (auto simp: with_attr_def)

lemma message_bytes_with_attr:
  "message_bytes (with_attr m a) = header_bytes (with_attr m a) @
     concat (map (attr_bytes (sm_transaction_id m)) (sm_attrs m)) @ attr_bytes (sm_transaction_id m) a"
  by (simp add: message_bytes_def)

lemma set_last_with_attr:
  "at_length b = at_length a \<Longrightarrow> set_last (with_attr m a) b = with_attr m b"
  by (simp add: set_last_def with_attr_def attr_size_def)

lemma header_bytes_with_attr:
  "at_length b = at_length a \<Longrightarrow> header_bytes (with_attr m b) = header_bytes (with_attr m a)"
  by (simp add: header_bytes_def attr_size_def)

text \<open>The bytes in front of the last attribute: what the code takes the digest of.\<close>

definition before_attr :: "stun_message \<Rightarrow> stun_attribute \<Rightarrow> byte list" where
  "before_attr m a = header_bytes (with_attr m a) @
     concat (map (attr_bytes (sm_transaction_id m)) (sm_attrs m))"

lemma before_attr_prefix:
  assumes "message_ok vt m" and "attr_ok vt (sm_transaction_id m) a"
    and "unat (sm_length m) + attr_size a < 2 ^ 16"
  shows "message_bytes (with_attr m a) = before_attr m a @ attr_bytes (sm_transaction_id m) a"
    and "length (before_attr m a) = 20 + unat (sm_length m)"
    and "length (message_bytes (with_attr m a)) = length (before_attr m a) + attr_size a"
proof -
  show 1: "message_bytes (with_attr m a) = before_attr m a @ attr_bytes (sm_transaction_id m) a"
    by (simp add: message_bytes_with_attr before_attr_def)
  show 2: "length (message_bytes (with_attr m a)) = length (before_attr m a) + attr_size a"
    using 1 length_attr_bytes [OF assms(2)] by simp
  show "length (before_attr m a) = 20 + unat (sm_length m)"
    using length_message_bytes [OF with_attr_ok(1) [OF assms]] 2 with_attr_ok(3) [OF assms] by simp
qed

section \<open>Adding\<close>

definition mi_attr :: "byte list \<Rightarrow> stun_attribute" where
  "mi_attr hmac = StunByteStringAttribute_new STUN_ATTR_MESSAGE_INTEGRITY hmac"

definition fp_attr :: "u32 \<Rightarrow> stun_attribute" where
  "fp_attr v = StunUInt32Attribute_new STUN_ATTR_FINGERPRINT v"

lemma mi_attr_length: "length h = 20 \<Longrightarrow> at_length (mi_attr h) = 20"
  by (simp add: mi_attr_def StunByteStringAttribute_new_def CopyBytes_def)

lemma fp_attr_length: "at_length (fp_attr v) = 4"
  by (simp add: fp_attr_def StunUInt32Attribute_new_def)

lemma mi_attr_size: "length h = 20 \<Longrightarrow> attr_size (mi_attr h) = 24"
  by (simp add: attr_size_def mi_attr_length pad4_def)

lemma fp_attr_size: "attr_size (fp_attr v) = 8"
  by (simp add: attr_size_def fp_attr_length pad4_def)

lemma mi_attr_bytes: "length h = 20 \<Longrightarrow>
    attr_bytes tid (mi_attr h) = SetBE16 STUN_ATTR_MESSAGE_INTEGRITY @ SetBE16 20 @ h"
  by (simp add: attr_bytes_def mi_attr_def StunByteStringAttribute_new_def CopyBytes_def padding_def)

lemma fp_attr_bytes: "attr_bytes tid (fp_attr v) = SetBE16 STUN_ATTR_FINGERPRINT @ SetBE16 4 @ SetBE32 v"
  by (simp add: attr_bytes_def fp_attr_def StunUInt32Attribute_new_def)

text \<open>What a message class must say of the two attributes, and what then holds of adding them.\<close>

locale stun_class =
  fixes vt :: "u16 \<Rightarrow> stun_value_type"
  assumes vt_mi: "vt STUN_ATTR_MESSAGE_INTEGRITY = STUN_VALUE_BYTE_STRING"
    and vt_fp: "vt STUN_ATTR_FINGERPRINT = STUN_VALUE_UINT32"
begin

lemma mi_attr_ok: "length h = 20 \<Longrightarrow> attr_ok vt tid (mi_attr h)"
  by (simp add: attr_ok_def mi_attr_def StunByteStringAttribute_new_def CopyBytes_def vt_mi)

lemma fp_attr_ok: "attr_ok vt tid (fp_attr v)"
  by (simp add: attr_ok_def fp_attr_def StunUInt32Attribute_new_def vt_fp)

lemma AddMessageIntegrity_spec:
  assumes m: "message_ok vt m" and room: "unat (sm_length m) + 24 < 2 ^ 16"
    and dg: "digest_ok sha1" "dg_Size sha1 = 20"
    and h: "h = ComputeHmac sha1 key (before_attr m (mi_attr (replicate 20 0x30))) 20"
  shows "AddMessageIntegrity sha1 vt m key = (True, with_attr m (mi_attr h))"
    and "message_ok vt (with_attr m (mi_attr h))" and "length h = 20"
    and "before_attr m (mi_attr h) = before_attr m (mi_attr (replicate 20 0x30))"
proof -
  let ?a = "mi_attr (replicate 20 0x30)"
  show h20: "length h = 20" using length_ComputeHmac [OF dg(1)] dg(2) h by simp
  have a: "attr_ok vt (sm_transaction_id m) ?a" "unat (sm_length m) + attr_size ?a < 2 ^ 16"
    using room by (simp_all add: mi_attr_ok mi_attr_size)
  note w = with_attr_ok [OF m a] and p = before_attr_prefix [OF m a]
  from net_StunMessage_Write_new [OF w(1)] obtain b where
    b: "StunMessage_Write (with_attr m ?a) (ByteBuffer_new ORDER_NETWORK) = (True, b)"
    "Data b = message_bytes (with_attr m ?a)" "Length b = length (message_bytes (with_attr m ?a))"
    by auto
  have pre: "take (Length b - 4 - 20) (Data b) = before_attr m ?a"
    using p b by (simp add: mi_attr_size)
  have l: "at_length (mi_attr h) = at_length ?a" by (simp add: mi_attr_length h20)
  show "before_attr m (mi_attr h) = before_attr m ?a"
    using header_bytes_with_attr [OF l] by (simp add: before_attr_def)
  have c: "CopyBytes ?a h = mi_attr h"
    by (simp add: mi_attr_def StunByteStringAttribute_new_def CopyBytes_def)
  show "message_ok vt (with_attr m (mi_attr h))"
    using with_attr_ok(1) [OF m mi_attr_ok [OF h20]] room by (simp add: mi_attr_size h20)
  show "AddMessageIntegrity sha1 vt m key = (True, with_attr m (mi_attr h))"
    using b(1) pre h20 w(2) set_last_with_attr [OF l] c h mi_attr_length [of "replicate 20 0x30"]
    by (simp add: AddMessageIntegrity_def Let_def kStunMessageIntegritySize_def
        kStunAttributeHeaderSize_def flip: mi_attr_def)
qed

lemma AddFingerprint_spec:
  assumes m: "message_ok vt m" and room: "unat (sm_length m) + 8 < 2 ^ 16"
    and c: "c = ComputeCrc32 (before_attr m (fp_attr 0)) XOR STUN_FINGERPRINT_XOR_VALUE"
  shows "AddFingerprint vt m = (True, with_attr m (fp_attr c))"
    and "message_ok vt (with_attr m (fp_attr c))"
    and "before_attr m (fp_attr c) = before_attr m (fp_attr 0)"
proof -
  let ?a = "fp_attr 0"
  have a: "attr_ok vt (sm_transaction_id m) ?a" "unat (sm_length m) + attr_size ?a < 2 ^ 16"
    using room by (simp_all add: fp_attr_ok fp_attr_size)
  note w = with_attr_ok [OF m a] and p = before_attr_prefix [OF m a]
  from net_StunMessage_Write_new [OF w(1)] obtain b where
    b: "StunMessage_Write (with_attr m ?a) (ByteBuffer_new ORDER_NETWORK) = (True, b)"
    "Data b = message_bytes (with_attr m ?a)" "Length b = length (message_bytes (with_attr m ?a))"
    by auto
  have pre: "take (Length b - 4 - 4) (Data b) = before_attr m ?a"
    using p b by (simp add: fp_attr_size)
  have l: "at_length (fp_attr c) = at_length ?a" by (simp add: fp_attr_length)
  show "before_attr m (fp_attr c) = before_attr m ?a"
    using header_bytes_with_attr [OF l] by (simp add: before_attr_def)
  have v: "?a\<lparr>at_value := UInt32 c\<rparr> = fp_attr c"
    by (simp add: fp_attr_def StunUInt32Attribute_new_def)
  show "message_ok vt (with_attr m (fp_attr c))"
    using with_attr_ok(1) [OF m fp_attr_ok] room by (simp add: fp_attr_size)
  show "AddFingerprint vt m = (True, with_attr m (fp_attr c))"
    using b(1) pre w(2) set_last_with_attr [OF l] v c fp_attr_length [of 0]
    by (simp add: AddFingerprint_def Let_def kStunAttributeHeaderSize_def flip: fp_attr_def)
qed

end

interpretation stun: stun_class StunMessage_GetAttributeValueType
  by unfold_locales (simp_all add: sample_defs STUN_ATTR_FINGERPRINT_def STUN_ATTR_SOFTWARE_def
      STUN_ATTR_ALTERNATE_SERVER_def)

interpretation relay: stun_class RelayMessage_GetAttributeValueType
  using stun.vt_mi stun.vt_fp
  by unfold_locales (simp_all add: RelayMessage_GetAttributeValueType_def
      STUN_ATTR_MESSAGE_INTEGRITY_def STUN_ATTR_FINGERPRINT_def)

interpretation turn: stun_class TurnMessage_GetAttributeValueType
  using stun.vt_mi stun.vt_fp
  by unfold_locales (simp_all add: TurnMessage_GetAttributeValueType_def
      STUN_ATTR_MESSAGE_INTEGRITY_def STUN_ATTR_FINGERPRINT_def)

interpretation ice: stun_class IceMessage_GetAttributeValueType
  using stun.vt_mi stun.vt_fp
  by unfold_locales (simp_all add: IceMessage_GetAttributeValueType_def
      STUN_ATTR_MESSAGE_INTEGRITY_def STUN_ATTR_FINGERPRINT_def)

lemma message_classes_stun_class: "vt \<in> message_classes \<Longrightarrow> stun_class vt"
  unfolding message_classes_def
  using stun.stun_class_axioms relay.stun_class_axioms turn.stun_class_axioms
    ice.stun_class_axioms by blast

section \<open>Validating\<close>

lemma load_BE16_at: "p = length pre \<Longrightarrow> load_BE16 (pre @ SetBE16 v @ rest) p = Some v"
  by (simp add: load_BE16_def codec_simps be16.dec_enc)

lemma find_integrity_skip:
  assumes "list_all (attr_ok vt tid) as"
    and "list_all (\<lambda>a. at_type a \<noteq> STUN_ATTR_MESSAGE_INTEGRITY) as"
    and "data = pre @ concat (map (attr_bytes tid) as) @ rest"
  shows "find_message_integrity data (length pre) =
    find_message_integrity data (length pre + sum_list (map attr_size as))"
  using assms
proof (induction as arbitrary: pre)
  case (Cons a as)
  let ?r = "concat (map (attr_bytes tid) as) @ rest"
  have t: "load_BE16 data (length pre) = Some (at_type a)"
    using Cons.prems(3) load_BE16_at [OF refl] by (simp add: attr_bytes_def)
  have l: "load_BE16 data (length pre + 2) = Some (at_length a)"
    using Cons.prems(3) load_BE16_at [of "length pre + 2" "pre @ SetBE16 (at_type a)"]
    by (simp add: attr_bytes_def codec_simps)
  have len: "length (attr_bytes tid a) = attr_size a"
    using Cons.prems(1) length_attr_bytes by auto
  have "find_message_integrity data (length pre) =
      find_message_integrity data (length pre + attr_size a)"
    using Cons.prems(2,3) t l attr_bytes_nonempty [of tid a]
    by (simp add: find_message_integrity.simps [of _ "length pre"] attr_size_def
        skip_attribute_size)
  with Cons.IH [of "pre @ attr_bytes tid a"] Cons.prems len show ?case by (simp add: add.assoc)
qed simp

lemma find_integrity_hit:
  assumes "data = pre @ attr_bytes tid (mi_attr h) @ rest" and "length h = 20"
  shows "find_message_integrity data (length pre) = Some (Some (length pre))"
proof -
  have d: "data = pre @ SetBE16 STUN_ATTR_MESSAGE_INTEGRITY @ SetBE16 20 @ h @ rest"
    using assms by (simp add: mi_attr_bytes)
  have "load_BE16 data (length pre) = Some STUN_ATTR_MESSAGE_INTEGRITY"
    unfolding d by (rule load_BE16_at) simp
  moreover have "load_BE16 data (length pre + 2) = Some 20"
    using load_BE16_at [of "length pre + 2" "pre @ SetBE16 STUN_ATTR_MESSAGE_INTEGRITY" 20 "h @ rest"]
    by (simp add: d codec_simps)
  moreover have "length data = length pre + 24 + length rest"
    using assms(2) by (simp add: d codec_simps)
  ultimately show ?thesis
    by (simp add: find_message_integrity.simps [of _ "length pre"] kStunMessageIntegritySize_def)
qed

lemma header_relength:
  "mem_write (header_bytes m @ xs) 2 (SetBE16 n) = header_bytes (m\<lparr>sm_length := n\<rparr>) @ xs"
  by (simp add: mem_write_def header_bytes_def codec_simps IsLegacy_def)

text \<open>The bytes the HMAC covers: the message up to the attribute, its length field as if the
  attribute were the last.\<close>

definition integrity_input :: "stun_message \<Rightarrow> stun_attribute list \<Rightarrow> byte list" where
  "integrity_input m as =
     header_bytes (m\<lparr>sm_length := of_nat (sum_list (map attr_size as) + 24)\<rparr>) @
     concat (map (attr_bytes (sm_transaction_id m)) as)"

lemma ValidateMessageIntegrity_spec:
  assumes ok: "message_ok vt m" and attrs: "sm_attrs m = as @ mi_attr h # bs"
    and first: "list_all (\<lambda>a. at_type a \<noteq> STUN_ATTR_MESSAGE_INTEGRITY) as"
    and h: "length h = 20" and dg: "digest_ok sha1" "dg_Size sha1 = 20"
  shows "ValidateMessageIntegrity sha1 (message_bytes m) key =
    Some (h = ComputeHmac sha1 key (integrity_input m as) 20)"
proof -
  let ?tid = "sm_transaction_id m" and ?d = "message_bytes m"
  define pre where "pre = header_bytes m @ concat (map (attr_bytes ?tid) as)"
  define tail where "tail = concat (map (attr_bytes ?tid) bs)"
  have as: "list_all (attr_ok vt ?tid) as" "list_all (attr_ok vt ?tid) bs"
    using ok attrs by (simp_all add: message_ok_def)
  have d: "?d = pre @ attr_bytes ?tid (mi_attr h) @ tail"
    by (simp add: pre_def tail_def message_bytes_def attrs)
  have lpre: "length pre = 20 + sum_list (map attr_size as)"
    using length_attrs_bytes [OF as(1)] length_header_bytes [OF ok] by (simp add: pre_def)
  have ltail: "length tail = sum_list (map attr_size bs)"
    using length_attrs_bytes [OF as(2)] by (simp add: tail_def)
  have lmi: "length (attr_bytes ?tid (mi_attr h)) = 24" by (simp add: mi_attr_bytes h codec_simps)
  have len: "unat (sm_length m) = sum_list (map attr_size as) + 24 + length tail"
    using ok by (simp add: message_ok_def attrs mi_attr_size h ltail)
  have "length (header_bytes m) = 20" by (rule length_header_bytes [OF ok])
  then have find: "find_message_integrity ?d kStunHeaderSize = Some (Some (length pre))"
    using find_integrity_skip [OF as(1) first, of ?d "header_bytes m"] find_integrity_hit [OF d h]
      lpre d by (simp add: pre_def kStunHeaderSize_def)
  have load: "load_BE16 ?d 2 = Some (sm_length m)"
    using load_BE16_at [of 2 "SetBE16 (sm_type m)"]
    by (simp add: message_bytes_def header_bytes_def codec_simps)
  note sz_defs = kStunHeaderSize_def kStunMessageIntegritySize_def kStunAttributeHeaderSize_def
  have temp: "integrity_temp_data ?d (length pre) = integrity_input m as"
  proof (cases "tail = []")
    case True
    have "of_nat (sum_list (map attr_size as) + 24) = sm_length m"
      using arg_cong [OF len, of "of_nat :: nat \<Rightarrow> u16"] True by simp
    then show ?thesis using True lmi
      by (simp add: integrity_temp_data_def sz_defs d integrity_input_def pre_def)
  next
    case False
    then show ?thesis using lmi lpre
      by (simp add: integrity_temp_data_def sz_defs d integrity_input_def header_relength
          flip: pre_def)
        (simp add: pre_def header_relength add.commute)
  qed
  have mi: "mem_read ?d (length pre + 4) 20 = h"
    by (simp add: d mem_read_def mi_attr_bytes h codec_simps)
  have hmac: "length (ComputeHmac sha1 key x 20) = 20" for x
    using length_ComputeHmac [OF dg(1)] dg(2) by simp
  have room: "length pre + 24 \<le> length ?d" using d lmi by simp
  have "length ?d = unat (sm_length m) + 20" using length_message_bytes [OF ok] by simp
  then show ?thesis
    using load find [unfolded sz_defs] message_bytes_mod4 [OF ok] temp mi hmac room
    by (simp add: ValidateMessageIntegrity_def sz_defs)
qed

lemma ValidateFingerprint_spec:
  assumes ok: "message_ok vt m" and attrs: "sm_attrs m = as @ [fp_attr v]"
    and new: "\<not> IsLegacy m"
  shows "ValidateFingerprint (message_bytes m) \<longleftrightarrow>
    v XOR STUN_FINGERPRINT_XOR_VALUE =
      ComputeCrc32 (header_bytes m @ concat (map (attr_bytes (sm_transaction_id m)) as))"
proof -
  let ?d = "message_bytes m"
  define pre where "pre = header_bytes m @ concat (map (attr_bytes (sm_transaction_id m)) as)"
  have d: "?d = pre @ SetBE16 STUN_ATTR_FINGERPRINT @ SetBE16 4 @ SetBE32 v"
    by (simp add: message_bytes_def attrs fp_attr_bytes pre_def)
  have len: "length ?d = length pre + 8" by (simp add: d codec_simps)
  have pre20: "20 \<le> length pre" by (simp add: pre_def length_header_bytes [OF ok])
  have cookie: "GetBE32 (drop 4 ?d) = kStunMagicCookie"
    using new by (simp add: message_bytes_def header_bytes_def codec_simps be32.dec_enc)
  have tl: "drop (length ?d - 8) ?d = SetBE16 STUN_ATTR_FINGERPRINT @ SetBE16 4 @ SetBE32 v"
    by (simp add: len) (simp add: d)
  have hd: "take (length ?d - 8) ?d = pre" by (simp add: len) (simp add: d)
  show ?thesis
    using cookie tl hd len pre20 message_bytes_mod4 [OF ok]
    by (simp add: ValidateFingerprint_def kStunAttributeHeaderSize_def kStunHeaderSize_def
        kStunTransactionIdOffset_def kStunMagicCookieLength_def be16.dec_enc be32.dec_enc_nil
        codec_simps pre_def)
qed

lemma fingerprint_legacy:
  assumes ok: "message_ok vt m" and old: "IsLegacy m"
  shows "\<not> ValidateFingerprint (message_bytes m)"
proof -
  have "GetBE32 (drop 4 (message_bytes m)) \<noteq> kStunMagicCookie"
    using ok old be32.dec_eq_iff [of "drop 4 (message_bytes m)" kStunMagicCookie]
    by (auto simp: message_ok_def message_bytes_def header_bytes_def codec_simps IsLegacy_def
        kStunLegacyTransactionIdLength_def)
  then show ?thesis
    by (simp add: ValidateFingerprint_def kStunTransactionIdOffset_def kStunMagicCookieLength_def
        Let_def)
qed

lemma header_same_length: "sm_type m' = sm_type m \<Longrightarrow> sm_length m' = sm_length m \<Longrightarrow>
    sm_transaction_id m' = sm_transaction_id m \<Longrightarrow> header_bytes m' = header_bytes m"
  by (simp add: header_bytes_def IsLegacy_def)

lemma integrity_input_before:
  assumes "message_ok vt m" and "length h = 20"
  shows "integrity_input (with_attr (with_attr m (mi_attr h)) a) (sm_attrs m) =
    before_attr m (mi_attr h)"
proof -
  have "of_nat (unat (sm_length m)) = (of_nat (sum_list (map attr_size (sm_attrs m))) :: u16)"
    using assms(1) by (simp add: message_ok_def)
  then have "sm_length m = of_nat (sum_list (map attr_size (sm_attrs m)))" by simp
  then show ?thesis
    using assms(2) by (simp add: integrity_input_def before_attr_def mi_attr_size header_same_length)
qed

section \<open>Properties\<close>

text \<open>
  C21. MESSAGE-INTEGRITY is checked exactly: for a well-formed message whose first
  MESSAGE-INTEGRITY attribute has the value \<open>h\<close>, validation of its bytes returns, without
  reading outside of them, whether \<open>h\<close> is the HMAC-SHA1 under the given key of the message
  up to that attribute, with the length field counting up to the end of the attribute whatever
  follows it.
\<close>

theorem message_integrity_exact:
  assumes "message_ok vt m" and "sm_attrs m = as @ mi_attr h # bs"
    and "list_all (\<lambda>a. at_type a \<noteq> STUN_ATTR_MESSAGE_INTEGRITY) as"
    and "length h = 20" and "digest_ok sha1" and "dg_Size sha1 = 20"
  shows "ValidateMessageIntegrity sha1 (message_bytes m) key =
    Some (h = ComputeHmac sha1 key (integrity_input m as) 20)"
  by (rule ValidateMessageIntegrity_spec [OF assms])

text \<open>A digest of 20 bytes for the witnesses: the first 20 bytes, padded with zeros.\<close>

definition toy_digest :: message_digest where
  "toy_digest = \<lparr>dg_Size = 20, dg_hash = (\<lambda>xs. take 20 (xs @ replicate 20 0))\<rparr>"

lemma toy_digest_ok: "digest_ok toy_digest" "dg_Size toy_digest = 20"
  by (simp_all add: digest_ok_def toy_digest_def min_def)

lemma sample_with_mi:
  "message_ok IceMessage_GetAttributeValueType (with_attr sample_message (mi_attr (replicate 20 5)))"
  using with_attr_ok(1) [OF sample_message_ok ice.mi_attr_ok, of "replicate 20 5"]
  by (simp add: mi_attr_size sample_defs Let_def)

theorem message_integrity_exact_witness:
  "ValidateMessageIntegrity toy_digest
     (message_bytes (with_attr sample_message (mi_attr (replicate 20 5)))) [1] =
   Some (replicate 20 5 = ComputeHmac toy_digest [1]
     (integrity_input (with_attr sample_message (mi_attr (replicate 20 5))) (sm_attrs sample_message)) 20)"
  using message_integrity_exact [OF sample_with_mi _ _ _ toy_digest_ok, of "sm_attrs sample_message"
    "replicate 20 5" "[]" "[1]"]
  by (simp add: sample_defs Let_def)

lemma signed_message_ok:
  assumes vt: "vt \<in> message_classes" and ok: "message_ok vt m"
    and unsigned: "list_all (\<lambda>a. at_type a \<noteq> STUN_ATTR_MESSAGE_INTEGRITY) (sm_attrs m)"
    and room: "unat (sm_length m) + 32 < 2 ^ 16"
    and dg: "digest_ok sha1" "dg_Size sha1 = 20"
  shows "\<exists>h c m1 m2 b. m1 = with_attr m (mi_attr h) \<and> length h = 20 \<and> m2 = with_attr m1 (fp_attr c) \<and>
    AddMessageIntegrity sha1 vt m key = (True, m1) \<and> AddFingerprint vt m1 = (True, m2) \<and> message_ok vt m2 \<and>
    StunMessage_Write m2 (ByteBuffer_new ORDER_NETWORK) = (True, b) \<and> Data b = message_bytes m2 \<and>
    ValidateMessageIntegrity sha1 (Data b) key = Some True \<and>
    ValidateFingerprint (Data b) = (\<not> IsLegacy m)"
proof -
  note cls = message_classes_stun_class [OF vt]
  define h where "h = ComputeHmac sha1 key (before_attr m (mi_attr (replicate 20 0x30))) 20"
  have "unat (sm_length m) + 24 < 2 ^ 16" using room by simp
  note mi = stun_class.AddMessageIntegrity_spec [OF cls ok this dg h_def]
  let ?m1 = "with_attr m (mi_attr h)"
  have "unat (sm_length ?m1) = unat (sm_length m) + 24"
    using with_attr_ok(3) [OF ok stun_class.mi_attr_ok [OF cls mi(3)]] room mi(3)
    by (simp add: mi_attr_size)
  then have room1: "unat (sm_length ?m1) + 8 < 2 ^ 16" using room by simp
  define c where "c = ComputeCrc32 (before_attr ?m1 (fp_attr 0)) XOR STUN_FINGERPRINT_XOR_VALUE"
  note fp = stun_class.AddFingerprint_spec [OF cls mi(2) room1 c_def]
  let ?m2 = "with_attr ?m1 (fp_attr c)"
  from net_StunMessage_Write_new [OF fp(2)] obtain b where
    b: "StunMessage_Write ?m2 (ByteBuffer_new ORDER_NETWORK) = (True, b)" "Data b = message_bytes ?m2"
    by auto
  have "h = ComputeHmac sha1 key (integrity_input ?m2 (sm_attrs m)) 20"
    using mi(3,4) integrity_input_before [OF ok] h_def by simp
  then have "ValidateMessageIntegrity sha1 (Data b) key = Some True"
    using ValidateMessageIntegrity_spec [OF fp(2) _ unsigned mi(3) dg, of "[fp_attr c]"] b(2) by simp
  moreover have "ValidateFingerprint (Data b) = (\<not> IsLegacy m)"
  proof (cases "IsLegacy m")
    case False
    have "before_attr ?m1 (fp_attr c) = header_bytes ?m2 @
        concat (map (attr_bytes (sm_transaction_id ?m2)) (sm_attrs ?m1))"
      by (simp add: before_attr_def)
    with False ValidateFingerprint_spec [OF fp(2), of "sm_attrs ?m1" c] fp(3) b(2) c_def
    show ?thesis by (simp add: xor.assoc)
  next
    case True
    then show ?thesis using b(2) fp(2) by (simp add: fingerprint_legacy [OF fp(2)])
  qed
  ultimately show ?thesis
    using mi(1,3) fp(1,2) b by blast
qed

text \<open>
  C20. What is signed verifies: for each message class, adding MESSAGE-INTEGRITY and then
  FINGERPRINT to a well-formed message with room for both succeeds; the written bytes pass the
  integrity check under the same key although FINGERPRINT follows the attribute, pass the
  fingerprint check (for RFC 5389 transaction ids) and read back as the same message.
\<close>

theorem signed_message_validates:
  assumes vt: "vt \<in> message_classes" and ok: "message_ok vt m"
    and unsigned: "list_all (\<lambda>a. at_type a \<noteq> STUN_ATTR_MESSAGE_INTEGRITY) (sm_attrs m)"
    and room: "unat (sm_length m) + 32 < 2 ^ 16"
    and dg: "digest_ok sha1" "dg_Size sha1 = 20"
  shows "\<exists>m1 m2 b b'. AddMessageIntegrity sha1 vt m key = (True, m1) \<and>
    AddFingerprint vt m1 = (True, m2) \<and>
    StunMessage_Write m2 (ByteBuffer_new ORDER_NETWORK) = (True, b) \<and>
    ValidateMessageIntegrity sha1 (Data b) key = Some True \<and>
    ValidateFingerprint (Data b) = (\<not> IsLegacy m) \<and>
    StunMessage_Read vt (ByteBuffer_of (Data b)) = Some (m2, b')"
  using signed_message_ok [OF assms, of key] net_StunMessage_Read [OF _ net_buf_of] by metis

theorem signed_message_validates_witness:
  "\<exists>m1 m2 b b'. AddMessageIntegrity toy_digest IceMessage_GetAttributeValueType sample_message [1, 2]
      = (True, m1) \<and> AddFingerprint IceMessage_GetAttributeValueType m1 = (True, m2) \<and>
    StunMessage_Write m2 (ByteBuffer_new ORDER_NETWORK) = (True, b) \<and>
    ValidateMessageIntegrity toy_digest (Data b) [1, 2] = Some True \<and>
    ValidateFingerprint (Data b) = (\<not> IsLegacy sample_message) \<and>
    StunMessage_Read IceMessage_GetAttributeValueType (ByteBuffer_of (Data b)) = Some (m2, b')"
  by (rule signed_message_validates [OF _ sample_message_ok _ _ toy_digest_ok])
    (simp_all add: message_classes_def sample_defs Let_def)

lemma find_integrity_total:
  assumes "length data mod 4 = 0" and "pos mod 4 = 0"
  shows "find_message_integrity data pos \<noteq> None \<and>
    (\<forall>p. find_message_integrity data pos = Some (Some p) \<longrightarrow> p mod 4 = 0 \<and> p + 20 \<le> length data)"
  using assms
proof (induction data pos rule: find_message_integrity.induct)
  case (1 data pos)
  show ?case
  proof (cases "pos < length data")
    case True
    then have room: "pos + 4 \<le> length data" using "1.prems" by presburger
    then obtain t l where tl: "load_BE16 data pos = Some t" "load_BE16 data (pos + 2) = Some l"
      by (simp add: load_BE16_def)
    have "skip_attribute pos l mod 4 = 0"
      using "1.prems"(2) by (simp add: skip_attribute_size pad4_def) presburger
    with "1.IH" [OF True tl] "1.prems" True tl show ?thesis
      by (auto simp: find_message_integrity.simps [of _ pos] kStunMessageIntegritySize_def)
  qed (simp add: find_message_integrity.simps [of _ pos])
qed

text \<open>
  C38. Where the integrity check reads out of bounds: exactly on an empty packet, whose header is
  read before any size check, and on a packet whose MESSAGE-INTEGRITY header stands 20 bytes
  before its end: the bound check leaves out the four bytes of the attribute header, and the
  comparison reads four bytes behind the packet. Every other input is checked within its bounds.
\<close>

theorem integrity_check_bounds:
  assumes "digest_ok sha1" and "dg_Size sha1 = 20"
  shows "ValidateMessageIntegrity sha1 data key = None \<longleftrightarrow>
    data = [] \<or>
    (length data mod 4 = 0 \<and>
     (\<exists>l. load_BE16 data 2 = Some l \<and> length data = unat l + 20) \<and>
     find_message_integrity data 20 = Some (Some (length data - 20)))"
proof (cases "length data mod 4 = 0")
  case mod4: True
  have hmac: "length (ComputeHmac sha1 key x 20) = 20" for x
    using length_ComputeHmac [OF assms(1)] assms(2) by simp
  note sz_defs = kStunHeaderSize_def kStunMessageIntegritySize_def kStunAttributeHeaderSize_def
  show ?thesis
  proof (cases "data = []")
    case True
    then show ?thesis by (simp add: ValidateMessageIntegrity_def load_BE16_def)
  next
    case False
    with mod4 have len4: "4 \<le> length data" by (cases "length data < 4") auto
    then obtain l where l: "load_BE16 data 2 = Some l" by (simp add: load_BE16_def)
    obtain r where r: "find_message_integrity data 20 = Some r"
      using find_integrity_total [OF mod4, of 20] by auto
    have bound: "p mod 4 = 0 \<and> p + 20 \<le> length data" if "r = Some p" for p
      using find_integrity_total [OF mod4, of 20] r that by simp
    have over: "\<not> p + 24 \<le> length data \<longleftrightarrow> p = length data - 20" if "r = Some p" for p
      using bound [OF that] mod4 by presburger
    show ?thesis using l r mod4 hmac over False
      by (cases r) (auto simp: ValidateMessageIntegrity_def sz_defs Let_def)
  qed
qed (auto simp: ValidateMessageIntegrity_def)

definition overread_packet :: "byte list" where
  "overread_packet = [0, 1, 0, 20] @ replicate 16 0 @ [0, 8, 0, 20] @ replicate 16 0"

theorem integrity_check_bounds_witness:
  "ValidateMessageIntegrity toy_digest overread_packet [1] = None \<and>
   ValidateMessageIntegrity toy_digest (replicate 20 0) [1] \<noteq> None"
proof -
  have "find_message_integrity overread_packet 20 = Some (Some 20)"
    by (simp add: find_message_integrity.simps [of _ 20] load_BE16_def overread_packet_def
        GetBE16_def Get8_def STUN_ATTR_MESSAGE_INTEGRITY_def kStunMessageIntegritySize_def)
  moreover have "load_BE16 overread_packet 2 = Some 20"
    by (simp add: load_BE16_def overread_packet_def GetBE16_def Get8_def)
  moreover have "find_message_integrity (replicate 20 0) 20 = Some None"
    by (simp add: find_message_integrity.simps [of _ 20])
  ultimately show ?thesis
    using integrity_check_bounds [OF toy_digest_ok, of overread_packet "[1]"]
      integrity_check_bounds [OF toy_digest_ok, of "replicate 20 0" "[1]"]
    by (auto simp: overread_packet_def)
qed

lemma bit_push1: "bit (push_bit k 1 :: int) n \<longleftrightarrow> n = k"
  by (auto simp: bit_simps)

lemma type_mask_bits: "(0x110 :: int) = push_bit 4 1 OR push_bit 8 1" "(0x10 :: int) = push_bit 4 1"
    "(0x100 :: int) = push_bit 8 1"
  by (simp_all add: push_bit_eq_mult)

lemma and_type_mask:
  "t AND 0x110 = 0 \<or> t AND 0x110 = 0x10 \<or> t AND 0x110 = 0x100 \<or> t AND 0x110 = (0x110 :: int)"
proof -
  have "t AND 0x110 = (if bit t 4 then 0x10 else 0) OR (if bit t 8 then 0x100 else (0 :: int))"
    unfolding type_mask_bits
  proof (rule bit_eqI)
    fix n
    show "bit (t AND (push_bit 4 1 OR push_bit 8 1)) n =
      bit ((if bit t 4 then push_bit 4 1 else 0) OR (if bit t 8 then push_bit 8 (1 :: int) else 0)) n"
      by (simp only: bit_and_iff bit_or_iff bit_push1 if_distrib [of "\<lambda>x. bit x n"] bit_0_eq
          bot_apply bot_bool_def) auto
  qed
  then show ?thesis by auto
qed

text \<open>
  Message types: every type is of exactly one of the four classes, and the response types
  computed for a request are a success response and an error response of the same method; for
  any other type the answer is \<open>-1\<close>.
\<close>

theorem stun_message_types:
  "length (filter id [IsStunRequestType t, IsStunIndicationType t, IsStunSuccessResponseType t,
      IsStunErrorResponseType t]) = 1 \<and>
   (if IsStunRequestType t then
      IsStunSuccessResponseType (GetStunSuccessResponseType t) \<and>
      IsStunErrorResponseType (GetStunErrorResponseType t) \<and>
      GetStunSuccessResponseType t AND NOT (uint kStunTypeMask) = t AND NOT (uint kStunTypeMask) \<and>
      GetStunErrorResponseType t AND NOT (uint kStunTypeMask) = t AND NOT (uint kStunTypeMask)
    else GetStunSuccessResponseType t = - 1 \<and> GetStunErrorResponseType t = - 1)"
proof -
  define p where "p = t AND 0x110"
  note four = and_type_mask [of t, folded p_def]
  have m: "uint kStunTypeMask = 0x110" by (simp add: kStunTypeMask_def)
  have d: "(t OR k) AND 0x110 = k" if "t AND 0x110 = 0" "k AND 0x110 = k" for k :: int
    using that by (simp add: bit.conj_disj_distrib2)
  have o: "(t OR k) AND NOT 0x110 = t AND NOT 0x110" if "k AND 0x110 = k" for k :: int
  proof -
    have "k AND NOT 0x110 = 0" using that by (metis and.assoc bit.conj_cancel_right bit.conj_zero_right)
    then show ?thesis by (simp only: bit.conj_disj_distrib2 bit.disj_zero_right)
  qed
  show ?thesis
    using four d [of "0x100"] d [of "0x110"] o [of "0x100"] o [of "0x110"]
    by (auto simp: IsStunRequestType_def IsStunIndicationType_def IsStunSuccessResponseType_def
        IsStunErrorResponseType_def GetStunSuccessResponseType_def GetStunErrorResponseType_def
        m p_def)
qed

end
