(* ===== verification/Base64.thy ===== *)
theory Base64
  imports ByteBuffer
begin

text \<open>
  \<^verbatim>\<open>src/base/base64.cc\<close>. Characters are bytes. A pointer into the input and what is left of
  it are an index into the list; the four-byte array \<^verbatim>\<open>qbuf\<close> is a list of length four.
\<close>

section \<open>Tables and options\<close>

definition kPad :: byte where "kPad = 0x3D"
definition pd :: byte where "pd = 0xFD"
definition sp :: byte where "sp = 0xFE"
definition il :: byte where "il = 0xFF"

definition Base64Table :: "byte list" where
  "Base64Table =
     map of_char ''ABCDEFGHIJKLMNOPQRSTUVWXYZabcdefghijklmnopqrstuvwxyz0123456789+/''"

definition DecodeTable :: "byte list" where
  "DecodeTable =
    [il, il, il, il, il, il, il, il, il, sp,
     sp, sp, sp, sp, il, il, il, il, il, il,
     il, il, il, il, il, il, il, il, il, il,
     il, il, sp, il, il, il, il, il, il, il,
     il, il, il, 62, il, il, il, 63, 52, 53,
     54, 55, 56, 57, 58, 59, 60, 61, il, il,
     il, pd, il, il, il, 0, 1, 2, 3, 4,
     5, 6, 7, 8, 9, 10, 11, 12, 13, 14,
     15, 16, 17, 18, 19, 20, 21, 22, 23, 24,
     25, il, il, il, il, il, il, 26, 27, 28,
     29, 30, 31, 32, 33, 34, 35, 36, 37, 38,
     39, 40, 41, 42, 43, 44, 45, 46, 47, 48,
     49, 50, 51, il, il, il, il, il, il, il,
     il, il, il, il, il, il, il, il, il, il,
     il, il, il, il, il, il, il, il, il, il,
     il, il, il, il, il, il, il, il, il, il,
     il, il, il, il, il, il, il, il, il, il,
     il, il, il, il, il, il, il, il, il, il,
     il, il, il, il, il, il, il, il, il, il,
     il, il, il, il, il, il, il, il, il, il,
     il, il, il, il, il, il, il, il, il, il,
     il, il, il, il, il, il, il, il, il, il,
     il, il, il, il, il, il, il, il, il, il,
     il, il, il, il, il, il, il, il, il, il,
     il, il, il, il, il, il, il, il, il, il,
     il, il, il, il, il, il]"

definition DO_PARSE_STRICT :: u32 where "DO_PARSE_STRICT = 1"
definition DO_PARSE_WHITE :: u32 where "DO_PARSE_WHITE = 2"
definition DO_PARSE_ANY :: u32 where "DO_PARSE_ANY = 3"
definition DO_PARSE_MASK :: u32 where "DO_PARSE_MASK = 3"
definition DO_PAD_YES :: u32 where "DO_PAD_YES = 4"
definition DO_PAD_ANY :: u32 where "DO_PAD_ANY = 8"
definition DO_PAD_NO :: u32 where "DO_PAD_NO = 12"
definition DO_PAD_MASK :: u32 where "DO_PAD_MASK = 12"
definition DO_TERM_BUFFER :: u32 where "DO_TERM_BUFFER = 16"
definition DO_TERM_CHAR :: u32 where "DO_TERM_CHAR = 32"
definition DO_TERM_ANY :: u32 where "DO_TERM_ANY = 48"
definition DO_TERM_MASK :: u32 where "DO_TERM_MASK = 48"
definition DO_STRICT :: u32 where "DO_STRICT = DO_PARSE_STRICT OR DO_PAD_YES OR DO_TERM_BUFFER"
definition DO_LAX :: u32 where "DO_LAX = DO_PARSE_ANY OR DO_PAD_ANY OR DO_TERM_CHAR"

lemmas parse_flag_defs = DO_PARSE_STRICT_def DO_PARSE_WHITE_def DO_PARSE_ANY_def DO_PARSE_MASK_def
lemmas flag_defs = parse_flag_defs DO_PAD_YES_def DO_PAD_ANY_def DO_PAD_NO_def DO_PAD_MASK_def
  DO_TERM_BUFFER_def DO_TERM_CHAR_def DO_TERM_ANY_def DO_TERM_MASK_def DO_STRICT_def DO_LAX_def

definition IsBase64Char :: "byte \<Rightarrow> bool" where
  "IsBase64Char ch \<longleftrightarrow> 0x41 \<le> ch \<and> ch \<le> 0x5A \<or> 0x61 \<le> ch \<and> ch \<le> 0x7A \<or>
     0x30 \<le> ch \<and> ch \<le> 0x39 \<or> ch = 0x2B \<or> ch = 0x2F"

definition IsBase64Encoded :: "byte list \<Rightarrow> bool" where
  "IsBase64Encoded str = list_all IsBase64Char str"

fun strchr :: "byte list \<Rightarrow> byte \<Rightarrow> nat option" where
  "strchr [] c = None"
| "strchr (x # xs) c = (if x = c then Some 0 else map_option Suc (strchr xs c))"

text \<open>\<^verbatim>\<open>strchr\<close> also finds the terminating zero; the code then reads the byte behind the table, which
  is \<open>None\<close> here.\<close>

definition GetNextBase64Char :: "byte \<Rightarrow> byte option option" where
  "GetNextBase64Char ch =
     (if ch = 0 then None
      else case strchr Base64Table ch of
             None \<Rightarrow> Some None
           | Some i \<Rightarrow> Some (Some (if i + 1 < length Base64Table then Base64Table ! (i + 1)
                                   else Base64Table ! 0)))"

section \<open>Encoding\<close>

fun EncodeFromArray :: "byte list \<Rightarrow> byte list" where
  "EncodeFromArray [] = []"
| "EncodeFromArray [b0] =
     [Base64Table ! unat (drop_bit 2 b0 AND 0x3f), Base64Table ! unat (push_bit 4 b0 AND 0x3f),
      kPad, kPad]"
| "EncodeFromArray [b0, b1] =
     [Base64Table ! unat (drop_bit 2 b0 AND 0x3f),
      Base64Table ! unat ((push_bit 4 b0 AND 0x3f) OR (drop_bit 4 b1 AND 0x0f)),
      Base64Table ! unat (push_bit 2 b1 AND 0x3f), kPad]"
| "EncodeFromArray (b0 # b1 # b2 # rest) =
     [Base64Table ! unat (drop_bit 2 b0 AND 0x3f),
      Base64Table ! unat ((push_bit 4 b0 AND 0x3f) OR (drop_bit 4 b1 AND 0x0f)),
      Base64Table ! unat ((push_bit 2 b1 AND 0x3f) OR (drop_bit 6 b2 AND 0x03)),
      Base64Table ! unat (b2 AND 0x3f)] @ EncodeFromArray rest"

definition Encode :: "byte list \<Rightarrow> byte list" where
  "Encode data = EncodeFromArray data"

section \<open>Decoding\<close>

record quantum =
  qn_dpos :: nat
  qn_qbuf :: "byte list"
  qn_byte_len :: nat
  qn_pad_len :: nat
  qn_pad_start :: nat

text \<open>One turn of the loop: \<open>None\<close> for \<^verbatim>\<open>break\<close>. The increment of the loop head is part of a
  turn that goes on.\<close>

definition quantum_step :: "u32 \<Rightarrow> bool \<Rightarrow> byte list \<Rightarrow> quantum \<Rightarrow> quantum option" where
  "quantum_step parse_flags illegal_pads data q =
     (let v = DecodeTable ! unat (data ! qn_dpos q);
          advanced = q\<lparr>qn_qbuf := (qn_qbuf q)[qn_byte_len q := v], qn_dpos := qn_dpos q + 1\<rparr> in
      if v = il \<or> illegal_pads \<and> v = pd then
        if parse_flags \<noteq> DO_PARSE_ANY then None else Some advanced
      else if v = sp then
        if parse_flags = DO_PARSE_STRICT then None else Some advanced
      else if v = pd then
        if qn_byte_len q < 2 then if parse_flags \<noteq> DO_PARSE_ANY then None else Some advanced
        else if qn_byte_len q + qn_pad_len q \<ge> 4 then
          if parse_flags \<noteq> DO_PARSE_ANY then None else Some advanced
        else Some (advanced\<lparr>qn_pad_len := qn_pad_len q + 1,
                            qn_pad_start := (if qn_pad_len q + 1 = 1 then qn_dpos q else qn_pad_start q)\<rparr>)
      else if qn_pad_len q > 0 \<and> parse_flags \<noteq> DO_PARSE_ANY then None
      else Some (advanced\<lparr>qn_pad_len := 0, qn_byte_len := qn_byte_len q + 1\<rparr>))"

function quantum_loop :: "u32 \<Rightarrow> bool \<Rightarrow> byte list \<Rightarrow> quantum \<Rightarrow> quantum" where
  "quantum_loop parse_flags illegal_pads data q =
     (if qn_byte_len q < 4 \<and> qn_dpos q < length data then
        case quantum_step parse_flags illegal_pads data q of
          None \<Rightarrow> q\<lparr>qn_qbuf := (qn_qbuf q)[qn_byte_len q := DecodeTable ! unat (data ! qn_dpos q)]\<rparr>
        | Some q' \<Rightarrow> quantum_loop parse_flags illegal_pads data q'
      else q)"
  by pat_completeness auto

lemma quantum_step_dpos:
  "quantum_step pf ip data q = Some q' \<Longrightarrow> qn_dpos q' = qn_dpos q + 1 \<and>
    (qn_byte_len q' = qn_byte_len q \<or> qn_byte_len q' = qn_byte_len q + 1 \<and> qn_pad_len q' = 0)"
  by (auto simp: quantum_step_def Let_def split: if_splits)

termination quantum_loop
  by (relation "measure (\<lambda>(_, _, data, q). length data - qn_dpos q)")
    (auto dest: quantum_step_dpos)

declare quantum_loop.simps [simp del]

text \<open>Returns the number of characters found, the position, the buffer and whether the quantum is
  complete.\<close>

definition GetNextQuantum :: "u32 \<Rightarrow> bool \<Rightarrow> byte list \<Rightarrow> nat \<Rightarrow> nat \<times> nat \<times> byte list \<times> bool" where
  "GetNextQuantum parse_flags illegal_pads data dpos =
     (let q = quantum_loop parse_flags illegal_pads data
            \<lparr>qn_dpos = dpos, qn_qbuf = [0, 0, 0, 0], qn_byte_len = 0, qn_pad_len = 0, qn_pad_start = 0\<rparr>;
          qbuf = take (qn_byte_len q) (qn_qbuf q) @ replicate (4 - qn_byte_len q) 0
      in if qn_byte_len q + qn_pad_len q = 4 then (qn_byte_len q, qn_dpos q, qbuf, True)
         else (qn_byte_len q, if qn_pad_len q \<noteq> 0 then qn_pad_start q else qn_dpos q, qbuf, False))"

lemma quantum_loop_dpos:
  "qn_byte_len q \<le> 4 \<Longrightarrow> qn_dpos q + (qn_byte_len (quantum_loop pf ip data q) - qn_byte_len q) \<le>
      qn_dpos (quantum_loop pf ip data q) \<and> qn_byte_len q \<le> qn_byte_len (quantum_loop pf ip data q) \<and>
    qn_byte_len (quantum_loop pf ip data q) \<le> 4 \<and>
    (qn_byte_len (quantum_loop pf ip data q) = 4 \<longrightarrow> qn_byte_len q = 4 \<or> qn_pad_len (quantum_loop pf ip data q) = 0)"
proof (induction pf ip data q rule: quantum_loop.induct)
  case (1 pf ip data q)
  show ?case
  proof (cases "qn_byte_len q < 4 \<and> qn_dpos q < length data")
    case True
    show ?thesis
    proof (cases "quantum_step pf ip data q")
      case None
      then show ?thesis using True by (simp add: quantum_loop.simps [of pf ip data q])
    next
      case (Some q')
      have eq: "quantum_loop pf ip data q = quantum_loop pf ip data q'"
        using True Some by (simp add: quantum_loop.simps [of pf ip data q])
      note s = quantum_step_dpos [OF Some]
      then have "qn_byte_len q' \<le> 4" using True by auto
      note IH = "1.IH" [OF True Some this]
      show ?thesis
      proof (cases "qn_byte_len q' = 4")
        case True
        then have "quantum_loop pf ip data q' = q'" by (simp add: quantum_loop.simps [of pf ip data q'])
        then show ?thesis using s \<open>qn_byte_len q' = 4\<close> 1(2) by (auto simp: eq)
      next
        case False
        then show ?thesis using IH s by (auto simp: eq)
      qed
    qed
  next
    case False
    then show ?thesis using "1.prems" by (auto simp: quantum_loop.simps [of pf ip data q])
  qed
qed

lemma GetNextQuantum_progress:
  assumes "GetNextQuantum pf ip data dpos = (4, dpos', qbuf, padded)"
  shows "dpos < dpos'"
  using assms quantum_loop_dpos [of "\<lparr>qn_dpos = dpos, qn_qbuf = [0, 0, 0, 0], qn_byte_len = 0,
    qn_pad_len = 0, qn_pad_start = 0\<rparr>" pf ip data]
  by (auto simp: GetNextQuantum_def Let_def split: if_splits)

definition quantum_bytes :: "nat \<Rightarrow> byte list \<Rightarrow> byte list \<times> byte" where
  "quantum_bytes qlen qbuf =
     (let c0 = push_bit 2 (qbuf ! 0) OR (drop_bit 4 (qbuf ! 1) AND 0x3);
          c1 = (push_bit 4 (qbuf ! 1) AND 0xf0) OR (drop_bit 2 (qbuf ! 2) AND 0xf);
          c2 = (push_bit 6 (qbuf ! 2) AND 0xc0) OR qbuf ! 3
      in if qlen < 2 then ([], c0)
         else if qlen < 3 then ([c0], c1)
         else if qlen < 4 then ([c0, c1], c2)
         else ([c0, c1, c2], 0))"

function decode_loop :: "u32 \<Rightarrow> byte list \<Rightarrow> nat \<Rightarrow> byte list \<Rightarrow> bool \<times> byte list \<times> nat" where
  "decode_loop flags data dpos result =
     (if dpos < length data then
        let (qlen, dpos', qbuf, padded) =
              GetNextQuantum (flags AND DO_PARSE_MASK) (DO_PAD_NO = flags AND DO_PAD_MASK) data dpos;
            (out, c) = quantum_bytes qlen qbuf
        in if qlen = 4 then decode_loop flags data dpos' (result @ out)
           else (\<not> (DO_TERM_ANY \<noteq> flags AND DO_TERM_MASK \<and> 0 \<noteq> c) \<and>
                 \<not> (DO_PAD_YES = flags AND DO_PAD_MASK \<and> \<not> padded), result @ out, dpos')
      else (True, result, dpos))"
  by pat_completeness auto

termination decode_loop
proof (relation "measure (\<lambda>(_, data, dpos, _). length data - dpos)", goal_cases)
  case 1
  show ?case by simp
next
  case (2 flags data dpos result x qlen y dpos' z qbuf padded w out c)
  then have "GetNextQuantum (flags AND DO_PARSE_MASK) (DO_PAD_NO = flags AND DO_PAD_MASK) data dpos =
      (4, dpos', qbuf, padded)" by metis
  then have "dpos < dpos'" by (rule GetNextQuantum_progress)
  with 2(1) show ?case by simp
qed

declare decode_loop.simps [simp del]

text \<open>The result, the decoded bytes and the number of characters used.\<close>

definition DecodeFromArray :: "byte list \<Rightarrow> u32 \<Rightarrow> bool \<times> byte list \<times> nat" where
  "DecodeFromArray data flags =
     (let (success, result, dpos) = decode_loop flags data 0 []
      in (success \<and> \<not> (DO_TERM_BUFFER = flags AND DO_TERM_MASK \<and> dpos \<noteq> length data), result, dpos))"

definition Decode :: "byte list \<Rightarrow> u32 \<Rightarrow> bool \<times> byte list \<times> nat" where
  "Decode data flags = DecodeFromArray data flags"

section \<open>The alphabet\<close>

definition sextet :: "byte \<Rightarrow> bool" where
  "sextet v \<longleftrightarrow> v < 64"

lemma length_Base64Table [simp]: "length Base64Table = 64"
  by (simp add: Base64Table_def)

lemma decode_alphabet_all: "list_all (\<lambda>i. DecodeTable ! unat (Base64Table ! i) = of_nat i) [0..<64]"
  by code_simp

lemma alphabet_decode_all: "list_all (\<lambda>i. DecodeTable ! i < 64 \<longrightarrow>
    unat (Base64Table ! unat (DecodeTable ! i)) = i) [0..<256]"
  by code_simp

lemma pad_decode_all: "list_all (\<lambda>i. DecodeTable ! i = pd \<longrightarrow> i = unat kPad) [0..<256]"
  by code_simp

lemma decode_alphabet [simp]:
  assumes "sextet v"
  shows "DecodeTable ! unat (Base64Table ! unat v) = v"
proof -
  have "unat v < 64" using assms by (simp add: sextet_def word_less_nat_alt)
  then show ?thesis using decode_alphabet_all by (simp add: list_all_iff)
qed

lemma alphabet_decode:
  assumes "sextet (DecodeTable ! unat ch)"
  shows "Base64Table ! unat (DecodeTable ! unat ch) = ch"
proof -
  have "unat ch \<in> set [0..<256]" using unsigned_less [of ch, where 'a = nat] by simp
  then have "unat (Base64Table ! unat (DecodeTable ! unat ch)) = unat ch"
    using alphabet_decode_all assms unfolding list_all_iff sextet_def by blast
  then show ?thesis by (simp add: unsigned_word_eqI)
qed

lemma pad_decode: "DecodeTable ! unat ch = pd \<longleftrightarrow> ch = kPad"
proof
  assume "DecodeTable ! unat ch = pd"
  moreover have "unat ch \<in> set [0..<256]" using unsigned_less [of ch, where 'a = nat] by simp
  ultimately have "unat ch = unat kPad" using pad_decode_all unfolding list_all_iff by blast
  then show "ch = kPad" by (simp add: unsigned_word_eqI)
next
  show "ch = kPad \<Longrightarrow> DecodeTable ! unat ch = pd" by (simp add: kPad_def pd_def DecodeTable_def)
qed

lemma sextet_codes: "sextet v \<Longrightarrow> v \<noteq> il \<and> v \<noteq> sp \<and> v \<noteq> pd"
  by (auto simp: sextet_def il_def sp_def pd_def)

lemma decode_codes_all: "list_all (\<lambda>v. v < 64 \<or> v = il \<or> v = sp \<or> v = pd) DecodeTable"
  by code_simp

lemma decode_codes:
  "sextet (DecodeTable ! unat (ch :: byte)) \<or> DecodeTable ! unat ch = il \<or> DecodeTable ! unat ch = sp \<or>
   DecodeTable ! unat ch = pd"
proof -
  have "length DecodeTable = 256" by (simp add: DecodeTable_def)
  then have "DecodeTable ! unat ch \<in> set DecodeTable" using unsigned_less [of ch, where 'a = nat] by simp
  then show ?thesis using decode_codes_all unfolding list_all_iff sextet_def by blast
qed

section \<open>Sextets and bytes\<close>

lemma less8: "n < 8 \<Longrightarrow> n = 0 \<or> n = 1 \<or> n = 2 \<or> n = 3 \<or> n = 4 \<or> n = 5 \<or> n = 6 \<or> n = (7::nat)"
  by arith

lemma byte_eqI:
  assumes "bit a 0 = bit b 0" "bit a 1 = bit b 1" "bit a 2 = bit b 2" "bit a 3 = bit b 3"
    "bit a 4 = bit b 4" "bit a 5 = bit b 5" "bit a 6 = bit b 6" "bit a 7 = bit b 7"
  shows "a = (b :: byte)"
  by (rule bit_word_eqI) (use assms less8 in auto)

lemma sextet_iff_bits: "sextet v \<longleftrightarrow> \<not> bit v 6 \<and> \<not> bit v 7"
proof -
  have "v < 64 \<longleftrightarrow> take_bit 6 v = v" 
    by (simp add: word_less_nat_alt word_unat_eq_iff unsigned_take_bit_eq take_bit_nat_eq_self_iff)
  also have "\<dots> \<longleftrightarrow> \<not> bit v 6 \<and> \<not> bit v 7"
  proof
    assume "take_bit 6 v = v"
    then show "\<not> bit v 6 \<and> \<not> bit v 7" using bit_take_bit_iff [of 6 v 6] bit_take_bit_iff [of 6 v 7] by simp
  next
    assume "\<not> bit v 6 \<and> \<not> bit v 7"
    then show "take_bit 6 v = v" by (intro byte_eqI) (auto simp: bit_simps)
  qed
  finally show ?thesis by (simp add: sextet_def)
qed

lemma quantum_encode:
  "quantum_bytes 4 [drop_bit 2 b0 AND 0x3f, (push_bit 4 b0 AND 0x3f) OR (drop_bit 4 b1 AND 0x0f),
     (push_bit 2 b1 AND 0x3f) OR (drop_bit 6 b2 AND 0x03), b2 AND 0x3f] = ([b0, b1, b2], 0)"
  by (auto simp: quantum_bytes_def intro!: byte_eqI) (auto simp: bit_simps)

lemma encode_sextets [simp]:
  "sextet (drop_bit 2 b0 AND 0x3f)" "sextet (push_bit 4 b0 AND 0x3f)" "sextet (push_bit 2 b0 AND 0x3f)"
  "sextet ((push_bit 4 b0 AND 0x3f) OR (drop_bit 4 b1 AND 0x0f))" 
  "sextet ((push_bit 2 b1 AND 0x3f) OR (drop_bit 6 b2 AND 0x03))" "sextet (b2 AND 0x3f)"
  by (simp_all add: sextet_iff_bits bit_simps)

lemma sextet_bits [simp]: "sextet v \<Longrightarrow> \<not> bit v 6" "sextet v \<Longrightarrow> \<not> bit v 7"
  by (simp_all add: sextet_iff_bits)

lemma quantum_encode_2:
  "quantum_bytes 2 [drop_bit 2 b0 AND 0x3f, push_bit 4 b0 AND 0x3f, 0, 0] = ([b0], 0)"
  by (auto simp: quantum_bytes_def intro!: byte_eqI) (auto simp: bit_simps)

lemma quantum_encode_3:
  "quantum_bytes 3 [drop_bit 2 b0 AND 0x3f, (push_bit 4 b0 AND 0x3f) OR (drop_bit 4 b1 AND 0x0f),
     push_bit 2 b1 AND 0x3f, 0] = ([b0, b1], 0)"
  by (auto simp: quantum_bytes_def intro!: byte_eqI) (auto simp: bit_simps)

text \<open>The other way round: encoding the bytes of a quantum gives its characters back, when no bits
  were left over.\<close>

lemma encode_quantum_4:
  assumes "sextet v0" "sextet v1" "sextet v2" "sextet v3" "quantum_bytes 4 [v0, v1, v2, v3] = (out, c)"
  shows "EncodeFromArray (out @ rest) = map (\<lambda>v. Base64Table ! unat v) [v0, v1, v2, v3] @ EncodeFromArray rest"
proof -
  let ?c0 = "push_bit 2 v0 OR (drop_bit 4 v1 AND 0x3)"
  let ?c1 = "(push_bit 4 v1 AND 0xf0) OR (drop_bit 2 v2 AND 0xf)"
  let ?c2 = "(push_bit 6 v2 AND 0xc0) OR v3"
  have "out = [?c0, ?c1, ?c2]" using assms(5) by (simp add: quantum_bytes_def)
  moreover have "drop_bit 2 ?c0 AND 0x3f = v0" "(push_bit 4 ?c0 AND 0x3f) OR (drop_bit 4 ?c1 AND 0x0f) = v1"
    "(push_bit 2 ?c1 AND 0x3f) OR (drop_bit 6 ?c2 AND 0x03) = v2" "?c2 AND 0x3f = v3"
    by (intro byte_eqI; use assms in \<open>simp add: bit_simps\<close>)+
  ultimately show ?thesis by simp
qed

lemma encode_quantum_2:
  assumes "sextet v0" "sextet v1" "quantum_bytes 2 [v0, v1, 0, 0] = (out, 0)"
  shows "EncodeFromArray out = map (\<lambda>v. Base64Table ! unat v) [v0, v1] @ [kPad, kPad]"
proof -
  let ?c0 = "push_bit 2 v0 OR (drop_bit 4 v1 AND 0x3)"
  have z: "push_bit 4 v1 AND 0xf0 = 0" and "out = [?c0]" using assms(3) by (simp_all add: quantum_bytes_def)
  from z have "\<not> bit (push_bit 4 v1 AND 0xf0) 4" "\<not> bit (push_bit 4 v1 AND 0xf0) 5"
      "\<not> bit (push_bit 4 v1 AND 0xf0) 6" "\<not> bit (push_bit 4 v1 AND 0xf0) 7" by simp_all
  then have "\<not> bit v1 0" "\<not> bit v1 1" "\<not> bit v1 2" "\<not> bit v1 3" by (simp_all add: bit_simps)
  then have "drop_bit 2 ?c0 AND 0x3f = v0" "push_bit 4 ?c0 AND 0x3f = v1"
    by (intro byte_eqI; use assms in \<open>simp add: bit_simps\<close>)+
  then show ?thesis using \<open>out = [?c0]\<close> by simp
qed

lemma encode_quantum_3:
  assumes "sextet v0" "sextet v1" "sextet v2" "quantum_bytes 3 [v0, v1, v2, 0] = (out, 0)"
  shows "EncodeFromArray out = map (\<lambda>v. Base64Table ! unat v) [v0, v1, v2] @ [kPad]"
proof -
  let ?c0 = "push_bit 2 v0 OR (drop_bit 4 v1 AND 0x3)"
  let ?c1 = "(push_bit 4 v1 AND 0xf0) OR (drop_bit 2 v2 AND 0xf)"
  have z: "push_bit 6 v2 AND 0xc0 = 0" and "out = [?c0, ?c1]" using assms(4) by (simp_all add: quantum_bytes_def)
  from z have "\<not> bit (push_bit 6 v2 AND 0xc0) 6" "\<not> bit (push_bit 6 v2 AND 0xc0) 7" by simp_all
  then have "\<not> bit v2 0" "\<not> bit v2 1" by (simp_all add: bit_simps)
  then have "drop_bit 2 ?c0 AND 0x3f = v0" "(push_bit 4 ?c0 AND 0x3f) OR (drop_bit 4 ?c1 AND 0x0f) = v1"
    "push_bit 2 ?c1 AND 0x3f = v2"
    by (intro byte_eqI; use assms in \<open>simp add: bit_simps\<close>)+
  then show ?thesis using \<open>out = [?c0, ?c1]\<close> by simp
qed

section \<open>Decoding an encoding\<close>

abbreviation code_of :: "byte \<Rightarrow> byte" where
  "code_of v \<equiv> Base64Table ! unat v"

lemma quantum_loop_sextet:
  assumes "qn_byte_len q < 4" "qn_dpos q < length data" "qn_pad_len q = 0" "sextet v"
    "data ! qn_dpos q = code_of v"
  shows "quantum_loop pf ip data q = quantum_loop pf ip data
    \<lparr>qn_dpos = qn_dpos q + 1, qn_qbuf = (qn_qbuf q)[qn_byte_len q := v], qn_byte_len = qn_byte_len q + 1,
     qn_pad_len = 0, qn_pad_start = qn_pad_start q\<rparr>"
  using assms sextet_codes [of v]
  by (simp add: quantum_loop.simps [of pf ip data q] quantum_step_def Let_def) (cases q, simp)

lemma quantum_loop_pad:
  assumes "2 \<le> qn_byte_len q" "qn_byte_len q + qn_pad_len q < 4" "qn_dpos q < length data"
    "data ! qn_dpos q = kPad"
  shows "quantum_loop pf False data q = quantum_loop pf False data
    \<lparr>qn_dpos = qn_dpos q + 1, qn_qbuf = (qn_qbuf q)[qn_byte_len q := pd], qn_byte_len = qn_byte_len q,
     qn_pad_len = qn_pad_len q + 1,
     qn_pad_start = (if qn_pad_len q = 0 then qn_dpos q else qn_pad_start q)\<rparr>"
  using assms pad_decode [of kPad]
  by (simp add: quantum_loop.simps [of pf False data q] quantum_step_def Let_def il_def sp_def pd_def)
    (cases q, simp)

lemma quantum_loop_end:
  "qn_byte_len q = 4 \<or> length data \<le> qn_dpos q \<Longrightarrow> quantum_loop pf ip data q = q"
  by (auto simp: quantum_loop.simps [of pf ip data q])

lemma nth_drop_eq:
  assumes "drop p data = a @ rest" "i < length a"
  shows "data ! (p + i) = a ! i" "p + i < length data"
proof -
  have "length a + length rest = length data - p" using assms(1) by (metis length_append length_drop)
  then show "p + i < length data" using assms(2) by linarith
  then show "data ! (p + i) = a ! i" using assms by (metis nth_append nth_drop less_imp_le le_add1 order_le_less_trans)
qed

lemma four_at:
  assumes "drop p data = [c0, c1, c2, c3] @ rest"
  shows "data ! p = c0" "data ! (p + 1) = c1" "data ! (p + 2) = c2" "data ! (p + 3) = c3"
    "p + 3 < length data" 
  using nth_drop_eq [OF assms, of 0] nth_drop_eq [OF assms, of 1] nth_drop_eq [OF assms, of 2]
    nth_drop_eq [OF assms, of 3] by simp_all

lemma GetNextQuantum_4:
  assumes d: "drop p data = map code_of [v0, v1, v2, v3] @ rest" and "list_all sextet [v0, v1, v2, v3]"
  shows "GetNextQuantum pf ip data p = (4, p + 4, [v0, v1, v2, v3], True)"
  using four_at [OF d [simplified list.map]] assms(2)
  by (simp add: GetNextQuantum_def quantum_loop_sextet [where v = v0] quantum_loop_sextet [where v = v1]
    quantum_loop_sextet [where v = v2] quantum_loop_sextet [where v = v3] quantum_loop_end numeral_nat)

lemma GetNextQuantum_3:
  assumes d: "drop p data = map code_of [v0, v1, v2] @ [kPad]" and "list_all sextet [v0, v1, v2]"
  shows "GetNextQuantum pf False data p = (3, p + 4, [v0, v1, v2, 0], True)"
proof -
  have len: "length data = p + 4" using arg_cong [OF d, of length] by simp
  show ?thesis using four_at [of p data "code_of v0" "code_of v1" "code_of v2" kPad "[]"] d assms(2) len
    by (simp add: GetNextQuantum_def quantum_loop_sextet [where v = v0] quantum_loop_sextet [where v = v1]
      quantum_loop_sextet [where v = v2] quantum_loop_pad quantum_loop_end numeral_nat)
qed

lemma GetNextQuantum_2:
  assumes d: "drop p data = map code_of [v0, v1] @ [kPad, kPad]" and "list_all sextet [v0, v1]"
  shows "GetNextQuantum pf False data p = (2, p + 4, [v0, v1, 0, 0], True)"
proof -
  have len: "length data = p + 4" using arg_cong [OF d, of length] by simp
  show ?thesis using four_at [of p data "code_of v0" "code_of v1" kPad kPad "[]"] d assms(2) len
    by (simp add: GetNextQuantum_def quantum_loop_sextet [where v = v0] quantum_loop_sextet [where v = v1]
      quantum_loop_pad quantum_loop_end numeral_nat)
qed

lemma decode_loop_encoded:
  assumes "drop p data = EncodeFromArray d" "p \<le> length data" "flags AND DO_PAD_MASK \<noteq> DO_PAD_NO"
  shows "decode_loop flags data p result = (True, result @ d, length data)"
  using assms(1,2)
proof (induction d arbitrary: p result rule: EncodeFromArray.induct)
  case 1
  then show ?case by (simp add: decode_loop.simps [of _ _ p])
next
  case (2 b0)
  then have "GetNextQuantum pf False data p = (2, p + 4, [drop_bit 2 b0 AND 0x3f, push_bit 4 b0 AND 0x3f, 0, 0], True)" for pf
    by (intro GetNextQuantum_2) simp_all
  moreover have "length data = p + 4" using arg_cong [OF 2(1), of length] by simp
  ultimately show ?case using assms(3) by (simp add: decode_loop.simps [of _ _ p] quantum_encode_2)
next
  case (3 b0 b1)
  then have "GetNextQuantum pf False data p = (3, p + 4, [drop_bit 2 b0 AND 0x3f,
      (push_bit 4 b0 AND 0x3f) OR (drop_bit 4 b1 AND 0x0f), push_bit 2 b1 AND 0x3f, 0], True)" for pf
    by (intro GetNextQuantum_3) simp_all
  moreover have "length data = p + 4" using arg_cong [OF 3(1), of length] by simp
  ultimately show ?case using assms(3) by (simp add: decode_loop.simps [of _ _ p] quantum_encode_3)
next
  case (4 b0 b1 b2 rest)
  then have "GetNextQuantum pf ip data p = (4, p + 4, [drop_bit 2 b0 AND 0x3f,
      (push_bit 4 b0 AND 0x3f) OR (drop_bit 4 b1 AND 0x0f),
      (push_bit 2 b1 AND 0x3f) OR (drop_bit 6 b2 AND 0x03), b2 AND 0x3f], True)" for pf ip
    by (intro GetNextQuantum_4 [where rest = "EncodeFromArray rest"]) simp_all
  moreover have len: "p + 4 \<le> length data" using arg_cong [OF 4(2), of length] by simp
  moreover have "drop (p + 4) data = EncodeFromArray rest"
    using arg_cong [OF 4(2), of "drop 4"] by (simp add: add.commute)
  ultimately show ?case using 4(1) [of "p + 4" "result @ [b0, b1, b2]"]
    by (simp add: decode_loop.simps [of _ _ p] quantum_encode)
qed

section \<open>What the strict decoder accepts\<close>

text \<open>Between two turns of the loop the characters read since \<open>p\<close> are those of the sextets in the
  buffer, followed by the padding.\<close>

definition strict_inv :: "byte list \<Rightarrow> nat \<Rightarrow> quantum \<Rightarrow> bool" where
  "strict_inv data p q \<longleftrightarrow> length (qn_qbuf q) = 4 \<and> qn_dpos q = p + (qn_byte_len q + qn_pad_len q) \<and>
     qn_byte_len q + qn_pad_len q \<le> 4 \<and> qn_dpos q \<le> length data \<and>
     (qn_pad_len q \<noteq> 0 \<longrightarrow> 2 \<le> qn_byte_len q) \<and>
     list_all sextet (take (qn_byte_len q) (qn_qbuf q)) \<and>
     take (qn_byte_len q + qn_pad_len q) (drop p data) =
       map code_of (take (qn_byte_len q) (qn_qbuf q)) @ replicate (qn_pad_len q) kPad"

lemma strict_inv_step:
  assumes "strict_inv data p q" "qn_byte_len q < 4" "qn_dpos q < length data"
    "quantum_step DO_PARSE_STRICT False data q = Some q'"
  shows "strict_inv data p q'"
proof -
  let ?v = "DecodeTable ! unat (data ! qn_dpos q)" and ?n = "qn_byte_len q + qn_pad_len q"
  have at: "drop p data ! ?n = data ! qn_dpos q" "?n < length (drop p data)" using assms(1,3)
    by (auto simp: strict_inv_def)
  note more_chars = take_Suc_conv_app_nth [OF at(2), unfolded at(1)]
  consider (code) "sextet ?v" "qn_pad_len q = 0"
      "q' = q\<lparr>qn_qbuf := (qn_qbuf q)[qn_byte_len q := ?v], qn_dpos := qn_dpos q + 1, qn_pad_len := 0,
              qn_byte_len := qn_byte_len q + 1\<rparr>"
    | (pad) "?v = pd" "?n < 4" "2 \<le> qn_byte_len q"
      "q' = q\<lparr>qn_qbuf := (qn_qbuf q)[qn_byte_len q := ?v], qn_dpos := qn_dpos q + 1,
              qn_pad_len := qn_pad_len q + 1, 
              qn_pad_start := (if qn_pad_len q + 1 = 1 then qn_dpos q else qn_pad_start q)\<rparr>"
    using assms(4) decode_codes [of "data ! qn_dpos q"]
    by (auto simp: quantum_step_def Let_def parse_flag_defs split: if_splits)
  then show ?thesis
  proof cases
    case code
    then show ?thesis using assms more_chars alphabet_decode [of "data ! qn_dpos q"]
      by (auto simp: strict_inv_def take_Suc_conv_app_nth)
  next
    case pad
    then show ?thesis using assms more_chars pad_decode [of "data ! qn_dpos q"]
      by (auto simp: strict_inv_def replicate_append_same)
  qed
qed

lemma strict_inv_loop:
  assumes "strict_inv data p q"
  shows "strict_inv data p (quantum_loop DO_PARSE_STRICT False data q)"
  using assms
proof (induction DO_PARSE_STRICT False data q rule: quantum_loop.induct)
  case (1 data q)
  show ?case
  proof (cases "qn_byte_len q < 4 \<and> qn_dpos q < length data")
    case True
    then show ?thesis using 1 strict_inv_step [of data p q]
      by (auto simp: quantum_loop.simps [of _ _ data q] strict_inv_def split: option.split)
  next
    case False
    then show ?thesis using 1 by (auto simp: quantum_loop.simps [of _ _ data q])
  qed
qed

lemma strict_quantum:
  assumes "GetNextQuantum DO_PARSE_STRICT False data p = (qlen, p', qbuf, padded)" "p \<le> length data"
    "qlen = 4 \<or> padded"
  obtains vs where "length vs = qlen" "2 \<le> qlen" "qlen \<le> 4" "list_all sextet vs" "qbuf = vs @ replicate (4 - qlen) 0"
    "p' = p + 4" "p + 4 \<le> length data" "take 4 (drop p data) = map code_of vs @ replicate (4 - qlen) kPad"
proof -
  let ?q0 = "\<lparr>qn_dpos = p, qn_qbuf = [0, 0, 0, 0], qn_byte_len = 0, qn_pad_len = 0, qn_pad_start = 0\<rparr>"
  let ?q = "quantum_loop DO_PARSE_STRICT False data ?q0"
  have "strict_inv data p ?q" by (rule strict_inv_loop) (use assms(2) in \<open>simp add: strict_inv_def\<close>)
  moreover from this have "qn_byte_len ?q = qlen" "qn_dpos ?q = p'" "qn_pad_len ?q = 4 - qlen" "qlen \<le> 4" "2 \<le> qlen"
      "qbuf = take qlen (qn_qbuf ?q) @ replicate (4 - qlen) 0"
    using assms(1,3) by (auto simp: strict_inv_def GetNextQuantum_def Let_def split: if_splits)
  ultimately show thesis by (intro that [of "take qlen (qn_qbuf ?q)"]) (auto simp: strict_inv_def)
qed

lemma strict_loop_canonical:
  assumes "decode_loop DO_STRICT data p result = (True, out, length data)" "p \<le> length data"
  shows "\<exists>d. out = result @ d \<and> drop p data = EncodeFromArray d"
  using assms
proof (induction "length data - p" arbitrary: p result rule: less_induct)
  case (less p result)
  show ?case
  proof (cases "p < length data")
    case False
    then show ?thesis using less(2,3) by (auto simp: decode_loop.simps [of _ data "length data"] intro!: exI [of _ "[]"])
  next
    case True
    obtain qlen p' qbuf padded where q: "GetNextQuantum DO_PARSE_STRICT False data p = (qlen, p', qbuf, padded)"
      by (metis prod_cases4)
    obtain o1 c where b: "quantum_bytes qlen qbuf = (o1, c)" by fastforce
    have flags: "DO_STRICT AND DO_PARSE_MASK = DO_PARSE_STRICT" "(DO_PAD_NO = DO_STRICT AND DO_PAD_MASK) = False"
      "DO_PAD_YES = DO_STRICT AND DO_PAD_MASK" "DO_TERM_ANY \<noteq> DO_STRICT AND DO_TERM_MASK"
      by (simp_all add: flag_defs)
    have ok: "qlen = 4 \<or> padded" using less(2) True q b flags
      by (auto simp: decode_loop.simps [of _ _ p] split: if_splits)
    obtain vs where len: "2 \<le> qlen" and vs: "length vs = qlen" "qlen \<le> 4" "list_all sextet vs"
        "qbuf = vs @ replicate (4 - qlen) 0" "p' = p + 4" "p + 4 \<le> length data"
        "take 4 (drop p data) = map code_of vs @ replicate (4 - qlen) kPad"
      using strict_quantum [OF q less(3) ok] by metis
    show ?thesis
    proof (cases "qlen = 4")
      case qlen: True
      have rec: "decode_loop DO_STRICT data (p + 4) (result @ o1) = (True, out, length data)"
        using less(2) True q b flags qlen vs(5) by (simp add: decode_loop.simps [of _ _ p])
      have "length data - (p + 4) < length data - p" using True by simp
      then obtain d where d: "out = (result @ o1) @ d" "drop (p + 4) data = EncodeFromArray d"
        using less(1) [OF _ rec vs(6)] by auto
      obtain v0 v1 v2 v3 where v: "vs = [v0, v1, v2, v3]" using vs(1) qlen by (auto simp: numeral_eq_Suc length_Suc_conv)
      have "EncodeFromArray (o1 @ d) = map code_of vs @ EncodeFromArray d"
        unfolding v using encode_quantum_4 [of v0 v1 v2 v3 o1 c d] vs(3,4) b qlen v by simp
      also have "\<dots> = take 4 (drop p data) @ drop 4 (drop p data)" using vs(7) d(2) qlen by (simp add: add.commute)
      also have "\<dots> = drop p data" by (rule append_take_drop_id)
      finally show ?thesis using d(1) by auto
    next
      case False
      then have fin: "out = result @ o1" "c = 0" "length data = p + 4" using less(2) True q b flags vs(5)
        by (auto simp: decode_loop.simps [of _ _ p])
      then have chars: "drop p data = map code_of vs @ replicate (4 - qlen) kPad" using vs(7) by simp
      have "qlen = 2 \<or> qlen = 3" using False len vs(2) by arith
      then have "EncodeFromArray o1 = map code_of vs @ replicate (4 - qlen) kPad"
      proof
        assume 2: "qlen = 2"
        then obtain v0 v1 where v: "vs = [v0, v1]" using vs(1) by (auto simp: numeral_eq_Suc length_Suc_conv)
        show ?thesis using encode_quantum_2 [of v0 v1 o1] vs(3,4) b fin(2) 2 v by (simp add: numeral_eq_Suc)
      next
        assume 3: "qlen = 3"
        then obtain v0 v1 v2 where v: "vs = [v0, v1, v2]" using vs(1) by (auto simp: numeral_eq_Suc length_Suc_conv)
        show ?thesis using encode_quantum_3 [of v0 v1 v2 o1] vs(3,4) b fin(2) 3 v by (simp add: numeral_eq_Suc)
      qed
      then show ?thesis using fin(1) chars by auto
    qed
  qed
qed

section \<open>Properties\<close>

text \<open>
  Decoding what \<^verbatim>\<open>Base64::Encode\<close> wrote succeeds, gives the data back and uses every character,
  for every parsing and termination option and for both padding options that allow padding.
\<close>

theorem Decode_Encode:
  assumes "flags AND DO_PAD_MASK \<noteq> DO_PAD_NO"
  shows "Decode (Encode data) flags = (True, data, length (Encode data))"
  using decode_loop_encoded [of 0 "Encode data" data flags "[]"] assms
  by (simp add: Decode_def DecodeFromArray_def Encode_def)

theorem Decode_Encode_witness:
  "DO_LAX AND DO_PAD_MASK \<noteq> DO_PAD_NO \<and>
   Decode (Encode [0x66, 0x6F]) DO_LAX = (True, [0x66, 0x6F], 4)"
  using Decode_Encode [of DO_LAX "[0x66, 0x6F]"] by (simp add: flag_defs Encode_def)

text \<open>
  C31. With \<^verbatim>\<open>DO_STRICT\<close> the decoder accepts exactly the encodings: no other string, with
  different padding, white space, foreign characters or stray bits in the last character, decodes.
\<close>

theorem Decode_strict_iff:
  "Decode s DO_STRICT = (True, data, n) \<longleftrightarrow> s = Encode data \<and> n = length s"
proof
  assume ok: "Decode s DO_STRICT = (True, data, n)"
  then have "decode_loop DO_STRICT s 0 [] = (True, data, length s) \<and> n = length s"
    by (auto simp: Decode_def DecodeFromArray_def flag_defs split: prod.splits)
  then show "s = Encode data \<and> n = length s" using strict_loop_canonical [of s 0 "[]" data] by (auto simp: Encode_def)
next
  assume "s = Encode data \<and> n = length s"
  then show "Decode s DO_STRICT = (True, data, n)"
    using decode_loop_encoded [of 0 s data DO_STRICT "[]"]
    by (simp add: Decode_def DecodeFromArray_def Encode_def flag_defs)
qed

end
