(* ===== verification/IcePort.thy ===== *)
theory IcePort
  imports IceConnection StunIntegrity Base64 "HOL-Library.Monad_Syntax"
begin

text \<open>
  \<^verbatim>\<open>src/p2p/base/port.cc\<close>: a port, which owns connections, answers connectivity checks and hands packets to
  its connections. The connections are objects in the store \<open>pt_heap\<close>; \<open>pt_connections\<close> maps remote addresses
  to them. Packets sent, signals and posted messages are recorded in \<open>pt_events\<close>. \<open>None\<close> is a violated
  assertion, the use of a deleted connection or a read outside of a packet. SHA-1 is an argument. The transport
  answers the signal of a role conflict by setting the role.
\<close>

section \<open>Types and constants\<close>

definition STUN_BINDING_REQUEST :: u16 where "STUN_BINDING_REQUEST = 0x0001"
definition STUN_BINDING_INDICATION :: u16 where "STUN_BINDING_INDICATION = 0x0010"
definition STUN_BINDING_RESPONSE :: u16 where "STUN_BINDING_RESPONSE = 0x0101"
definition STUN_BINDING_ERROR_RESPONSE :: u16 where "STUN_BINDING_ERROR_RESPONSE = 0x0111"
definition STUN_ATTR_PRIORITY :: u16 where "STUN_ATTR_PRIORITY = 0x0024"
definition STUN_ATTR_USE_CANDIDATE :: u16 where "STUN_ATTR_USE_CANDIDATE = 0x0025"
definition STUN_ATTR_ICE_CONTROLLED :: u16 where "STUN_ATTR_ICE_CONTROLLED = 0x8029"
definition STUN_ATTR_ICE_CONTROLLING :: u16 where "STUN_ATTR_ICE_CONTROLLING = 0x802A"
definition STUN_ERROR_BAD_REQUEST :: int where "STUN_ERROR_BAD_REQUEST = 400"
definition STUN_ERROR_UNAUTHORIZED :: int where "STUN_ERROR_UNAUTHORIZED = 401"
definition STUN_ERROR_UNKNOWN_ATTRIBUTE :: int where "STUN_ERROR_UNKNOWN_ATTRIBUTE = 420"
definition STUN_ERROR_STALE_CREDENTIALS :: int where "STUN_ERROR_STALE_CREDENTIALS = 430"
definition STUN_ERROR_ROLE_CONFLICT :: int where "STUN_ERROR_ROLE_CONFLICT = 487"
definition STUN_ERROR_SERVER_ERROR :: int where "STUN_ERROR_SERVER_ERROR = 500"
definition STUN_ERROR_GLOBAL_FAILURE :: int where "STUN_ERROR_GLOBAL_FAILURE = 600"

abbreviation str :: "string \<Rightarrow> byte list" where "str s \<equiv> map of_char s"

definition STUN_ERROR_REASON_BAD_REQUEST :: "byte list" where
  "STUN_ERROR_REASON_BAD_REQUEST = str ''Bad Request''"
definition STUN_ERROR_REASON_UNAUTHORIZED :: "byte list" where
  "STUN_ERROR_REASON_UNAUTHORIZED = str ''Unauthorized''"
definition STUN_ERROR_REASON_STALE_CREDENTIALS :: "byte list" where
  "STUN_ERROR_REASON_STALE_CREDENTIALS = str ''Stale Credentials''"
definition STUN_ERROR_REASON_ROLE_CONFLICT :: "byte list" where
  "STUN_ERROR_REASON_ROLE_CONFLICT = str ''Role Conflict''"
definition STUN_ERROR_REASON_SERVER_ERROR :: "byte list" where
  "STUN_ERROR_REASON_SERVER_ERROR = str ''Server Error''"

definition ICE_TYPE_PREFERENCE_PRFLX :: u32 where "ICE_TYPE_PREFERENCE_PRFLX = 110"
definition ICE_TYPE_PREFERENCE_SRFLX :: u32 where "ICE_TYPE_PREFERENCE_SRFLX = 100"
definition ICE_CANDIDATE_COMPONENT_RTCP :: int where "ICE_CANDIDATE_COMPONENT_RTCP = 2"
definition kPortTimeoutDelay :: int where "kPortTimeoutDelay = 30 * 1000"
definition LOCAL_PORT_TYPE :: "byte list" where "LOCAL_PORT_TYPE = str ''local''"
definition STUN_PORT_TYPE :: "byte list" where "STUN_PORT_TYPE = str ''stun''"
definition RELAY_PORT_TYPE :: "byte list" where "RELAY_PORT_TYPE = str ''relay''"

datatype ice_protocol_type = ICEPROTO_GOOGLE | ICEPROTO_HYBRID | ICEPROTO_RFC5245 | ICEPROTO_XEP0176
datatype transport_role = ROLE_CONTROLLING | ROLE_CONTROLLED | ROLE_UNKNOWN
datatype lifetime = LT_PRESTART | LT_PRETIMEOUT | LT_POSTTIMEOUT
datatype protocol_type = PROTO_UDP | PROTO_TCP | PROTO_SSLTCP

datatype port_event =
    SendTo "byte list" socket_address bool
  | PortReadPacket "byte list" socket_address
  | SignalUnknownAddress socket_address protocol_type stun_message "byte list"
  | SignalRoleConflict
  | SignalCandidateReady Candidate
  | SignalAddressReady
  | SignalConnectionCreated nat
  | PostCheckTimeout int
  | PortDestroyed

record Port =
  pt_type :: "byte list"
  pt_network :: nat
  pt_network_name :: "byte list"
  pt_ip :: ip_address
  pt_component :: int
  pt_generation :: u32
  pt_related_address :: socket_address
  pt_ice_username_fragment :: "byte list"
  pt_password :: "byte list"
  pt_candidates :: "Candidate list"
  pt_connections :: "(socket_address \<times> nat) list"
  pt_lifetime :: lifetime
  pt_enable_port_packets :: bool
  pt_ice_protocol :: ice_protocol_type
  pt_role :: transport_role
  pt_tiebreaker :: u64
  pt_shared_socket :: bool
  pt_send_retransmit_count_attribute :: bool
  pt_heap :: "nat \<Rightarrow> Connection option"
  pt_events :: "port_event list"

definition port_signal :: "port_event \<Rightarrow> Port \<Rightarrow> Port" where
  "port_signal e p = p\<lparr>pt_events := pt_events p @ [e]\<rparr>"

definition put_conn :: "nat \<Rightarrow> Connection \<Rightarrow> Port \<Rightarrow> Port" where
  "put_conn k c p = p\<lparr>pt_heap := (pt_heap p)(k := Some c)\<rparr>"

fun ProtoToString :: "protocol_type \<Rightarrow> byte list" where
  "ProtoToString PROTO_UDP = str ''udp''"
| "ProtoToString PROTO_TCP = str ''tcp''"
| "ProtoToString PROTO_SSLTCP = str ''ssltcp''"

text \<open>The accessors cast the attribute they find to its class.\<close>

definition GetByteString :: "stun_message \<Rightarrow> u16 \<Rightarrow> byte list option" where
  "GetByteString m type =
     (case GetAttribute m type of Some a \<Rightarrow> (case at_value a of ByteString s \<Rightarrow> Some s | _ \<Rightarrow> None) | None \<Rightarrow> None)"

definition GetUInt32 :: "stun_message \<Rightarrow> u16 \<Rightarrow> u32 option" where
  "GetUInt32 m type =
     (case GetAttribute m type of Some a \<Rightarrow> (case at_value a of UInt32 v \<Rightarrow> Some v | _ \<Rightarrow> None) | None \<Rightarrow> None)"

definition GetUInt64 :: "stun_message \<Rightarrow> u16 \<Rightarrow> u64 option" where
  "GetUInt64 m type =
     (case GetAttribute m type of Some a \<Rightarrow> (case at_value a of UInt64 v \<Rightarrow> Some v | _ \<Rightarrow> None) | None \<Rightarrow> None)"

definition GetErrorCode :: "stun_message \<Rightarrow> (byte \<times> byte) option" where
  "GetErrorCode m =
     (case GetAttribute m STUN_ATTR_ERROR_CODE of
        Some a \<Rightarrow> (case at_value a of ErrorCode cls num _ \<Rightarrow> Some (cls, num) | _ \<Rightarrow> None)
      | None \<Rightarrow> None)"

section \<open>User names\<close>

definition GetRtcpUfragFromRtpUfrag :: "byte list \<Rightarrow> byte list option" where
  "GetRtcpUfragFromRtpUfrag rtp_ufrag =
     (if rtp_ufrag = [] then None
      else
        case GetNextBase64Char (last rtp_ufrag) of
          Some (Some new_last_char) \<Rightarrow> Some (butlast rtp_ufrag @ [new_last_char])
        | _ \<Rightarrow> None)"

definition username_fragment :: "Port \<Rightarrow> byte list option" where
  "username_fragment p =
     (if pt_ice_protocol p = ICEPROTO_GOOGLE \<and> pt_component p = ICE_CANDIDATE_COMPONENT_RTCP
      then GetRtcpUfragFromRtpUfrag (pt_ice_username_fragment p)
      else Some (pt_ice_username_fragment p))"

definition CreateStunUsername :: "Port \<Rightarrow> byte list \<Rightarrow> byte list option" where
  "CreateStunUsername p remote_username =
     do { frag \<leftarrow> username_fragment p;
          Some (remote_username @ (if pt_ice_protocol p = ICEPROTO_RFC5245 then [0x3A] else []) @ frag) }"

text \<open>The result, the local and the remote fragment.\<close>

definition ParseStunUsername :: "Port \<Rightarrow> stun_message \<Rightarrow> (bool \<times> byte list \<times> byte list) option" where
  "ParseStunUsername p stun_msg =
     (case GetByteString stun_msg STUN_ATTR_USERNAME of
        None \<Rightarrow> Some (False, [], [])
      | Some username \<Rightarrow>
          if pt_ice_protocol p = ICEPROTO_RFC5245 then
            if 0x3A \<in> set username
            then Some (True, takeWhile (\<lambda>c. c \<noteq> 0x3A) username, tl (dropWhile (\<lambda>c. c \<noteq> 0x3A) username))
            else Some (False, [], [])
          else if pt_ice_protocol p = ICEPROTO_GOOGLE then
            do { frag \<leftarrow> username_fragment p;
                 if length username < length frag then Some (False, [], [])
                 else Some (True, take (length frag) username, drop (length frag) username) }
          else Some (True, [], []))"

section \<open>Responses\<close>

definition SendBindingErrorResponse :: "message_digest \<Rightarrow> Port \<Rightarrow> stun_message \<Rightarrow> socket_address \<Rightarrow> int \<Rightarrow>
    byte list \<Rightarrow> Port option" where
  "SendBindingErrorResponse sha1 p request addr code reason =
     (if sm_type request \<noteq> STUN_BINDING_REQUEST then None
      else
        let vt = StunMessage_GetAttributeValueType;
            response = StunMessage_new\<lparr>sm_type := STUN_BINDING_ERROR_RESPONSE\<rparr>;
            response = snd (SetTransactionID response (sm_transaction_id request));
            (cls, num) = (if pt_ice_protocol p = ICEPROTO_RFC5245 then SetCode code
                          else if pt_ice_protocol p = ICEPROTO_GOOGLE
                          then (word_of_int (code div 256), word_of_int (code mod 256))
                          else (0, 0));
            error_attr = SetReason \<lparr>at_type = STUN_ATTR_ERROR_CODE, at_length = 4, at_value = ErrorCode cls num []\<rparr>
                           reason;
            response = snd (AddAttribute vt response error_attr);
            response =
              (if pt_ice_protocol p = ICEPROTO_RFC5245 then
                 let response = (if code \<noteq> STUN_ERROR_BAD_REQUEST \<and> code \<noteq> STUN_ERROR_UNAUTHORIZED
                                 then snd (AddMessageIntegrity sha1 vt response (pt_password p)) else response)
                 in snd (AddFingerprint vt response)
               else if pt_ice_protocol p = ICEPROTO_GOOGLE then
                 case GetByteString request STUN_ATTR_USERNAME of
                   None \<Rightarrow> response
                 | Some username \<Rightarrow>
                     snd (AddAttribute vt response (StunByteStringAttribute_new STUN_ATTR_USERNAME username))
               else response);
            buf = snd (StunMessage_Write response (ByteBuffer_new ORDER_NETWORK))
        in Some (port_signal (SendTo (Data buf) addr False) p))"

text \<open>The response to a ping; the connection to the sender, which must exist, becomes readable.\<close>

definition binding_response :: "message_digest \<Rightarrow> Port \<Rightarrow> stun_message \<Rightarrow> byte list \<Rightarrow> socket_address \<Rightarrow>
    stun_message" where
  "binding_response sha1 p request username addr =
     (let vt = StunMessage_GetAttributeValueType;
          response = StunMessage_new\<lparr>sm_type := STUN_BINDING_RESPONSE\<rparr>;
          response = snd (SetTransactionID response (sm_transaction_id request));
          response =
            (case GetUInt32 request STUN_ATTR_RETRANSMIT_COUNT of
               None \<Rightarrow> response
             | Some v \<Rightarrow> snd (AddAttribute vt response (StunUInt32Attribute_new STUN_ATTR_RETRANSMIT_COUNT v)))
      in if pt_ice_protocol p = ICEPROTO_RFC5245 then
           let response = snd (AddAttribute vt response
                            (StunXorAddressAttribute_new STUN_ATTR_XOR_MAPPED_ADDRESS addr));
               response = snd (AddMessageIntegrity sha1 vt response (pt_password p))
           in snd (AddFingerprint vt response)
         else if pt_ice_protocol p = ICEPROTO_GOOGLE then
           let response = snd (AddAttribute vt response (StunAddressAttribute_new STUN_ATTR_MAPPED_ADDRESS addr))
           in snd (AddAttribute vt response (StunByteStringAttribute_new STUN_ATTR_USERNAME username))
         else response)"

definition GetConnection :: "Port \<Rightarrow> socket_address \<Rightarrow> nat option" where
  "GetConnection p remote_addr = map_of (pt_connections p) remote_addr"

definition SendBindingResponse :: "message_digest \<Rightarrow> u32 \<Rightarrow> Port \<Rightarrow> stun_message \<Rightarrow> socket_address \<Rightarrow>
    Port option" where
  "SendBindingResponse sha1 now p request addr =
     (if sm_type request \<noteq> STUN_BINDING_REQUEST then None
      else do {
        username \<leftarrow> GetByteString request STUN_ATTR_USERNAME;
        let buf = snd (StunMessage_Write (binding_response sha1 p request username addr)
                         (ByteBuffer_new ORDER_NETWORK));
        let p = port_signal (SendTo (Data buf) addr False) p;
        k \<leftarrow> GetConnection p addr;
        conn \<leftarrow> pt_heap p k;
        Some (put_conn k (ReceivedPing now conn) p) })"

section \<open>Incoming packets\<close>

datatype stun_packet = NotStun | Handled | Accepted stun_message "byte list"

definition GetStunMessage :: "message_digest \<Rightarrow> Port \<Rightarrow> byte list \<Rightarrow> socket_address \<Rightarrow>
    (stun_packet \<times> Port) option" where
  "GetStunMessage sha1 p data addr =
     (if pt_ice_protocol p = ICEPROTO_RFC5245 \<and> \<not> ValidateFingerprint data then Some (NotStun, p)
      else
        case StunMessage_Read IceMessage_GetAttributeValueType (ByteBuffer_of data) of
          None \<Rightarrow> Some (NotStun, p)
        | Some (stun_msg, buf) \<Rightarrow>
            if Length buf > 0 then Some (NotStun, p)
            else if sm_type stun_msg = STUN_BINDING_REQUEST then
              if GetByteString stun_msg STUN_ATTR_USERNAME = None \<or>
                 (pt_ice_protocol p = ICEPROTO_RFC5245 \<and> GetByteString stun_msg STUN_ATTR_MESSAGE_INTEGRITY = None)
              then do {
                p \<leftarrow> SendBindingErrorResponse sha1 p stun_msg addr STUN_ERROR_BAD_REQUEST
                       STUN_ERROR_REASON_BAD_REQUEST;
                Some (Handled, p) }
              else do {
                (ok, local_ufrag, remote_ufrag) \<leftarrow> ParseStunUsername p stun_msg;
                frag \<leftarrow> username_fragment p;
                if \<not> ok \<or> local_ufrag \<noteq> frag then do {
                  p \<leftarrow> SendBindingErrorResponse sha1 p stun_msg addr STUN_ERROR_UNAUTHORIZED
                         STUN_ERROR_REASON_UNAUTHORIZED;
                  Some (Handled, p) }
                else do {
                  valid \<leftarrow> (if pt_ice_protocol p = ICEPROTO_RFC5245
                           then ValidateMessageIntegrity sha1 data (pt_password p) else Some True);
                  if \<not> valid then do {
                    p \<leftarrow> SendBindingErrorResponse sha1 p stun_msg addr STUN_ERROR_UNAUTHORIZED
                           STUN_ERROR_REASON_UNAUTHORIZED;
                    Some (Handled, p) }
                  else Some (Accepted stun_msg remote_ufrag, p) } }
            else if sm_type stun_msg = STUN_BINDING_RESPONSE then Some (Accepted stun_msg [], p)
            else if sm_type stun_msg = STUN_BINDING_ERROR_RESPONSE then
              Some (if GetErrorCode stun_msg = None then Handled else Accepted stun_msg [], p)
            else if sm_type stun_msg = STUN_BINDING_INDICATION then Some (Accepted stun_msg [], p)
            else Some (Handled, p))"

definition MaybeIceRoleConflict :: "message_digest \<Rightarrow> Port \<Rightarrow> socket_address \<Rightarrow> stun_message \<Rightarrow> byte list \<Rightarrow>
    (bool \<times> Port) option" where
  "MaybeIceRoleConflict sha1 p addr stun_msg remote_ufrag =
     do { frag \<leftarrow> username_fragment p;
          let controlling = GetUInt64 stun_msg STUN_ATTR_ICE_CONTROLLING;
          if controlling = Some (pt_tiebreaker p) \<and> frag = remote_ufrag then Some (True, p)
          else do {
            let (remote_ice_role, remote_tiebreaker) =
              (case GetUInt64 stun_msg STUN_ATTR_ICE_CONTROLLED of
                 Some v \<Rightarrow> (ROLE_CONTROLLED, v)
               | None \<Rightarrow> (case controlling of Some v \<Rightarrow> (ROLE_CONTROLLING, v) | None \<Rightarrow> (ROLE_UNKNOWN, 0)));
            let conflict = (do {
              p \<leftarrow> SendBindingErrorResponse sha1 p stun_msg addr STUN_ERROR_ROLE_CONFLICT
                     STUN_ERROR_REASON_ROLE_CONFLICT;
              Some (False, p) });
            case pt_role p of
              ROLE_CONTROLLING \<Rightarrow>
                if remote_ice_role = ROLE_CONTROLLING then
                  if remote_tiebreaker \<ge> pt_tiebreaker p then Some (True, port_signal SignalRoleConflict p)
                  else conflict
                else Some (True, p)
            | ROLE_CONTROLLED \<Rightarrow>
                if remote_ice_role = ROLE_CONTROLLED then
                  if remote_tiebreaker < pt_tiebreaker p then Some (True, port_signal SignalRoleConflict p)
                  else conflict
                else Some (True, p)
            | ROLE_UNKNOWN \<Rightarrow> None } }"

text \<open>\<^verbatim>\<open>Port::OnReadPacket\<close>: a packet from an address that has no connection.\<close>

definition port_OnReadPacket :: "message_digest \<Rightarrow> Port \<Rightarrow> byte list \<Rightarrow> socket_address \<Rightarrow> protocol_type \<Rightarrow>
    Port option" where
  "port_OnReadPacket sha1 p data addr proto =
     (if pt_enable_port_packets p then Some (port_signal (PortReadPacket data addr) p)
      else do {
        (r, p) \<leftarrow> GetStunMessage sha1 p data addr;
        case r of
          NotStun \<Rightarrow> Some p
        | Handled \<Rightarrow> Some p
        | Accepted msg remote_username \<Rightarrow>
            if sm_type msg = STUN_BINDING_REQUEST then do {
              (ok, p) \<leftarrow> (if pt_ice_protocol p = ICEPROTO_RFC5245
                         then MaybeIceRoleConflict sha1 p addr msg remote_username else Some (True, p));
              Some (if ok then port_signal (SignalUnknownAddress addr proto msg remote_username) p else p) }
            else Some p })"

section \<open>Connections of the port\<close>

definition HandleRoleConflictFromPeer :: "Port \<Rightarrow> Connection \<Rightarrow> Port \<times> Connection" where
  "HandleRoleConflictFromPeer p c =
     (port_signal SignalRoleConflict p, if pt_role p = ROLE_CONTROLLING then set_nominated False c else c)"

definition OnConnectionRequestErrorResponse :: "Port \<Rightarrow> Connection \<Rightarrow> stun_message \<Rightarrow> Port \<times> Connection" where
  "OnConnectionRequestErrorResponse p c response =
     (let code = (case GetErrorCode response of
                    None \<Rightarrow> STUN_ERROR_GLOBAL_FAILURE
                  | Some (cls, num) \<Rightarrow>
                      if pt_ice_protocol p = ICEPROTO_GOOGLE then uint cls * 256 + uint num else error_code cls num)
      in if code = STUN_ERROR_UNKNOWN_ATTRIBUTE \<or> code = STUN_ERROR_SERVER_ERROR \<or>
            code = STUN_ERROR_UNAUTHORIZED then (p, c)
         else if code = STUN_ERROR_STALE_CREDENTIALS then (p, c)
         else if code = STUN_ERROR_ROLE_CONFLICT then HandleRoleConflictFromPeer p c
         else (p, conn_failed c))"

text \<open>What the requests of a connection call back. The request is still alive: its time of sending gives the
  round-trip time.\<close>

fun conn_callback :: "u32 \<Rightarrow> StunRequestManager \<Rightarrow> Port \<times> Connection \<Rightarrow> stun_event \<Rightarrow> Port \<times> Connection" where
  "conn_callback now requests (p, c) (SentPacket q _ data) =
     (port_signal (SendTo data (cd_address (cn_remote_candidate c)) False) p, c)"
| "conn_callback now requests (p, c) (OnResponse q response) =
     (p, case sr_heap requests q of
           None \<Rightarrow> c
         | Some r \<Rightarrow> OnConnectionRequestResponse now (Elapsed now r) c)"
| "conn_callback now requests (p, c) (OnErrorResponse q response) = OnConnectionRequestErrorResponse p c response"
| "conn_callback now requests (p, c) (OnTimeout q) = (p, c)"

definition run_requests :: "u32 \<Rightarrow> Port \<Rightarrow> nat \<Rightarrow> (StunRequestManager \<Rightarrow> StunRequestManager option) \<Rightarrow>
    Port option" where
  "run_requests now p k f =
     do { c \<leftarrow> pt_heap p k;
          requests \<leftarrow> f (cn_requests c);
          let new = drop (length (sr_events (cn_requests c))) (sr_events requests);
          let (p, c') = foldl (conn_callback now (cn_requests c)) (p, c\<lparr>cn_requests := requests\<rparr>) new;
          Some (put_conn k c' p) }"

text \<open>The thread hands the message of a request to it.\<close>

definition request_OnMessage :: "u32 \<Rightarrow> Port \<Rightarrow> nat \<Rightarrow> nat \<Rightarrow> Port option" where
  "request_OnMessage now p k q =
     run_requests now p k (\<lambda>requests. rq_OnMessage_by ConnectionRequest_GetNextDelay now requests q)"

definition local_candidate :: "Port \<Rightarrow> Connection \<Rightarrow> Candidate option" where
  "local_candidate p c =
     (if cn_local_candidate_index c < length (pt_candidates p)
      then Some (pt_candidates p ! cn_local_candidate_index c) else None)"

definition ConnectionRequest_Prepare :: "message_digest \<Rightarrow> Port \<Rightarrow> Connection \<Rightarrow> stun_message \<Rightarrow>
    stun_message option" where
  "ConnectionRequest_Prepare sha1 p c request =
     do { let vt = IceMessage_GetAttributeValueType;
          let add = (\<lambda>m a. snd (AddAttribute vt m a));
          let request = request\<lparr>sm_type := STUN_BINDING_REQUEST\<rparr>;
          username \<leftarrow> CreateStunUsername p (cd_username (cn_remote_candidate c));
          let request = add request (StunByteStringAttribute_new STUN_ATTR_USERNAME username);
          let request = (if pt_send_retransmit_count_attribute p
            then add request (StunUInt32Attribute_new STUN_ATTR_RETRANSMIT_COUNT
                   (of_nat (length (cn_pings_since_last_response c)) - 1))
            else request);
          if pt_ice_protocol p \<noteq> ICEPROTO_RFC5245 then Some request
          else do {
            request \<leftarrow> (case pt_role p of
                ROLE_CONTROLLING \<Rightarrow>
                  Some (add (add request (StunUInt64Attribute_new STUN_ATTR_ICE_CONTROLLING (pt_tiebreaker p)))
                          (StunByteStringAttribute_new STUN_ATTR_USE_CANDIDATE []))
              | ROLE_CONTROLLED \<Rightarrow>
                  Some (add request (StunUInt64Attribute_new STUN_ATTR_ICE_CONTROLLED (pt_tiebreaker p)))
              | ROLE_UNKNOWN \<Rightarrow> None);
            local \<leftarrow> local_candidate p c;
            let prflx_priority = push_bit 24 ICE_TYPE_PREFERENCE_PRFLX OR (cd_priority local AND 0x00FFFFFF);
            let request = add request (StunUInt32Attribute_new STUN_ATTR_PRIORITY prflx_priority);
            let request = snd (AddMessageIntegrity sha1 vt request (cd_password (cn_remote_candidate c)));
            Some (snd (AddFingerprint vt request)) } }"

text \<open>A ping with the new request object \<open>q\<close> and the transaction id \<open>random_id\<close>.\<close>

definition Ping :: "message_digest \<Rightarrow> u32 \<Rightarrow> Port \<Rightarrow> nat \<Rightarrow> nat \<Rightarrow> byte list \<Rightarrow> Port option" where
  "Ping sha1 now p k q random_id =
     do { c \<leftarrow> pt_heap p k;
          if \<not> cn_connected c then None
          else do {
            let c = c\<lparr>cn_last_ping_sent := now,
                      cn_pings_since_last_response := cn_pings_since_last_response c @ [now]\<rparr>;
            let req = StunRequest_new StunMessage_new IceMessage_GetAttributeValueType random_id;
            msg \<leftarrow> ConnectionRequest_Prepare sha1 p c (rq_msg req);
            requests \<leftarrow> sr_Send (\<lambda>_. msg) now (put_request (cn_requests c) q req) q;
            Some (put_conn k (c\<lparr>cn_requests := requests, cn_state := STATE_INPROGRESS\<rparr>) p) } }"

definition conn_OnReadPacket :: "message_digest \<Rightarrow> u32 \<Rightarrow> Port \<Rightarrow> nat \<Rightarrow> byte list \<Rightarrow> Port option" where
  "conn_OnReadPacket sha1 now p k data =
     do { c \<leftarrow> pt_heap p k;
          let addr = cd_address (cn_remote_candidate c);
          (r, p) \<leftarrow> GetStunMessage sha1 p data addr;
          case r of
            NotStun \<Rightarrow> Some (put_conn k (data_received now data c) p)
          | Handled \<Rightarrow> Some p
          | Accepted msg remote_ufrag \<Rightarrow>
              if sm_type msg = STUN_BINDING_REQUEST then
                if remote_ufrag = cd_username (cn_remote_candidate c) then do {
                  (ok, p) \<leftarrow> (if pt_ice_protocol p = ICEPROTO_RFC5245
                             then MaybeIceRoleConflict sha1 p addr msg remote_ufrag else Some (True, p));
                  if \<not> ok then Some p
                  else do {
                    p \<leftarrow> SendBindingResponse sha1 now p msg addr;
                    c \<leftarrow> pt_heap p k;
                    let c = (if \<not> cn_pruned c \<and> cn_write_state c = STATE_WRITE_TIMEOUT
                             then set_write_state STATE_WRITE_INIT c else c);
                    let c = (if pt_ice_protocol p = ICEPROTO_RFC5245 \<and> pt_role p = ROLE_CONTROLLED \<and>
                                GetByteString msg STUN_ATTR_USE_CANDIDATE \<noteq> None
                             then cn_signal SignalUseCandidate c else c);
                    Some (put_conn k c p) } }
                else SendBindingErrorResponse sha1 p msg addr STUN_ERROR_UNAUTHORIZED STUN_ERROR_REASON_UNAUTHORIZED
              else if sm_type msg = STUN_BINDING_RESPONSE \<or> sm_type msg = STUN_BINDING_ERROR_RESPONSE then do {
                valid \<leftarrow> (if pt_ice_protocol p = ICEPROTO_GOOGLE then Some True
                         else ValidateMessageIntegrity sha1 data (cd_password (cn_remote_candidate c)));
                if valid then run_requests now p k (\<lambda>requests. map_option snd (CheckResponse requests msg))
                else Some p }
              else if sm_type msg = STUN_BINDING_INDICATION then
                Some (if pt_ice_protocol p = ICEPROTO_RFC5245 \<and> cn_read_state c = STATE_READABLE
                      then put_conn k (ReceivedPing now c) p else p)
              else None }"

definition conn_priority :: "Port \<Rightarrow> Connection \<Rightarrow> u64 option" where
  "conn_priority p c =
     (if pt_role p = ROLE_UNKNOWN then Some 0
      else do {
        local \<leftarrow> local_candidate p c;
        let l = cd_priority local;
        let r = cd_priority (cn_remote_candidate c);
        let (g, d) = (if pt_role p = ROLE_CONTROLLING then (l, r) else (r, l));
        Some (push_bit 32 (ucast (min g d)) + ucast (2 * max g d + (if g > d then 1 else 0))) })"

definition errno_wouldblock :: int where "errno_wouldblock = 11"

text \<open>\<^verbatim>\<open>ProxyConnection::Send\<close>: \<open>sent\<close> and \<open>port_error\<close> are what the socket returns.\<close>

definition ProxyConnection_Send :: "int \<Rightarrow> int \<Rightarrow> Port \<Rightarrow> nat \<Rightarrow> byte list \<Rightarrow> (int \<times> Port) option" where
  "ProxyConnection_Send sent port_error p k data =
     do { c \<leftarrow> pt_heap p k;
          if cn_write_state c = STATE_WRITE_INIT \<or> cn_write_state c = STATE_WRITE_TIMEOUT
          then Some (- 1, put_conn k (c\<lparr>cn_error := errno_wouldblock\<rparr>) p)
          else
            let p = port_signal (SendTo data (cd_address (cn_remote_candidate c)) True) p
            in if sent \<le> 0 then
                 if sent = 0 then None else Some (sent, put_conn k (c\<lparr>cn_error := port_error\<rparr>) p)
               else Some (sent, put_conn k (c\<lparr>cn_send_total := cn_send_total c + nat sent\<rparr>) p) }"

section \<open>The life of the port\<close>

definition Port_new :: "byte list \<Rightarrow> nat \<Rightarrow> byte list \<Rightarrow> ip_address \<Rightarrow> byte list \<Rightarrow> byte list \<Rightarrow> bool \<Rightarrow> byte list \<Rightarrow>
    byte list \<Rightarrow> Port option" where
  "Port_new type network name ip frag pwd shared random_ufrag random_pwd =
     (if frag = [] \<and> pwd \<noteq> [] then None
      else
        let (frag, pwd) = (if frag = [] then (random_ufrag, random_pwd) else (frag, pwd))
        in Some \<lparr>pt_type = type, pt_network = network, pt_network_name = name, pt_ip = ip, pt_component = 1,
             pt_generation = 0, pt_related_address = \<lparr>sk_ip = AF_UNSPEC, sk_port = 0\<rparr>,
             pt_ice_username_fragment = frag, pt_password = pwd, pt_candidates = [], pt_connections = [],
             pt_lifetime = LT_PRESTART, pt_enable_port_packets = False, pt_ice_protocol = ICEPROTO_GOOGLE,
             pt_role = ROLE_UNKNOWN, pt_tiebreaker = 0, pt_shared_socket = shared,
             pt_send_retransmit_count_attribute = False, pt_heap = (\<lambda>_. None), pt_events = []\<rparr>)"

definition IsCompatibleAddress :: "Port \<Rightarrow> socket_address \<Rightarrow> bool" where
  "IsCompatibleAddress p addr =
     (if ip_Size (sk_ip addr) \<noteq> ip_Size (pt_ip p) then False
      else if ip_Size (pt_ip p) = 16 \<and> IPIsPrivate (pt_ip p) \<noteq> IPIsPrivate (sk_ip addr) then False
      else True)"

definition ComputeFoundation :: "(ip_address \<Rightarrow> byte list) \<Rightarrow> (u32 \<Rightarrow> byte list) \<Rightarrow> byte list \<Rightarrow> byte list \<Rightarrow>
    socket_address \<Rightarrow> byte list" where
  "ComputeFoundation ip_to_string to_string type protocol base_address =
     to_string (ComputeCrc32 (type @ ip_to_string (sk_ip base_address) @ protocol))"

definition AddAddress :: "(ip_address \<Rightarrow> byte list) \<Rightarrow> (u32 \<Rightarrow> byte list) \<Rightarrow> byte list \<Rightarrow> Port \<Rightarrow> socket_address \<Rightarrow>
    socket_address \<Rightarrow> byte list \<Rightarrow> byte list \<Rightarrow> u32 \<Rightarrow> bool \<Rightarrow> Port option" where
  "AddAddress ip_to_string to_string random_id p address base_address protocol type type_preference final =
     do { frag \<leftarrow> username_fragment p;
          let c = \<lparr>cd_id = random_id, cd_component = pt_component p, cd_protocol = protocol, cd_address = address,
                   cd_priority = 0, cd_username = frag, cd_password = pt_password p, cd_type = type,
                   cd_network_name = pt_network_name p, cd_generation = pt_generation p,
                   cd_foundation = ComputeFoundation ip_to_string to_string type protocol base_address,
                   cd_related_address = pt_related_address p\<rparr>;
          let c = c\<lparr>cd_priority := GetPriority c type_preference\<rparr>;
          let p = port_signal (SignalCandidateReady c) (p\<lparr>pt_candidates := pt_candidates p @ [c]\<rparr>);
          Some (if final then port_signal SignalAddressReady p else p) }"

definition AddConnection :: "Port \<Rightarrow> nat \<Rightarrow> Connection \<Rightarrow> Port" where
  "AddConnection p k conn =
     port_signal (SignalConnectionCreated k)
       (put_conn k conn (p\<lparr>pt_connections := (cd_address (cn_remote_candidate conn), k) #
          filter (\<lambda>(a, _). a \<noteq> cd_address (cn_remote_candidate conn)) (pt_connections p)\<rparr>))"

text \<open>\<^verbatim>\<open>UDPPort::CreateConnection\<close>, with the new object \<open>k\<close>. The outer \<open>None\<close> is a violated assertion.\<close>

definition UDPPort_CreateConnection :: "Port \<Rightarrow> nat \<Rightarrow> Candidate \<Rightarrow> (nat option \<times> Port) option" where
  "UDPPort_CreateConnection p k address =
     (if cd_protocol address \<noteq> str ''udp'' then Some (None, p)
      else if \<not> IsCompatibleAddress p (cd_address address) then Some (None, p)
      else if pt_shared_socket p \<and> (pt_candidates p = [] \<or> cd_type (pt_candidates p ! 0) \<noteq> LOCAL_PORT_TYPE)
      then None
      else Some (Some k, AddConnection p k (Connection_new 0 address)))"

definition port_Destroy :: "Port \<Rightarrow> Port option" where
  "port_Destroy p = (if pt_connections p \<noteq> [] then None else Some (port_signal PortDestroyed p))"

definition port_CheckTimeout :: "Port \<Rightarrow> Port option" where
  "port_CheckTimeout p =
     (if pt_lifetime p = LT_POSTTIMEOUT \<and> pt_connections p = [] then port_Destroy p else Some p)"

definition port_OnMessage :: "Port \<Rightarrow> Port option" where
  "port_OnMessage p =
     (if pt_lifetime p \<noteq> LT_PRETIMEOUT then None else port_CheckTimeout (p\<lparr>pt_lifetime := LT_POSTTIMEOUT\<rparr>))"

definition port_Start :: "Port \<Rightarrow> Port" where
  "port_Start p =
     (if pt_lifetime p = LT_PRESTART
      then port_signal (PostCheckTimeout kPortTimeoutDelay) (p\<lparr>pt_lifetime := LT_PRETIMEOUT\<rparr>)
      else p)"

definition OnConnectionDestroyed :: "Port \<Rightarrow> nat \<Rightarrow> Port option" where
  "OnConnectionDestroyed p k =
     do { conn \<leftarrow> pt_heap p k;
          let addr = cd_address (cn_remote_candidate conn);
          if map_of (pt_connections p) addr = None then None
          else port_CheckTimeout (p\<lparr>pt_connections := filter (\<lambda>(a, _). a \<noteq> addr) (pt_connections p),
                 pt_heap := (pt_heap p)(k := None)\<rparr>) }"

end
