(* ===== verification/P2PTransportChannel.thy ===== *)
theory P2PTransportChannel
  imports IcePort
begin

text \<open>
  \<^verbatim>\<open>src/p2p/base/p2ptransportchannel.cc\<close>: a channel owns connections on several ports, keeps them sorted, sends
  over the best one and pings them. A port is an object of the store \<open>ch_heap\<close>, a connection is named by its port
  and its name in the port. Ports are UDP ports. New objects get their names from \<open>ch_next_id\<close>. Signals,
  posted messages and the calls of the allocator are recorded in \<open>ch_events\<close>. \<open>None\<close> is a violated assertion or
  the use of an object that does not exist; in searches and counts such a connection is not found. What a connection signals reaches the channel after the call of the connection, which makes no
  difference because the reactions do not change what the rest of that call reads.
\<close>

section \<open>Types and constants\<close>

type_synonym conn_id = "nat \<times> nat"

definition PING_PACKET_SIZE :: u32 where "PING_PACKET_SIZE = 60 * 8"
definition WRITABLE_DELAY :: u32 where "WRITABLE_DELAY = 1000 * PING_PACKET_SIZE div 1000"
definition UNWRITABLE_DELAY :: u32 where "UNWRITABLE_DELAY = 1000 * PING_PACKET_SIZE div 10000"
definition MAX_CURRENT_WRITABLE_DELAY :: u32 where "MAX_CURRENT_WRITABLE_DELAY = 900"
definition kMinImprovement :: nat where "kMinImprovement = 10"

datatype CandidateOrigin = ORIGIN_THIS_PORT | ORIGIN_OTHER_PORT | ORIGIN_MESSAGE

datatype channel_event =
    SignalRouteChange Candidate
  | SignalReadableState
  | SignalWritableState
  | ChannelReadPacket "byte list"
  | ChannelCandidateReady Candidate
  | SignalCandidatesAllocationDone
  | ChannelRoleConflict
  | SignalRequestSignaling
  | PostSort
  | PostPing u32
  | ClearMessages
  | CreateSession int "byte list" "byte list"
  | PortSetOption nat int int

record PortAllocatorSession =
  as_generation :: u32
  as_getting_all_ports :: bool

record P2PTransportChannel =
  ch_component :: int
  ch_incoming_only :: bool
  ch_waiting_for_signaling :: bool
  ch_error :: int
  ch_allocator_sessions :: "PortAllocatorSession list"
  ch_ports :: "nat list"
  ch_connections :: "conn_id list"
  ch_best_connection :: "conn_id option"
  ch_remote_candidates :: "(Candidate \<times> nat option) list"
  ch_sort_dirty :: bool
  ch_was_writable :: bool
  ch_was_timed_out :: bool
  ch_options :: "(int \<times> int) list"
  ch_ice_ufrag :: "byte list"
  ch_ice_pwd :: "byte list"
  ch_protocol_type :: ice_protocol_type
  ch_role :: transport_role
  ch_tiebreaker :: u64
  ch_readable :: bool
  ch_writable :: bool
  ch_heap :: "nat \<Rightarrow> Port option"
  ch_next_id :: nat
  ch_events :: "channel_event list"

definition ch_signal :: "channel_event \<Rightarrow> P2PTransportChannel \<Rightarrow> P2PTransportChannel" where
  "ch_signal e ch = ch\<lparr>ch_events := ch_events ch @ [e]\<rparr>"

definition put_port :: "nat \<Rightarrow> Port \<Rightarrow> P2PTransportChannel \<Rightarrow> P2PTransportChannel" where
  "put_port i p ch = ch\<lparr>ch_heap := (ch_heap ch)(i := Some p)\<rparr>"

definition conn_at :: "P2PTransportChannel \<Rightarrow> conn_id \<Rightarrow> (Port \<times> Connection) option" where
  "conn_at ch a = do { p \<leftarrow> ch_heap ch (fst a); c \<leftarrow> pt_heap p (snd a); Some (p, c) }"

definition P2PTransportChannel_new :: "int \<Rightarrow> P2PTransportChannel" where
  "P2PTransportChannel_new component =
     \<lparr>ch_component = component, ch_incoming_only = False, ch_waiting_for_signaling = False, ch_error = 0,
      ch_allocator_sessions = [], ch_ports = [], ch_connections = [], ch_best_connection = None,
      ch_remote_candidates = [], ch_sort_dirty = False, ch_was_writable = False, ch_was_timed_out = True,
      ch_options = [], ch_ice_ufrag = [], ch_ice_pwd = [], ch_protocol_type = ICEPROTO_GOOGLE,
      ch_role = ROLE_UNKNOWN, ch_tiebreaker = 0, ch_readable = False, ch_writable = False,
      ch_heap = (\<lambda>_. None), ch_next_id = 0, ch_events = []\<rparr>"

section \<open>The order of connections\<close>

definition GetOrigin :: "nat \<Rightarrow> nat option \<Rightarrow> CandidateOrigin" where
  "GetOrigin port origin_port =
     (case origin_port of
        None \<Rightarrow> ORIGIN_MESSAGE
      | Some origin \<Rightarrow> if port = origin then ORIGIN_THIS_PORT else ORIGIN_OTHER_PORT)"

definition CompareConnectionCandidates :: "Port \<times> Connection \<Rightarrow> Port \<times> Connection \<Rightarrow> int option" where
  "CompareConnectionCandidates a b =
     do { pa \<leftarrow> conn_priority (fst a) (snd a);
          pb \<leftarrow> conn_priority (fst b) (snd b);
          Some (if pa > pb then 1
                else if pa < pb then - 1
                else sint ((cd_generation (cn_remote_candidate (snd a)) + pt_generation (fst a)) -
                           (cd_generation (cn_remote_candidate (snd b)) + pt_generation (fst b)))) }"

fun write_state_value :: "write_state \<Rightarrow> nat" where
  "write_state_value STATE_WRITABLE = 0"
| "write_state_value STATE_WRITE_UNRELIABLE = 1"
| "write_state_value STATE_WRITE_INIT = 2"
| "write_state_value STATE_WRITE_TIMEOUT = 3"

definition CompareConnections :: "Port \<times> Connection \<Rightarrow> Port \<times> Connection \<Rightarrow> int option" where
  "CompareConnections a b =
     (let wa = write_state_value (cn_write_state (snd a));
          wb = write_state_value (cn_write_state (snd b))
      in if wa < wb then Some 1 else if wa > wb then Some (- 1) else CompareConnectionCandidates a b)"

definition ConnectionCompare :: "P2PTransportChannel \<Rightarrow> conn_id \<Rightarrow> conn_id \<Rightarrow> bool option" where
  "ConnectionCompare ch ia ib =
     do { a \<leftarrow> conn_at ch ia;
          b \<leftarrow> conn_at ch ib;
          if pt_ice_protocol (fst a) \<noteq> pt_ice_protocol (fst b) then None
          else do {
            cmp \<leftarrow> CompareConnections a b;
            Some (if cmp > 0 then True else if cmp < 0 then False else cn_rtt (snd a) < cn_rtt (snd b)) } }"

text \<open>\<^verbatim>\<open>std::stable_sort\<close>: for a strict weak order the result does not depend on the algorithm.\<close>

fun stable_insert :: "('a \<Rightarrow> 'a \<Rightarrow> bool option) \<Rightarrow> 'a \<Rightarrow> 'a list \<Rightarrow> 'a list option" where
  "stable_insert lt x [] = Some [x]"
| "stable_insert lt x (y # ys) =
     do { b \<leftarrow> lt y x;
          if b then map_option ((#) y) (stable_insert lt x ys) else Some (x # y # ys) }"

fun stable_sort :: "('a \<Rightarrow> 'a \<Rightarrow> bool option) \<Rightarrow> 'a list \<Rightarrow> 'a list option" where
  "stable_sort lt [] = Some []"
| "stable_sort lt (x # xs) = do { ys \<leftarrow> stable_sort lt xs; stable_insert lt x ys }"

definition ShouldSwitch :: "P2PTransportChannel \<Rightarrow> conn_id option \<Rightarrow> conn_id option \<Rightarrow> bool option" where
  "ShouldSwitch ch a_conn b_conn =
     (if a_conn = b_conn then Some False
      else
        case (a_conn, b_conn) of
          (Some ia, Some ib) \<Rightarrow> do {
            a \<leftarrow> conn_at ch ia;
            b \<leftarrow> conn_at ch ib;
            prefs_cmp \<leftarrow> CompareConnections a b;
            Some (if prefs_cmp < 0 then True
                  else if prefs_cmp > 0 then False
                  else unat (cn_rtt (snd b)) \<le> unat (cn_rtt (snd a)) + kMinImprovement) }
        | _ \<Rightarrow> Some True)"

section \<open>Settings\<close>

definition set_readable :: "bool \<Rightarrow> P2PTransportChannel \<Rightarrow> P2PTransportChannel" where
  "set_readable readable ch =
     (if ch_readable ch \<noteq> readable then ch_signal SignalReadableState (ch\<lparr>ch_readable := readable\<rparr>) else ch)"

definition set_writable :: "bool \<Rightarrow> P2PTransportChannel \<Rightarrow> P2PTransportChannel" where
  "set_writable writable ch =
     (if ch_writable ch \<noteq> writable then ch_signal SignalWritableState (ch\<lparr>ch_writable := writable\<rparr>) else ch)"

text \<open>A call on each of the ports of \<^verbatim>\<open>ports_\<close>.\<close>

definition on_ports :: "(Port \<Rightarrow> Port) \<Rightarrow> P2PTransportChannel \<Rightarrow> P2PTransportChannel" where
  "on_ports f ch =
     ch\<lparr>ch_heap := (\<lambda>i. if i \<in> set (ch_ports ch) then map_option f (ch_heap ch i) else ch_heap ch i)\<rparr>"

definition SetRole :: "transport_role \<Rightarrow> P2PTransportChannel \<Rightarrow> P2PTransportChannel" where
  "SetRole role ch = on_ports (\<lambda>p. p\<lparr>pt_role := role\<rparr>) (ch\<lparr>ch_role := role\<rparr>)"

definition SetTiebreaker :: "u64 \<Rightarrow> P2PTransportChannel \<Rightarrow> P2PTransportChannel" where
  "SetTiebreaker tiebreaker ch = (if ch_ports ch \<noteq> [] then ch else ch\<lparr>ch_tiebreaker := tiebreaker\<rparr>)"

definition SetIceProtocolType :: "ice_protocol_type \<Rightarrow> P2PTransportChannel \<Rightarrow> P2PTransportChannel" where
  "SetIceProtocolType type ch =
     on_ports (\<lambda>p. p\<lparr>pt_ice_protocol := type\<rparr>) (ch\<lparr>ch_protocol_type := type\<rparr>)"

definition SetIceUfrag :: "byte list \<Rightarrow> P2PTransportChannel \<Rightarrow> P2PTransportChannel" where
  "SetIceUfrag ice_ufrag ch = ch\<lparr>ch_ice_ufrag := ice_ufrag\<rparr>"

definition SetIcePwd :: "byte list \<Rightarrow> P2PTransportChannel \<Rightarrow> P2PTransportChannel" where
  "SetIcePwd ice_pwd ch = ch\<lparr>ch_ice_pwd := ice_pwd\<rparr>"

definition set_option_on :: "int \<Rightarrow> int \<Rightarrow> nat list \<Rightarrow> P2PTransportChannel \<Rightarrow> P2PTransportChannel" where
  "set_option_on opt value ports ch = foldl (\<lambda>ch i. ch_signal (PortSetOption i opt value) ch) ch ports"

definition ch_SetOption :: "int \<Rightarrow> int \<Rightarrow> P2PTransportChannel \<Rightarrow> P2PTransportChannel" where
  "ch_SetOption opt value ch =
     (if map_of (ch_options ch) opt = Some value then ch
      else set_option_on opt value (ch_ports ch)
             (ch\<lparr>ch_options := (opt, value) # filter (\<lambda>(o', _). o' \<noteq> opt) (ch_options ch)\<rparr>))"

section \<open>Allocation\<close>

definition Allocate :: "P2PTransportChannel \<Rightarrow> P2PTransportChannel" where
  "Allocate ch = ch_signal SignalRequestSignaling (ch\<lparr>ch_waiting_for_signaling := True\<rparr>)"

definition AddAllocatorSession :: "P2PTransportChannel \<Rightarrow> P2PTransportChannel" where
  "AddAllocatorSession ch =
     ch\<lparr>ch_allocator_sessions := ch_allocator_sessions ch @
          [\<lparr>as_generation = of_nat (length (ch_allocator_sessions ch)), as_getting_all_ports = True\<rparr>],
        ch_ports := []\<rparr>"

definition OnSignalingReady :: "P2PTransportChannel \<Rightarrow> P2PTransportChannel" where
  "OnSignalingReady ch =
     (if ch_waiting_for_signaling ch
      then AddAllocatorSession (ch_signal (CreateSession (ch_component ch) (ch_ice_ufrag ch) (ch_ice_pwd ch))
             (ch\<lparr>ch_waiting_for_signaling := False\<rparr>))
      else ch)"

definition channel_Connect :: "P2PTransportChannel \<Rightarrow> P2PTransportChannel option" where
  "channel_Connect ch =
     (if ch_ice_ufrag ch = [] \<or> ch_ice_pwd ch = [] then None
      else Some (ch_signal (PostPing 0) (Allocate ch)))"

text \<open>Deleting the sessions deletes their ports.\<close>

definition channel_Reset :: "bool \<Rightarrow> P2PTransportChannel \<Rightarrow> P2PTransportChannel" where
  "channel_Reset connect_requested ch =
     (let ch = ch\<lparr>ch_allocator_sessions := [], ch_heap := (\<lambda>_. None), ch_ports := [], ch_connections := [],
                  ch_best_connection := None, ch_remote_candidates := []\<rparr>;
          ch = set_writable False (set_readable False ch);
          ch = ch\<lparr>ch_waiting_for_signaling := False, ch_sort_dirty := False, ch_was_writable := False,
                  ch_was_timed_out := True\<rparr>;
          ch = (if connect_requested then Allocate ch else ch)
      in ch_signal (PostPing 0) (ch_signal ClearMessages ch))"

section \<open>The best connection\<close>

definition RequestSort :: "P2PTransportChannel \<Rightarrow> P2PTransportChannel" where
  "RequestSort ch = (if \<not> ch_sort_dirty ch then (ch_signal PostSort ch)\<lparr>ch_sort_dirty := True\<rparr> else ch)"

definition NominateBestConnection :: "P2PTransportChannel \<Rightarrow> P2PTransportChannel option" where
  "NominateBestConnection ch =
     (case ch_best_connection ch of
        None \<Rightarrow> Some ch
      | Some a \<Rightarrow> do {
          (p, c) \<leftarrow> conn_at ch a;
          Some (if pt_ice_protocol p = ICEPROTO_RFC5245 \<and> ch_role ch = ROLE_CONTROLLING
                then put_port (fst a) (put_conn (snd a) (set_nominated True c) p) ch
                else ch) })"

definition SwitchBestConnectionTo :: "P2PTransportChannel \<Rightarrow> conn_id option \<Rightarrow> P2PTransportChannel option" where
  "SwitchBestConnectionTo ch conn =
     (let ch = ch\<lparr>ch_best_connection := conn\<rparr>
      in case conn of
           None \<Rightarrow> Some ch
         | Some a \<Rightarrow> do {
             (p, c) \<leftarrow> conn_at ch a;
             NominateBestConnection (ch_signal (SignalRouteChange (cn_remote_candidate c)) ch) })"

definition FindConnection :: "P2PTransportChannel \<Rightarrow> conn_id \<Rightarrow> bool" where
  "FindConnection ch connection \<longleftrightarrow> connection \<in> set (ch_connections ch)"

definition OnUseCandidate :: "P2PTransportChannel \<Rightarrow> conn_id \<Rightarrow> P2PTransportChannel option" where
  "OnUseCandidate ch a =
     (if ch_role ch \<noteq> ROLE_CONTROLLED then None
      else do {
        (p, c) \<leftarrow> conn_at ch a;
        if cn_state c = STATE_SUCCEEDED
        then SwitchBestConnectionTo (put_port (fst a) (put_conn (snd a) (set_nominated True c) p) ch) (Some a)
        else Some ch })"

definition ch_OnReadPacket :: "P2PTransportChannel \<Rightarrow> conn_id \<Rightarrow> byte list \<Rightarrow> P2PTransportChannel" where
  "ch_OnReadPacket ch connection data =
     (if \<not> FindConnection ch connection then ch else ch_signal (ChannelReadPacket data) ch)"

text \<open>The slots that the channel connects to the signals of a connection and of a port.\<close>

fun on_conn_event :: "conn_id \<Rightarrow> P2PTransportChannel option \<Rightarrow> conn_event \<Rightarrow> P2PTransportChannel option" where
  "on_conn_event a None e = None"
| "on_conn_event a (Some ch) SignalStateChange = Some (RequestSort ch)"
| "on_conn_event a (Some ch) (SignalReadPacket data) = Some (ch_OnReadPacket ch a data)"
| "on_conn_event a (Some ch) SignalUseCandidate = OnUseCandidate ch a"
| "on_conn_event a (Some ch) PostDelete = Some ch"
| "on_conn_event a (Some ch) SignalDestroyed = Some ch"

definition on_port_event :: "P2PTransportChannel \<Rightarrow> port_event \<Rightarrow> P2PTransportChannel" where
  "on_port_event ch e = (if e = SignalRoleConflict then ch_signal ChannelRoleConflict ch else ch)"

text \<open>A call of the connection \<open>a\<close>, as a function of its port, with what it signals.\<close>

definition call_conn :: "P2PTransportChannel \<Rightarrow> conn_id \<Rightarrow> (Port \<Rightarrow> Port option) \<Rightarrow> P2PTransportChannel option" where
  "call_conn ch a f =
     do { (p, c) \<leftarrow> conn_at ch a;
          p' \<leftarrow> f p;
          c' \<leftarrow> pt_heap p' (snd a);
          let ch = foldl on_port_event (put_port (fst a) p' ch) (drop (length (pt_events p)) (pt_events p'));
          foldl (on_conn_event a) (Some ch) (drop (length (cn_events c)) (cn_events c')) }"

definition update_conn :: "(Connection \<Rightarrow> Connection option) \<Rightarrow> nat \<Rightarrow> Port \<Rightarrow> Port option" where
  "update_conn f k p = do { c \<leftarrow> pt_heap p k; c' \<leftarrow> f c; Some (put_conn k c' p) }"

fun for_each :: "('b \<Rightarrow> 'a \<Rightarrow> 'a option) \<Rightarrow> 'b list \<Rightarrow> 'a \<Rightarrow> 'a option" where
  "for_each f [] s = Some s"
| "for_each f (x # xs) s = do { s \<leftarrow> f x s; for_each f xs s }"

definition UpdateConnectionStates :: "u32 \<Rightarrow> P2PTransportChannel \<Rightarrow> P2PTransportChannel option" where
  "UpdateConnectionStates now ch =
     for_each (\<lambda>a ch. call_conn ch a (update_conn (\<lambda>c. Some (UpdateState now c)) (snd a))) (ch_connections ch) ch"

definition GetBestConnectionOnNetwork :: "P2PTransportChannel \<Rightarrow> nat \<Rightarrow> conn_id option" where
  "GetBestConnectionOnNetwork ch network =
     (let on_network = (\<lambda>a. case conn_at ch a of None \<Rightarrow> False | Some (p, _) \<Rightarrow> pt_network p = network)
      in case ch_best_connection ch of
           Some a \<Rightarrow> if on_network a then Some a else find on_network (ch_connections ch)
         | None \<Rightarrow> find on_network (ch_connections ch))"

definition HandleWritable :: "P2PTransportChannel \<Rightarrow> P2PTransportChannel" where
  "HandleWritable ch =
     (let ch = (if \<not> ch_writable ch
                then ch\<lparr>ch_allocator_sessions := map (\<lambda>s. s\<lparr>as_getting_all_ports := False\<rparr>) (ch_allocator_sessions ch)\<rparr>
                else ch)
      in set_writable True (ch\<lparr>ch_was_writable := True, ch_was_timed_out := False\<rparr>))"

definition HandleNotWritable :: "P2PTransportChannel \<Rightarrow> P2PTransportChannel" where
  "HandleNotWritable ch =
     (let ch = (if ch_was_writable ch then Allocate (ch\<lparr>ch_was_writable := False\<rparr>) else ch)
      in set_writable False (ch\<lparr>ch_was_timed_out := False\<rparr>))"

definition HandleAllTimedOut :: "P2PTransportChannel \<Rightarrow> P2PTransportChannel" where
  "HandleAllTimedOut ch =
     (let ch = (if \<not> ch_was_timed_out ch then Allocate ch else ch)
      in set_writable False (ch\<lparr>ch_was_timed_out := True, ch_was_writable := False\<rparr>))"

definition conn_write_state :: "P2PTransportChannel \<Rightarrow> conn_id \<Rightarrow> write_state option" where
  "conn_write_state ch a = map_option (\<lambda>(p, c). cn_write_state c) (conn_at ch a)"

definition conn_read_state :: "P2PTransportChannel \<Rightarrow> conn_id \<Rightarrow> read_state option" where
  "conn_read_state ch a = map_option (\<lambda>(p, c). cn_read_state c) (conn_at ch a)"

definition UpdateChannelState :: "P2PTransportChannel \<Rightarrow> P2PTransportChannel option" where
  "UpdateChannelState ch =
     (let writable = (case ch_best_connection ch of
                        None \<Rightarrow> False | Some a \<Rightarrow> conn_write_state ch a = Some STATE_WRITABLE)
      in if writable \<noteq> ch_writable ch then None
         else Some (set_readable (\<exists>a\<in>set (ch_connections ch). conn_read_state ch a = Some STATE_READABLE) ch))"

text \<open>One round of the pruning loop of \<^verbatim>\<open>SortConnections\<close>.\<close>

definition prune_network :: "nat \<Rightarrow> P2PTransportChannel \<Rightarrow> P2PTransportChannel option" where
  "prune_network network ch =
     (case GetBestConnectionOnNetwork ch network of
        None \<Rightarrow> Some ch
      | Some primier \<Rightarrow>
          if conn_write_state ch primier \<noteq> Some STATE_WRITABLE then Some ch
          else
            for_each (\<lambda>a ch. do {
                (p, c) \<leftarrow> conn_at ch a;
                if a \<noteq> primier \<and> pt_network p = network then do {
                  prim \<leftarrow> conn_at ch primier;
                  cmp \<leftarrow> CompareConnectionCandidates prim (p, c);
                  if cmp \<ge> 0 then call_conn ch a (update_conn Prune (snd a)) else Some ch }
                else Some ch }) (ch_connections ch) ch)"

text \<open>\<^verbatim>\<open>std::set\<close> of networks, in the order of their addresses.\<close>

definition channel_networks :: "P2PTransportChannel \<Rightarrow> nat list" where
  "channel_networks ch =
     sort (remdups (List.map_filter (\<lambda>a. map_option (\<lambda>(p, _). pt_network p) (conn_at ch a)) (ch_connections ch)))"

definition SortConnections :: "u32 \<Rightarrow> P2PTransportChannel \<Rightarrow> P2PTransportChannel option" where
  "SortConnections now ch =
     do { ch \<leftarrow> UpdateConnectionStates now ch;
          let ch = ch\<lparr>ch_sort_dirty := False\<rparr>;
          let networks = channel_networks ch;
          connections \<leftarrow> stable_sort (ConnectionCompare ch) (ch_connections ch);
          let ch = ch\<lparr>ch_connections := connections\<rparr>;
          let top_connection = (case connections of [] \<Rightarrow> None | a # _ \<Rightarrow> Some a);
          switch \<leftarrow> ShouldSwitch ch (ch_best_connection ch) top_connection;
          ch \<leftarrow> (if switch then SwitchBestConnectionTo ch top_connection else Some ch);
          ch \<leftarrow> for_each prune_network networks ch;
          let states = map (conn_write_state ch) (ch_connections ch);
          let ch = (if Some STATE_WRITABLE \<in> set states then HandleWritable ch
                    else if Some STATE_WRITE_UNRELIABLE \<in> set states \<or> Some STATE_WRITE_INIT \<in> set states
                    then HandleNotWritable ch
                    else HandleAllTimedOut ch);
          UpdateChannelState ch }"

section \<open>Remote candidates\<close>

definition RememberRemoteCandidate :: "Candidate \<Rightarrow> nat option \<Rightarrow> P2PTransportChannel \<Rightarrow> P2PTransportChannel" where
  "RememberRemoteCandidate remote_candidate origin_port ch =
     (let kept = filter (\<lambda>(c, _). \<not> cd_generation c < cd_generation remote_candidate) (ch_remote_candidates ch)
      in ch\<lparr>ch_remote_candidates :=
              (if \<exists>(c, _)\<in>set kept. IsEquivalent c remote_candidate then kept
               else kept @ [(remote_candidate, origin_port)])\<rparr>)"

definition channel_CreateConnection :: "u32 \<Rightarrow> nat \<Rightarrow> Candidate \<Rightarrow> nat option \<Rightarrow> bool \<Rightarrow> P2PTransportChannel \<Rightarrow>
    (bool \<times> P2PTransportChannel) option" where
  "channel_CreateConnection now port remote_candidate origin_port readable ch =
     do { p \<leftarrow> ch_heap ch port;
          (connection, ch) \<leftarrow>
            (case GetConnection p (cd_address remote_candidate) of
               Some k \<Rightarrow> do {
                 c \<leftarrow> pt_heap p k;
                 Some (if IsEquivalent remote_candidate (cn_remote_candidate c) then Some (port, k) else None, ch) }
             | None \<Rightarrow>
                 if GetOrigin port origin_port = ORIGIN_MESSAGE \<and> ch_incoming_only ch then Some (None, ch)
                 else do {
                   (r, p) \<leftarrow> UDPPort_CreateConnection p (ch_next_id ch) remote_candidate;
                   Some (case r of
                           None \<Rightarrow> (None, ch)
                         | Some k \<Rightarrow>
                             (Some (port, k),
                              (put_port port p ch)\<lparr>ch_next_id := ch_next_id ch + 1,
                                                   ch_connections := ch_connections ch @ [(port, k)]\<rparr>)) });
          case connection of
            None \<Rightarrow> Some (False, ch)
          | Some a \<Rightarrow>
              if readable
              then map_option (Pair True) (call_conn ch a (update_conn (\<lambda>c. Some (ReceivedPing now c)) (snd a)))
              else Some (True, ch) }"

definition CreateConnections :: "u32 \<Rightarrow> Candidate \<Rightarrow> nat option \<Rightarrow> bool \<Rightarrow> P2PTransportChannel \<Rightarrow>
    (bool \<times> P2PTransportChannel) option" where
  "CreateConnections now remote_candidate origin_port readable ch =
     do { let create = (\<lambda>port (created, ch). do {
                (ok, ch) \<leftarrow> channel_CreateConnection now port remote_candidate origin_port readable ch;
                Some (created \<or> (ok \<and> Some port = origin_port), ch) });
          (created, ch) \<leftarrow> for_each create (rev (ch_ports ch)) (False, ch);
          (created, ch) \<leftarrow>
            (case origin_port of
               None \<Rightarrow> Some (created, ch)
             | Some origin \<Rightarrow> if origin \<notin> set (ch_ports ch) then create origin (created, ch) else Some (created, ch));
          Some (created, RememberRemoteCandidate remote_candidate origin_port ch) }"

definition OnCandidate :: "u32 \<Rightarrow> Candidate \<Rightarrow> P2PTransportChannel \<Rightarrow> P2PTransportChannel option" where
  "OnCandidate now candidate ch =
     do { (_, ch) \<leftarrow> CreateConnections now candidate None False ch;
          SortConnections now ch }"

definition OnCandidatesReady :: "Candidate list \<Rightarrow> P2PTransportChannel \<Rightarrow> P2PTransportChannel" where
  "OnCandidatesReady candidates ch = foldl (\<lambda>ch c. ch_signal (ChannelCandidateReady c) ch) ch candidates"

definition OnCandidatesAllocationDone :: "P2PTransportChannel \<Rightarrow> P2PTransportChannel" where
  "OnCandidatesAllocationDone ch = ch_signal SignalCandidatesAllocationDone ch"

text \<open>The port \<open>port\<close> of the store is ready.\<close>

definition OnPortReady :: "u32 \<Rightarrow> nat \<Rightarrow> P2PTransportChannel \<Rightarrow> P2PTransportChannel option" where
  "OnPortReady now port ch =
     do { p \<leftarrow> ch_heap ch port;
          let ch = foldl (\<lambda>ch (opt, value). ch_signal (PortSetOption port opt value) ch) ch (ch_options ch);
          let ch = put_port port (p\<lparr>pt_ice_protocol := ch_protocol_type ch, pt_role := ch_role ch,
                                    pt_tiebreaker := ch_tiebreaker ch\<rparr>) ch;
          let ch = ch\<lparr>ch_ports := ch_ports ch @ [port]\<rparr>;
          ch \<leftarrow> for_each (\<lambda>(candidate, origin) ch.
                  map_option snd (channel_CreateConnection now port candidate origin False ch))
                (ch_remote_candidates ch) ch;
          SortConnections now ch }"

text \<open>The remote candidate of a ping from an address that no connection has. The result has the known candidate
  or the password for a new one.\<close>

fun find_candidate :: "bool \<Rightarrow> socket_address \<Rightarrow> byte list \<Rightarrow> byte list \<Rightarrow> Candidate list \<Rightarrow> byte list option \<Rightarrow>
    Candidate option \<times> byte list option" where
  "find_candidate ufrag_per_port address proto remote_username [] password = (None, password)"
| "find_candidate ufrag_per_port address proto remote_username (c # cs) password =
     (if cd_username c = remote_username then
        if ufrag_per_port \<or> (cd_address c = address \<and> cd_protocol c = proto)
        then (Some c, Some (cd_password c))
        else find_candidate ufrag_per_port address proto remote_username cs (Some (cd_password c))
      else find_candidate ufrag_per_port address proto remote_username cs password)"

definition peer_candidate :: "(u32 \<Rightarrow> byte list) \<Rightarrow> byte list \<Rightarrow> P2PTransportChannel \<Rightarrow> Port \<Rightarrow> socket_address \<Rightarrow>
    protocol_type \<Rightarrow> byte list \<Rightarrow> byte list \<Rightarrow> Candidate" where
  "peer_candidate to_string random_id ch p address proto remote_username remote_password =
     (let type = (if pt_type p = RELAY_PORT_TYPE \<or> pt_shared_socket p then STUN_PORT_TYPE else pt_type p);
          c = \<lparr>cd_id = random_id, cd_component = ch_component ch, cd_protocol = ProtoToString proto,
               cd_address = address, cd_priority = 0, cd_username = remote_username,
               cd_password = remote_password, cd_type = type, cd_network_name = pt_network_name p,
               cd_generation = 0, cd_foundation = to_string (ComputeCrc32 random_id),
               cd_related_address = \<lparr>sk_ip = AF_UNSPEC, sk_port = 0\<rparr>\<rparr>
      in c\<lparr>cd_priority := GetPriority c ICE_TYPE_PREFERENCE_SRFLX\<rparr>)"

definition OnUnknownAddress :: "message_digest \<Rightarrow> (u32 \<Rightarrow> byte list) \<Rightarrow> byte list \<Rightarrow> u32 \<Rightarrow> nat \<Rightarrow> socket_address \<Rightarrow>
    protocol_type \<Rightarrow> stun_message \<Rightarrow> byte list \<Rightarrow> bool \<Rightarrow> P2PTransportChannel \<Rightarrow> P2PTransportChannel option" where
  "OnUnknownAddress sha1 to_string random_id now port address proto stun_msg remote_username port_muxed ch =
     do { p \<leftarrow> ch_heap ch port;
          let remote = map fst (ch_remote_candidates ch);
          let ufrag_per_port = (\<exists>c\<in>set remote. cd_username c \<noteq> cd_username (hd remote));
          let (candidate, password) = find_candidate ufrag_per_port address (ProtoToString proto) remote_username remote None;
          case password of
            None \<Rightarrow>
              if port_muxed then Some ch
              else do {
                p \<leftarrow> SendBindingErrorResponse sha1 p stun_msg address STUN_ERROR_STALE_CREDENTIALS
                       STUN_ERROR_REASON_STALE_CREDENTIALS;
                Some (put_port port p ch) }
          | Some remote_password \<Rightarrow> do {
              let new_remote_candidate =
                (case candidate of
                   Some c \<Rightarrow> if ufrag_per_port then c\<lparr>cd_address := address\<rparr> else c
                 | None \<Rightarrow> peer_candidate to_string random_id ch p address proto remote_username remote_password);
              (created, ch) \<leftarrow> CreateConnections now new_remote_candidate (Some port) True ch;
              if created then do {
                p \<leftarrow> ch_heap ch port;
                k \<leftarrow> GetConnection p address;
                ch \<leftarrow> call_conn ch (port, k) (\<lambda>p. SendBindingResponse sha1 now p stun_msg address);
                SortConnections now ch }
              else None } }"

section \<open>Pings\<close>

definition IsPingable :: "P2PTransportChannel \<Rightarrow> conn_id \<Rightarrow> bool" where
  "IsPingable ch a =
     (case conn_at ch a of
        None \<Rightarrow> False
      | Some (_, c) \<Rightarrow>
          if \<not> cn_connected c then False
          else if ch_writable ch then cn_write_state c \<noteq> STATE_WRITE_TIMEOUT
          else cn_write_state c \<noteq> STATE_WRITE_TIMEOUT \<or> cn_read_state c \<noteq> STATE_READ_TIMEOUT)"

definition last_ping_sent :: "P2PTransportChannel \<Rightarrow> conn_id \<Rightarrow> u32" where
  "last_ping_sent ch a = (case conn_at ch a of None \<Rightarrow> 0 | Some (_, c) \<Rightarrow> cn_last_ping_sent c)"

fun oldest_pingable :: "P2PTransportChannel \<Rightarrow> conn_id option \<Rightarrow> u32 \<Rightarrow> conn_id list \<Rightarrow> conn_id option" where
  "oldest_pingable ch oldest_conn oldest_time [] = oldest_conn"
| "oldest_pingable ch oldest_conn oldest_time (a # as) =
     (if IsPingable ch a \<and> last_ping_sent ch a < oldest_time
      then oldest_pingable ch (Some a) (last_ping_sent ch a) as
      else oldest_pingable ch oldest_conn oldest_time as)"

definition FindNextPingableConnection :: "u32 \<Rightarrow> P2PTransportChannel \<Rightarrow> conn_id option" where
  "FindNextPingableConnection now ch =
     (case ch_best_connection ch of
        Some a \<Rightarrow>
          if conn_write_state ch a = Some STATE_WRITABLE \<and>
             last_ping_sent ch a + MAX_CURRENT_WRITABLE_DELAY \<le> now
          then Some a
          else oldest_pingable ch None 0xFFFFFFFF (ch_connections ch)
      | None \<Rightarrow> oldest_pingable ch None 0xFFFFFFFF (ch_connections ch))"

definition NumPingableConnections :: "P2PTransportChannel \<Rightarrow> nat" where
  "NumPingableConnections ch = length (filter (IsPingable ch) (ch_connections ch))"

definition OnPing :: "message_digest \<Rightarrow> u32 \<Rightarrow> byte list \<Rightarrow> P2PTransportChannel \<Rightarrow> P2PTransportChannel option" where
  "OnPing sha1 now random_id ch =
     do { ch \<leftarrow> UpdateConnectionStates now ch;
          ch \<leftarrow> (case FindNextPingableConnection now ch of
                  None \<Rightarrow> Some ch
                | Some a \<Rightarrow>
                    call_conn (ch\<lparr>ch_next_id := ch_next_id ch + 1\<rparr>) a
                      (\<lambda>p. Ping sha1 now p (snd a) (ch_next_id ch) random_id));
          Some (ch_signal (PostPing (if ch_writable ch then WRITABLE_DELAY else UNWRITABLE_DELAY)) ch) }"

section \<open>Connections and ports come to an end\<close>

definition channel_OnConnectionDestroyed :: "P2PTransportChannel \<Rightarrow> conn_id \<Rightarrow> P2PTransportChannel option" where
  "channel_OnConnectionDestroyed ch connection =
     (if connection \<notin> set (ch_connections ch) then None
      else
        let ch = ch\<lparr>ch_connections := remove1 connection (ch_connections ch)\<rparr>
        in if ch_best_connection ch = Some connection
           then map_option RequestSort (SwitchBestConnectionTo ch None)
           else Some ch)"

definition OnPortDestroyed :: "nat \<Rightarrow> P2PTransportChannel \<Rightarrow> P2PTransportChannel" where
  "OnPortDestroyed port ch = ch\<lparr>ch_ports := remove1 port (ch_ports ch)\<rparr>"

text \<open>The deletion of a connection that the thread delivers: first its port hears of it, which may end the port,
  then the channel, then its requests are deleted.\<close>

definition connection_deleted :: "P2PTransportChannel \<Rightarrow> conn_id \<Rightarrow> P2PTransportChannel option" where
  "connection_deleted ch a =
     do { (p, c) \<leftarrow> conn_at ch a;
          p' \<leftarrow> OnConnectionDestroyed p (snd a);
          let ch = (if PortDestroyed \<in> set (pt_events p')
                    then (OnPortDestroyed (fst a) ch)\<lparr>ch_heap := (ch_heap ch)(fst a := None)\<rparr>
                    else put_port (fst a) p' ch);
          ch \<leftarrow> channel_OnConnectionDestroyed ch a;
          _ \<leftarrow> delete_manager (cn_requests c);
          Some ch }"

section \<open>Sending\<close>

definition errno_inval :: int where "errno_inval = 22"

definition channel_SendPacket :: "int \<Rightarrow> int \<Rightarrow> byte list \<Rightarrow> int \<Rightarrow> P2PTransportChannel \<Rightarrow>
    (int \<times> P2PTransportChannel) option" where
  "channel_SendPacket sent port_error data flags ch =
     (if flags \<noteq> 0 then Some (- 1, ch\<lparr>ch_error := errno_inval\<rparr>)
      else
        case ch_best_connection ch of
          None \<Rightarrow> Some (- 1, ch\<lparr>ch_error := errno_wouldblock\<rparr>)
        | Some a \<Rightarrow> do {
            p \<leftarrow> ch_heap ch (fst a);
            (n, p) \<leftarrow> ProxyConnection_Send sent port_error p (snd a) data;
            c \<leftarrow> pt_heap p (snd a);
            let ch = put_port (fst a) p ch;
            if n \<le> 0 then if n < 0 then Some (n, ch\<lparr>ch_error := cn_error c\<rparr>) else None
            else Some (n, ch) })"

end
