(* ===== verification/IceCheck.thy ===== *)
theory IceCheck
  imports IcePort StunRequestSafety
begin

text \<open>
  A connectivity check between two ports: the ping that one sends is accepted and answered by the other, and
  the answer makes the connection writable.
\<close>

section \<open>Building messages\<close>

abbreviation stun_vt :: "u16 \<Rightarrow> stun_value_type" where "stun_vt \<equiv> StunMessage_GetAttributeValueType"
abbreviation ice_vt :: "u16 \<Rightarrow> stun_value_type" where "ice_vt \<equiv> IceMessage_GetAttributeValueType"

definition add_attrs :: "(u16 \<Rightarrow> stun_value_type) \<Rightarrow> stun_message \<Rightarrow> stun_attribute list \<Rightarrow> stun_message" where
  "add_attrs vt m as = foldl (\<lambda>m a. snd (AddAttribute vt m a)) m as"

lemma add_attrs_ok:
  assumes "message_ok vt m" "list_all (attr_ok vt (sm_transaction_id m)) as"
    "unat (sm_length m) + sum_list (map attr_size as) < 2 ^ 16"
  shows "message_ok vt (add_attrs vt m as)" "sm_attrs (add_attrs vt m as) = sm_attrs m @ as"
    "sm_transaction_id (add_attrs vt m as) = sm_transaction_id m" "sm_type (add_attrs vt m as) = sm_type m"
    "unat (sm_length (add_attrs vt m as)) = unat (sm_length m) + sum_list (map attr_size as)"
proof -
  have "message_ok vt (add_attrs vt m as) \<and> sm_attrs (add_attrs vt m as) = sm_attrs m @ as \<and>
      sm_transaction_id (add_attrs vt m as) = sm_transaction_id m \<and> sm_type (add_attrs vt m as) = sm_type m \<and>
      unat (sm_length (add_attrs vt m as)) = unat (sm_length m) + sum_list (map attr_size as)"
    using assms
  proof (induction as arbitrary: m)
    case (Cons a as)
    have room: "unat (sm_length m) + attr_size a < 2 ^ 16" using Cons.prems(3) by simp
    note w = with_attr_ok [OF Cons.prems(1) _ room]
    have a: "attr_ok vt (sm_transaction_id m) a" using Cons.prems(2) by simp
    have "add_attrs vt m (a # as) = add_attrs vt (with_attr m a) as" using w(2) [OF a] by (simp add: add_attrs_def)
    moreover note Cons.IH [of "with_attr m a", OF w(1) [OF a]]
    ultimately show ?case using Cons.prems(2,3) w(3) [OF a] by simp
  qed (simp add: add_attrs_def)
  then show "message_ok vt (add_attrs vt m as)" "sm_attrs (add_attrs vt m as) = sm_attrs m @ as"
    "sm_transaction_id (add_attrs vt m as) = sm_transaction_id m" "sm_type (add_attrs vt m as) = sm_type m"
    "unat (sm_length (add_attrs vt m as)) = unat (sm_length m) + sum_list (map attr_size as)" by simp_all
qed

lemma ice_attr_ok: "attr_ok stun_vt tid a \<Longrightarrow> attr_ok ice_vt tid a"
proof -
  assume a: "attr_ok stun_vt tid a"
  have "value_type v \<noteq> STUN_VALUE_UNKNOWN" for v by (cases v) auto
  with a have "stun_vt (at_type a) \<noteq> STUN_VALUE_UNKNOWN" by (metis attr_ok_def)
  then have "ice_vt (at_type a) = stun_vt (at_type a)"
    by (auto simp: IceMessage_GetAttributeValueType_def StunMessage_GetAttributeValueType_def
      STUN_ATTR_MAPPED_ADDRESS_def STUN_ATTR_USERNAME_def STUN_ATTR_MESSAGE_INTEGRITY_def STUN_ATTR_ERROR_CODE_def
      STUN_ATTR_UNKNOWN_ATTRIBUTES_def STUN_ATTR_REALM_def STUN_ATTR_NONCE_def STUN_ATTR_XOR_MAPPED_ADDRESS_def
      STUN_ATTR_SOFTWARE_def STUN_ATTR_ALTERNATE_SERVER_def STUN_ATTR_FINGERPRINT_def STUN_ATTR_RETRANSMIT_COUNT_def)
  with a show ?thesis by (simp add: attr_ok_def)
qed

lemma ice_message_ok: "message_ok stun_vt m \<Longrightarrow> message_ok ice_vt m"
  by (auto simp: message_ok_def list_all_iff intro: ice_attr_ok)

lemma pad4_le: "pad4 n \<le> n + 3"
  unfolding pad4_def by presburger

lemma byte_string_ok:
  assumes "vt t = STUN_VALUE_BYTE_STRING" "length s < 2 ^ 16"
  shows "attr_ok vt tid (StunByteStringAttribute_new t s)"
    "attr_size (StunByteStringAttribute_new t s) \<le> length s + 7"
    "at_type (StunByteStringAttribute_new t s) = t" "at_value (StunByteStringAttribute_new t s) = ByteString s"
proof -
  show "attr_size (StunByteStringAttribute_new t s) \<le> length s + 7" using assms(2)
    using pad4_le [of "length s"] by (simp add: attr_size_def StunByteStringAttribute_new_def CopyBytes_def unat_of_nat_small)
qed (use assms in \<open>simp_all add: attr_ok_def StunByteStringAttribute_new_def CopyBytes_def unat_of_nat_small\<close>)

lemma uint_attrs_ok:
  "vt t = STUN_VALUE_UINT32 \<Longrightarrow> attr_ok vt tid (StunUInt32Attribute_new t v)"
  "vt t = STUN_VALUE_UINT64 \<Longrightarrow> attr_ok vt tid (StunUInt64Attribute_new t w)"
  "attr_size (StunUInt32Attribute_new t v) = 8" "attr_size (StunUInt64Attribute_new t w) = 12"
  "at_type (StunUInt32Attribute_new t v) = t" "at_value (StunUInt32Attribute_new t v) = UInt32 v"
  "at_type (StunUInt64Attribute_new t w) = t" "at_value (StunUInt64Attribute_new t w) = UInt64 w"
  by (simp_all add: attr_ok_def StunUInt32Attribute_new_def StunUInt64Attribute_new_def attr_size_def pad4_def)

lemma address_attrs_ok:
  assumes "ip_ok (sk_ip addr)"
  shows "vt t = STUN_VALUE_ADDRESS \<Longrightarrow> attr_ok vt tid (StunAddressAttribute_new t addr)"
    "vt t = STUN_VALUE_XOR_ADDRESS \<Longrightarrow> length tid = 12 \<Longrightarrow> attr_ok vt tid (StunXorAddressAttribute_new t addr)"
    "attr_size (StunAddressAttribute_new t addr) \<le> 24" "attr_size (StunXorAddressAttribute_new t addr) \<le> 24"
    "at_type (StunAddressAttribute_new t addr) = t" "at_type (StunXorAddressAttribute_new t addr) = t"
  using assms
  by (cases "sk_ip addr"; simp add: attr_ok_def StunAddressAttribute_new_def StunXorAddressAttribute_new_def
      attr_size_def pad4_def kStunTransactionIdLength_def)+

lemmas attr_type_defs = STUN_ATTR_MAPPED_ADDRESS_def STUN_ATTR_USERNAME_def STUN_ATTR_MESSAGE_INTEGRITY_def
  STUN_ATTR_ERROR_CODE_def STUN_ATTR_UNKNOWN_ATTRIBUTES_def STUN_ATTR_REALM_def STUN_ATTR_NONCE_def
  STUN_ATTR_XOR_MAPPED_ADDRESS_def STUN_ATTR_SOFTWARE_def STUN_ATTR_ALTERNATE_SERVER_def STUN_ATTR_FINGERPRINT_def
  STUN_ATTR_RETRANSMIT_COUNT_def STUN_ATTR_PRIORITY_def STUN_ATTR_USE_CANDIDATE_def STUN_ATTR_ICE_CONTROLLED_def
  STUN_ATTR_ICE_CONTROLLING_def

lemma ice_vt_simps:
  "ice_vt STUN_ATTR_USERNAME = STUN_VALUE_BYTE_STRING" "ice_vt STUN_ATTR_RETRANSMIT_COUNT = STUN_VALUE_UINT32"
  "ice_vt STUN_ATTR_PRIORITY = STUN_VALUE_UINT32" "ice_vt STUN_ATTR_USE_CANDIDATE = STUN_VALUE_BYTE_STRING"
  "ice_vt STUN_ATTR_ICE_CONTROLLED = STUN_VALUE_UINT64" "ice_vt STUN_ATTR_ICE_CONTROLLING = STUN_VALUE_UINT64"
  "stun_vt STUN_ATTR_USERNAME = STUN_VALUE_BYTE_STRING" "stun_vt STUN_ATTR_RETRANSMIT_COUNT = STUN_VALUE_UINT32"
  "stun_vt STUN_ATTR_MAPPED_ADDRESS = STUN_VALUE_ADDRESS"
  "stun_vt STUN_ATTR_XOR_MAPPED_ADDRESS = STUN_VALUE_XOR_ADDRESS"
  by (simp_all add: IceMessage_GetAttributeValueType_def StunMessage_GetAttributeValueType_def attr_type_defs)

lemma new_message_ok:
  assumes "length tid = 12" "t AND 0x8000 = 0"
  shows "message_ok vt (StunMessage_new\<lparr>sm_type := t, sm_transaction_id := tid\<rparr>)"
  using assms by (simp add: message_ok_def StunMessage_new_def IsValidTransactionId_def IsLegacy_def
    kStunTransactionIdLength_def kStunLegacyTransactionIdLength_def)

section \<open>The ping\<close>

definition role_attrs :: "Port \<Rightarrow> stun_attribute list" where
  "role_attrs p =
     (case pt_role p of
        ROLE_CONTROLLING \<Rightarrow> [StunUInt64Attribute_new STUN_ATTR_ICE_CONTROLLING (pt_tiebreaker p),
          StunByteStringAttribute_new STUN_ATTR_USE_CANDIDATE []]
      | ROLE_CONTROLLED \<Rightarrow> [StunUInt64Attribute_new STUN_ATTR_ICE_CONTROLLED (pt_tiebreaker p)]
      | ROLE_UNKNOWN \<Rightarrow> [])"

definition prflx_priority :: "Candidate \<Rightarrow> u32" where
  "prflx_priority l = push_bit 24 ICE_TYPE_PREFERENCE_PRFLX OR (cd_priority l AND 0x00FFFFFF)"

definition ping_attrs :: "Port \<Rightarrow> Connection \<Rightarrow> Candidate \<Rightarrow> byte list \<Rightarrow> stun_attribute list" where
  "ping_attrs p c l username =
     StunByteStringAttribute_new STUN_ATTR_USERNAME username #
     (if pt_send_retransmit_count_attribute p
      then [StunUInt32Attribute_new STUN_ATTR_RETRANSMIT_COUNT
              (of_nat (length (cn_pings_since_last_response c)) - 1)] else []) @
     (if pt_ice_protocol p = ICEPROTO_RFC5245
      then role_attrs p @ [StunUInt32Attribute_new STUN_ATTR_PRIORITY (prflx_priority l)] else [])"

lemma Prepare_eq:
  assumes "local_candidate p c = Some l" "username_fragment p = Some f"
    "pt_ice_protocol p = ICEPROTO_RFC5245 \<Longrightarrow> pt_role p \<noteq> ROLE_UNKNOWN"
  shows "ConnectionRequest_Prepare sha1 p c m =
    (let username = cd_username (cn_remote_candidate c) @
           (if pt_ice_protocol p = ICEPROTO_RFC5245 then [0x3A] else []) @ f;
         m = add_attrs ice_vt (m\<lparr>sm_type := STUN_BINDING_REQUEST\<rparr>) (ping_attrs p c l username)
     in Some (if pt_ice_protocol p = ICEPROTO_RFC5245
        then snd (AddFingerprint ice_vt (snd (AddMessageIntegrity sha1 ice_vt m (cd_password (cn_remote_candidate c)))))
        else m))"
  using assms
  by (cases "pt_role p")
    (auto simp: ConnectionRequest_Prepare_def CreateStunUsername_def ping_attrs_def role_attrs_def prflx_priority_def
      add_attrs_def Let_def)

lemma ping_attrs_ok:
  assumes "length username \<le> 1000"
  shows "list_all (attr_ok ice_vt tid) (ping_attrs p c l username)"
    "sum_list (map attr_size (ping_attrs p c l username)) < 2000"
    "list_all (\<lambda>a. at_type a \<noteq> STUN_ATTR_MESSAGE_INTEGRITY) (ping_attrs p c l username)"
proof -
  have u: "length username < 2 ^ 16" "attr_size (StunByteStringAttribute_new STUN_ATTR_USERNAME username) \<le> 1007"
    using assms byte_string_ok(2) [of ice_vt STUN_ATTR_USERNAME username] by (simp_all add: ice_vt_simps)
  have e: "attr_size (StunByteStringAttribute_new STUN_ATTR_USE_CANDIDATE []) = 4"
    by (simp add: attr_size_def StunByteStringAttribute_new_def CopyBytes_def pad4_def)
  show "list_all (attr_ok ice_vt tid) (ping_attrs p c l username)"
    using u(1) by (cases "pt_role p")
      (simp_all add: ping_attrs_def role_attrs_def byte_string_ok(1) uint_attrs_ok ice_vt_simps)
  show "sum_list (map attr_size (ping_attrs p c l username)) < 2000"
    using u(2) e by (cases "pt_role p") (simp_all add: ping_attrs_def role_attrs_def uint_attrs_ok)
  show "list_all (\<lambda>a. at_type a \<noteq> STUN_ATTR_MESSAGE_INTEGRITY) (ping_attrs p c l username)"
    by (cases "pt_role p") (simp_all add: ping_attrs_def role_attrs_def StunByteStringAttribute_new_def CopyBytes_def
      StunUInt32Attribute_new_def StunUInt64Attribute_new_def attr_type_defs)
qed

text \<open>What is known of a ping.\<close>

definition is_ping :: "message_digest \<Rightarrow> Port \<Rightarrow> byte list \<Rightarrow> byte list \<Rightarrow> byte list \<Rightarrow> stun_message \<Rightarrow> bool" where
  "is_ping sha1 p tid username password m \<longleftrightarrow>
     message_ok ice_vt m \<and> sm_type m = STUN_BINDING_REQUEST \<and> sm_transaction_id m = tid \<and>
     GetByteString m STUN_ATTR_USERNAME = Some username \<and>
     (pt_ice_protocol p = ICEPROTO_RFC5245 \<longrightarrow>
        GetByteString m STUN_ATTR_MESSAGE_INTEGRITY \<noteq> None \<and>
        GetUInt64 m STUN_ATTR_ICE_CONTROLLING = (if pt_role p = ROLE_CONTROLLING then Some (pt_tiebreaker p) else None) \<and>
        GetUInt64 m STUN_ATTR_ICE_CONTROLLED = (if pt_role p = ROLE_CONTROLLED then Some (pt_tiebreaker p) else None) \<and>
        (pt_role p = ROLE_CONTROLLING \<longrightarrow> GetByteString m STUN_ATTR_USE_CANDIDATE \<noteq> None) \<and>
        ValidateFingerprint (message_bytes m) \<and>
        ValidateMessageIntegrity sha1 (message_bytes m) password = Some True)"

lemma ping_accessors:
  assumes "sm_attrs m = ping_attrs p c l username @ [mi_attr h, fp_attr k]" "pt_ice_protocol p = ICEPROTO_RFC5245"
    "pt_role p \<noteq> ROLE_UNKNOWN"
  shows "GetByteString m STUN_ATTR_USERNAME = Some username"
    "GetByteString m STUN_ATTR_MESSAGE_INTEGRITY \<noteq> None"
    "GetUInt64 m STUN_ATTR_ICE_CONTROLLING = (if pt_role p = ROLE_CONTROLLING then Some (pt_tiebreaker p) else None)"
    "GetUInt64 m STUN_ATTR_ICE_CONTROLLED = (if pt_role p = ROLE_CONTROLLED then Some (pt_tiebreaker p) else None)"
    "pt_role p = ROLE_CONTROLLING \<Longrightarrow> GetByteString m STUN_ATTR_USE_CANDIDATE \<noteq> None"
  using assms
  by (cases "pt_role p"; simp add: GetByteString_def GetUInt64_def GetAttribute_def ping_attrs_def role_attrs_def
      mi_attr_def fp_attr_def StunByteStringAttribute_new_def CopyBytes_def StunUInt32Attribute_new_def
      StunUInt64Attribute_new_def attr_type_defs)+

lemma sign_message:
  assumes "vt \<in> message_classes" "message_ok vt m"
    "list_all (\<lambda>a. at_type a \<noteq> STUN_ATTR_MESSAGE_INTEGRITY) (sm_attrs m)" "unat (sm_length m) + 32 < 2 ^ 16"
    "digest_ok sha1" "dg_Size sha1 = 20"
  obtains h k m2 where
    "snd (AddFingerprint vt (snd (AddMessageIntegrity sha1 vt m key))) = m2" "message_ok vt m2"
    "sm_attrs m2 = sm_attrs m @ [mi_attr h, fp_attr k]" "sm_type m2 = sm_type m"
    "sm_transaction_id m2 = sm_transaction_id m" "ValidateMessageIntegrity sha1 (message_bytes m2) key = Some True"
    "ValidateFingerprint (message_bytes m2) = (\<not> IsLegacy m)"
proof -
  obtain h k m1 m2 b where *: "m1 = with_attr m (mi_attr h)" "m2 = with_attr m1 (fp_attr k)"
    "AddMessageIntegrity sha1 vt m key = (True, m1)" "AddFingerprint vt m1 = (True, m2)" "message_ok vt m2"
    "Data b = message_bytes m2" "ValidateMessageIntegrity sha1 (Data b) key = Some True"
    "ValidateFingerprint (Data b) = (\<not> IsLegacy m)"
    using signed_message_ok [OF assms, of key] by blast
  show thesis by (rule that [of m2 h k]) (use * in simp_all)
qed

lemma prepared_ping:
  assumes l: "local_candidate p c = Some l" and f: "username_fragment p = Some f"
    and proto: "pt_ice_protocol p = ICEPROTO_RFC5245 \<and> pt_role p \<noteq> ROLE_UNKNOWN \<or> pt_ice_protocol p = ICEPROTO_GOOGLE"
    and username: "username = cd_username (cn_remote_candidate c) @
      (if pt_ice_protocol p = ICEPROTO_RFC5245 then [0x3A] else []) @ f"
    and len: "length username \<le> 1000" "length tid = 12"
    and dg: "digest_ok sha1" "dg_Size sha1 = 20"
  shows "\<exists>m. ConnectionRequest_Prepare sha1 p c (StunMessage_new\<lparr>sm_transaction_id := tid\<rparr>) = Some m \<and>
    is_ping sha1 p tid username (cd_password (cn_remote_candidate c)) m"
proof -
  let ?m0 = "StunMessage_new\<lparr>sm_transaction_id := tid, sm_type := STUN_BINDING_REQUEST\<rparr>"
  let ?as = "ping_attrs p c l username"
  have m0: "message_ok ice_vt ?m0" using new_message_ok [OF len(2), of STUN_BINDING_REQUEST ice_vt]
    by (simp add: STUN_BINDING_REQUEST_def StunMessage_new_def)
  define m1 where "m1 = add_attrs ice_vt ?m0 ?as"
  have r: "list_all (attr_ok ice_vt (sm_transaction_id ?m0)) ?as" "unat (sm_length ?m0) + sum_list (map attr_size ?as) < 2 ^ 16"
    using ping_attrs_ok(1) [OF len(1)] ping_attrs_ok(2) [OF len(1), of p c l] by (simp_all add: StunMessage_new_def)
  note 1 = add_attrs_ok [OF m0 r, folded m1_def]
  have attrs: "sm_attrs m1 = ?as" "sm_transaction_id m1 = tid" "sm_type m1 = STUN_BINDING_REQUEST"
    using 1 by (simp_all add: StunMessage_new_def)
  have eq: "ConnectionRequest_Prepare sha1 p c (StunMessage_new\<lparr>sm_transaction_id := tid\<rparr>) =
      Some (if pt_ice_protocol p = ICEPROTO_RFC5245
        then snd (AddFingerprint ice_vt (snd (AddMessageIntegrity sha1 ice_vt m1 (cd_password (cn_remote_candidate c)))))
        else m1)"
    using Prepare_eq [OF l f] proto username by (auto simp: m1_def Let_def)
  show ?thesis
  proof (cases "pt_ice_protocol p = ICEPROTO_RFC5245")
    case False
    then have "is_ping sha1 p tid username (cd_password (cn_remote_candidate c)) m1"
      using 1(1) attrs proto
      by (auto simp: is_ping_def GetByteString_def GetAttribute_def ping_attrs_def StunByteStringAttribute_new_def
        CopyBytes_def)
    with eq False show ?thesis by simp
  next
    case True
    have "unat (sm_length m1) + 32 < 2 ^ 16"
      using 1(5) ping_attrs_ok(2) [OF len(1), of p c l] by (simp add: StunMessage_new_def)
    moreover have "list_all (\<lambda>a. at_type a \<noteq> STUN_ATTR_MESSAGE_INTEGRITY) (sm_attrs m1)"
      using ping_attrs_ok(3) [OF len(1)] attrs(1) by simp
    moreover have "ice_vt \<in> message_classes" by (simp add: message_classes_def)
    ultimately obtain h k m2 where s:
        "snd (AddFingerprint ice_vt (snd (AddMessageIntegrity sha1 ice_vt m1 (cd_password (cn_remote_candidate c))))) = m2"
        "message_ok ice_vt m2" "sm_attrs m2 = sm_attrs m1 @ [mi_attr h, fp_attr k]" "sm_type m2 = sm_type m1"
        "sm_transaction_id m2 = sm_transaction_id m1"
        "ValidateMessageIntegrity sha1 (message_bytes m2) (cd_password (cn_remote_candidate c)) = Some True"
        "ValidateFingerprint (message_bytes m2) = (\<not> IsLegacy m1)"
      using sign_message [OF _ 1(1) _ _ dg, of "cd_password (cn_remote_candidate c)"] by metis
    have "sm_attrs m2 = ?as @ [mi_attr h, fp_attr k]" "\<not> IsLegacy m1" "sm_type m2 = STUN_BINDING_REQUEST"
        "sm_transaction_id m2 = tid"
      using s attrs len(2) by (simp_all add: IsLegacy_def kStunLegacyTransactionIdLength_def)
    then have "is_ping sha1 p tid username (cd_password (cn_remote_candidate c)) m2"
      using s True proto ping_accessors [of m2 p c l username h k] by (auto simp: is_ping_def)
    with eq True s(1) show ?thesis by simp
  qed
qed

section \<open>The ping arrives\<close>

lemma read_message_bytes:
  assumes "message_ok vt m"
  obtains b where "StunMessage_Read vt (ByteBuffer_of (message_bytes m)) = Some (m, b)" "Length b = 0"
  using net_StunMessage_Read [OF assms net_buf_of] net_buf_Length by fastforce

lemma split_colon:
  assumes "0x3A \<notin> set xs"
  shows "takeWhile (\<lambda>c. c \<noteq> 0x3A) (xs @ 0x3A # ys) = xs" "tl (dropWhile (\<lambda>c. c \<noteq> 0x3A) (xs @ 0x3A # ys)) = ys"
proof -
  have "\<forall>c\<in>set xs. c \<noteq> 0x3A" using assms by metis
  then show "takeWhile (\<lambda>c. c \<noteq> 0x3A) (xs @ 0x3A # ys) = xs" "tl (dropWhile (\<lambda>c. c \<noteq> 0x3A) (xs @ 0x3A # ys)) = ys"
    by (simp_all add: takeWhile_append2 dropWhile_append2)
qed

lemma GetStunMessage_ping:
  assumes ping: "is_ping sha1 pa tid username (pt_password pb) m"
    and proto: "pt_ice_protocol pb = pt_ice_protocol pa"
      "pt_ice_protocol pa = ICEPROTO_RFC5245 \<and> 0x3A \<notin> set fb \<or> pt_ice_protocol pa = ICEPROTO_GOOGLE"
    and f: "username_fragment pb = Some fb"
    and username: "username = fb @ (if pt_ice_protocol pa = ICEPROTO_RFC5245 then [0x3A] else []) @ fa"
  shows "GetStunMessage sha1 pb (message_bytes m) addr = Some (Accepted m fa, pb)"
proof -
  obtain b where "StunMessage_Read ice_vt (ByteBuffer_of (message_bytes m)) = Some (m, b)" "Length b = 0"
    using ping read_message_bytes unfolding is_ping_def by metis
  moreover have "ParseStunUsername pb m = Some (True, fb, fa)"
    using proto ping f username split_colon [of fb fa] by (auto simp: ParseStunUsername_def is_ping_def)
  ultimately show ?thesis using ping proto f by (auto simp: GetStunMessage_def is_ping_def)
qed

definition opposite_roles :: "Port \<Rightarrow> Port \<Rightarrow> bool" where
  "opposite_roles pa pb \<longleftrightarrow> pt_role pa = ROLE_CONTROLLING \<and> pt_role pb = ROLE_CONTROLLED \<or>
     pt_role pa = ROLE_CONTROLLED \<and> pt_role pb = ROLE_CONTROLLING"

lemma no_role_conflict:
  assumes "is_ping sha1 pa tid username pwd m" "pt_ice_protocol pa = ICEPROTO_RFC5245" "opposite_roles pa pb"
    "username_fragment pb \<noteq> None"
  shows "MaybeIceRoleConflict sha1 pb addr m fa = Some (True, pb)"
  using assms by (auto simp: MaybeIceRoleConflict_def is_ping_def opposite_roles_def Let_def)

section \<open>The response\<close>

definition response_attrs :: "Port \<Rightarrow> stun_message \<Rightarrow> byte list \<Rightarrow> socket_address \<Rightarrow> stun_attribute list" where
  "response_attrs p request username addr =
     (case GetUInt32 request STUN_ATTR_RETRANSMIT_COUNT of
        None \<Rightarrow> []
      | Some v \<Rightarrow> [StunUInt32Attribute_new STUN_ATTR_RETRANSMIT_COUNT v]) @
     (if pt_ice_protocol p = ICEPROTO_RFC5245 then [StunXorAddressAttribute_new STUN_ATTR_XOR_MAPPED_ADDRESS addr]
      else [StunAddressAttribute_new STUN_ATTR_MAPPED_ADDRESS addr,
            StunByteStringAttribute_new STUN_ATTR_USERNAME username])"

definition is_response :: "message_digest \<Rightarrow> Port \<Rightarrow> byte list \<Rightarrow> stun_message \<Rightarrow> bool" where
  "is_response sha1 p tid m \<longleftrightarrow>
     message_ok stun_vt m \<and> sm_type m = STUN_BINDING_RESPONSE \<and> sm_transaction_id m = tid \<and>
     (pt_ice_protocol p = ICEPROTO_RFC5245 \<longrightarrow>
        ValidateFingerprint (message_bytes m) \<and>
        ValidateMessageIntegrity sha1 (message_bytes m) (pt_password p) = Some True)"

lemma response_attrs_ok:
  assumes "ip_ok (sk_ip addr)" "length tid = 12" "length username \<le> 1000"
  shows "list_all (attr_ok stun_vt tid) (response_attrs p request username addr)"
    "sum_list (map attr_size (response_attrs p request username addr)) < 2000"
    "list_all (\<lambda>a. at_type a \<noteq> STUN_ATTR_MESSAGE_INTEGRITY) (response_attrs p request username addr)"
proof -
  have u: "length username < 2 ^ 16" "attr_size (StunByteStringAttribute_new STUN_ATTR_USERNAME username) \<le> 1007"
    using assms(3) byte_string_ok(2) [of ice_vt STUN_ATTR_USERNAME username] by (simp_all add: ice_vt_simps)
  note a = address_attrs_ok [OF assms(1)]
  show "list_all (attr_ok stun_vt tid) (response_attrs p request username addr)"
    using u(1) assms a(1,2) [of stun_vt] by (auto simp: response_attrs_def byte_string_ok(1) uint_attrs_ok ice_vt_simps
      split: option.split)
  show "sum_list (map attr_size (response_attrs p request username addr)) < 2000"
    using u(2) a(3) [of STUN_ATTR_MAPPED_ADDRESS] a(4) [of STUN_ATTR_XOR_MAPPED_ADDRESS]
    by (auto simp: response_attrs_def uint_attrs_ok split: option.split)
  show "list_all (\<lambda>a. at_type a \<noteq> STUN_ATTR_MESSAGE_INTEGRITY) (response_attrs p request username addr)"
    by (auto simp: response_attrs_def StunByteStringAttribute_new_def CopyBytes_def
      StunUInt32Attribute_new_def a(5,6) attr_type_defs split: option.split)
qed

lemma binding_response_ok:
  assumes "sm_transaction_id request = tid" "length tid = 12" "ip_ok (sk_ip addr)" "length username \<le> 1000"
    "pt_ice_protocol p = ICEPROTO_RFC5245 \<or> pt_ice_protocol p = ICEPROTO_GOOGLE"
    and dg: "digest_ok sha1" "dg_Size sha1 = 20"
  shows "is_response sha1 p tid (binding_response sha1 p request username addr)"
proof -
  let ?m0 = "StunMessage_new\<lparr>sm_type := STUN_BINDING_RESPONSE, sm_transaction_id := tid\<rparr>"
  let ?as = "response_attrs p request username addr"
  have m0: "message_ok stun_vt ?m0" by (rule new_message_ok [OF assms(2)]) (simp add: STUN_BINDING_RESPONSE_def)
  have set: "snd (SetTransactionID (StunMessage_new\<lparr>sm_type := STUN_BINDING_RESPONSE\<rparr>) tid) = ?m0"
    using assms(2) by (simp add: SetTransactionID_def IsValidTransactionId_def kStunTransactionIdLength_def)
  define m1 where "m1 = add_attrs stun_vt ?m0 ?as"
  have r: "list_all (attr_ok stun_vt (sm_transaction_id ?m0)) ?as" "unat (sm_length ?m0) + sum_list (map attr_size ?as) < 2 ^ 16"
    using response_attrs_ok(1,2) [OF assms(3,2,4), of p request] by (simp_all add: StunMessage_new_def)
  note 1 = add_attrs_ok [OF m0 r, folded m1_def]
  have attrs: "sm_attrs m1 = ?as" "sm_transaction_id m1 = tid" "sm_type m1 = STUN_BINDING_RESPONSE"
    using 1 by (simp_all add: StunMessage_new_def)
  have eq: "binding_response sha1 p request username addr =
      (if pt_ice_protocol p = ICEPROTO_RFC5245
        then snd (AddFingerprint stun_vt (snd (AddMessageIntegrity sha1 stun_vt m1 (pt_password p))))
        else m1)"
    using assms(1,5) set
    by (auto simp: binding_response_def m1_def response_attrs_def add_attrs_def Let_def split: option.split)
  show ?thesis
  proof (cases "pt_ice_protocol p = ICEPROTO_RFC5245")
    case False
    then show ?thesis using eq 1(1) attrs by (simp add: is_response_def)
  next
    case True
    have "unat (sm_length m1) + 32 < 2 ^ 16"
      using 1(5) response_attrs_ok(2) [OF assms(3,2,4), of p request] by (simp add: StunMessage_new_def)
    moreover have "list_all (\<lambda>a. at_type a \<noteq> STUN_ATTR_MESSAGE_INTEGRITY) (sm_attrs m1)"
      using response_attrs_ok(3) [OF assms(3,2,4)] attrs(1) by simp
    moreover have "stun_vt \<in> message_classes" by (simp add: message_classes_def)
    ultimately obtain h k m2 where s:
        "snd (AddFingerprint stun_vt (snd (AddMessageIntegrity sha1 stun_vt m1 (pt_password p)))) = m2"
        "message_ok stun_vt m2" "sm_attrs m2 = sm_attrs m1 @ [mi_attr h, fp_attr k]" "sm_type m2 = sm_type m1"
        "sm_transaction_id m2 = sm_transaction_id m1"
        "ValidateMessageIntegrity sha1 (message_bytes m2) (pt_password p) = Some True"
        "ValidateFingerprint (message_bytes m2) = (\<not> IsLegacy m1)"
      using sign_message [OF _ 1(1) _ _ dg, of "pt_password p"] by metis
    then show ?thesis using eq True attrs assms(2)
      by (simp add: is_response_def IsLegacy_def kStunLegacyTransactionIdLength_def)
  qed
qed

section \<open>The two ends\<close>

lemma state_changes_keep:
  "cn_read_state (set_write_state w c) = cn_read_state c" "cn_write_state (set_write_state w c) = w"
  "cn_read_state (set_read_state r c) = r" "cn_write_state (set_read_state r c) = cn_write_state c"
  "cn_remote_candidate (set_write_state w c) = cn_remote_candidate c"
  "cn_remote_candidate (set_read_state r c) = cn_remote_candidate c"
  "cn_requests (set_write_state w c) = cn_requests c" "cn_requests (set_read_state r c) = cn_requests c"
  "cn_rtt (set_write_state w c) = cn_rtt c" "cn_pruned (set_write_state w c) = cn_pruned c"
  "cn_pruned (set_read_state r c) = cn_pruned c" "cn_state (set_write_state w c) = cn_state c"
  "cn_pings_since_last_response (set_write_state w c) = cn_pings_since_last_response c"
  "cn_pings_since_last_response (set_read_state r c) = cn_pings_since_last_response c"
  "cn_last_ping_received (set_write_state w c) = cn_last_ping_received c"
  "cn_last_ping_received (set_read_state r c) = cn_last_ping_received c"
  "cn_last_data_received (set_write_state w c) = cn_last_data_received c"
  "cn_last_data_received (set_read_state r c) = cn_last_data_received c"
  "cn_rtt (set_read_state r c) = cn_rtt c"
  by (simp_all add: set_write_state_def set_read_state_def Let_def conn_CheckTimeout_def cn_signal_def)

lemma state_change_events:
  "\<exists>es. cn_events (set_write_state w c) = cn_events c @ es \<and> set es \<subseteq> {SignalStateChange, PostDelete}"
  "\<exists>es. cn_events (set_read_state r c) = cn_events c @ es \<and> set es \<subseteq> {SignalStateChange, PostDelete}"
  by (auto simp: set_write_state_def set_read_state_def conn_CheckTimeout_def cn_signal_def Let_def)

lemma ReceivedPing_keeps:
  "cn_read_state (ReceivedPing now c) = STATE_READABLE" "cn_remote_candidate (ReceivedPing now c) = cn_remote_candidate c"
  by (simp_all add: ReceivedPing_def state_changes_keep)

lemma port_fields [simp]:
  "pt_heap (port_signal e p) = pt_heap p" "pt_ice_protocol (port_signal e p) = pt_ice_protocol p"
  "pt_role (port_signal e p) = pt_role p" "pt_events (port_signal e p) = pt_events p @ [e]"
  "pt_connections (port_signal e p) = pt_connections p" "pt_events (put_conn k c p) = pt_events p"
  "pt_heap (put_conn k c p) = (pt_heap p)(k := Some c)" "pt_ice_protocol (put_conn k c p) = pt_ice_protocol p"
  "pt_role (put_conn k c p) = pt_role p"
  by (simp_all add: port_signal_def put_conn_def)

lemma written_bytes:
  "message_ok vt m \<Longrightarrow> Data (snd (StunMessage_Write m (ByteBuffer_new ORDER_NETWORK))) = message_bytes m"
  using net_StunMessage_Write_new by fastforce

text \<open>The configuration of a connection and of the port it leads to: both run the same protocol and the connection
  has the credentials of that port. With RFC 5245 the two should play opposite roles.\<close>

definition acquainted :: "Port \<Rightarrow> Connection \<Rightarrow> Port \<Rightarrow> Connection \<Rightarrow> bool" where
  "acquainted pa ca pb cb \<longleftrightarrow>
     pt_ice_protocol pb = pt_ice_protocol pa \<and>
     (pt_ice_protocol pa = ICEPROTO_RFC5245 \<and> pt_role pa \<noteq> ROLE_UNKNOWN \<and>
        0x3A \<notin> set (cd_username (cn_remote_candidate ca)) \<or>
      pt_ice_protocol pa = ICEPROTO_GOOGLE) \<and>
     username_fragment pa = Some (cd_username (cn_remote_candidate cb)) \<and>
     username_fragment pb = Some (cd_username (cn_remote_candidate ca)) \<and>
     cd_password (cn_remote_candidate ca) = pt_password pb \<and>
     length (cd_username (cn_remote_candidate ca)) \<le> 256 \<and> length (cd_username (cn_remote_candidate cb)) \<le> 256"

definition peers :: "Port \<Rightarrow> Connection \<Rightarrow> Port \<Rightarrow> Connection \<Rightarrow> bool" where
  "peers pa ca pb cb \<longleftrightarrow> acquainted pa ca pb cb \<and> (pt_ice_protocol pa = ICEPROTO_RFC5245 \<longrightarrow> opposite_roles pa pb)"

definition ping_username :: "Port \<Rightarrow> Connection \<Rightarrow> Connection \<Rightarrow> byte list" where
  "ping_username pa ca cb = cd_username (cn_remote_candidate ca) @
     (if pt_ice_protocol pa = ICEPROTO_RFC5245 then [0x3A] else []) @ cd_username (cn_remote_candidate cb)"

lemma ping_username_length: "acquainted pa ca pb cb \<Longrightarrow> length (ping_username pa ca cb) \<le> 1000"
  by (simp add: acquainted_def ping_username_def)

lemma GetStunMessage_acquainted:
  assumes "is_ping sha1 pa tid (ping_username pa ca cb) (pt_password pb) m" "acquainted pa ca pb cb"
  shows "GetStunMessage sha1 pb (message_bytes m) addr = Some (Accepted m (cd_username (cn_remote_candidate cb)), pb)"
  by (rule GetStunMessage_ping [OF assms(1), of "cd_username (cn_remote_candidate ca)"])
    (use assms(2) in \<open>auto simp: acquainted_def ping_username_def\<close>)

lemma ping_answered:
  assumes ping: "is_ping sha1 pa tid (ping_username pa ca cb) (pt_password pb) m" "length tid = 12"
    and acq: "acquainted pa ca pb cb"
    and role: "(if pt_ice_protocol pb = ICEPROTO_RFC5245
      then MaybeIceRoleConflict sha1 pb addr m (cd_username (cn_remote_candidate cb)) else Some (True, pb)) =
      Some (True, pb\<lparr>pt_events := pt_events pb @ es\<rparr>)"
    and cb: "pt_heap pb kb = Some cb" "cd_address (cn_remote_candidate cb) = addr"
      "GetConnection pb addr = Some kb" "ip_ok (sk_ip addr)"
    and dg: "digest_ok sha1" "dg_Size sha1 = 20"
  shows "\<exists>pb' cb' resp. conn_OnReadPacket sha1 now pb kb (message_bytes m) = Some pb' \<and>
    is_response sha1 pb tid resp \<and> pt_events pb' = pt_events pb @ es @ [SendTo (message_bytes resp) addr False] \<and>
    pt_heap pb' kb = Some cb' \<and> cn_read_state cb' = STATE_READABLE \<and>
    (\<exists>es'. cn_events cb' = cn_events cb @ es' @ (if pt_ice_protocol pb = ICEPROTO_RFC5245 \<and> pt_role pb = ROLE_CONTROLLED \<and>
        GetByteString m STUN_ATTR_USE_CANDIDATE \<noteq> None then [SignalUseCandidate] else []) \<and>
      set es' \<subseteq> {SignalStateChange, PostDelete})"
proof -
  let ?pb = "pb\<lparr>pt_events := pt_events pb @ es\<rparr>"
  let ?resp = "binding_response sha1 ?pb m (ping_username pa ca cb) addr"
  note get = GetStunMessage_acquainted [OF ping(1) acq, of addr]
  have m: "sm_type m = STUN_BINDING_REQUEST" "GetByteString m STUN_ATTR_USERNAME = Some (ping_username pa ca cb)"
      "sm_transaction_id m = tid"
    using ping(1) by (simp_all add: is_ping_def)
  have resp: "is_response sha1 pb tid ?resp"
    using binding_response_ok [OF m(3) ping(2) cb(4) ping_username_length [OF acq] _ dg, of ?pb] acq
    by (auto simp: acquainted_def is_response_def)
  then have bytes: "Data (snd (StunMessage_Write ?resp (ByteBuffer_new ORDER_NETWORK))) = message_bytes ?resp"
    using written_bytes by (auto simp: is_response_def)
  define p1 where "p1 = put_conn kb (ReceivedPing now cb) (port_signal (SendTo (message_bytes ?resp) addr False) ?pb)"
  have send: "SendBindingResponse sha1 now ?pb m addr = Some p1"
    using m cb(1,3) bytes by (simp add: SendBindingResponse_def GetConnection_def Let_def p1_def)
  define c1 where "c1 = ReceivedPing now cb"
  define c2 where "c2 = (if \<not> cn_pruned c1 \<and> cn_write_state c1 = STATE_WRITE_TIMEOUT
    then set_write_state STATE_WRITE_INIT c1 else c1)"
  define c3 where "c3 = (if pt_ice_protocol p1 = ICEPROTO_RFC5245 \<and> pt_role p1 = ROLE_CONTROLLED \<and>
    GetByteString m STUN_ATTR_USE_CANDIDATE \<noteq> None then cn_signal SignalUseCandidate c2 else c2)"
  have c3: "cn_read_state c3 = STATE_READABLE"
    by (simp add: c3_def c2_def c1_def cn_signal_def state_changes_keep ReceivedPing_keeps)
  have "conn_OnReadPacket sha1 now pb kb (message_bytes m) = Some (put_conn kb c3 p1)"
    using cb(1,2) get role send m(1) unfolding c3_def c2_def c1_def p1_def
    by (cases "pt_ice_protocol pb = ICEPROTO_RFC5245")
      (simp_all add: conn_OnReadPacket_def Let_def split del: if_split)
  moreover obtain es1 where "cn_events c1 = cn_events cb @ es1" "set es1 \<subseteq> {SignalStateChange, PostDelete}"
    using state_change_events(2) [of STATE_READABLE "cb\<lparr>cn_last_ping_received := now\<rparr>"]
    by (auto simp: c1_def ReceivedPing_def)
  moreover obtain es2 where "cn_events c2 = cn_events c1 @ es2" "set es2 \<subseteq> {SignalStateChange, PostDelete}"
    using state_change_events(1) [of STATE_WRITE_INIT c1]
    by (cases "\<not> cn_pruned c1 \<and> cn_write_state c1 = STATE_WRITE_TIMEOUT") (auto simp: c2_def)
  ultimately show ?thesis using resp c3 unfolding c3_def
    by (intro exI [of _ "put_conn kb c3 p1"] exI [of _ c3] exI [of _ ?resp] conjI exI [of _ "es1 @ es2"])
      (auto simp: p1_def c3_def cn_signal_def)
qed

lemma peers_no_conflict:
  assumes "is_ping sha1 pa tid username pwd m" "peers pa ca pb cb"
  shows "(if pt_ice_protocol pb = ICEPROTO_RFC5245 then MaybeIceRoleConflict sha1 pb addr m fa else Some (True, pb)) =
    Some (True, pb\<lparr>pt_events := pt_events pb @ []\<rparr>)"
  using assms no_role_conflict [OF assms(1)] by (auto simp: peers_def acquainted_def)

text \<open>A ping on the sender's side.\<close>

lemma Ping_sent:
  assumes ca: "pt_heap pa ka = Some ca" "cn_connected ca" "local_candidate pa ca \<noteq> None"
    and rq: "sr_struct (cn_requests ca)" "sr_heap (cn_requests ca) q = None" "map_of (sr_requests (cn_requests ca)) tid = None"
    and acq: "acquainted pa ca pb cb" and tid: "length tid = 12"
    and dg: "digest_ok sha1" "dg_Size sha1 = 20"
  shows "\<exists>pa' c' r m. Ping sha1 now pa ka q tid = Some pa' \<and> is_ping sha1 pa tid (ping_username pa ca cb) (pt_password pb) m \<and>
    pt_heap pa' ka = Some c' \<and> pt_events pa' = pt_events pa \<and> pt_ice_protocol pa' = pt_ice_protocol pa \<and>
    cn_remote_candidate c' = cn_remote_candidate ca \<and> cn_rtt c' = cn_rtt ca \<and> sr_struct (cn_requests c') \<and>
    sr_heap (cn_requests c') q = Some r \<and> rq_managed r \<and> \<not> rq_timeout r \<and> rq_msg r = m \<and>
    map_of (sr_requests (cn_requests c')) tid = Some q"
proof -
  define c where "c = ca\<lparr>cn_last_ping_sent := now, cn_pings_since_last_response := cn_pings_since_last_response ca @ [now]\<rparr>"
  define req where "req = StunRequest_new StunMessage_new ice_vt tid"
  obtain l where l: "local_candidate pa c = Some l" using ca(3) by (auto simp: local_candidate_def c_def cong: if_cong)
  have c: "cn_remote_candidate c = cn_remote_candidate ca" "cn_requests c = cn_requests ca" by (simp_all add: c_def)
  from prepared_ping [OF l, of _ "ping_username pa ca cb" tid sha1] ping_username_length [OF acq] acq tid dg
  obtain m where m: "ConnectionRequest_Prepare sha1 pa c (rq_msg req) = Some m"
      "is_ping sha1 pa tid (ping_username pa ca cb) (pt_password pb) m"
    by (auto simp: acquainted_def ping_username_def req_def StunRequest_new_def c)
  let ?R = "put_request (cn_requests c) q req"
  have R: "sr_struct ?R" "sr_heap ?R q = Some req" "\<not> rq_managed req" "map_of (sr_requests ?R) (rq_id req) = None"
      "rq_id req = tid" "sm_type (rq_msg req) = 0" "sm_transaction_id (rq_msg req) = tid"
    using new_request_struct [OF rq(1,2), of StunMessage_new ice_vt tid] rq(3) c(2)
    by (simp_all add: req_def put_request_def StunRequest_new_def rq_id_def StunMessage_new_def)
  have m0: "sm_type m \<noteq> 0" "sm_transaction_id m = sm_transaction_id (rq_msg req)"
    using m(2) R(7) by (simp_all add: is_ping_def STUN_BINDING_REQUEST_def)
  define r where "r = req\<lparr>rq_managed := True, rq_msg := if sm_type (rq_msg req) = 0 then m else rq_msg req\<rparr>"
  obtain R' where R': "sr_Send (\<lambda>_. m) now ?R q = Some R'" "sr_struct R'" "sr_heap R' = (sr_heap ?R)(q := Some r)"
      "map_of (sr_requests R') tid = Some q"
    using SendDelayed_struct [where prepare = "\<lambda>_. m", OF R(1-4) m0 r_def] R(5) by (auto simp: sr_Send_def)
  have "Ping sha1 now pa ka q tid =
      Some (put_conn ka (c\<lparr>cn_requests := R', cn_state := STATE_INPROGRESS\<rparr>) pa)"
    using ca(1,2) m(1) R'(1) unfolding Ping_def Let_def req_def [symmetric] c_def [symmetric]
    by (simp add: c_def [symmetric] req_def [symmetric])
  moreover have "rq_managed r" "\<not> rq_timeout r" "rq_msg r = m"
    using R(6) by (simp_all add: r_def req_def StunRequest_new_def)
  ultimately show ?thesis using m(2) R' by (simp add: c_def)
qed

text \<open>The thread hands the request its message, and the packet goes out.\<close>

lemma request_sent:
  assumes "pt_heap pa ka = Some c" "sr_struct (cn_requests c)" "sr_heap (cn_requests c) q = Some r" "rq_managed r"
    "\<not> rq_timeout r" "message_ok ice_vt (rq_msg r)"
  shows "\<exists>pa' R'. request_OnMessage now pa ka q = Some pa' \<and> pt_heap pa' ka = Some (c\<lparr>cn_requests := R'\<rparr>) \<and>
    pt_ice_protocol pa' = pt_ice_protocol pa \<and>
    pt_events pa' = pt_events pa @ [SendTo (message_bytes (rq_msg r)) (cd_address (cn_remote_candidate c)) False] \<and>
    sr_struct R' \<and> sr_heap R' q = Some (r\<lparr>rq_tstamp := now, rq_timeout := True\<rparr>) \<and>
    sr_requests R' = sr_requests (cn_requests c)"
proof -
  define r' where "r' = snd (ConnectionRequest_GetNextDelay (r\<lparr>rq_tstamp := now\<rparr>))"
  have r': "rq_managed r'" "rq_id r' = rq_id r" "r' = r\<lparr>rq_tstamp := now, rq_timeout := True\<rparr>"
    using assms(4) by (simp_all add: r'_def ConnectionRequest_GetNextDelay_def rq_id_def)
  obtain R' where R': "rq_OnMessage_by ConnectionRequest_GetNextDelay now (cn_requests c) q = Some R'" "sr_struct R'"
      "sr_heap R' = (sr_heap (cn_requests c))(q := Some r')" "sr_requests R' = sr_requests (cn_requests c)"
      "sr_events R' = sr_events (cn_requests c) @ [SentPacket q now (message_bytes (rq_msg r))]"
    using rq_OnMessage_struct [where next_delay = ConnectionRequest_GetNextDelay, OF assms(2-5) r'_def r'(1,2)]
      written_bytes [OF assms(6)] by auto
  have "request_OnMessage now pa ka q = Some (put_conn ka (c\<lparr>cn_requests := R'\<rparr>)
      (port_signal (SendTo (message_bytes (rq_msg r)) (cd_address (cn_remote_candidate c)) False) pa))"
    using assms(1) R'(1,5) by (simp add: request_OnMessage_def run_requests_def Let_def)
  with R' r'(3) show ?thesis by auto
qed

lemma CheckResponse_success:
  assumes "sr_struct R" "map_of (sr_requests R) (sm_transaction_id msg) = Some q" "sr_heap R q = Some r" "rq_managed r"
    "sm_type (rq_msg r) = STUN_BINDING_REQUEST" "sm_type msg = STUN_BINDING_RESPONSE"
  shows "\<exists>R'. CheckResponse R msg = Some (True, R') \<and> sr_events R' = sr_events R @ [OnResponse q msg] \<and>
    sr_heap R' = (sr_heap R)(q := None) \<and> sr_struct R'"
proof -
  have "uint (sm_type msg) = GetStunSuccessResponseType (rq_type r)"
    using assms(5,6) by (simp add: rq_type_def STUN_BINDING_REQUEST_def STUN_BINDING_RESPONSE_def
      GetStunSuccessResponseType_def IsStunRequestType_def kStunTypeMask_def)
  moreover have "sr_struct (log_event R (OnResponse q msg))" using assms(1) by simp
  from delete_request_struct [OF this, of q r] assms(3,4)
  obtain R' where "delete_request (log_event R (OnResponse q msg)) q = Some R'" "sr_struct R'"
      "sr_heap R' = (sr_heap R)(q := None)" "sr_events R' = sr_events R @ [OnResponse q msg]"
    by (auto simp: log_event_def)
  ultimately show ?thesis using assms(2,3) by (auto simp: CheckResponse_def)
qed

lemma response_accepted:
  assumes resp: "is_response sha1 pb tid resp" and acq: "acquainted pa ca pb cb" "pt_ice_protocol pa' = pt_ice_protocol pa"
    and c: "pt_heap pa' ka = Some c" "cn_remote_candidate c = cn_remote_candidate ca"
    and R: "sr_struct (cn_requests c)" "map_of (sr_requests (cn_requests c)) tid = Some q"
      "sr_heap (cn_requests c) q = Some r" "rq_managed r" "sm_type (rq_msg r) = STUN_BINDING_REQUEST"
  shows "\<exists>p c'. conn_OnReadPacket sha1 now pa' ka (message_bytes resp) = Some p \<and> pt_heap p ka = Some c' \<and>
    cn_write_state c' = STATE_WRITABLE \<and> cn_state c' = STATE_SUCCEEDED \<and> cn_pings_since_last_response c' = [] \<and>
    cn_rtt c' = (3 * cn_rtt c + Elapsed now r) div 4 \<and> pt_events p = pt_events pa'"
proof -
  have m: "message_ok ice_vt resp" "sm_type resp = STUN_BINDING_RESPONSE" "sm_transaction_id resp = tid"
    using resp ice_message_ok by (auto simp: is_response_def)
  obtain b where "StunMessage_Read ice_vt (ByteBuffer_of (message_bytes resp)) = Some (resp, b)" "Length b = 0"
    using read_message_bytes [OF m(1)] by metis
  then have get: "GetStunMessage sha1 pa' (message_bytes resp) addr = Some (Accepted resp [], pa')" for addr
    using resp acq m(2)
    by (auto simp: GetStunMessage_def is_response_def acquainted_def STUN_BINDING_RESPONSE_def STUN_BINDING_REQUEST_def)
  have valid: "(if pt_ice_protocol pa' = ICEPROTO_GOOGLE then Some True
      else ValidateMessageIntegrity sha1 (message_bytes resp) (cd_password (cn_remote_candidate c))) = Some True"
    using resp acq c(2) by (auto simp: is_response_def acquainted_def)
  obtain R' where R': "CheckResponse (cn_requests c) resp = Some (True, R')"
      "sr_events R' = sr_events (cn_requests c) @ [OnResponse q resp]"
    using CheckResponse_success [OF R(1), of resp q r] R m by auto
  define c' where "c' = OnConnectionRequestResponse now (Elapsed now r) (c\<lparr>cn_requests := R'\<rparr>)"
  have "conn_OnReadPacket sha1 now pa' ka (message_bytes resp) = Some (put_conn ka c' pa')"
    using c(1) get valid m(2) R' R(3)
    by (simp add: conn_OnReadPacket_def run_requests_def Let_def c'_def STUN_BINDING_RESPONSE_def STUN_BINDING_REQUEST_def
      del: if_split_asm)
  then show ?thesis
    by (simp add: c'_def OnConnectionRequestResponse_def set_state_def state_changes_keep Let_def RTT_RATIO_def)
qed

section \<open>Properties\<close>

text \<open>
  C4. A connectivity check succeeds, with the protocol of RFC 5245 and with the older Google protocol: let two
  ports have connections to each other that hold the credentials of the other port, with opposite roles in the
  case of RFC 5245. When one end pings, its request goes out as one packet to the address of the other end; the
  other end accepts it, answers with one packet to the address of its connection and becomes readable; and when
  the answer arrives, the connection that pinged becomes writable, its check has succeeded, the unanswered pings
  are forgotten and the round-trip estimate moves by a quarter towards the measured time.
\<close>

theorem connectivity_check_succeeds:
  assumes "peers pa ca pb cb" "pt_heap pa ka = Some ca" "cn_connected ca" "local_candidate pa ca \<noteq> None"
    "sr_struct (cn_requests ca)" "sr_heap (cn_requests ca) q = None" "map_of (sr_requests (cn_requests ca)) tid = None"
    "length tid = 12" "pt_heap pb kb = Some cb" "GetConnection pb (cd_address (cn_remote_candidate cb)) = Some kb"
    "ip_ok (sk_ip (cd_address (cn_remote_candidate cb)))" "digest_ok sha1" "dg_Size sha1 = 20"
  shows "\<exists>pa1 pa2 pa3 pb1 ca3 cb1 ping resp.
    Ping sha1 t0 pa ka q tid = Some pa1 \<and> request_OnMessage t1 pa1 ka q = Some pa2 \<and>
    pt_events pa2 = pt_events pa @ [SendTo ping (cd_address (cn_remote_candidate ca)) False] \<and>
    conn_OnReadPacket sha1 t2 pb kb ping = Some pb1 \<and> pt_heap pb1 kb = Some cb1 \<and> cn_read_state cb1 = STATE_READABLE \<and>
    pt_events pb1 = pt_events pb @ [SendTo resp (cd_address (cn_remote_candidate cb)) False] \<and>
    conn_OnReadPacket sha1 t3 pa2 ka resp = Some pa3 \<and> pt_heap pa3 ka = Some ca3 \<and>
    cn_write_state ca3 = STATE_WRITABLE \<and> cn_state ca3 = STATE_SUCCEEDED \<and> cn_pings_since_last_response ca3 = [] \<and>
    cn_rtt ca3 = (3 * cn_rtt ca + word_of_int (TimeDiff t3 t1)) div 4"
proof -
  have acq: "acquainted pa ca pb cb" using assms(1) by (simp add: peers_def)
  obtain pa1 c1 r m where 1: "Ping sha1 t0 pa ka q tid = Some pa1"
      "is_ping sha1 pa tid (ping_username pa ca cb) (pt_password pb) m" "pt_heap pa1 ka = Some c1"
      "pt_events pa1 = pt_events pa" "pt_ice_protocol pa1 = pt_ice_protocol pa"
      "cn_remote_candidate c1 = cn_remote_candidate ca" "cn_rtt c1 = cn_rtt ca" "sr_struct (cn_requests c1)"
      "sr_heap (cn_requests c1) q = Some r" "rq_managed r" "\<not> rq_timeout r" "rq_msg r = m"
      "map_of (sr_requests (cn_requests c1)) tid = Some q"
    using Ping_sent [OF assms(2-7) acq assms(8,12,13), of t0] by metis
  have "message_ok ice_vt (rq_msg r)" "sm_type (rq_msg r) = STUN_BINDING_REQUEST" using 1(2,12) by (simp_all add: is_ping_def)
  obtain pa2 R where 2: "request_OnMessage t1 pa1 ka q = Some pa2" "pt_heap pa2 ka = Some (c1\<lparr>cn_requests := R\<rparr>)"
      "pt_ice_protocol pa2 = pt_ice_protocol pa1"
      "pt_events pa2 = pt_events pa1 @ [SendTo (message_bytes (rq_msg r)) (cd_address (cn_remote_candidate c1)) False]"
      "sr_struct R" "sr_heap R q = Some (r\<lparr>rq_tstamp := t1, rq_timeout := True\<rparr>)" "sr_requests R = sr_requests (cn_requests c1)"
    using request_sent [OF 1(3,8-11) \<open>message_ok ice_vt (rq_msg r)\<close>, of t1] by blast
  obtain pb1 cb1 resp where 3: "conn_OnReadPacket sha1 t2 pb kb (message_bytes m) = Some pb1" "is_response sha1 pb tid resp"
      "pt_events pb1 = pt_events pb @ [SendTo (message_bytes resp) (cd_address (cn_remote_candidate cb)) False]"
      "pt_heap pb1 kb = Some cb1" "cn_read_state cb1 = STATE_READABLE"
    using ping_answered [OF 1(2) assms(8) acq peers_no_conflict [OF 1(2) assms(1)] assms(9) refl assms(10-13), of t2]
    by auto
  from response_accepted [OF 3(2) acq _ 2(2), of q "r\<lparr>rq_tstamp := t1, rq_timeout := True\<rparr>" t3]
  obtain pa3 ca3 where "conn_OnReadPacket sha1 t3 pa2 ka (message_bytes resp) = Some pa3" "pt_heap pa3 ka = Some ca3"
      "cn_write_state ca3 = STATE_WRITABLE" "cn_state ca3 = STATE_SUCCEEDED" "cn_pings_since_last_response ca3 = []"
      "cn_rtt ca3 = (3 * cn_rtt c1 + Elapsed t3 (r\<lparr>rq_tstamp := t1, rq_timeout := True\<rparr>)) div 4"
    using 1 2(3,5-7) \<open>sm_type (rq_msg r) = STUN_BINDING_REQUEST\<close> by auto
  with 1 2 3 show ?thesis by (fastforce simp: Elapsed_def TimeSince_def)
qed

definition example_candidate :: "byte \<Rightarrow> byte list \<Rightarrow> byte list \<Rightarrow> Candidate" where
  "example_candidate n frag pwd =
     \<lparr>cd_id = [n], cd_component = 1, cd_protocol = str ''udp'', cd_address = \<lparr>sk_ip = AF_INET [10, 0, 0, n], sk_port = 5000\<rparr>,
      cd_priority = 2113937151, cd_username = frag, cd_password = pwd, cd_type = LOCAL_PORT_TYPE, cd_network_name = [],
      cd_generation = 0, cd_foundation = [n], cd_related_address = \<lparr>sk_ip = AF_UNSPEC, sk_port = 0\<rparr>\<rparr>"

definition example_port :: "byte \<Rightarrow> transport_role \<Rightarrow> byte list \<Rightarrow> Candidate \<Rightarrow> Port" where
  "example_port n role frag remote =
     (the (Port_new LOCAL_PORT_TYPE 0 [] (AF_INET [10, 0, 0, n]) frag [n, n] False [] []))
       \<lparr>pt_ice_protocol := ICEPROTO_RFC5245, pt_role := role, pt_tiebreaker := ucast n,
        pt_candidates := [example_candidate n frag [n, n]], pt_connections := [(cd_address remote, 0)],
        pt_heap := [0 \<mapsto> Connection_new 0 remote]\<rparr>"

lemma empty_requests: "sr_struct StunRequestManager_new"
  using stun_start_inv by (simp add: sr_inv_def)

theorem connectivity_check_succeeds_witness:
  "\<exists>pa1 pa2 pa3 pb1 ca3 cb1 ping resp.
    Ping toy_digest 10 (example_port 1 ROLE_CONTROLLING [65] (example_candidate 2 [66] [2, 2])) 0 7 (replicate 12 9) = Some pa1 \<and>
    request_OnMessage 12 pa1 0 7 = Some pa2 \<and>
    pt_events pa2 = [SendTo ping \<lparr>sk_ip = AF_INET [10, 0, 0, 2], sk_port = 5000\<rparr> False] \<and>
    conn_OnReadPacket toy_digest 40 (example_port 2 ROLE_CONTROLLED [66] (example_candidate 1 [65] [1, 1])) 0 ping = Some pb1 \<and>
    pt_heap pb1 0 = Some cb1 \<and> cn_read_state cb1 = STATE_READABLE \<and>
    pt_events pb1 = [SendTo resp \<lparr>sk_ip = AF_INET [10, 0, 0, 1], sk_port = 5000\<rparr> False] \<and>
    conn_OnReadPacket toy_digest 112 pa2 0 resp = Some pa3 \<and> pt_heap pa3 0 = Some ca3 \<and>
    cn_write_state ca3 = STATE_WRITABLE \<and> cn_rtt ca3 = 2275"
proof -
  let ?pa = "example_port 1 ROLE_CONTROLLING [65] (example_candidate 2 [66] [2, 2])"
  let ?pb = "example_port 2 ROLE_CONTROLLED [66] (example_candidate 1 [65] [1, 1])"
  let ?ca = "Connection_new 0 (example_candidate 2 [66] [2, 2])" and ?cb = "Connection_new 0 (example_candidate 1 [65] [1, 1])"
  have p: "peers ?pa ?ca ?pb ?cb" "local_candidate ?pa ?ca \<noteq> None"
    by (simp_all add: peers_def acquainted_def example_port_def example_candidate_def Port_new_def Connection_new_def opposite_roles_def
      username_fragment_def local_candidate_def)
  have h: "pt_heap ?pa 0 = Some ?ca" "pt_heap ?pb 0 = Some ?cb" "pt_events ?pa = []" "pt_events ?pb = []"
      "GetConnection ?pb (cd_address (cn_remote_candidate ?cb)) = Some 0"
    by (simp_all add: example_port_def Port_new_def GetConnection_def Connection_new_def)
  have c: "cn_connected ?ca" "cn_requests ?ca = StunRequestManager_new" "cn_rtt ?ca = 3000"
      "ip_ok (sk_ip (cd_address (cn_remote_candidate ?cb)))" "cn_remote_candidate ?ca = example_candidate 2 [66] [2, 2]"
      "cn_remote_candidate ?cb = example_candidate 1 [65] [1, 1]"
    by (simp_all add: Connection_new_def example_candidate_def DEFAULT_RTT_def MAXIMUM_RTT_def)
  have r: "sr_heap StunRequestManager_new 7 = None" "map_of (sr_requests StunRequestManager_new) i = None" for i
    by (simp_all add: StunRequestManager_new_def)
  have "TimeDiff 112 12 = 100" by (simp add: TimeDiff_def)
  with connectivity_check_succeeds [OF p(1) h(1) c(1) p(2) _ _ _ _ h(2,5) c(4) toy_digest_ok, of 7 "replicate 12 9" 10 12 40 112]
  show ?thesis unfolding h(3,4) c(2,3,5,6) by (auto simp: empty_requests r example_candidate_def)
qed

end
