(* ===== verification/IceRoles.thy ===== *)
theory IceRoles
  imports IceCheck
begin

text \<open>
  Roles of the two ends with RFC 5245: role conflicts are resolved by the tiebreakers, and both ends compute
  the same priority for a pair of candidates.
\<close>

section \<open>The error response\<close>

definition role_error :: "message_digest \<Rightarrow> Port \<Rightarrow> byte list \<Rightarrow> stun_message \<Rightarrow> bool" where
  "role_error sha1 p tid m \<longleftrightarrow>
     message_ok stun_vt m \<and> sm_type m = STUN_BINDING_ERROR_RESPONSE \<and> sm_transaction_id m = tid \<and>
     GetErrorCode m = Some (4, 87) \<and> ValidateFingerprint (message_bytes m) \<and>
     ValidateMessageIntegrity sha1 (message_bytes m) (pt_password p) = Some True"

lemma error_response_sent:
  assumes "sm_type request = STUN_BINDING_REQUEST" "sm_transaction_id request = tid" "length tid = 12"
    "pt_ice_protocol p = ICEPROTO_RFC5245" and dg: "digest_ok sha1" "dg_Size sha1 = 20"
  shows "\<exists>m. role_error sha1 p tid m \<and>
    SendBindingErrorResponse sha1 p request addr STUN_ERROR_ROLE_CONFLICT STUN_ERROR_REASON_ROLE_CONFLICT =
      Some (port_signal (SendTo (message_bytes m) addr False) p)"
proof -
  let ?m0 = "StunMessage_new\<lparr>sm_type := STUN_BINDING_ERROR_RESPONSE, sm_transaction_id := tid\<rparr>"
  define a where "a = SetReason \<lparr>at_type = STUN_ATTR_ERROR_CODE, at_length = 4, at_value = ErrorCode 4 87 []\<rparr>
    STUN_ERROR_REASON_ROLE_CONFLICT"
  have a: "a = \<lparr>at_type = STUN_ATTR_ERROR_CODE, at_length = 17, at_value = ErrorCode 4 87 STUN_ERROR_REASON_ROLE_CONFLICT\<rparr>"
    by (simp add: a_def SetReason_def STUN_ERROR_REASON_ROLE_CONFLICT_def)
  have set: "snd (SetTransactionID (StunMessage_new\<lparr>sm_type := STUN_BINDING_ERROR_RESPONSE\<rparr>) tid) = ?m0"
    using assms(3) by (simp add: SetTransactionID_def IsValidTransactionId_def kStunTransactionIdLength_def)
  have code: "SetCode STUN_ERROR_ROLE_CONFLICT = (4, 87)" by (simp add: SetCode_def STUN_ERROR_ROLE_CONFLICT_def)
  have m0: "message_ok stun_vt ?m0" by (rule new_message_ok [OF assms(3)]) (simp add: STUN_BINDING_ERROR_RESPONSE_def)
  have r: "list_all (attr_ok stun_vt (sm_transaction_id ?m0)) [a]" "unat (sm_length ?m0) + sum_list (map attr_size [a]) < 2 ^ 16"
    by (simp_all add: a attr_ok_def StunMessage_GetAttributeValueType_def attr_type_defs attr_size_def pad4_def
      StunMessage_new_def STUN_ERROR_REASON_ROLE_CONFLICT_def)
  define m1 where "m1 = add_attrs stun_vt ?m0 [a]"
  note 1 = add_attrs_ok [OF m0 r, folded m1_def]
  have attrs: "sm_attrs m1 = [a]" "sm_transaction_id m1 = tid" "sm_type m1 = STUN_BINDING_ERROR_RESPONSE"
    using 1 by (simp_all add: StunMessage_new_def)
  have "unat (sm_length m1) + 32 < 2 ^ 16" using 1(5) by (simp add: StunMessage_new_def a attr_size_def pad4_def)
  moreover have "list_all (\<lambda>a. at_type a \<noteq> STUN_ATTR_MESSAGE_INTEGRITY) (sm_attrs m1)"
    by (simp add: attrs a attr_type_defs)
  moreover have "stun_vt \<in> message_classes" by (simp add: message_classes_def)
  ultimately obtain h k m2 where s:
      "snd (AddFingerprint stun_vt (snd (AddMessageIntegrity sha1 stun_vt m1 (pt_password p)))) = m2"
      "message_ok stun_vt m2" "sm_attrs m2 = sm_attrs m1 @ [mi_attr h, fp_attr k]" "sm_type m2 = sm_type m1"
      "sm_transaction_id m2 = sm_transaction_id m1"
      "ValidateMessageIntegrity sha1 (message_bytes m2) (pt_password p) = Some True"
      "ValidateFingerprint (message_bytes m2) = (\<not> IsLegacy m1)"
    using sign_message [OF _ 1(1) _ _ dg, of "pt_password p"] by metis
  have "role_error sha1 p tid m2" using s attrs assms(3)
    by (simp add: role_error_def IsLegacy_def kStunLegacyTransactionIdLength_def GetErrorCode_def GetAttribute_def a)
  moreover have "SendBindingErrorResponse sha1 p request addr STUN_ERROR_ROLE_CONFLICT STUN_ERROR_REASON_ROLE_CONFLICT =
      Some (port_signal (SendTo (message_bytes m2) addr False) p)"
    using assms(1,2,4) set code s(1) written_bytes [OF s(2)]
    by (simp add: SendBindingErrorResponse_def Let_def m1_def add_attrs_def a_def STUN_ERROR_ROLE_CONFLICT_def
      STUN_ERROR_BAD_REQUEST_def STUN_ERROR_UNAUTHORIZED_def)
  ultimately show ?thesis by blast
qed

section \<open>Conflicts\<close>

text \<open>The end that has to give up its role: the controlling one with the smaller tiebreaker, the controlled one
  with the larger.\<close>

definition must_switch :: "Port \<Rightarrow> Port \<Rightarrow> bool" where
  "must_switch p other = (if pt_role p = ROLE_CONTROLLING then pt_tiebreaker p < pt_tiebreaker other
     else pt_tiebreaker other < pt_tiebreaker p)"

lemma role_conflict:
  assumes "is_ping sha1 pa tid username pwd m" "pt_ice_protocol pa = ICEPROTO_RFC5245" "pt_role pb = pt_role pa"
    "pt_role pa \<noteq> ROLE_UNKNOWN" "pt_tiebreaker pa \<noteq> pt_tiebreaker pb" "username_fragment pb \<noteq> None"
  shows "MaybeIceRoleConflict sha1 pb addr m fa =
    (if must_switch pb pa then Some (True, port_signal SignalRoleConflict pb)
     else map_option (\<lambda>p. (False, p)) (SendBindingErrorResponse sha1 pb m addr STUN_ERROR_ROLE_CONFLICT
       STUN_ERROR_REASON_ROLE_CONFLICT))"
  using assms
  by (cases "pt_role pa") (auto simp: MaybeIceRoleConflict_def is_ping_def must_switch_def Let_def map_option_case
    word_le_less_eq split: option.split)

lemma CheckResponse_error:
  assumes "sr_struct R" "map_of (sr_requests R) (sm_transaction_id msg) = Some q" "sr_heap R q = Some r" "rq_managed r"
    "sm_type (rq_msg r) = STUN_BINDING_REQUEST" "sm_type msg = STUN_BINDING_ERROR_RESPONSE"
  shows "\<exists>R'. CheckResponse R msg = Some (True, R') \<and> sr_events R' = sr_events R @ [OnErrorResponse q msg]"
proof -
  have "uint (sm_type msg) = GetStunErrorResponseType (rq_type r)" "uint (sm_type msg) \<noteq> GetStunSuccessResponseType (rq_type r)"
    using assms(5,6) by (simp_all add: rq_type_def STUN_BINDING_REQUEST_def STUN_BINDING_ERROR_RESPONSE_def
      GetStunSuccessResponseType_def GetStunErrorResponseType_def IsStunRequestType_def kStunTypeMask_def)
  moreover have "sr_struct (log_event R (OnErrorResponse q msg))" using assms(1) by simp
  from delete_request_struct [OF this, of q r] assms(3,4)
  obtain R' where "delete_request (log_event R (OnErrorResponse q msg)) q = Some R'"
      "sr_events R' = sr_events R @ [OnErrorResponse q msg]"
    by (auto simp: log_event_def)
  ultimately show ?thesis using assms(2,3) by (auto simp: CheckResponse_def)
qed

lemma role_error_received:
  assumes err: "role_error sha1 pb tid m" and acq: "acquainted pa ca pb cb" "pt_ice_protocol pa = ICEPROTO_RFC5245"
      "pt_ice_protocol pa' = pt_ice_protocol pa"
    and c: "pt_heap pa' ka = Some c" "cn_remote_candidate c = cn_remote_candidate ca"
    and R: "sr_struct (cn_requests c)" "map_of (sr_requests (cn_requests c)) tid = Some q"
      "sr_heap (cn_requests c) q = Some r" "rq_managed r" "sm_type (rq_msg r) = STUN_BINDING_REQUEST"
  shows "\<exists>p c'. conn_OnReadPacket sha1 now pa' ka (message_bytes m) = Some p \<and> pt_heap p ka = Some c' \<and>
    pt_events p = pt_events pa' @ [SignalRoleConflict] \<and> cn_write_state c' = cn_write_state c"
proof -
  have m: "message_ok ice_vt m" "sm_type m = STUN_BINDING_ERROR_RESPONSE" "sm_transaction_id m = tid"
      "GetErrorCode m = Some (4, 87)"
    using err ice_message_ok by (auto simp: role_error_def)
  obtain b where "StunMessage_Read ice_vt (ByteBuffer_of (message_bytes m)) = Some (m, b)" "Length b = 0"
    using read_message_bytes [OF m(1)] by metis
  then have get: "GetStunMessage sha1 pa' (message_bytes m) addr = Some (Accepted m [], pa')" for addr
    using err acq m by (auto simp: GetStunMessage_def role_error_def STUN_BINDING_RESPONSE_def STUN_BINDING_REQUEST_def
      STUN_BINDING_ERROR_RESPONSE_def)
  have valid: "ValidateMessageIntegrity sha1 (message_bytes m) (cd_password (cn_remote_candidate c)) = Some True"
    using err acq c(2) by (auto simp: role_error_def acquainted_def)
  obtain R' where R': "CheckResponse (cn_requests c) m = Some (True, R')"
      "sr_events R' = sr_events (cn_requests c) @ [OnErrorResponse q m]"
    using CheckResponse_error [OF R(1), of m q r] R m by auto
  let ?c = "c\<lparr>cn_requests := R'\<rparr>"
  have "OnConnectionRequestErrorResponse pa' ?c m = HandleRoleConflictFromPeer pa' ?c"
    using acq(2,3) m(4) by (simp add: OnConnectionRequestErrorResponse_def error_code_def STUN_ERROR_UNKNOWN_ATTRIBUTE_def
      STUN_ERROR_SERVER_ERROR_def STUN_ERROR_UNAUTHORIZED_def STUN_ERROR_STALE_CREDENTIALS_def STUN_ERROR_ROLE_CONFLICT_def)
  then have "conn_OnReadPacket sha1 now pa' ka (message_bytes m) =
      Some (put_conn ka (snd (HandleRoleConflictFromPeer pa' ?c)) (fst (HandleRoleConflictFromPeer pa' ?c)))"
    using c(1) get valid m(2) R' acq(2,3)
    by (simp add: conn_OnReadPacket_def run_requests_def Let_def STUN_BINDING_ERROR_RESPONSE_def STUN_BINDING_REQUEST_def
      split: prod.split)
  then show ?thesis by (simp add: HandleRoleConflictFromPeer_def set_nominated_def)
qed

section \<open>Properties\<close>

text \<open>
  C5. Role conflicts of RFC 5245 are resolved: when two ports that know each other's credentials both believe to
  be controlling, or both to be controlled, and have different tiebreakers, then one ping makes exactly one
  of them signal that it has to change its role, so that the one with the larger tiebreaker is left controlling.
  If it is the receiver, it signals and still answers the ping; otherwise it answers with the error 487, and the
  sender signals when that arrives and keeps the connection.
\<close>

theorem role_conflict_resolved:
  assumes "acquainted pa ca pb cb" "pt_ice_protocol pa = ICEPROTO_RFC5245" "pt_role pb = pt_role pa"
    "pt_tiebreaker pa \<noteq> pt_tiebreaker pb"
    "pt_heap pa ka = Some ca" "cn_connected ca" "local_candidate pa ca \<noteq> None"
    "sr_struct (cn_requests ca)" "sr_heap (cn_requests ca) q = None" "map_of (sr_requests (cn_requests ca)) tid = None"
    "length tid = 12" "pt_heap pb kb = Some cb" "GetConnection pb (cd_address (cn_remote_candidate cb)) = Some kb"
    "ip_ok (sk_ip (cd_address (cn_remote_candidate cb)))" "digest_ok sha1" "dg_Size sha1 = 20"
  shows "\<exists>pa1 pa2 pa3 pb1 ping answer.
    Ping sha1 t0 pa ka q tid = Some pa1 \<and> request_OnMessage t1 pa1 ka q = Some pa2 \<and>
    pt_events pa2 = pt_events pa @ [SendTo ping (cd_address (cn_remote_candidate ca)) False] \<and>
    conn_OnReadPacket sha1 t2 pb kb ping = Some pb1 \<and> conn_OnReadPacket sha1 t3 pa2 ka answer = Some pa3 \<and>
    pt_events pb1 = pt_events pb @ (if must_switch pb pa then [SignalRoleConflict] else []) @
      [SendTo answer (cd_address (cn_remote_candidate cb)) False] \<and>
    must_switch pa pb = (\<not> must_switch pb pa) \<and>
    (must_switch pa pb \<longrightarrow> pt_events pa3 = pt_events pa2 @ [SignalRoleConflict]) \<and>
    (must_switch pb pa \<longrightarrow> pt_events pa3 = pt_events pa2)"
proof -
  let ?addr = "cd_address (cn_remote_candidate cb)"
  obtain pa1 c1 r m where 1: "Ping sha1 t0 pa ka q tid = Some pa1"
      "is_ping sha1 pa tid (ping_username pa ca cb) (pt_password pb) m" "pt_heap pa1 ka = Some c1"
      "pt_events pa1 = pt_events pa" "pt_ice_protocol pa1 = pt_ice_protocol pa"
      "cn_remote_candidate c1 = cn_remote_candidate ca" "cn_rtt c1 = cn_rtt ca" "sr_struct (cn_requests c1)"
      "sr_heap (cn_requests c1) q = Some r" "rq_managed r" "\<not> rq_timeout r" "rq_msg r = m"
      "map_of (sr_requests (cn_requests c1)) tid = Some q"
    using Ping_sent [OF assms(5-10,1,11,15,16), of t0] by metis
  have m: "message_ok ice_vt (rq_msg r)" "sm_type (rq_msg r) = STUN_BINDING_REQUEST" "sm_transaction_id m = tid"
    using 1(2,12) by (auto simp: is_ping_def)
  obtain pa2 R where 2: "request_OnMessage t1 pa1 ka q = Some pa2" "pt_heap pa2 ka = Some (c1\<lparr>cn_requests := R\<rparr>)"
      "pt_ice_protocol pa2 = pt_ice_protocol pa1"
      "pt_events pa2 = pt_events pa1 @ [SendTo (message_bytes (rq_msg r)) (cd_address (cn_remote_candidate c1)) False]"
      "sr_struct R" "sr_heap R q = Some (r\<lparr>rq_tstamp := t1, rq_timeout := True\<rparr>)" "sr_requests R = sr_requests (cn_requests c1)"
    using request_sent [OF 1(3,8-11) m(1), of t1] by blast
  have role: "pt_role pa \<noteq> ROLE_UNKNOWN" "pt_ice_protocol pb = ICEPROTO_RFC5245" "username_fragment pb \<noteq> None"
    using assms(1,2) by (auto simp: acquainted_def)
  note conflict = role_conflict [OF 1(2) assms(2,3) role(1) assms(4) role(3), of ?addr "cd_username (cn_remote_candidate cb)"]
  have switch: "must_switch pa pb = (\<not> must_switch pb pa)" using assms(3,4) by (auto simp: must_switch_def)
  show ?thesis
  proof (cases "must_switch pb pa")
    case True
    have "(if pt_ice_protocol pb = ICEPROTO_RFC5245
        then MaybeIceRoleConflict sha1 pb ?addr m (cd_username (cn_remote_candidate cb)) else Some (True, pb)) =
        Some (True, pb\<lparr>pt_events := pt_events pb @ [SignalRoleConflict]\<rparr>)"
      using conflict True role(2) by (simp add: port_signal_def)
    from ping_answered [OF 1(2) assms(11,1) this assms(12) refl assms(13-16), of t2] obtain pb1 resp where
      3: "conn_OnReadPacket sha1 t2 pb kb (message_bytes m) = Some pb1" "is_response sha1 pb tid resp"
        "pt_events pb1 = pt_events pb @ [SignalRoleConflict] @ [SendTo (message_bytes resp) ?addr False]" by blast
    from response_accepted [OF 3(2) assms(1) _ 2(2), of q "r\<lparr>rq_tstamp := t1, rq_timeout := True\<rparr>" t3] 1 2(3,5-7) m(2)
    obtain pa3 where "conn_OnReadPacket sha1 t3 pa2 ka (message_bytes resp) = Some pa3" "pt_events pa3 = pt_events pa2" by auto
    with 1 2 3 True switch show ?thesis by fastforce
  next
    case False
    obtain e where e: "role_error sha1 pb tid e" "SendBindingErrorResponse sha1 pb m ?addr STUN_ERROR_ROLE_CONFLICT
        STUN_ERROR_REASON_ROLE_CONFLICT = Some (port_signal (SendTo (message_bytes e) ?addr False) pb)"
      using error_response_sent [OF _ m(3) assms(11) role(2) assms(15,16), of ?addr] m(2) 1(12) by auto
    have 3: "conn_OnReadPacket sha1 t2 pb kb (message_bytes m) = Some (port_signal (SendTo (message_bytes e) ?addr False) pb)"
      using GetStunMessage_acquainted [OF 1(2) assms(1), of ?addr] conflict False e(2) assms(12) role(2) m(2) 1(12)
      by (simp add: conn_OnReadPacket_def Let_def)
    from role_error_received [OF e(1) assms(1,2) _ 2(2), of q "r\<lparr>rq_tstamp := t1, rq_timeout := True\<rparr>" t3] 1 2(3,5-7) m(2)
    obtain pa3 where "conn_OnReadPacket sha1 t3 pa2 ka (message_bytes e) = Some pa3"
        "pt_events pa3 = pt_events pa2 @ [SignalRoleConflict]" by auto
    with 1 2 3 False switch show ?thesis by fastforce
  qed
qed

theorem role_conflict_resolved_witness:
  "\<exists>pa1 pa2 pa3 pb1 ping answer.
    Ping toy_digest 10 (example_port 1 ROLE_CONTROLLING [65] (example_candidate 2 [66] [2, 2])) 0 7 (replicate 12 9) = Some pa1 \<and>
    request_OnMessage 12 pa1 0 7 = Some pa2 \<and>
    conn_OnReadPacket toy_digest 40 (example_port 2 ROLE_CONTROLLING [66] (example_candidate 1 [65] [1, 1])) 0 ping = Some pb1 \<and>
    pt_events pb1 = [SendTo answer \<lparr>sk_ip = AF_INET [10, 0, 0, 1], sk_port = 5000\<rparr> False] \<and>
    conn_OnReadPacket toy_digest 112 pa2 0 answer = Some pa3 \<and> pt_events pa3 = pt_events pa2 @ [SignalRoleConflict]"
proof -
  let ?pa = "example_port 1 ROLE_CONTROLLING [65] (example_candidate 2 [66] [2, 2])"
  let ?pb = "example_port 2 ROLE_CONTROLLING [66] (example_candidate 1 [65] [1, 1])"
  let ?ca = "Connection_new 0 (example_candidate 2 [66] [2, 2])" and ?cb = "Connection_new 0 (example_candidate 1 [65] [1, 1])"
  have p: "acquainted ?pa ?ca ?pb ?cb" "local_candidate ?pa ?ca \<noteq> None" "pt_ice_protocol ?pa = ICEPROTO_RFC5245"
      "pt_role ?pb = pt_role ?pa" "pt_tiebreaker ?pa \<noteq> pt_tiebreaker ?pb" "must_switch ?pa ?pb"
    by (simp_all add: acquainted_def example_port_def example_candidate_def Port_new_def Connection_new_def
      username_fragment_def local_candidate_def must_switch_def)
  have h: "pt_heap ?pa 0 = Some ?ca" "pt_heap ?pb 0 = Some ?cb" "pt_events ?pb = []"
      "GetConnection ?pb (cd_address (cn_remote_candidate ?cb)) = Some 0"
    by (simp_all add: example_port_def Port_new_def GetConnection_def Connection_new_def)
  have c: "cn_connected ?ca" "cn_requests ?ca = StunRequestManager_new"
      "ip_ok (sk_ip (cd_address (cn_remote_candidate ?cb)))"
      "cd_address (cn_remote_candidate ?cb) = \<lparr>sk_ip = AF_INET [10, 0, 0, 1], sk_port = 5000\<rparr>"
    by (simp_all add: Connection_new_def example_candidate_def)
  have r: "sr_heap StunRequestManager_new 7 = None" "map_of (sr_requests StunRequestManager_new) i = None" for i
    by (simp_all add: StunRequestManager_new_def)
  from role_conflict_resolved [OF p(1,3,4,5) h(1) c(1) p(2) _ _ _ _ h(2,4) c(3) toy_digest_ok, of 7 "replicate 12 9" 10 12 40 112]
  show ?thesis using p(6) unfolding h(3) c(2,4) by (fastforce simp: empty_requests r)
qed

lemma unat_pair:
  fixes a b :: u32
  shows "unat (push_bit 32 (ucast a) + ucast b :: u64) = 2 ^ 32 * unat a + unat b"
proof -
  have a: "unat a < 2 ^ 32" "unat b < 2 ^ 32" using unsigned_less [of a, where 'a = nat] unsigned_less [of b, where 'a = nat] by simp_all
  have u: "unat (ucast w :: u64) = unat w" for w :: u32
    using unsigned_less [of w, where 'a = nat] by (simp add: unsigned_ucast_eq take_bit_nat_eq_self)
  have "unat (push_bit 32 (ucast a) :: u64) = 2 ^ 32 * unat a"
    using a(1) by (simp add: push_bit_eq_mult unat_word_ariths u)
  then show ?thesis using a by (simp add: unat_word_ariths u)
qed

lemma unat_double:
  fixes a :: u32
  assumes "a < 2 ^ 31"
  shows "unat (2 * a + (if P then 1 else 0)) = 2 * unat a + (if P then 1 else 0)"
proof -
  have "unat a < 2 ^ 31" using assms by (simp add: word_less_nat_alt)
  then show ?thesis by (simp add: unat_word_ariths)
qed

text \<open>
  C10. The two ends of a connection with opposite roles compute the same priority for it, and as long as the
  priorities of the candidates stay below \<open>2 ^ 31\<close>, as RFC 5245 demands, it is the one of that RFC:
  \<open>2 ^ 32 * min G D + 2 * max G D + (if G > D then 1 else 0)\<close>, with \<open>G\<close> the priority of the controlling end's
  candidate and \<open>D\<close> of the controlled end's.
\<close>

theorem pair_priority_agrees:
  assumes "pt_role pa = ROLE_CONTROLLING" "pt_role pb = ROLE_CONTROLLED"
    "local_candidate pa ca = Some la" "local_candidate pb cb = Some lb"
    "cd_priority (cn_remote_candidate ca) = cd_priority lb" "cd_priority (cn_remote_candidate cb) = cd_priority la"
    "cd_priority la < 2 ^ 31" "cd_priority lb < 2 ^ 31"
  shows "\<exists>v. conn_priority pa ca = Some v \<and> conn_priority pb cb = Some v \<and>
    (let G = unat (cd_priority la); D = unat (cd_priority lb)
     in unat v = 2 ^ 32 * min G D + 2 * max G D + (if G > D then 1 else 0))"
proof -
  let ?g = "cd_priority la" and ?d = "cd_priority lb"
  have "max ?g ?d < 2 ^ 31" using assms(7,8) by (simp add: max_def)
  note d = unat_double [OF this, of "?g > ?d"]
  have "unat (min ?g ?d) = min (unat ?g) (unat ?d)" "unat (max ?g ?d) = max (unat ?g) (unat ?d)"
      "?d < ?g \<longleftrightarrow> unat ?d < unat ?g"
    by (auto simp: min_def max_def word_le_nat_alt word_less_nat_alt)
  then show ?thesis using assms(1-6) d
    by (simp add: conn_priority_def Let_def unat_pair)
qed

theorem pair_priority_agrees_witness:
  "\<exists>v. conn_priority (example_port 1 ROLE_CONTROLLING [65] (example_candidate 2 [66] [2, 2]))
      (Connection_new 0 (example_candidate 2 [66] [2, 2])) = Some v \<and>
    conn_priority (example_port 2 ROLE_CONTROLLED [66] (example_candidate 1 [65] [1, 1]))
      (Connection_new 0 (example_candidate 1 [65] [1, 1])) = Some v \<and> unat v = 9079290933572287998"
proof -
  let ?pa = "example_port 1 ROLE_CONTROLLING [65] (example_candidate 2 [66] [2, 2])"
  let ?pb = "example_port 2 ROLE_CONTROLLED [66] (example_candidate 1 [65] [1, 1])"
  let ?ca = "Connection_new 0 (example_candidate 2 [66] [2, 2])" and ?cb = "Connection_new 0 (example_candidate 1 [65] [1, 1])"
  have "pt_role ?pa = ROLE_CONTROLLING" "pt_role ?pb = ROLE_CONTROLLED"
      "local_candidate ?pa ?ca = Some (example_candidate 1 [65] [1, 1])"
      "local_candidate ?pb ?cb = Some (example_candidate 2 [66] [2, 2])"
    by (simp_all add: example_port_def Port_new_def local_candidate_def Connection_new_def)
  from pair_priority_agrees [OF this] show ?thesis by (simp add: Connection_new_def example_candidate_def Let_def)
qed

end
