(* ===== verification/IceStates.thy ===== *)
theory IceStates
  imports IceRoles
begin

text \<open>
  The states of a connection over time: which calls change them, that a connection that hears nothing is
  deleted, that the wrap-around of the clock deletes living ones too, and that a pruned connection stays out of
  use until it is pinged again.
\<close>

section \<open>Timeouts\<close>

lemma signals_kept:
  "set (cn_events c) \<subseteq> set (cn_events (set_write_state w c))" "set (cn_events c) \<subseteq> set (cn_events (set_read_state r c))"
  by (auto simp: set_write_state_def set_read_state_def conn_CheckTimeout_def cn_signal_def Let_def)

lemma write_timeout_deletes:
  assumes "cn_write_state c \<noteq> STATE_WRITE_TIMEOUT" "cn_read_state c \<noteq> STATE_READABLE"
  shows "PostDelete \<in> set (cn_events (set_write_state STATE_WRITE_TIMEOUT c))"
  using assms by (cases "cn_read_state c") (auto simp: set_write_state_def conn_CheckTimeout_def cn_signal_def Let_def)

lemma read_timeout_deletes:
  assumes "cn_write_state c = STATE_WRITE_TIMEOUT" "cn_read_state c \<noteq> STATE_READ_TIMEOUT"
  shows "PostDelete \<in> set (cn_events (set_read_state STATE_READ_TIMEOUT c))"
  using assms by (auto simp: set_read_state_def conn_CheckTimeout_def cn_signal_def Let_def)

text \<open>The three tests of \<^verbatim>\<open>UpdateState\<close>.\<close>

definition read_expired :: "u32 \<Rightarrow> Connection \<Rightarrow> bool" where
  "read_expired now c \<longleftrightarrow> cn_read_state c = STATE_READABLE \<and> cn_last_ping_received c + CONNECTION_READ_TIMEOUT \<le> now \<and>
     cn_last_data_received c + CONNECTION_READ_TIMEOUT \<le> now"

definition write_unreliable :: "u32 \<Rightarrow> Connection \<Rightarrow> bool" where
  "write_unreliable now c \<longleftrightarrow> cn_write_state c = STATE_WRITABLE \<and>
     TooManyFailures (cn_pings_since_last_response c) CONNECTION_WRITE_CONNECT_FAILURES
       (ConservativeRTTEstimate (cn_rtt c)) now \<and>
     TooLongWithoutResponse (cn_pings_since_last_response c) CONNECTION_WRITE_CONNECT_TIMEOUT now"

definition write_expired :: "u32 \<Rightarrow> Connection \<Rightarrow> bool" where
  "write_expired now c \<longleftrightarrow>
     (write_unreliable now c \<or> cn_write_state c = STATE_WRITE_UNRELIABLE \<or> cn_write_state c = STATE_WRITE_INIT) \<and>
     TooLongWithoutResponse (cn_pings_since_last_response c) CONNECTION_WRITE_TIMEOUT now"

lemma UpdateState_states:
  "cn_read_state (UpdateState now c) = (if read_expired now c then STATE_READ_TIMEOUT else cn_read_state c)"
  "cn_write_state (UpdateState now c) =
     (if write_expired now c then STATE_WRITE_TIMEOUT
      else if write_unreliable now c then STATE_WRITE_UNRELIABLE else cn_write_state c)"
  by (auto simp: UpdateState_def Let_def read_expired_def write_unreliable_def write_expired_def state_changes_keep)

lemma UpdateState_deletes:
  assumes "write_expired now c" "read_expired now c \<or> cn_read_state c \<noteq> STATE_READABLE"
  shows "PostDelete \<in> set (cn_events (UpdateState now c))"
proof -
  define c1 where "c1 = (if read_expired now c then set_read_state STATE_READ_TIMEOUT c else c)"
  define c2 where "c2 = (if write_unreliable now c then set_write_state STATE_WRITE_UNRELIABLE c1 else c1)"
  have "UpdateState now c = set_write_state STATE_WRITE_TIMEOUT c2"
    using assms(1) unfolding c2_def c1_def
    by (auto simp: UpdateState_def Let_def read_expired_def write_unreliable_def write_expired_def state_changes_keep)
  moreover have "cn_write_state c2 \<noteq> STATE_WRITE_TIMEOUT" "cn_read_state c2 \<noteq> STATE_READABLE"
    using assms by (auto simp: c2_def c1_def state_changes_keep write_expired_def write_unreliable_def read_expired_def)
  ultimately show ?thesis using write_timeout_deletes by simp
qed

text \<open>
  C8. A connection that hears nothing more is deleted: away from the wrap-around of the clock, let a connection
  that was readable and writable have sent at least five pings since the last response, the first of them more
  than 15 seconds ago and the fifth more than 3 seconds ago, and have received no ping and no data for 30 seconds.
  Then the next \<^verbatim>\<open>UpdateState\<close> times it out in both directions and posts its deletion.
\<close>

theorem silent_connection_deleted:
  assumes "cn_read_state c = STATE_READABLE" "cn_write_state c = STATE_WRITABLE"
    "5 \<le> length (cn_pings_since_last_response c)"
    "unat (cn_pings_since_last_response c ! 0) + 15000 < unat now"
    "unat (cn_pings_since_last_response c ! 4) + 3000 < unat now"
    "unat (cn_last_ping_received c) + 30000 \<le> unat now" "unat (cn_last_data_received c) + 30000 \<le> unat now"
  shows "cn_read_state (UpdateState now c) = STATE_READ_TIMEOUT \<and> cn_write_state (UpdateState now c) = STATE_WRITE_TIMEOUT \<and>
    PostDelete \<in> set (cn_events (UpdateState now c))"
proof -
  have now: "unat now < 2 ^ 32" using unsigned_less [of now, where 'a = nat] by simp
  have add: "unat (t + of_nat d) = unat t + d" if "unat t + d \<le> unat now" for t :: u32 and d
    using that now by (intro unat_add_small [THEN trans]) (auto simp: unat_of_nat_small)
  have rtt: "ConservativeRTTEstimate (cn_rtt c) \<le> 3000" "unat (ConservativeRTTEstimate (cn_rtt c)) \<le> 3000"
    by (auto simp: ConservativeRTTEstimate_def MINIMUM_RTT_def MAXIMUM_RTT_def max_def min_def word_le_nat_alt)
  have "unat (cn_pings_since_last_response c ! 4 + ConservativeRTTEstimate (cn_rtt c)) < unat now"
    using add [of "cn_pings_since_last_response c ! 4" "unat (ConservativeRTTEstimate (cn_rtt c))"] assms(5) rtt(2) by simp
  then have "TooManyFailures (cn_pings_since_last_response c) CONNECTION_WRITE_CONNECT_FAILURES
      (ConservativeRTTEstimate (cn_rtt c)) now"
    using assms(3) by (simp add: TooManyFailures_def CONNECTION_WRITE_CONNECT_FAILURES_def word_less_nat_alt)
  moreover have "TooLongWithoutResponse (cn_pings_since_last_response c) CONNECTION_WRITE_CONNECT_TIMEOUT now"
      "TooLongWithoutResponse (cn_pings_since_last_response c) CONNECTION_WRITE_TIMEOUT now"
    using assms(3,4) add [of "cn_pings_since_last_response c ! 0" 5000] add [of "cn_pings_since_last_response c ! 0" 15000]
    by (auto simp: TooLongWithoutResponse_def CONNECTION_WRITE_CONNECT_TIMEOUT_def CONNECTION_WRITE_TIMEOUT_def word_less_nat_alt)
  moreover have "read_expired now c"
    using assms(1,6,7) add [of _ 30000] by (simp add: read_expired_def CONNECTION_READ_TIMEOUT_def word_le_nat_alt)
  ultimately have "read_expired now c" "write_expired now c" using assms(2) by (simp_all add: write_expired_def write_unreliable_def)
  then show ?thesis using UpdateState_deletes UpdateState_states by simp
qed

definition example_silent :: Connection where
  "example_silent = (Connection_new 0 (example_candidate 2 [66] [2, 2]))
     \<lparr>cn_read_state := STATE_READABLE, cn_write_state := STATE_WRITABLE,
      cn_pings_since_last_response := [1000, 2000, 3000, 4000, 5000]\<rparr>"

theorem silent_connection_deleted_witness:
  "PostDelete \<in> set (cn_events (UpdateState 40000 example_silent))"
  using silent_connection_deleted [of example_silent 40000] by (simp add: example_silent_def Connection_new_def)

text \<open>
  C9. The timeouts are computed without regard to the wrap-around of the clock: in the last 15 seconds before it,
  a connection that has this very moment been pinged by the other side and sent its first ping is timed out in
  both directions by \<^verbatim>\<open>UpdateState\<close>, and its deletion is posted.
\<close>

theorem connection_dies_at_wrap:
  assumes "2 ^ 32 - 15000 \<le> unat now" "cn_read_state c = STATE_READABLE" "cn_last_ping_received c = now"
    "cn_last_data_received c = 0 \<or> cn_last_data_received c = now"
    "cn_write_state c = STATE_WRITE_INIT" "cn_pings_since_last_response c = [now]"
  shows "cn_read_state (UpdateState now c) = STATE_READ_TIMEOUT \<and> cn_write_state (UpdateState now c) = STATE_WRITE_TIMEOUT \<and>
    PostDelete \<in> set (cn_events (UpdateState now c))"
proof -
  have now: "unat now < 2 ^ 32" using unsigned_less [of now, where 'a = nat] by simp
  have wrap: "unat (now + of_nat d) = unat now + d - 2 ^ 32" if "15000 \<le> d" "d \<le> 30000" for d
    using assms(1) now that by (simp add: unat_word_ariths unat_of_nat_small) (simp add: mod_if)
  have "read_expired now c" using assms wrap [of 30000] now
    by (auto simp: read_expired_def CONNECTION_READ_TIMEOUT_def word_le_nat_alt)
  moreover have "write_expired now c" using assms wrap [of 15000] now
    by (simp add: write_expired_def TooLongWithoutResponse_def CONNECTION_WRITE_TIMEOUT_def word_less_nat_alt)
  ultimately show ?thesis using UpdateState_deletes UpdateState_states by simp
qed

definition example_late :: Connection where
  "example_late = (Connection_new 0 (example_candidate 2 [66] [2, 2]))
     \<lparr>cn_read_state := STATE_READABLE, cn_last_ping_received := 4294960000, cn_pings_since_last_response := [4294960000]\<rparr>"

theorem connection_dies_at_wrap_witness:
  "PostDelete \<in> set (cn_events (UpdateState 4294960000 example_late))"
  using connection_dies_at_wrap [of 4294960000 example_late] by (simp add: example_late_def Connection_new_def)

end
