(* ===== verification/IcePortSafety.thy ===== *)
theory IcePortSafety
  imports IceStates Transition
begin

text \<open>
  A port and its connections as a transition system: whatever packets arrive, no assertion of the code fails
  and no deleted object is used, except for the packets that the integrity check reads behind.
\<close>

section \<open>Requests\<close>

lemma delete_logged:
  assumes "sr_struct R" "sr_heap R q = Some r" "rq_managed r"
  shows "\<exists>R'. delete_request (log_event R e) q = Some R' \<and> sr_struct R'"
proof -
  have "sr_struct (log_event R e)" using assms(1) by simp
  moreover have "sr_heap (log_event R e) q = Some r" using assms(2) by (simp add: log_event_def)
  ultimately show ?thesis using delete_request_struct assms(3) by blast
qed

lemma CheckResponse_struct:
  assumes "sr_struct R"
  shows "\<exists>ok R'. CheckResponse R msg = Some (ok, R') \<and> sr_struct R' \<and> (sr_requests R = [] \<longrightarrow> R' = R)"
proof (cases "map_of (sr_requests R) (sm_transaction_id msg)")
  case (Some q)
  from sr_struct_found [OF assms Some] obtain r where r: "sr_heap R q = Some r" "rq_managed r" by blast
  have "\<exists>R'. delete_request (log_event R e) q = Some R' \<and> sr_struct R'" for e
    by (rule delete_logged [OF assms r])
  then show ?thesis using Some r(1) assms by (fastforce simp: CheckResponse_def)
qed (use assms in \<open>auto simp: CheckResponse_def\<close>)

lemma delete_all_struct:
  assumes "sr_struct R" "distinct ps" "\<forall>p\<in>set ps. managed R p"
  shows "\<exists>R'. delete_all R ps = Some R' \<and> sr_struct R' \<and>
    (\<forall>p. sr_heap R' p = (if p \<in> set ps then None else sr_heap R p))"
  using assms
proof (induction ps arbitrary: R)
  case (Cons p ps)
  obtain r where "sr_heap R p = Some r" "rq_managed r" using Cons.prems(3) by (auto simp: managed_def)
  from delete_request_struct [OF Cons.prems(1) this] obtain u
    where u: "delete_request R p = Some u" "sr_struct u" "sr_heap u = (sr_heap R)(p := None)" by blast
  have "\<forall>x\<in>set ps. managed u x" using Cons.prems(2,3) u(3) by (auto simp: managed_def)
  from Cons.IH [OF u(2) _ this] Cons.prems(2) obtain R' where "delete_all u ps = Some R'" "sr_struct R'"
      "\<forall>p. sr_heap R' p = (if p \<in> set ps then None else sr_heap u p)" by auto
  with u(1,3) show ?case by auto
qed simp

lemma sr_Clear_struct:
  assumes "sr_struct R"
  shows "\<exists>R'. sr_Clear R = Some R' \<and> sr_struct R' \<and> sr_requests R' = []"
proof -
  have "\<forall>p\<in>set (map snd (sr_requests R)). managed R p" using assms by (auto simp: sr_struct_def managed_def)
  from delete_all_struct [OF assms sr_struct_distinct [OF assms] this] obtain R' where
    R': "sr_Clear R = Some R'" "sr_struct R'"
      "\<forall>p. sr_heap R' p = (if p \<in> snd ` set (sr_requests R) then None else sr_heap R p)"
    by (auto simp: sr_Clear_def)
  have "(i, p) \<notin> set (sr_requests R')" for i p
  proof
    assume "(i, p) \<in> set (sr_requests R')"
    then obtain r where r: "sr_heap R' p = Some r" "rq_managed r" using R'(2) unfolding sr_struct_def by blast
    then have "sr_heap R p = Some r" "p \<notin> snd ` set (sr_requests R)" using R'(3) by (auto split: if_splits)
    moreover from this r(2) assms have "(rq_id r, p) \<in> set (sr_requests R)" unfolding sr_struct_def by blast
    ultimately show False by force
  qed
  then have "sr_requests R' = []" by (metis list.set_intros(1) neq_Nil_conv surj_pair)
  with R' show ?thesis by blast
qed

lemma rq_OnMessage_by_struct:
  assumes "sr_struct R" "managed R q"
  shows "\<exists>R'. rq_OnMessage_by ConnectionRequest_GetNextDelay now R q = Some R' \<and> sr_struct R'"
proof -
  obtain r where r: "sr_heap R q = Some r" "rq_managed r" using assms(2) by (auto simp: managed_def)
  show ?thesis
  proof (cases "rq_timeout r")
    case True
    then show ?thesis using delete_logged [OF assms(1) r, of "OnTimeout q"] r by (simp add: rq_OnMessage_by_def)
  next
    case False
    define r' where "r' = snd (ConnectionRequest_GetNextDelay (r\<lparr>rq_tstamp := now\<rparr>))"
    have "rq_managed r'" "rq_id r' = rq_id r" using r(2) by (simp_all add: r'_def ConnectionRequest_GetNextDelay_def rq_id_def)
    with rq_OnMessage_struct [where next_delay = ConnectionRequest_GetNextDelay, OF assms(1) r False r'_def]
    show ?thesis by blast
  qed
qed

section \<open>What a call keeps\<close>

text \<open>A connection is dormant after it was pruned: without a request nothing makes it writable.\<close>

definition dormant :: "Connection \<Rightarrow> bool" where
  "dormant c \<longleftrightarrow> cn_pruned c \<and> cn_write_state c = STATE_WRITE_TIMEOUT \<and> sr_requests (cn_requests c) = []"

definition conn_kept :: "Connection \<Rightarrow> Connection \<Rightarrow> bool" where
  "conn_kept c c' \<longleftrightarrow> cn_remote_candidate c' = cn_remote_candidate c \<and>
     cn_local_candidate_index c' = cn_local_candidate_index c \<and>
     (sr_struct (cn_requests c) \<longrightarrow> sr_struct (cn_requests c'))"

definition is_timeout :: "port_event \<Rightarrow> bool" where
  "is_timeout e = (case e of PostCheckTimeout _ \<Rightarrow> True | _ \<Rightarrow> False)"

definition timeouts :: "Port \<Rightarrow> nat" where
  "timeouts p = length (filter is_timeout (pt_events p))"

text \<open>The port is only touched in its events and in its connections, and the connections outside of \<open>K\<close> stay
  dormant.\<close>

definition only_events :: "Port \<Rightarrow> Port \<Rightarrow> bool" where
  "only_events p p' \<longleftrightarrow> (\<exists>es. p' = p\<lparr>pt_events := pt_events p @ es\<rparr> \<and> filter is_timeout es = [])"

definition frame :: "nat set \<Rightarrow> Port \<Rightarrow> Port \<Rightarrow> bool" where
  "frame K p p' \<longleftrightarrow> only_events (p\<lparr>pt_heap := pt_heap p'\<rparr>) p' \<and>
     (\<forall>k. rel_option conn_kept (pt_heap p k) (pt_heap p' k)) \<and>
     (\<forall>k c c'. k \<notin> K \<longrightarrow> pt_heap p k = Some c \<longrightarrow> pt_heap p' k = Some c' \<longrightarrow> sr_struct (cn_requests c) \<longrightarrow>
        dormant c \<longrightarrow> dormant c')"

lemma only_events_refl [simp]: "only_events p p"
  by (auto simp: only_events_def intro: exI [of _ "[]"])

lemma only_events_signal [simp]: "\<not> is_timeout e \<Longrightarrow> only_events p (port_signal e p)"
  by (auto simp: only_events_def port_signal_def)

lemma only_events_trans: "only_events p q \<Longrightarrow> only_events q r \<Longrightarrow> only_events p r"
  by (fastforce simp: only_events_def)

lemma only_events_fields:
  assumes "only_events p p'"
  shows "pt_heap p' = pt_heap p" "pt_ice_protocol p' = pt_ice_protocol p" "pt_role p' = pt_role p"
    "pt_connections p' = pt_connections p" "pt_candidates p' = pt_candidates p" "pt_lifetime p' = pt_lifetime p"
    "timeouts p' = timeouts p" "username_fragment p' = username_fragment p" "pt_password p' = pt_password p"
  using assms by (auto simp: only_events_def timeouts_def username_fragment_def)

lemma conn_kept_refl [simp]: "conn_kept c c"
  by (simp add: conn_kept_def)

lemma frame_events: "only_events p p' \<Longrightarrow> frame K p p'"
  using only_events_fields(1) [of p p'] by (simp add: frame_def option.rel_refl)

lemma frame_put:
  assumes "only_events p q" "pt_heap p k = Some c" "conn_kept c c'" "sr_struct (cn_requests c) \<Longrightarrow> k \<notin> K \<Longrightarrow> dormant c \<Longrightarrow> dormant c'"
  shows "frame K p (put_conn k c' q)"
proof -
  have "only_events (p\<lparr>pt_heap := (pt_heap p)(k \<mapsto> c')\<rparr>) (put_conn k c' q)"
    using assms(1) by (auto simp: only_events_def put_conn_def intro!: exI [where x = "drop (length (pt_events p)) (pt_events q)"])
  then show ?thesis using assms only_events_fields(1) [OF assms(1)]
    by (auto simp: frame_def put_conn_def option.rel_refl)
qed

lemma frame_after_events:
  assumes "frame K q r" "only_events p q"
  shows "frame K p r"
proof -
  have "only_events (p\<lparr>pt_heap := pt_heap r\<rparr>) (q\<lparr>pt_heap := pt_heap r\<rparr>)"
    using assms(2) by (auto simp: only_events_def intro!: exI [where x = "drop (length (pt_events p)) (pt_events q)"])
  then show ?thesis using assms(1) only_events_fields(1) [OF assms(2)] only_events_trans
    by (auto simp: frame_def)
qed

section \<open>The invariant\<close>

definition ice_inv :: "Port \<Rightarrow> bool" where
  "ice_inv p \<longleftrightarrow> username_fragment p \<noteq> None \<and> (pt_ice_protocol p = ICEPROTO_RFC5245 \<longrightarrow> pt_role p \<noteq> ROLE_UNKNOWN) \<and>
     distinct (map fst (pt_connections p)) \<and>
     (\<forall>a k. (a, k) \<in> set (pt_connections p) \<longleftrightarrow>
        (\<exists>c. pt_heap p k = Some c \<and> cd_address (cn_remote_candidate c) = a)) \<and>
     (\<forall>k c. pt_heap p k = Some c \<longrightarrow> sr_struct (cn_requests c) \<and>
        cn_local_candidate_index c < length (pt_candidates p))"

lemma ice_inv_frame:
  assumes "ice_inv p" "frame K p p'"
  shows "ice_inv p'"
proof -
  note fields = only_events_fields [of "p\<lparr>pt_heap := pt_heap p'\<rparr>" p']
  have same: "username_fragment p' = username_fragment p" "pt_ice_protocol p' = pt_ice_protocol p"
      "pt_role p' = pt_role p" "pt_connections p' = pt_connections p" "pt_candidates p' = pt_candidates p"
    using fields assms(2) by (auto simp: frame_def username_fragment_def)
  have rel: "rel_option conn_kept (pt_heap p k) (pt_heap p' k)" for k using assms(2) by (simp add: frame_def)
  have backward: "\<exists>c. pt_heap p k = Some c \<and> conn_kept c c'" if "pt_heap p' k = Some c'" for k c'
    using rel [of k] that by (cases "pt_heap p k") auto
  have forward: "\<exists>c'. pt_heap p' k = Some c' \<and> conn_kept c c'" if "pt_heap p k = Some c" for k c
    using rel [of k] that by (cases "pt_heap p' k") auto
  have heap: "(\<exists>c. pt_heap p' k = Some c \<and> cd_address (cn_remote_candidate c) = a) \<longleftrightarrow>
      (\<exists>c. pt_heap p k = Some c \<and> cd_address (cn_remote_candidate c) = a)" for a k
    using backward forward unfolding conn_kept_def by metis
  have "sr_struct (cn_requests c') \<and> cn_local_candidate_index c' < length (pt_candidates p)"
    if "pt_heap p' k = Some c'" for k c'
    using backward [OF that] assms(1) by (auto simp: ice_inv_def conn_kept_def)
  then show ?thesis using assms(1) same heap by (simp add: ice_inv_def)
qed

lemma username_fragment_update [simp]:
  "username_fragment (p\<lparr>pt_lifetime := v\<rparr>) = username_fragment p" "username_fragment (p\<lparr>pt_candidates := cs\<rparr>) = username_fragment p"
  "username_fragment (p\<lparr>pt_connections := ks\<rparr>) = username_fragment p" "username_fragment (p\<lparr>pt_heap := h\<rparr>) = username_fragment p"
  "username_fragment (p\<lparr>pt_role := role\<rparr>) = username_fragment p" "username_fragment (p\<lparr>pt_events := es\<rparr>) = username_fragment p"
  by (simp_all add: username_fragment_def)

lemma ice_inv_requests: "ice_inv p \<Longrightarrow> pt_heap p k = Some c \<Longrightarrow> sr_struct (cn_requests c)"
  by (auto simp: ice_inv_def)

lemma ice_inv_lookup:
  assumes "ice_inv p" "pt_heap p k = Some c"
  shows "GetConnection p (cd_address (cn_remote_candidate c)) = Some k"
proof -
  have "(cd_address (cn_remote_candidate c), k) \<in> set (pt_connections p)" "distinct (map fst (pt_connections p))"
    using assms unfolding ice_inv_def by blast+
  then show ?thesis by (simp add: GetConnection_def)
qed

section \<open>Packets\<close>

lemma error_response_defined:
  "sm_type m = STUN_BINDING_REQUEST \<Longrightarrow>
    \<exists>data. SendBindingErrorResponse sha1 p m addr code reason = Some (port_signal (SendTo data addr False) p)"
  by (unfold SendBindingErrorResponse_def Let_def) (auto simp only: if_False not_not simp_thms split: prod.split)

lemma is_timeout_simps [simp]:
  "\<not> is_timeout (SendTo d a b)" "\<not> is_timeout SignalRoleConflict" "\<not> is_timeout (PortReadPacket d a)"
  "\<not> is_timeout (SignalUnknownAddress a pr m d)" "\<not> is_timeout (SignalCandidateReady cd)"
  "\<not> is_timeout SignalAddressReady" "\<not> is_timeout (SignalConnectionCreated k)" "\<not> is_timeout PortDestroyed"
  "is_timeout (PostCheckTimeout n)"
  by (simp_all add: is_timeout_def)

definition binding_types :: "u16 set" where
  "binding_types = {STUN_BINDING_REQUEST, STUN_BINDING_RESPONSE, STUN_BINDING_ERROR_RESPONSE, STUN_BINDING_INDICATION}"

lemma GetStunMessage_defined:
  assumes "username_fragment p \<noteq> None"
    "pt_ice_protocol p = ICEPROTO_RFC5245 \<Longrightarrow> ValidateMessageIntegrity sha1 data (pt_password p) \<noteq> None"
  shows "\<exists>r p'. GetStunMessage sha1 p data addr = Some (r, p') \<and> only_events p p' \<and>
    (\<forall>m u. r = Accepted m u \<longrightarrow> sm_type m \<in> binding_types \<and>
      (sm_type m = STUN_BINDING_REQUEST \<longrightarrow> GetByteString m STUN_ATTR_USERNAME \<noteq> None))"
proof (cases "pt_ice_protocol p = ICEPROTO_RFC5245 \<and> \<not> ValidateFingerprint data")
  case False
  show ?thesis
  proof (cases "StunMessage_Read ice_vt (ByteBuffer_of data)")
    case (Some x)
    obtain m b where x: "x = (m, b)" by fastforce
    obtain frag where frag: "username_fragment p = Some frag" using assms(1) by auto
    obtain ok l r where parse: "ParseStunUsername p m = Some (ok, l, r)"
      using frag by (cases "ParseStunUsername p m") (auto simp: ParseStunUsername_def split: option.splits if_splits)
    obtain valid where valid: "(if pt_ice_protocol p = ICEPROTO_RFC5245
        then ValidateMessageIntegrity sha1 data (pt_password p) else Some True) = Some valid"
      using assms(2) by (cases "pt_ice_protocol p = ICEPROTO_RFC5245") auto
    note err = error_response_defined [of m sha1 p addr]
    have types: "distinct [STUN_BINDING_REQUEST, STUN_BINDING_RESPONSE, STUN_BINDING_ERROR_RESPONSE, STUN_BINDING_INDICATION]"
      by (simp add: STUN_BINDING_REQUEST_def STUN_BINDING_RESPONSE_def STUN_BINDING_ERROR_RESPONSE_def
        STUN_BINDING_INDICATION_def)
    show ?thesis
    proof (cases "sm_type m = STUN_BINDING_REQUEST \<and> Length b = 0")
      case True
      with err obtain d1 d2 where
        "SendBindingErrorResponse sha1 p m addr STUN_ERROR_BAD_REQUEST STUN_ERROR_REASON_BAD_REQUEST =
          Some (port_signal (SendTo d1 addr False) p)"
        "SendBindingErrorResponse sha1 p m addr STUN_ERROR_UNAUTHORIZED STUN_ERROR_REASON_UNAUTHORIZED =
          Some (port_signal (SendTo d2 addr False) p)" by metis
      then show ?thesis using True False Some x parse valid assms(1)
        unfolding GetStunMessage_def by (auto simp: binding_types_def)
    next
      case other: False
      then show ?thesis using False Some x types unfolding GetStunMessage_def by (auto simp: binding_types_def)
    qed
  qed (use False in \<open>auto simp: GetStunMessage_def\<close>)
qed (auto simp: GetStunMessage_def)

lemma MaybeIceRoleConflict_defined:
  assumes "username_fragment p \<noteq> None" "pt_role p \<noteq> ROLE_UNKNOWN" "sm_type m = STUN_BINDING_REQUEST"
  shows "\<exists>ok p'. MaybeIceRoleConflict sha1 p addr m u = Some (ok, p') \<and> only_events p p'"
proof -
  obtain frag where frag: "username_fragment p = Some frag" using assms(1) by auto
  obtain d where d: "SendBindingErrorResponse sha1 p m addr STUN_ERROR_ROLE_CONFLICT STUN_ERROR_REASON_ROLE_CONFLICT =
      Some (port_signal (SendTo d addr False) p)" using error_response_defined [OF assms(3)] by blast
  obtain rr rt where "(case GetUInt64 m STUN_ATTR_ICE_CONTROLLED of
                 Some v \<Rightarrow> (ROLE_CONTROLLED, v)
               | None \<Rightarrow> (case GetUInt64 m STUN_ATTR_ICE_CONTROLLING of
                   Some v \<Rightarrow> (ROLE_CONTROLLING, v) | None \<Rightarrow> (ROLE_UNKNOWN, 0))) = (rr, rt)" by fastforce
  with frag d assms(2) show ?thesis by (cases "pt_role p") (auto simp: MaybeIceRoleConflict_def Let_def)
qed

lemma set_states_kept [simp]:
  "conn_kept c (set_write_state v c')= conn_kept c c'" "conn_kept c (set_read_state w c') = conn_kept c c'"
  "conn_kept c (cn_signal e c') = conn_kept c c'"
  by (simp_all add: conn_kept_def set_write_state_def set_read_state_def conn_CheckTimeout_def cn_signal_def Let_def)

lemma set_states_dormant [simp]:
  "dormant (set_read_state w c) = dormant c" "dormant (cn_signal e c) = dormant c"
  "dormant (set_write_state v c) \<longleftrightarrow> v = STATE_WRITE_TIMEOUT \<and> cn_pruned c \<and> sr_requests (cn_requests c) = []"
  by (auto simp: dormant_def set_write_state_def set_read_state_def conn_CheckTimeout_def cn_signal_def Let_def)

lemma ReceivedPing_kept: "conn_kept c (ReceivedPing now c)" "dormant (ReceivedPing now c) = dormant c"
  by (auto simp: ReceivedPing_def) (auto simp: conn_kept_def dormant_def)

lemma SendBindingResponse_defined:
  assumes "ice_inv p" "pt_heap p k = Some c" "addr = cd_address (cn_remote_candidate c)"
    "sm_type m = STUN_BINDING_REQUEST" "GetByteString m STUN_ATTR_USERNAME \<noteq> None"
  shows "\<exists>q. SendBindingResponse sha1 now p m addr = Some (put_conn k (ReceivedPing now c) q) \<and> only_events p q"
proof -
  have "GetConnection (port_signal e p) addr = Some k" "pt_heap (port_signal e p) k = Some c" for e
    using ice_inv_lookup [OF assms(1,2)] assms(2,3) by (simp_all add: GetConnection_def port_signal_def)
  then show ?thesis using assms(4,5) by (auto simp: SendBindingResponse_def)
qed

section \<open>Callbacks\<close>

lemma OnConnectionRequestErrorResponse_kept:
  assumes "OnConnectionRequestErrorResponse p c m = (p', c')"
  shows "only_events p p' \<and> conn_kept c c' \<and> cn_requests c' = cn_requests c"
  using assms
  by (auto simp: OnConnectionRequestErrorResponse_def HandleRoleConflictFromPeer_def conn_failed_def Let_def
      conn_kept_def set_nominated_def set_state_def set_write_state_def conn_CheckTimeout_def cn_signal_def
      split: if_splits)

lemma conn_callback_kept:
  assumes "conn_callback now R (p, c) e = (p', c')"
  shows "only_events p p' \<and> conn_kept c c' \<and> cn_requests c' = cn_requests c"
proof (cases e)
  case (OnErrorResponse q m)
  then show ?thesis using assms OnConnectionRequestErrorResponse_kept by simp
next
  case (OnResponse q m)
  then show ?thesis using assms
    by (auto simp: OnConnectionRequestResponse_def set_state_def conn_kept_def Let_def set_write_state_def
        conn_CheckTimeout_def cn_signal_def split: option.splits)
qed (use assms in auto)

lemma conn_kept_trans: "conn_kept a b \<Longrightarrow> conn_kept b c \<Longrightarrow> conn_kept a c"
  by (auto simp: conn_kept_def)

lemma callbacks_kept:
  "foldl (conn_callback now R) (p, c) es = (p', c') \<Longrightarrow>
    only_events p p' \<and> conn_kept c c' \<and> cn_requests c' = cn_requests c"
proof (induction es arbitrary: p c)
  case (Cons e es)
  obtain q d where q: "conn_callback now R (p, c) e = (q, d)" by fastforce
  with Cons.prems have "foldl (conn_callback now R) (q, d) es = (p', c')" by simp
  from Cons.IH [OF this] conn_callback_kept [OF q] show ?case
    using only_events_trans conn_kept_trans by (metis (no_types, lifting))
qed simp

lemma run_requests_frame:
  assumes "pt_heap p k = Some c" "f (cn_requests c) = Some R" "sr_struct (cn_requests c) \<Longrightarrow> sr_struct R"
    "sr_struct (cn_requests c) \<Longrightarrow> sr_requests (cn_requests c) = [] \<Longrightarrow> R = cn_requests c"
  shows "\<exists>p'. run_requests now p k f = Some p' \<and> frame {} p p'"
proof -
  let ?es = "drop (length (sr_events (cn_requests c))) (sr_events R)"
  obtain q c' where fold: "foldl (conn_callback now (cn_requests c)) (p, c\<lparr>cn_requests := R\<rparr>) ?es = (q, c')" by fastforce
  from callbacks_kept [OF this] have q: "only_events p q" "conn_kept (c\<lparr>cn_requests := R\<rparr>) c'" by auto
  have "frame {} p (put_conn k c' q)"
  proof (rule frame_put [OF q(1) assms(1)])
    show "conn_kept c c'" using q(2) assms(3) by (auto simp: conn_kept_def)
  next
    assume "sr_struct (cn_requests c)" "dormant c"
    moreover from this have "R = cn_requests c" using assms(4) by (simp add: dormant_def)
    ultimately show "dormant c'" using fold by simp
  qed
  then show ?thesis using assms(1,2) fold by (simp add: run_requests_def)
qed

section \<open>The calls\<close>

lemma data_received_kept: "conn_kept c (data_received now d c)" "dormant c \<Longrightarrow> dormant (data_received now d c)"
proof -
  let ?c = "cn_signal (SignalReadPacket d) (c\<lparr>cn_last_data_received := now, cn_recv_total := cn_recv_total c + length d\<rparr>)"
  have c: "conn_kept c ?c" "cn_pruned ?c = cn_pruned c" by (simp, simp add: conn_kept_def, simp add: cn_signal_def)
  then show "conn_kept c (data_received now d c)" by (auto simp: data_received_def Let_def)
  assume "dormant c"
  moreover from this have "cn_pruned ?c" "dormant ?c" using c(2) by (auto simp: dormant_def cn_signal_def)
  ultimately show "dormant (data_received now d c)" by (simp add: data_received_def Let_def)
qed

lemma conn_request_frame:
  assumes inv: "ice_inv p" and c: "pt_heap p k = Some c" and only: "only_events p p'"
    and m: "sm_type m = STUN_BINDING_REQUEST" "GetByteString m STUN_ATTR_USERNAME \<noteq> None"
  shows "\<exists>q. (do { p \<leftarrow> SendBindingResponse sha1 now p' m (cd_address (cn_remote_candidate c));
                 c \<leftarrow> pt_heap p k;
                 let c = (if \<not> cn_pruned c \<and> cn_write_state c = STATE_WRITE_TIMEOUT
                          then set_write_state STATE_WRITE_INIT c else c);
                 let c = (if pt_ice_protocol p = ICEPROTO_RFC5245 \<and> pt_role p = ROLE_CONTROLLED \<and>
                             GetByteString m STUN_ATTR_USE_CANDIDATE \<noteq> None
                          then cn_signal SignalUseCandidate c else c);
                 Some (put_conn k c p) }) = Some q \<and> frame {} p q"
proof -
  have inv': "ice_inv p'" using ice_inv_frame [OF inv frame_events [OF only]] .
  have c': "pt_heap p' k = Some c" using only_events_fields(1) [OF only] c by simp
  from SendBindingResponse_defined [OF inv' c' refl m] obtain q where
    q: "SendBindingResponse sha1 now p' m (cd_address (cn_remote_candidate c)) = Some (put_conn k (ReceivedPing now c) q)"
      "only_events p' q" by blast
  let ?c1 = "if \<not> cn_pruned (ReceivedPing now c) \<and> cn_write_state (ReceivedPing now c) = STATE_WRITE_TIMEOUT
    then set_write_state STATE_WRITE_INIT (ReceivedPing now c) else ReceivedPing now c"
  have c1: "conn_kept c ?c1" "dormant c \<Longrightarrow> dormant ?c1"
    using ReceivedPing_kept [where c = c and now = now] by (auto simp: dormant_def)
  have frame: "frame {} p (put_conn k c2 (put_conn k (ReceivedPing now c) q))"
    if "conn_kept c c2" "dormant c \<Longrightarrow> dormant c2" for c2
    using frame_put [OF only_events_trans [OF only q(2)] c that] by (simp add: put_conn_def)
  show ?thesis using q(1) frame [of ?c1] frame [of "cn_signal SignalUseCandidate ?c1"] c1
    by (simp add: Let_def put_conn_def)
qed

definition integrity_readable :: "message_digest \<Rightarrow> Port \<Rightarrow> byte list \<Rightarrow> byte list \<Rightarrow> bool" where
  "integrity_readable sha1 p data remote_password \<longleftrightarrow>
     (pt_ice_protocol p = ICEPROTO_RFC5245 \<longrightarrow> ValidateMessageIntegrity sha1 data (pt_password p) \<noteq> None) \<and>
     (pt_ice_protocol p \<noteq> ICEPROTO_GOOGLE \<longrightarrow> ValidateMessageIntegrity sha1 data remote_password \<noteq> None)"

lemma conn_OnReadPacket_frame:
  assumes inv: "ice_inv p" and c: "pt_heap p k = Some c"
    and readable: "integrity_readable sha1 p data (cd_password (cn_remote_candidate c))"
  shows "\<exists>p'. conn_OnReadPacket sha1 now p k data = Some p' \<and> frame {} p p'"
proof -
  let ?addr = "cd_address (cn_remote_candidate c)"
  have frag: "username_fragment p \<noteq> None" using inv by (simp add: ice_inv_def)
  from GetStunMessage_defined [OF frag, of sha1 data ?addr] readable obtain r q where
    r: "GetStunMessage sha1 p data ?addr = Some (r, q)" "only_events p q"
      "\<And>m u. r = Accepted m u \<Longrightarrow> sm_type m \<in> binding_types \<and>
         (sm_type m = STUN_BINDING_REQUEST \<longrightarrow> GetByteString m STUN_ATTR_USERNAME \<noteq> None)"
    by (auto simp: integrity_readable_def)
  note q = only_events_fields [OF r(2)]
  have heap: "pt_heap q k = Some c" using q(1) c by simp
  show ?thesis
  proof (cases r)
    case NotStun
    have "frame {} p (put_conn k (data_received now data c) q)"
      using frame_put [OF r(2) c data_received_kept(1) data_received_kept(2)] by blast
    with NotStun show ?thesis using r(1) c by (simp add: conn_OnReadPacket_def)
  next
    case Handled
    then show ?thesis using r(1,2) c frame_events by (simp add: conn_OnReadPacket_def)
  next
    case (Accepted m u)
    note m = r(3) [OF Accepted]
    consider (request) "sm_type m = STUN_BINDING_REQUEST"
      | (response) "sm_type m \<noteq> STUN_BINDING_REQUEST" "sm_type m = STUN_BINDING_RESPONSE \<or> sm_type m = STUN_BINDING_ERROR_RESPONSE"
      | (indication) "sm_type m \<noteq> STUN_BINDING_REQUEST" "\<not> (sm_type m = STUN_BINDING_RESPONSE \<or> sm_type m = STUN_BINDING_ERROR_RESPONSE)"
          "sm_type m = STUN_BINDING_INDICATION"
      using m unfolding binding_types_def by blast
    then show ?thesis
    proof cases
      case request
      show ?thesis
      proof (cases "u = cd_username (cn_remote_candidate c)")
        case True
        have "\<exists>ok q'. (if pt_ice_protocol q = ICEPROTO_RFC5245 then MaybeIceRoleConflict sha1 q ?addr m (cd_username (cn_remote_candidate c))
            else Some (True, q)) = Some (ok, q') \<and> only_events q q'"
          using MaybeIceRoleConflict_defined [of q m sha1 ?addr "cd_username (cn_remote_candidate c)"] inv q request by (auto simp: ice_inv_def)
        then obtain ok q' where q': "(if pt_ice_protocol q = ICEPROTO_RFC5245 then MaybeIceRoleConflict sha1 q ?addr m (cd_username (cn_remote_candidate c))
            else Some (True, q)) = Some (ok, q')" "only_events p q'" using only_events_trans [OF r(2)] by blast
        show ?thesis using conn_request_frame [OF inv c q'(2), of m sha1 now] request m q' frame_events [OF q'(2)]
            r(1) c Accepted True
          by (cases ok) (simp_all add: conn_OnReadPacket_def)
      next
        case False
        obtain d where "SendBindingErrorResponse sha1 q m ?addr STUN_ERROR_UNAUTHORIZED STUN_ERROR_REASON_UNAUTHORIZED =
            Some (port_signal (SendTo d ?addr False) q)" using error_response_defined [OF request] by blast
        then show ?thesis using r(1,2) c Accepted request False
            frame_events [OF only_events_trans [OF r(2) only_events_signal [of "SendTo d ?addr False"]]]
          by (simp add: conn_OnReadPacket_def)
      qed
    next
      case response
      obtain ok R where R: "CheckResponse (cn_requests c) m = Some (ok, R)" "sr_struct R"
          "sr_requests (cn_requests c) = [] \<longrightarrow> R = cn_requests c"
        using CheckResponse_struct [OF ice_inv_requests [OF inv c], of m] by blast
      obtain q' where q': "run_requests now q k (\<lambda>requests. map_option snd (CheckResponse requests m)) = Some q'" "frame {} q q'"
        using run_requests_frame [OF heap, of "\<lambda>requests. map_option snd (CheckResponse requests m)" R] R by auto
      have "frame {} p q'" using q'(2) r(2) by (rule frame_after_events)
      moreover obtain valid where "(if pt_ice_protocol q = ICEPROTO_GOOGLE then Some True
          else ValidateMessageIntegrity sha1 data (cd_password (cn_remote_candidate c))) = Some valid"
        using readable q(2) by (cases "pt_ice_protocol q = ICEPROTO_GOOGLE") (auto simp: integrity_readable_def)
      ultimately show ?thesis using r(1) c Accepted response q'(1) frame_events [OF r(2)]
        by (cases valid) (simp_all add: conn_OnReadPacket_def)
    next
      case indication
      then show ?thesis using r(1) c Accepted frame_events [OF r(2)]
          frame_put [OF r(2) c, of "ReceivedPing now c"] ReceivedPing_kept [where c = c and now = now]
        by (simp add: conn_OnReadPacket_def)
    qed
  qed
qed

lemma port_OnReadPacket_events:
  assumes "ice_inv p" "pt_ice_protocol p = ICEPROTO_RFC5245 \<Longrightarrow> ValidateMessageIntegrity sha1 data (pt_password p) \<noteq> None"
  shows "\<exists>p'. port_OnReadPacket sha1 p data addr proto = Some p' \<and> only_events p p'"
proof (cases "pt_enable_port_packets p")
  case False
  have frag: "username_fragment p \<noteq> None" using assms(1) by (simp add: ice_inv_def)
  from GetStunMessage_defined [OF frag, of sha1 data addr] assms(2) obtain r q where
    r: "GetStunMessage sha1 p data addr = Some (r, q)" "only_events p q" by blast
  note q = only_events_fields [OF r(2)]
  show ?thesis
  proof (cases "\<exists>m u. r = Accepted m u \<and> sm_type m = STUN_BINDING_REQUEST")
    case True
    then obtain m u where m: "r = Accepted m u" "sm_type m = STUN_BINDING_REQUEST" by blast
    have "\<exists>ok q'. (if pt_ice_protocol q = ICEPROTO_RFC5245 then MaybeIceRoleConflict sha1 q addr m u
        else Some (True, q)) = Some (ok, q') \<and> only_events q q'"
      using MaybeIceRoleConflict_defined [of q m sha1 addr u] assms(1) q m(2) by (auto simp: ice_inv_def)
    then obtain ok q' where q': "(if pt_ice_protocol q = ICEPROTO_RFC5245 then MaybeIceRoleConflict sha1 q addr m u
        else Some (True, q)) = Some (ok, q')" "only_events p q'" using only_events_trans [OF r(2)] by blast
    have "only_events p (port_signal (SignalUnknownAddress addr proto m u) q')"
      by (rule only_events_trans [OF q'(2)]) simp
    with q' r(1) m False show ?thesis by (auto simp: port_OnReadPacket_def)
  next
    case other: False
    then show ?thesis using r False by (cases r) (auto simp: port_OnReadPacket_def)
  qed
qed (simp add: port_OnReadPacket_def)

lemma Prepare_defined:
  assumes "ice_inv p" "pt_heap p k = Some c" "cn_local_candidate_index c' = cn_local_candidate_index c"
  shows "\<exists>m. ConnectionRequest_Prepare sha1 p c' request = Some m \<and> sm_type m = STUN_BINDING_REQUEST \<and>
    sm_transaction_id m = sm_transaction_id request"
proof -
  have add: "sm_type (snd (AddAttribute vt m a)) = sm_type m"
      "sm_transaction_id (snd (AddAttribute vt m a)) = sm_transaction_id m" for vt m a
    by (simp_all add: AddAttribute_def Let_def)
  have mi: "sm_type (snd (AddMessageIntegrity sha1 vt m key)) = sm_type m"
      "sm_transaction_id (snd (AddMessageIntegrity sha1 vt m key)) = sm_transaction_id m" for vt m key
    by (simp_all add: AddMessageIntegrity_def AddAttribute_def set_last_def Let_def split: prod.split)
  have fp: "sm_type (snd (AddFingerprint vt m)) = sm_type m"
      "sm_transaction_id (snd (AddFingerprint vt m)) = sm_transaction_id m" for vt m
    by (simp_all add: AddFingerprint_def AddAttribute_def set_last_def Let_def split: prod.split)
  obtain frag where frag: "username_fragment p = Some frag" using assms(1) by (auto simp: ice_inv_def)
  obtain l where l: "local_candidate p c' = Some l" using assms by (auto simp: ice_inv_def local_candidate_def)
  have role: "pt_ice_protocol p = ICEPROTO_RFC5245 \<Longrightarrow> pt_role p \<noteq> ROLE_UNKNOWN" using assms(1) by (simp add: ice_inv_def)
  show ?thesis
  proof (cases "pt_role p")
    case ROLE_UNKNOWN
    with role show ?thesis by (auto simp: ConnectionRequest_Prepare_def CreateStunUsername_def frag Let_def add)
  qed (auto simp: ConnectionRequest_Prepare_def CreateStunUsername_def frag l Let_def add mi fp)
qed

lemma Ping_frame:
  assumes inv: "ice_inv p" and c: "pt_heap p k = Some c" "cn_connected c"
    and q: "sr_heap (cn_requests c) q = None" "map_of (sr_requests (cn_requests c)) tid = None"
  shows "\<exists>p'. Ping sha1 now p k q tid = Some p' \<and> frame {k} p p'"
proof -
  define c1 where "c1 = c\<lparr>cn_last_ping_sent := now, cn_pings_since_last_response := cn_pings_since_last_response c @ [now]\<rparr>"
  define req where "req = StunRequest_new StunMessage_new IceMessage_GetAttributeValueType tid"
  have req: "rq_id req = tid" "\<not> rq_managed req" "sm_transaction_id (rq_msg req) = tid"
    by (simp_all add: req_def StunRequest_new_def rq_id_def)
  obtain m where m: "ConnectionRequest_Prepare sha1 p c1 (rq_msg req) = Some m" "sm_type m \<noteq> 0" "sm_transaction_id m = tid"
    using Prepare_defined [OF inv c(1), of c1 sha1 "rq_msg req"] req(3) by (auto simp: c1_def STUN_BINDING_REQUEST_def)
  have "sr_struct (put_request (cn_requests c) q req)"
    using new_request_struct [OF ice_inv_requests [OF inv c(1)] q(1)] by (simp add: req_def)
  from SendDelayed_struct [OF this, of q req "\<lambda>_. m", OF _ req(2) _ _ _ refl] q(2) req m obtain R where
    R: "sr_Send (\<lambda>_. m) now (put_request (cn_requests c) q req) q = Some R" "sr_struct R"
    by (auto simp: sr_Send_def put_request_def)
  let ?c = "c1\<lparr>cn_requests := R, cn_state := STATE_INPROGRESS\<rparr>"
  have "frame {k} p (put_conn k ?c p)"
    by (rule frame_put [OF only_events_refl c(1)]) (use R(2) in \<open>auto simp: conn_kept_def c1_def\<close>)
  moreover have "cn_requests c1 = cn_requests c" by (simp add: c1_def)
  ultimately show ?thesis using c m(1) R(1) by (auto simp: Ping_def Let_def req_def c1_def)
qed

lemma request_OnMessage_frame:
  assumes "ice_inv p" "pt_heap p k = Some c" "managed (cn_requests c) q"
  shows "\<exists>p'. request_OnMessage now p k q = Some p' \<and> frame {} p p'"
proof -
  note struct = ice_inv_requests [OF assms(1,2)]
  obtain R where R: "rq_OnMessage_by ConnectionRequest_GetNextDelay now (cn_requests c) q = Some R" "sr_struct R"
    using rq_OnMessage_by_struct [OF struct assms(3)] by blast
  have "sr_requests (cn_requests c) \<noteq> []" using assms(3) struct unfolding managed_def sr_struct_def by fastforce
  then show ?thesis
    using run_requests_frame [OF assms(2), of "\<lambda>requests. rq_OnMessage_by ConnectionRequest_GetNextDelay now requests q" R]
      R by (simp add: request_OnMessage_def)
qed

lemma UpdateState_kept: "conn_kept c (UpdateState now c)" "dormant c \<Longrightarrow> dormant (UpdateState now c)"
proof -
  have *: "cn_write_state (set_read_state v d) = cn_write_state d" "cn_pruned (set_read_state v d) = cn_pruned d"
      "cn_requests (set_read_state v d) = cn_requests d" for v d
    by (simp_all add: set_read_state_def conn_CheckTimeout_def cn_signal_def Let_def)
  show "conn_kept c (UpdateState now c)" by (simp add: UpdateState_def Let_def)
  assume "dormant c"
  then show "dormant (UpdateState now c)" by (simp add: UpdateState_def Let_def dormant_def *)
qed

lemma Prune_kept:
  assumes "sr_struct (cn_requests c)"
  shows "\<exists>c'. Prune c = Some c' \<and> conn_kept c c' \<and> (dormant c \<longrightarrow> dormant c') \<and> (\<not> cn_pruned c \<longrightarrow> dormant c')"
proof (cases "cn_pruned c")
  case False
  obtain R where R: "sr_Clear (cn_requests c) = Some R" "sr_struct R" "sr_requests R = []"
    using sr_Clear_struct [OF assms] by blast
  then have "conn_kept c (c\<lparr>cn_pruned := True, cn_requests := R\<rparr>)" by (simp add: conn_kept_def)
  with R False show ?thesis by (auto simp: Prune_def)
qed (simp add: Prune_def)

lemma conn_Destroy_kept: "conn_kept c (conn_Destroy c)" "dormant c \<Longrightarrow> dormant (conn_Destroy c)"
proof -
  show "conn_kept c (conn_Destroy c)" by (simp add: conn_Destroy_def)
  assume "dormant c"
  then have "dormant (set_read_state STATE_READ_TIMEOUT c)" by simp
  then show "dormant (conn_Destroy c)" unfolding conn_Destroy_def set_states_dormant(3) by (simp add: dormant_def)
qed

section \<open>The port as a system\<close>

text \<open>What happens to a port and to its connections, each with its time. The thread delivers the posted messages:
  those of requests, the deletion of a connection and the timeout of the port.\<close>

datatype ice_call =
    PacketFrom socket_address "byte list" protocol_type
  | PingOf nat nat "byte list"
  | RequestMessage nat nat
  | UpdateOf nat
  | PruneOf nat
  | DestroyOf nat
  | ConnectTo nat Candidate
  | DeletionOf nat
  | NewAddress "byte list" socket_address socket_address "byte list" "byte list" u32 bool
  | BecomeRole transport_role
  | StartPort
  | TimeoutMessage

text \<open>The port with the number of timeout messages that were delivered to it.\<close>

type_synonym port_system = "Port \<times> nat"

text \<open>\<^verbatim>\<open>UDPPort::OnReadPacket\<close> of a port without a STUN server: the packet belongs to the connection in the map, if
  the map has one for the address. The protocol is \<^verbatim>\<open>PROTO_UDP\<close> there.\<close>

definition UDPPort_OnReadPacket :: "message_digest \<Rightarrow> u32 \<Rightarrow> Port \<Rightarrow> byte list \<Rightarrow> socket_address \<Rightarrow> protocol_type \<Rightarrow>
    Port option" where
  "UDPPort_OnReadPacket sha1 now p data remote_addr proto =
     (case GetConnection p remote_addr of
        Some k \<Rightarrow> conn_OnReadPacket sha1 now p k data
      | None \<Rightarrow> port_OnReadPacket sha1 p data remote_addr proto)"

definition on_conn :: "Port \<Rightarrow> nat \<Rightarrow> (Connection \<Rightarrow> Connection option) \<Rightarrow> Port option" where
  "on_conn p k f = do { c \<leftarrow> pt_heap p k; c \<leftarrow> f c; Some (put_conn k c p) }"

definition delete_connection :: "Port \<Rightarrow> nat \<Rightarrow> Port option" where
  "delete_connection p k =
     do { c \<leftarrow> pt_heap p k; p \<leftarrow> OnConnectionDestroyed p k; _ \<leftarrow> delete_manager (cn_requests c); Some p }"

fun port_step :: "message_digest \<Rightarrow> (ip_address \<Rightarrow> byte list) \<Rightarrow> (u32 \<Rightarrow> byte list) \<Rightarrow> port_system \<Rightarrow> u32 \<times> ice_call \<Rightarrow>
    port_system option" where
  "port_step sha1 ips us (p, n) (now, call) =
     map_option (\<lambda>p'. (p', case call of TimeoutMessage \<Rightarrow> n + 1 | _ \<Rightarrow> n))
       (case call of
          PacketFrom addr data proto \<Rightarrow> UDPPort_OnReadPacket sha1 now p data addr proto
        | PingOf k q tid \<Rightarrow> Ping sha1 now p k q tid
        | RequestMessage k q \<Rightarrow> request_OnMessage now p k q
        | UpdateOf k \<Rightarrow> on_conn p k (\<lambda>c. Some (UpdateState now c))
        | PruneOf k \<Rightarrow> on_conn p k Prune
        | DestroyOf k \<Rightarrow> on_conn p k (\<lambda>c. Some (conn_Destroy c))
        | ConnectTo k cand \<Rightarrow> map_option snd (UDPPort_CreateConnection p k cand)
        | DeletionOf k \<Rightarrow> delete_connection p k
        | NewAddress i a b pr ty pref final \<Rightarrow> AddAddress ips us i p a b pr ty pref final
        | BecomeRole role \<Rightarrow> Some (p\<lparr>pt_role := role\<rparr>)
        | StartPort \<Rightarrow> Some (port_Start p)
        | TimeoutMessage \<Rightarrow> port_OnMessage p)"

text \<open>The integrity check stays inside of the packet, with the password of the port and with that of the peer.\<close>

definition packet_readable :: "message_digest \<Rightarrow> Port \<Rightarrow> socket_address \<Rightarrow> byte list \<Rightarrow> bool" where
  "packet_readable sha1 p addr data =
     (case GetConnection p addr of
        Some k \<Rightarrow>
          (case pt_heap p k of
             None \<Rightarrow> True
           | Some c \<Rightarrow> integrity_readable sha1 p data (cd_password (cn_remote_candidate c)))
      | None \<Rightarrow> pt_ice_protocol p = ICEPROTO_RFC5245 \<longrightarrow> ValidateMessageIntegrity sha1 data (pt_password p) \<noteq> None)"

text \<open>What makes one call safe. That the connections and requests which a queued message names are alive is an
  obligation here; the system below discharges it.\<close>

fun port_permitted :: "message_digest \<Rightarrow> port_system \<Rightarrow> u32 \<times> ice_call \<Rightarrow> bool" where
  "port_permitted sha1 (p, n) (now, call) \<longleftrightarrow> PortDestroyed \<notin> set (pt_events p) \<and>
     (case call of
        PacketFrom addr data proto \<Rightarrow> packet_readable sha1 p addr data
      | PingOf k q tid \<Rightarrow>
          (case pt_heap p k of
             None \<Rightarrow> False
           | Some c \<Rightarrow> cn_connected c \<and> sr_heap (cn_requests c) q = None \<and> map_of (sr_requests (cn_requests c)) tid = None)
      | RequestMessage k q \<Rightarrow>
          (case pt_heap p k of
             None \<Rightarrow> False
           | Some c \<Rightarrow> (case sr_heap (cn_requests c) q of None \<Rightarrow> False | Some r \<Rightarrow> rq_managed r))
      | UpdateOf k \<Rightarrow> pt_heap p k \<noteq> None
      | PruneOf k \<Rightarrow> pt_heap p k \<noteq> None
      | DestroyOf k \<Rightarrow> pt_heap p k \<noteq> None
      | ConnectTo k cand \<Rightarrow>
          pt_heap p k = None \<and> GetConnection p (cd_address cand) = None \<and> pt_candidates p \<noteq> [] \<and>
          (pt_shared_socket p \<longrightarrow> cd_type (pt_candidates p ! 0) = LOCAL_PORT_TYPE)
      | DeletionOf k \<Rightarrow> pt_heap p k \<noteq> None
      | BecomeRole role \<Rightarrow> role \<noteq> ROLE_UNKNOWN
      | TimeoutMessage \<Rightarrow> n < timeouts p
      | _ \<Rightarrow> True)"

definition port_sys_inv :: "port_system \<Rightarrow> bool" where
  "port_sys_inv s \<longleftrightarrow> ice_inv (fst s) \<and>
     (timeouts (fst s), snd s) = (case pt_lifetime (fst s) of LT_PRESTART \<Rightarrow> (0, 0) | LT_PRETIMEOUT \<Rightarrow> (1, 0) | LT_POSTTIMEOUT \<Rightarrow> (1, 1))"

text \<open>The connections that a call can wake up.\<close>

fun wakes :: "u32 \<times> ice_call \<Rightarrow> nat set" where
  "wakes (now, PingOf k q tid) = {k}"
| "wakes (now, ConnectTo k cand) = {k}"
| "wakes _ = {}"

definition asleep :: "nat \<Rightarrow> Port \<Rightarrow> bool" where
  "asleep k p \<longleftrightarrow> (\<forall>c. pt_heap p k = Some c \<longrightarrow> dormant c)"

definition sleeps :: "nat set \<Rightarrow> Port \<Rightarrow> Port \<Rightarrow> bool" where
  "sleeps K p p' \<longleftrightarrow> (\<forall>k. k \<notin> K \<longrightarrow> asleep k p \<longrightarrow> asleep k p')"

lemma frame_sleeps:
  assumes "frame K p p'" "ice_inv p"
  shows "sleeps K p p'"
proof -
  have "asleep k p'" if k: "k \<notin> K" "asleep k p" for k
  proof -
    have "rel_option conn_kept (pt_heap p k) (pt_heap p' k)" using assms(1) by (simp add: frame_def)
    then show ?thesis using assms k ice_inv_requests [OF assms(2), of k]
      by (cases "pt_heap p k") (auto simp: asleep_def frame_def option_rel_Some1)
  qed
  then show ?thesis by (simp add: sleeps_def)
qed

text \<open>The connections outside of \<open>D\<close> are not deleted.\<close>

definition survive :: "nat set \<Rightarrow> Port \<Rightarrow> Port \<Rightarrow> bool" where
  "survive D p p' \<longleftrightarrow> (\<forall>k. k \<notin> D \<longrightarrow> pt_heap p k \<noteq> None \<longrightarrow> pt_heap p' k \<noteq> None)"

fun deletes :: "u32 \<times> ice_call \<Rightarrow> nat set" where
  "deletes (now, DeletionOf k) = {k}"
| "deletes _ = {}"

lemma frame_survive: "frame K p p' \<Longrightarrow> survive D p p'"
  unfolding survive_def frame_def by (metis option.rel_distinct(2) not_None_eq option.rel_sel)

definition step_ok :: "nat set \<Rightarrow> nat set \<Rightarrow> port_system \<Rightarrow> port_system \<Rightarrow> bool" where
  "step_ok K D s s' \<longleftrightarrow> port_sys_inv s' \<and> sleeps K (fst s) (fst s') \<and> survive D (fst s) (fst s')"

lemma frame_step_ok:
  assumes "port_sys_inv (p, n)" "frame K p p'"
  shows "step_ok K D (p, n) (p', n)"
proof -
  have inv: "ice_inv p" using assms(1) by (simp add: port_sys_inv_def)
  have "timeouts p' = timeouts p" "pt_lifetime p' = pt_lifetime p"
    using assms(2) only_events_fields(6,7) [of "p\<lparr>pt_heap := pt_heap p'\<rparr>" p'] by (auto simp: frame_def timeouts_def)
  then show ?thesis using assms ice_inv_frame [OF inv assms(2)] frame_sleeps [OF assms(2) inv] frame_survive [OF assms(2)]
    by (simp add: step_ok_def port_sys_inv_def)
qed

lemma frame_step:
  assumes "port_sys_inv (p, n)" "\<exists>p'. f = Some p' \<and> frame K p p'"
  shows "\<exists>p'. f = Some p' \<and> step_ok K D (p, n) (p', n)"
  using assms frame_step_ok by blast

lemma on_conn_step:
  assumes "port_sys_inv (p, n)" "pt_heap p k = Some c" "\<exists>c'. f c = Some c' \<and> conn_kept c c' \<and> (dormant c \<longrightarrow> dormant c')"
  shows "\<exists>p'. on_conn p k f = Some p' \<and> step_ok {} {} (p, n) (p', n)"
proof (rule frame_step [OF assms(1)])
  obtain c' where c': "f c = Some c'" "conn_kept c c'" "dormant c \<Longrightarrow> dormant c'" using assms(3) by blast
  then have "frame {} p (put_conn k c' p)" by (auto intro: frame_put [OF only_events_refl assms(2)])
  then show "\<exists>p'. on_conn p k f = Some p' \<and> frame {} p p'" using assms(2) c'(1) by (simp add: on_conn_def)
qed

lemma CreateConnection_step:
  assumes "port_sys_inv (p, n)" "pt_heap p k = None" "GetConnection p (cd_address cand) = None" "pt_candidates p \<noteq> []"
    "pt_shared_socket p \<longrightarrow> cd_type (pt_candidates p ! 0) = LOCAL_PORT_TYPE"
  shows "\<exists>r p'. UDPPort_CreateConnection p k cand = Some (r, p') \<and> step_ok {k} {} (p, n) (p', n)"
proof (cases "cd_protocol cand \<noteq> str ''udp'' \<or> \<not> IsCompatibleAddress p (cd_address cand)")
  case True
  then show ?thesis using frame_step_ok [OF assms(1) frame_events [OF only_events_refl]]
    by (auto simp: UDPPort_CreateConnection_def)
next
  case False
  let ?p = "AddConnection p k (Connection_new 0 cand)"
  have new: "UDPPort_CreateConnection p k cand = Some (Some k, ?p)"
    using False assms(4,5) by (auto simp: UDPPort_CreateConnection_def)
  have c: "cn_remote_candidate (Connection_new 0 cand) = cand" "cn_local_candidate_index (Connection_new 0 cand) = 0"
      "sr_struct (cn_requests (Connection_new 0 cand))"
    by (simp_all add: Connection_new_def empty_requests)
  have fields: "pt_heap ?p = (pt_heap p)(k := Some (Connection_new 0 cand))" "pt_candidates ?p = pt_candidates p"
      "pt_connections ?p = (cd_address cand, k) # filter (\<lambda>(a, _). a \<noteq> cd_address cand) (pt_connections p)"
      "username_fragment ?p = username_fragment p" "pt_ice_protocol ?p = pt_ice_protocol p" "pt_role ?p = pt_role p"
      "timeouts ?p = timeouts p" "pt_lifetime ?p = pt_lifetime p"
    by (simp_all add: AddConnection_def put_conn_def port_signal_def c username_fragment_def timeouts_def)
  have "cd_address cand \<notin> fst ` set (pt_connections p)" using assms(3) by (simp add: GetConnection_def map_of_eq_None_iff)
  moreover from this have "filter (\<lambda>(a, _). a \<noteq> cd_address cand) (pt_connections p) = pt_connections p"
    by (force intro: filter_True)
  moreover have inv: "ice_inv p" using assms(1) by (simp add: port_sys_inv_def)
  ultimately have "ice_inv ?p" using assms(2,4) unfolding ice_inv_def fields by (auto simp: c)
  then show ?thesis using new fields assms(1,2) by (auto simp: step_ok_def port_sys_inv_def sleeps_def asleep_def survive_def)
qed

lemma port_CheckTimeout_defined: "\<exists>p'. port_CheckTimeout p = Some p' \<and> only_events p p'"
  by (auto simp: port_CheckTimeout_def port_Destroy_def)

lemma step_ok_events:
  assumes "step_ok K D s (q, n)" "only_events q p'"
  shows "step_ok K D s (p', n)"
proof -
  have "port_sys_inv (q, n)" using assms(1) by (simp add: step_ok_def)
  from frame_step_ok [OF this frame_events [OF assms(2)], of K] have "port_sys_inv (p', n)" by (simp add: step_ok_def)
  moreover have "asleep k p' = asleep k q" for k using only_events_fields(1) [OF assms(2)] by (simp add: asleep_def)
  moreover have "survive D (fst s) p'" using assms only_events_fields(1) [OF assms(2)] by (auto simp: step_ok_def survive_def)
  ultimately show ?thesis using assms(1) by (simp add: step_ok_def sleeps_def)
qed

lemma delete_connection_step:
  assumes sys: "port_sys_inv (p, n)" and c: "pt_heap p k = Some c"
  shows "\<exists>p'. delete_connection p k = Some p' \<and> step_ok {} {k} (p, n) (p', n)"
proof -
  let ?addr = "cd_address (cn_remote_candidate c)"
  have inv: "ice_inv p" using sys by (simp add: port_sys_inv_def)
  define q where "q = p\<lparr>pt_connections := filter (\<lambda>(a, _). a \<noteq> ?addr) (pt_connections p), pt_heap := (pt_heap p)(k := None)\<rparr>"
  have in_map: "(a, j) \<in> set (pt_connections p) \<longleftrightarrow> (\<exists>c. pt_heap p j = Some c \<and> cd_address (cn_remote_candidate c) = a)" for a j
    using inv unfolding ice_inv_def by blast
  have dist: "distinct (map fst (pt_connections p))" using inv by (simp add: ice_inv_def)
  have only_k: "j = k" if "pt_heap p j = Some d" "cd_address (cn_remote_candidate d) = ?addr" for j d
    using ice_inv_lookup [OF inv that(1)] ice_inv_lookup [OF inv c] that(2) by simp
  have "(a, j) \<in> set (pt_connections q) \<longleftrightarrow> (\<exists>c. pt_heap q j = Some c \<and> cd_address (cn_remote_candidate c) = a)" for a j
  proof (cases "j = k")
    case True
    then show ?thesis using in_map [of a k] c by (auto simp: q_def)
  next
    case False
    then have "a \<noteq> ?addr" if "pt_heap p j = Some d" "cd_address (cn_remote_candidate d) = a" for d
      using only_k [OF that(1)] that(2) by blast
    then show ?thesis using in_map [of a j] False by (auto simp: q_def)
  qed
  moreover have "distinct (map fst (pt_connections q))" using dist by (simp add: q_def distinct_map_filter)
  moreover have "username_fragment q = username_fragment p" by (simp add: q_def)
  moreover have "sr_struct (cn_requests d) \<and> cn_local_candidate_index d < length (pt_candidates q)" if "pt_heap q j = Some d" for j d
    using inv that by (auto simp: ice_inv_def q_def split: if_splits)
  ultimately have "ice_inv q" using inv unfolding ice_inv_def by (simp add: q_def)
  moreover have "sleeps {} p q" "survive {k} p q" by (simp_all add: sleeps_def asleep_def survive_def q_def)
  ultimately have "step_ok {} {k} (p, n) (q, n)"
    using sys by (simp add: step_ok_def port_sys_inv_def q_def timeouts_def)
  moreover obtain p' where p': "port_CheckTimeout q = Some p'" "only_events q p'" using port_CheckTimeout_defined by blast
  ultimately have "step_ok {} {k} (p, n) (p', n)" using step_ok_events by blast
  moreover have "OnConnectionDestroyed p k = Some p'"
    using c p'(1) ice_inv_lookup [OF inv c] by (simp add: OnConnectionDestroyed_def GetConnection_def q_def)
  ultimately show ?thesis using c delete_manager_defined [OF ice_inv_requests [OF inv c]]
    by (auto simp: delete_connection_def)
qed

lemma AddAddress_step:
  assumes "port_sys_inv (p, n)"
  shows "\<exists>p'. AddAddress ips us i p a b pr ty pref final = Some p' \<and> step_ok {} {} (p, n) (p', n)"
proof -
  have inv: "ice_inv p" using assms by (simp add: port_sys_inv_def)
  obtain frag where frag: "username_fragment p = Some frag" using inv by (auto simp: ice_inv_def)
  obtain c p' where p': "AddAddress ips us i p a b pr ty pref final = Some p'"
      "p' = (let q = port_signal (SignalCandidateReady c) (p\<lparr>pt_candidates := pt_candidates p @ [c]\<rparr>)
             in if final then port_signal SignalAddressReady q else q)"
    by (simp add: AddAddress_def frag Let_def)
  have only: "only_events (p\<lparr>pt_candidates := pt_candidates p @ [c]\<rparr>) p'"
    using only_events_trans [OF only_events_signal only_events_signal] by (auto simp: p'(2) Let_def)
  have "ice_inv (p\<lparr>pt_candidates := pt_candidates p @ [c]\<rparr>)" using inv by (auto simp: ice_inv_def less_Suc_eq)
  then have "step_ok {} {} (p, n) (p\<lparr>pt_candidates := pt_candidates p @ [c]\<rparr>, n)"
    using assms by (auto simp: step_ok_def sleeps_def asleep_def survive_def port_sys_inv_def timeouts_def)
  from step_ok_events [OF this only] p'(1) show ?thesis by blast
qed

lemma timeout_step:
  assumes "port_sys_inv (p, n)" "n < timeouts p"
  shows "\<exists>p'. port_OnMessage p = Some p' \<and> step_ok {} {} (p, n) (p', n + 1)"
proof -
  have pre: "pt_lifetime p = LT_PRETIMEOUT" "n = 0" "timeouts p = 1" "ice_inv p"
    using assms by (auto simp: port_sys_inv_def split: lifetime.splits)
  let ?q = "p\<lparr>pt_lifetime := LT_POSTTIMEOUT\<rparr>"
  have "ice_inv ?q" using pre(4) by (simp add: ice_inv_def)
  then have "step_ok {} {} (p, n) (?q, n + 1)"
    using pre by (auto simp: step_ok_def sleeps_def asleep_def survive_def port_sys_inv_def timeouts_def)
  moreover obtain p' where p': "port_CheckTimeout ?q = Some p'" "only_events ?q p'" using port_CheckTimeout_defined by blast
  ultimately have "step_ok {} {} (p, n) (p', n + 1)" using step_ok_events by blast
  then show ?thesis using p'(1) pre(1) by (simp add: port_OnMessage_def)
qed

lemma Start_step: "port_sys_inv (p, n) \<Longrightarrow> step_ok {} {} (p, n) (port_Start p, n)"
  by (auto simp: step_ok_def port_sys_inv_def sleeps_def asleep_def survive_def port_Start_def port_signal_def timeouts_def ice_inv_def
      split: lifetime.splits)

lemma role_step: "port_sys_inv (p, n) \<Longrightarrow> role \<noteq> ROLE_UNKNOWN \<Longrightarrow> step_ok {} {} (p, n) (p\<lparr>pt_role := role\<rparr>, n)"
  by (auto simp: step_ok_def port_sys_inv_def sleeps_def asleep_def survive_def timeouts_def ice_inv_def)

lemma UDPPort_OnReadPacket_frame:
  assumes inv: "ice_inv p" and readable: "packet_readable sha1 p addr data"
  shows "\<exists>p'. UDPPort_OnReadPacket sha1 now p data addr proto = Some p' \<and> frame {} p p'"
proof (cases "GetConnection p addr")
  case None
  then show ?thesis using readable port_OnReadPacket_events [OF inv, of sha1 data addr proto] frame_events
    by (fastforce simp: UDPPort_OnReadPacket_def packet_readable_def)
next
  case (Some k)
  then have "(addr, k) \<in> set (pt_connections p)" by (simp add: GetConnection_def map_of_SomeD)
  then obtain c where c: "pt_heap p k = Some c" using inv unfolding ice_inv_def by blast
  with Some readable have "integrity_readable sha1 p data (cd_password (cn_remote_candidate c))"
    by (simp add: packet_readable_def)
  from conn_OnReadPacket_frame [OF inv c this] Some show ?thesis by (simp add: UDPPort_OnReadPacket_def)
qed

lemma port_step_ok:
  assumes "port_sys_inv s" "port_permitted sha1 s call"
  shows "\<exists>s'. port_step sha1 ips us s call = Some s' \<and> step_ok (wakes call) (deletes call) s s'"
proof -
  obtain p n now kind where s: "s = (p, n)" "call = (now, kind)" by (metis surj_pair)
  note sys = assms(1) [unfolded s(1)]
  have inv: "ice_inv p" using sys by (simp add: port_sys_inv_def)
  show ?thesis
  proof (cases kind)
    case (PacketFrom a d pr)
    then show ?thesis using s assms(2) frame_step [OF sys UDPPort_OnReadPacket_frame [OF inv]] by auto
  next
    case (PingOf k q tid)
    then show ?thesis using s assms(2) frame_step [OF sys Ping_frame [OF inv]] by (auto split: option.splits)
  next
    case (RequestMessage k q)
    then show ?thesis using s assms(2) frame_step [OF sys request_OnMessage_frame [OF inv]]
      by (auto simp: managed_def split: option.splits)
  next
    case (UpdateOf k)
    then show ?thesis using s assms(2) on_conn_step [OF sys] UpdateState_kept by (fastforce split: option.splits)
  next
    case (PruneOf k)
    then show ?thesis using s assms(2) on_conn_step [OF sys] Prune_kept ice_inv_requests [OF inv] by (fastforce split: option.splits)
  next
    case (DestroyOf k)
    then show ?thesis using s assms(2) on_conn_step [OF sys] conn_Destroy_kept by (fastforce split: option.splits)
  next
    case (ConnectTo k cand)
    then show ?thesis using s assms(2) CreateConnection_step [OF sys, of k cand] by auto
  next
    case (DeletionOf k)
    then show ?thesis using s assms(2) delete_connection_step [OF sys] by (auto split: option.splits)
  next
    case (NewAddress i a b pr ty pref final)
    then show ?thesis using s AddAddress_step [OF sys] by fastforce
  next
    case (BecomeRole role)
    then show ?thesis using s assms(2) role_step [OF sys] by simp
  next
    case StartPort
    then show ?thesis using s Start_step [OF sys] by simp
  next
    case TimeoutMessage
    then show ?thesis using s assms(2) timeout_step [OF sys] by auto
  qed
qed

section \<open>The port and the queue of its thread\<close>

text \<open>The messages that were posted to the thread: the timeouts of the port that were already delivered, the
  connections with a \<^verbatim>\<open>MSG_DELETE\<close>, and the requests of deleted connections that still have a \<^verbatim>\<open>MSG_STUN_SEND\<close>; those
  of living connections are in the \<open>sr_thread\<close> of their managers.\<close>

record port_thread =
  th_timeouts :: nat
  th_deletes :: "nat \<Rightarrow> bool"
  th_strays :: "nat \<Rightarrow> nat \<Rightarrow> bool"

type_synonym ice_system = "Port \<times> port_thread"

text \<open>\<^verbatim>\<open>CheckTimeout\<close> posts the deletion of connection \<open>k\<close>.\<close>

definition posts_delete :: "Port \<Rightarrow> Port \<Rightarrow> nat \<Rightarrow> bool" where
  "posts_delete p p' k =
     (case pt_heap p' k of
        None \<Rightarrow> False
      | Some c' \<Rightarrow>
          PostDelete \<in> set (drop (case pt_heap p k of None \<Rightarrow> 0 | Some c \<Rightarrow> length (cn_events c)) (cn_events c')))"

definition has_message :: "StunRequestManager \<Rightarrow> nat \<Rightarrow> bool" where
  "has_message R q \<longleftrightarrow> Some q \<in> phandler ` thread_msgs (sr_thread R)"

text \<open>What the destructor of connection \<open>k\<close> leaves in the queue: its request manager deletes the requests, and each
  request clears its own messages.\<close>

definition leaves_message :: "Port \<Rightarrow> nat \<Rightarrow> nat \<Rightarrow> bool" where
  "leaves_message p k q =
     (case pt_heap p k of
        None \<Rightarrow> False
      | Some c \<Rightarrow> (case delete_manager (cn_requests c) of None \<Rightarrow> False | Some R \<Rightarrow> has_message R q))"

text \<open>The destructor of a message handler clears its own messages, so the deleted connection has none.\<close>

fun thread_after :: "Port \<Rightarrow> Port \<Rightarrow> port_thread \<Rightarrow> ice_call \<Rightarrow> port_thread" where
  "thread_after p p' th TimeoutMessage = th\<lparr>th_timeouts := th_timeouts th + 1\<rparr>"
| "thread_after p p' th (DeletionOf j) =
     th\<lparr>th_deletes := (\<lambda>k. k \<noteq> j \<and> th_deletes th k), th_strays := (th_strays th)(j := (\<lambda>q. th_strays th j q \<or> leaves_message p j q))\<rparr>"
| "thread_after p p' th _ = th\<lparr>th_deletes := (\<lambda>k. th_deletes th k \<or> posts_delete p p' k)\<rparr>"

fun ice_step :: "message_digest \<Rightarrow> (ip_address \<Rightarrow> byte list) \<Rightarrow> (u32 \<Rightarrow> byte list) \<Rightarrow> ice_system \<Rightarrow> u32 \<times> ice_call \<Rightarrow>
    ice_system option" where
  "ice_step sha1 ips us (p, th) (now, call) =
     map_option (\<lambda>(p', _). (p', thread_after p p' th call)) (port_step sha1 ips us (p, th_timeouts th) (now, call))"

text \<open>The calls of the surrounding code, on living connections, of fresh objects and with fresh transaction identifiers,
  and at most one connection for an address, until the port deletes itself. The thread delivers any message that
  is in the queue, in any order; a request's message may even come more than once. The integrity check stays
  inside of the packets.\<close>

fun ice_permitted :: "message_digest \<Rightarrow> ice_system \<Rightarrow> u32 \<times> ice_call \<Rightarrow> bool" where
  "ice_permitted sha1 (p, th) (now, call) \<longleftrightarrow> PortDestroyed \<notin> set (pt_events p) \<and>
     (case call of
        PacketFrom addr data proto \<Rightarrow> packet_readable sha1 p addr data
      | PingOf k q tid \<Rightarrow>
          (case pt_heap p k of
             None \<Rightarrow> False
           | Some c \<Rightarrow> cn_connected c \<and> sr_heap (cn_requests c) q = None \<and> map_of (sr_requests (cn_requests c)) tid = None)
      | RequestMessage k q \<Rightarrow>
          (case pt_heap p k of None \<Rightarrow> th_strays th k q | Some c \<Rightarrow> th_strays th k q \<or> has_message (cn_requests c) q)
      | UpdateOf k \<Rightarrow> pt_heap p k \<noteq> None
      | PruneOf k \<Rightarrow> pt_heap p k \<noteq> None
      | DestroyOf k \<Rightarrow> pt_heap p k \<noteq> None
      | ConnectTo k cand \<Rightarrow>
          pt_heap p k = None \<and> GetConnection p (cd_address cand) = None \<and> pt_candidates p \<noteq> [] \<and>
          (pt_shared_socket p \<longrightarrow> cd_type (pt_candidates p ! 0) = LOCAL_PORT_TYPE)
      | DeletionOf k \<Rightarrow> th_deletes th k
      | BecomeRole role \<Rightarrow> role \<noteq> ROLE_UNKNOWN
      | TimeoutMessage \<Rightarrow> th_timeouts th < timeouts p
      | _ \<Rightarrow> True)"

definition empty_thread :: port_thread where
  "empty_thread = \<lparr>th_timeouts = 0, th_deletes = (\<lambda>_. False), th_strays = (\<lambda>_ _. False)\<rparr>"

definition ice_start :: "ice_system \<Rightarrow> bool" where
  "ice_start s \<longleftrightarrow>
     (\<exists>type network name ip frag pwd shared ufrag pass p comp gen proto role tie.
        Port_new type network name ip frag pwd shared ufrag pass = Some p \<and>
        s = (p\<lparr>pt_component := comp, pt_generation := gen, pt_ice_protocol := proto, pt_role := role,
               pt_tiebreaker := tie\<rparr>, empty_thread)) \<and>
     username_fragment (fst s) \<noteq> None \<and> (pt_ice_protocol (fst s) = ICEPROTO_RFC5245 \<longrightarrow> pt_role (fst s) \<noteq> ROLE_UNKNOWN)"

definition ice_sys_inv :: "ice_system \<Rightarrow> bool" where
  "ice_sys_inv s \<longleftrightarrow> port_sys_inv (fst s, th_timeouts (snd s)) \<and>
     (\<forall>k. th_deletes (snd s) k \<longrightarrow> pt_heap (fst s) k \<noteq> None) \<and> (\<forall>k q. \<not> th_strays (snd s) k q)"

lemma has_message_managed: "sr_struct R \<Longrightarrow> has_message R q \<Longrightarrow> managed R q"
  by (auto simp: has_message_def sr_struct_def routed_def)

lemma leaves_no_message:
  assumes "ice_inv p"
  shows "\<not> leaves_message p k q"
proof (cases "pt_heap p k")
  case (Some c)
  from delete_manager_defined [OF ice_inv_requests [OF assms Some]] Some show ?thesis
    by (auto simp: leaves_message_def has_message_def)
qed (simp add: leaves_message_def)

text \<open>A message in the queue is one for a living object.\<close>

lemma ice_permitted_port:
  assumes "ice_sys_inv (p, th)" "ice_permitted sha1 (p, th) call"
  shows "port_permitted sha1 (p, th_timeouts th) call"
proof -
  have inv: "ice_inv p" using assms(1) by (simp add: ice_sys_inv_def port_sys_inv_def)
  obtain now kind where call: "call = (now, kind)" by fastforce
  show ?thesis
  proof (cases kind)
    case (RequestMessage k q)
    then obtain c where c: "pt_heap p k = Some c" "has_message (cn_requests c) q"
      using assms call by (auto simp: ice_sys_inv_def split: option.splits)
    from has_message_managed [OF ice_inv_requests [OF inv c(1)] c(2)] c(1) show ?thesis
      using assms(2) call RequestMessage by (auto simp: managed_def)
  next
    case (DeletionOf k)
    then show ?thesis using assms call by (auto simp: ice_sys_inv_def)
  qed (use assms(2) call in \<open>auto split: option.splits\<close>)
qed

lemma port_step_timeouts:
  "port_step sha1 ips us (p, n) (now, call) = Some (p', n') \<Longrightarrow> n' = (case call of TimeoutMessage \<Rightarrow> n + 1 | _ \<Rightarrow> n)"
  by auto

lemma thread_after_timeouts: "th_timeouts (thread_after p p' th call) = (case call of TimeoutMessage \<Rightarrow> th_timeouts th + 1 | _ \<Rightarrow> th_timeouts th)"
  by (cases call) auto

lemma thread_after_queue:
  assumes "ice_sys_inv (p, th)" "survive (deletes (now, call)) p p'"
  shows "th_deletes (thread_after p p' th call) k \<Longrightarrow> pt_heap p' k \<noteq> None" "\<not> th_strays (thread_after p p' th call) k q"
proof -
  have posted: "posts_delete p p' k \<Longrightarrow> pt_heap p' k \<noteq> None" for k by (auto simp: posts_delete_def split: option.splits)
  have alive: "th_deletes th k \<Longrightarrow> pt_heap p k \<noteq> None" for k using assms(1) by (simp add: ice_sys_inv_def)
  show "th_deletes (thread_after p p' th call) k \<Longrightarrow> pt_heap p' k \<noteq> None"
    using assms(2) posted [of k] alive [of k] by (cases call) (auto simp: survive_def)
  show "\<not> th_strays (thread_after p p' th call) k q"
    using assms(1) leaves_no_message [of p] by (cases call) (auto simp: ice_sys_inv_def port_sys_inv_def)
qed

lemma ice_step_ok:
  assumes "ice_sys_inv s" "ice_permitted sha1 s call"
  shows "\<exists>s'. ice_step sha1 ips us s call = Some s' \<and> ice_sys_inv s' \<and> sleeps (wakes call) (fst s) (fst s')"
proof -
  obtain p th now kind where s: "s = (p, th)" "call = (now, kind)" by (metis surj_pair)
  note sys = assms(1) [unfolded s(1)]
  have "port_sys_inv (p, th_timeouts th)" using sys by (simp add: ice_sys_inv_def)
  from port_step_ok [OF this ice_permitted_port [OF sys assms(2) [unfolded s(1)]], of ips us] obtain p' n' where
    p': "port_step sha1 ips us (p, th_timeouts th) call = Some (p', n')"
      "step_ok (wakes call) (deletes call) (p, th_timeouts th) (p', n')" by (metis surj_pair)
  then have ok: "port_sys_inv (p', n')" "sleeps (wakes call) p p'" "survive (deletes call) p p'" by (simp_all add: step_ok_def)
  have "n' = th_timeouts (thread_after p p' th kind)"
    using port_step_timeouts [OF p'(1) [unfolded s(2)]] by (simp add: thread_after_timeouts)
  with ok(1) thread_after_queue [OF sys ok(3) [unfolded s(2)]] have "ice_sys_inv (p', thread_after p p' th kind)"
    by (simp add: ice_sys_inv_def)
  moreover have "ice_step sha1 ips us s call = Some (p', thread_after p p' th kind)" using p'(1) s by simp
  ultimately show ?thesis using ok(2) s(1) by simp
qed

lemma ice_start_inv: "ice_start s \<Longrightarrow> ice_sys_inv s"
  by (auto simp: ice_start_def ice_sys_inv_def port_sys_inv_def ice_inv_def Port_new_def timeouts_def empty_thread_def Let_def
    split: if_splits)

interpretation ice_ports: safe_system ice_start "ice_permitted sha1" "ice_step sha1 ips us" ice_sys_inv
  for sha1 ips us
proof
  show "ice_start s \<Longrightarrow> ice_sys_inv s" for s by (rule ice_start_inv)
  show "ice_sys_inv s \<Longrightarrow> ice_permitted sha1 s c \<Longrightarrow> \<exists>s'. ice_step sha1 ips us s c = Some s' \<and> ice_sys_inv s'" for s c
    using ice_step_ok [of s sha1 c ips us] by blast
qed

section \<open>Runs\<close>

lemma run_calls_append:
  "run_calls step s (cs @ ds) = (case run_calls step s cs of None \<Rightarrow> None | Some t \<Rightarrow> run_calls step t ds)"
  by (induction cs arbitrary: s) (auto split: option.split)

lemma permitted_calls_append:
  "permitted_calls ok step s (cs @ ds) \<longleftrightarrow> permitted_calls ok step s cs \<and>
    (case run_calls step s cs of None \<Rightarrow> True | Some t \<Rightarrow> permitted_calls ok step t ds)"
  by (induction cs arbitrary: s) (auto split: option.split)

lemma run_ok:
  assumes "ice_sys_inv s" "permitted_calls (ice_permitted sha1) (ice_step sha1 ips us) s cs"
  shows "\<exists>s'. run_calls (ice_step sha1 ips us) s cs = Some s' \<and> ice_sys_inv s' \<and>
    ((\<forall>c\<in>set cs. k \<notin> wakes c) \<longrightarrow> asleep k (fst s) \<longrightarrow> asleep k (fst s'))"
  using assms
proof (induction cs arbitrary: s)
  case (Cons c cs)
  obtain t where t: "ice_step sha1 ips us s c = Some t" "ice_sys_inv t" "sleeps (wakes c) (fst s) (fst t)"
    using ice_step_ok [OF Cons.prems(1), of sha1 c ips us] Cons.prems(2) unfolding permitted_calls.simps by blast
  then have "k \<notin> wakes c \<Longrightarrow> asleep k (fst s) \<Longrightarrow> asleep k (fst t)" by (auto simp: sleeps_def)
  with Cons.IH [of t] Cons.prems(2) t(1,2) show ?case by auto
qed auto

lemma Prune_asleep:
  assumes "ice_sys_inv (p, n)" "pt_heap p k = Some c" "\<not> cn_pruned c" "ice_step sha1 ips us (p, n) (now, PruneOf k) = Some s'"
  shows "asleep k (fst s')"
proof -
  have "ice_inv p" using assms(1) by (simp add: ice_sys_inv_def port_sys_inv_def)
  from Prune_kept [OF ice_inv_requests [OF this assms(2)]] obtain c' where "Prune c = Some c'" "dormant c'"
    using assms(3) by blast
  then show ?thesis using assms(2,4) by (auto simp: on_conn_def asleep_def put_conn_def)
qed

section \<open>Properties\<close>


text \<open>
  C7. A connection that is pruned stays unusable until it is pinged again: whatever else happens to the port, as
  long as it exists its write state is the timeout.
\<close>

theorem pruned_connection_stays:
  assumes "ice_start s" "permitted_calls (ice_permitted sha1) (ice_step sha1 ips us) s (before @ (now, PruneOf k) # after)"
    and "run_calls (ice_step sha1 ips us) s before = Some (p, n)" "pt_heap p k = Some c" "\<not> cn_pruned c"
    and "\<forall>call\<in>set after. k \<notin> wakes call"
  shows "\<exists>p' n'. run_calls (ice_step sha1 ips us) s (before @ (now, PruneOf k) # after) = Some (p', n') \<and>
    (\<forall>c'. pt_heap p' k = Some c' \<longrightarrow> cn_pruned c' \<and> cn_write_state c' = STATE_WRITE_TIMEOUT)"
proof -
  have ok: "permitted_calls (ice_permitted sha1) (ice_step sha1 ips us) s before"
      "permitted_calls (ice_permitted sha1) (ice_step sha1 ips us) (p, n) ((now, PruneOf k) # after)"
    using assms(2,3) by (simp_all add: permitted_calls_append)
  have inv: "ice_sys_inv (p, n)" using run_ok [OF ice_start_inv [OF assms(1)] ok(1)] assms(3) by auto
  obtain t where t: "ice_step sha1 ips us (p, n) (now, PruneOf k) = Some t" "ice_sys_inv t"
    using ice_step_ok [OF inv, of sha1 "(now, PruneOf k)" ips us] ok(2) by auto
  from run_ok [OF t(2), of sha1 ips us after k] ok(2) t(1) obtain p' n' where
    "run_calls (ice_step sha1 ips us) t after = Some (p', n')" "asleep k p'"
    using Prune_asleep [OF inv assms(4,5) t(1)] assms(6) by (auto simp del: ice_step.simps ice_permitted.simps)
  then show ?thesis using assms(3) t(1)
    by (auto simp: run_calls_append asleep_def dormant_def simp del: ice_step.simps ice_permitted.simps)
qed

definition example_calls :: "(u32 \<times> ice_call) list" where
  "example_calls =
     [(0, NewAddress [1] \<lparr>sk_ip = AF_INET [10, 0, 0, 1], sk_port = 5000\<rparr> \<lparr>sk_ip = AF_INET [10, 0, 0, 1], sk_port = 5000\<rparr>
            (str ''udp'') LOCAL_PORT_TYPE 126 True),
      (1, StartPort), (2, ConnectTo 7 (example_candidate 2 [66] [2, 2]))]"

definition example_start :: Port where
  "example_start = the (Port_new LOCAL_PORT_TYPE 0 [] (AF_INET [10, 0, 0, 1]) [65] [1, 1] False [] [])"

lemma example_starts: "ice_start (example_start, empty_thread)"
  unfolding ice_start_def
proof (intro conjI exI)
  show "Port_new LOCAL_PORT_TYPE 0 [] (AF_INET [10, 0, 0, 1]) [65] [1, 1] False [] [] = Some example_start"
    by (simp add: example_start_def Port_new_def)
  show "(example_start, empty_thread) = (example_start\<lparr>pt_component := pt_component example_start,
      pt_generation := pt_generation example_start, pt_ice_protocol := pt_ice_protocol example_start,
      pt_role := pt_role example_start, pt_tiebreaker := pt_tiebreaker example_start\<rparr>, empty_thread)" by simp
qed (simp_all add: example_start_def Port_new_def username_fragment_def ICE_CANDIDATE_COMPONENT_RTCP_def)

lemmas example_run = example_calls_def example_start_def empty_thread_def posts_delete_def Port_new_def username_fragment_def
  ICE_CANDIDATE_COMPONENT_RTCP_def AddAddress_def port_signal_def port_Start_def UDPPort_CreateConnection_def
  IsCompatibleAddress_def AddConnection_def put_conn_def Connection_new_def GetConnection_def timeouts_def
  example_candidate_def on_conn_def Prune_def sr_Clear_def StunRequestManager_new_def set_write_state_def
  conn_CheckTimeout_def cn_signal_def delete_connection_def OnConnectionDestroyed_def port_CheckTimeout_def
  port_Destroy_def delete_manager_def port_OnMessage_def UpdateState_def conn_Destroy_def set_read_state_def Let_def

definition example_life :: "(u32 \<times> ice_call) list" where
  "example_life = example_calls @
     [(3, PingOf 7 0 [1, 2, 3, 4, 5, 6, 7, 8, 9, 10, 11, 12]), (4, RequestMessage 7 0),
      (5, PacketFrom (cd_address (example_candidate 2 [66] [2, 2])) [128, 0] PROTO_UDP), (6, PingOf 7 1 [2]),
      (7, PruneOf 7), (8, DestroyOf 7), (9, DeletionOf 7), (10, TimeoutMessage)]"

lemma example_permitted:
  "permitted_calls (ice_permitted toy_digest) (ice_step toy_digest (\<lambda>_. []) (\<lambda>_. [])) (example_start, empty_thread) example_life"
  by code_simp


theorem pruned_connection_stays_witness:
  "\<exists>p' n'. run_calls (ice_step toy_digest (\<lambda>_. []) (\<lambda>_. [])) (example_start, empty_thread)
      (example_calls @ (3, PruneOf 7) # [(4, UpdateOf 7), (5, DestroyOf 7)]) = Some (p', n') \<and>
    (\<forall>c'. pt_heap p' 7 = Some c' \<longrightarrow> cn_pruned c' \<and> cn_write_state c' = STATE_WRITE_TIMEOUT)"
proof -
  obtain p n c where p: "run_calls (ice_step toy_digest (\<lambda>_. []) (\<lambda>_. [])) (example_start, empty_thread) example_calls = Some (p, n)"
      "pt_heap p 7 = Some c" "\<not> cn_pruned c"
    by (simp add: example_run)
  have "permitted_calls (ice_permitted toy_digest) (ice_step toy_digest (\<lambda>_. []) (\<lambda>_. [])) (example_start, empty_thread)
      (example_calls @ (3, PruneOf 7) # [(4, UpdateOf 7), (5, DestroyOf 7)])"
    by (simp add: example_run)
  from pruned_connection_stays [OF example_starts this p] show ?thesis by simp
qed

end
