(* ===== verification/ChannelSort.thy ===== *)
theory ChannelSort
  imports P2PTransportChannel IcePortSafety
begin

text \<open>
  What \<^verbatim>\<open>SortConnections\<close> achieves: the order of the connections is a linear preorder, the best connection is the
  first one, the assertion on the writable state holds, and worse connections of its network are pruned.
\<close>

section \<open>The order of connections\<close>

text \<open>A stable sort by a comparison that compares keys is the library's.\<close>

lemma stable_insert_key:
  assumes "\<And>y. y \<in> set ys \<Longrightarrow> lt y x = Some (key y < (key x :: 'k::linorder))"
  shows "stable_insert lt x ys = Some (insort_key key x ys)"
  using assms by (induction ys) (auto simp: not_less)

lemma stable_sort_key:
  assumes "\<And>x y. x \<in> set xs \<Longrightarrow> y \<in> set xs \<Longrightarrow> lt x y = Some (key x < (key y :: 'k::linorder))"
  shows "stable_sort lt xs = Some (sort_key key xs)"
  using assms
proof (induction xs)
  case (Cons x xs)
  then have "stable_sort lt xs = Some (sort_key key xs)" by simp
  then show ?case using stable_insert_key [of "sort_key key xs" lt x key] Cons.prems by simp
qed simp

text \<open>The part of a connection that the comparisons read and that neither updates nor pruning change.\<close>

definition info :: "Port \<times> Connection \<Rightarrow> nat \<times> ice_protocol_type \<times> u64 option \<times> u32 \<times> u32" where
  "info pc = (case pc of (p, c) \<Rightarrow>
     (pt_network p, pt_ice_protocol p, conn_priority p c, cd_generation (cn_remote_candidate c) + pt_generation p, cn_rtt c))"

definition pref_key :: "Port \<times> Connection \<Rightarrow> nat" where
  "pref_key pc = (case info pc of (_, _, pr, gen, _) \<Rightarrow> (2 ^ 64 - 1 - unat (the pr)) * 2 ^ 32 + (2 ^ 32 - 1 - unat gen))"

definition conn_key :: "Port \<times> Connection \<Rightarrow> nat" where
  "conn_key pc = (write_state_value (cn_write_state (snd pc)) * 2 ^ 96 + pref_key pc) * 2 ^ 32 + unat (cn_rtt (snd pc))"

definition comparable :: "ice_protocol_type \<Rightarrow> Port \<times> Connection \<Rightarrow> bool" where
  "comparable proto pc \<longleftrightarrow> (case info pc of (_, pt, pr, gen, _) \<Rightarrow> pt = proto \<and> pr \<noteq> None \<and> unat gen < 2 ^ 31)"

lemma mixed_less:
  assumes "b < M" "d < (M :: nat)"
  shows "a * M + b < c * M + d \<longleftrightarrow> a < c \<or> (a = c \<and> b < d)"
proof (cases a c rule: linorder_cases)
  case less
  then have "(a + 1) * M \<le> c * M" by (intro mult_right_mono) auto
  then show ?thesis using assms less by simp
next
  case greater
  then have "(c + 1) * M \<le> a * M" by (intro mult_right_mono) auto
  then show ?thesis using assms greater by simp
qed simp

lemma mixed_eq: "b < M \<Longrightarrow> d < (M :: nat) \<Longrightarrow> a * M + b = c * M + d \<longleftrightarrow> a = c \<and> b = d"
  using mixed_less [of b M d a c] mixed_less [of d M b c a] by auto

lemma generation_difference:
  assumes "uint (x :: u32) < 2 ^ 31" "uint (y :: u32) < 2 ^ 31"
  shows "sint (x - y) = uint x - uint y"
proof -
  have "0 \<le> a \<Longrightarrow> 0 \<le> b \<Longrightarrow> a < 2 ^ 31 \<Longrightarrow> b < 2 ^ 31 \<Longrightarrow>
      (if (if b \<le> a then a - b else a - b + 2 ^ 32) < 2 ^ 31 then (if b \<le> a then a - b else a - b + 2 ^ 32)
       else (if b \<le> a then a - b else a - b + 2 ^ 32) - 2 ^ 32) = a - b" for a b :: int by auto
  from this [OF _ _ assms] show ?thesis by (simp only: sint_u32 uint_sub_u32 word_le_def unsigned_greater_eq simp_thms)
qed

lemma CompareConnectionCandidates_key:
  assumes "comparable proto a" "comparable proto b"
  shows "\<exists>cmp. CompareConnectionCandidates a b = Some cmp \<and> (cmp > 0 \<longleftrightarrow> pref_key a < pref_key b) \<and>
    (cmp < 0 \<longleftrightarrow> pref_key b < pref_key a)"
proof -
  obtain pa ca pb cb where ab: "a = (pa, ca)" "b = (pb, cb)" by fastforce
  let ?ga = "cd_generation (cn_remote_candidate ca) + pt_generation pa"
  let ?gb = "cd_generation (cn_remote_candidate cb) + pt_generation pb"
  obtain x y where xy: "conn_priority pa ca = Some x" "conn_priority pb cb = Some y" "unat ?ga < 2 ^ 31" "unat ?gb < 2 ^ 31"
    using assms by (auto simp: comparable_def info_def ab)
  have key: "pref_key a = (2 ^ 64 - 1 - unat x) * 2 ^ 32 + (2 ^ 32 - 1 - unat ?ga)"
      "pref_key b = (2 ^ 64 - 1 - unat y) * 2 ^ 32 + (2 ^ 32 - 1 - unat ?gb)"
    by (simp_all add: pref_key_def info_def ab xy)
  have bounds: "unat x < 2 ^ 64" "unat y < 2 ^ 64" using unsigned_less [of x, where 'a = nat] unsigned_less [of y, where 'a = nat] by simp_all
  have less: "(2 ^ 64 - 1 - unat u) * 2 ^ 32 + (2 ^ 32 - 1 - unat g) < (2 ^ 64 - 1 - unat v) * 2 ^ 32 + (2 ^ 32 - 1 - unat h) \<longleftrightarrow>
      v < u \<or> (u = v \<and> h < g)" if "unat u < 2 ^ 64" "unat v < 2 ^ 64" "unat g < 2 ^ 31" "unat h < 2 ^ 31"
      for u v :: u64 and g h :: u32
  proof -
    have "2 ^ 64 - 1 - unat u < 2 ^ 64 - 1 - unat v \<longleftrightarrow> v < u" "2 ^ 64 - 1 - unat u = 2 ^ 64 - 1 - unat v \<longleftrightarrow> u = v"
      using that by (auto simp: word_less_nat_alt word_unat_eq_iff)
    moreover have "2 ^ 32 - 1 - unat g < 2 ^ 32 - 1 - unat h \<longleftrightarrow> h < g" using that by (auto simp: word_less_nat_alt)
    moreover have "2 ^ 32 - 1 - unat g < 2 ^ 32" "2 ^ 32 - 1 - unat h < (2 ^ 32 :: nat)" by simp_all
    ultimately show ?thesis using mixed_less by simp
  qed
  note uint_small = of_nat_less_iff [of "unat (_ :: u32)" "2 ^ 31", where 'a = int, unfolded uint_nat [symmetric] of_nat_power of_nat_numeral]
  have "uint ?ga < 2 ^ 31" "uint ?gb < 2 ^ 31" unfolding uint_small by (rule xy(3), rule xy(4))
  then have gen: "sint (?ga - ?gb) = uint ?ga - uint ?gb" by (rule generation_difference)
  show ?thesis unfolding key less [OF bounds xy(3,4)] less [OF bounds(2,1) xy(4,3)]
    by (auto simp: CompareConnectionCandidates_def ab xy gen word_less_def word_uint_eq_iff)
qed

lemma pref_key_bound: "pref_key a < 2 ^ 96"
proof -
  obtain n t pr g r where "info a = (n, t, pr, g, r)" by (metis surj_pair)
  moreover have "(2 ^ 64 - 1 - m) * 2 ^ 32 + (2 ^ 32 - 1 - k) < (2 ^ 96 :: nat)" for m k :: nat
    using mixed_less [of "2 ^ 32 - 1 - k" "2 ^ 32" 0 "2 ^ 64 - 1 - m" "2 ^ 64"] by simp
  ultimately show ?thesis by (simp add: pref_key_def)
qed

lemma write_state_value_inj: "write_state_value s = write_state_value t \<longleftrightarrow> s = t"
  by (cases s; cases t) simp_all

lemma CompareConnections_key:
  assumes "comparable proto a" "comparable proto b"
  shows "\<exists>cmp. CompareConnections a b = Some cmp \<and>
    (cmp > 0 \<or> (cmp = 0 \<and> cn_rtt (snd a) < cn_rtt (snd b)) \<longleftrightarrow> conn_key a < conn_key b) \<and>
    (cmp < 0 \<longrightarrow> conn_key b < conn_key a)"
proof -
  have bounds: "unat (cn_rtt (snd c)) < 2 ^ 32" for c :: "Port \<times> Connection"
    using unsigned_less [of "cn_rtt (snd c)", where 'a = nat] by simp
  have key: "conn_key c < conn_key d \<longleftrightarrow>
      write_state_value (cn_write_state (snd c)) < write_state_value (cn_write_state (snd d)) \<or>
      (cn_write_state (snd c) = cn_write_state (snd d) \<and>
       (pref_key c < pref_key d \<or> (pref_key c = pref_key d \<and> cn_rtt (snd c) < cn_rtt (snd d))))" for c d
    unfolding conn_key_def mixed_less [OF bounds bounds] mixed_less [OF pref_key_bound pref_key_bound]
      mixed_eq [OF pref_key_bound pref_key_bound] word_less_nat_alt write_state_value_inj by blast
  show ?thesis
  proof (cases "cn_write_state (snd a) = cn_write_state (snd b)")
    case True
    obtain cmp where "CompareConnectionCandidates a b = Some cmp" "cmp > 0 \<longleftrightarrow> pref_key a < pref_key b"
        "cmp < 0 \<longleftrightarrow> pref_key b < pref_key a" using CompareConnectionCandidates_key [OF assms] by blast
    then show ?thesis using True by (auto simp: CompareConnections_def key Let_def)
  next
    case False
    then have "write_state_value (cn_write_state (snd a)) \<noteq> write_state_value (cn_write_state (snd b))"
      by (simp add: write_state_value_inj)
    then show ?thesis using False by (auto simp: CompareConnections_def key Let_def)
  qed
qed

definition channel_ok :: "P2PTransportChannel \<Rightarrow> bool" where
  "channel_ok ch \<longleftrightarrow> distinct (ch_connections ch) \<and> set_option (ch_best_connection ch) \<subseteq> set (ch_connections ch) \<and>
     (\<exists>proto. \<forall>a\<in>set (ch_connections ch). \<exists>pc. conn_at ch a = Some pc \<and> comparable proto pc \<and> sr_struct (cn_requests (snd pc)))"

definition key_of :: "P2PTransportChannel \<Rightarrow> conn_id \<Rightarrow> nat" where
  "key_of ch a = conn_key (the (conn_at ch a))"

lemma ConnectionCompare_key:
  assumes "conn_at ch a = Some pa" "conn_at ch b = Some pb" "comparable proto pa" "comparable proto pb"
  shows "ConnectionCompare ch a b = Some (key_of ch a < key_of ch b)"
proof -
  obtain cmp where cmp: "CompareConnections pa pb = Some cmp"
      "cmp > 0 \<or> (cmp = 0 \<and> cn_rtt (snd pa) < cn_rtt (snd pb)) \<longleftrightarrow> conn_key pa < conn_key pb"
    using CompareConnections_key [OF assms(3,4)] by blast
  have "pt_ice_protocol (fst pa) = pt_ice_protocol (fst pb)"
    using assms(3,4) by (auto simp: comparable_def info_def split: prod.splits)
  with cmp assms show ?thesis by (auto simp: ConnectionCompare_def key_of_def)
qed

lemma channel_sort:
  assumes "channel_ok ch"
  shows "stable_sort (ConnectionCompare ch) (ch_connections ch) = Some (sort_key (key_of ch) (ch_connections ch))"
  using assms by (intro stable_sort_key) (metis ConnectionCompare_key channel_ok_def)

text \<open>The code never keeps the old best connection: the head of the sorted list is at least as good, whatever the
  margin is.\<close>

lemma ShouldSwitch_top:
  assumes "channel_ok ch" "ch_connections ch = t # rest" "sorted (map (key_of ch) (ch_connections ch))"
  shows "ShouldSwitch ch (ch_best_connection ch) (Some t) = Some (ch_best_connection ch \<noteq> Some t)"
proof (cases "ch_best_connection ch")
  case (Some a)
  show ?thesis
  proof (cases "a = t")
    case False
    have a: "a \<in> set (ch_connections ch)" "t \<in> set (ch_connections ch)" using assms(1,2) Some by (auto simp: channel_ok_def)
    then obtain proto pa pt where p: "conn_at ch a = Some pa" "conn_at ch t = Some pt" "comparable proto pa" "comparable proto pt"
      using assms(1) unfolding channel_ok_def by blast
    have "key_of ch t \<le> key_of ch a" using a assms(2,3) by auto
    then have "conn_key pt \<le> conn_key pa" using p by (simp add: key_of_def)
    moreover obtain cmp where cmp: "CompareConnections pa pt = Some cmp"
        "cmp > 0 \<or> (cmp = 0 \<and> cn_rtt (snd pa) < cn_rtt (snd pt)) \<longleftrightarrow> conn_key pa < conn_key pt"
      using CompareConnections_key [OF p(3,4)] by blast
    ultimately have "\<not> cmp > 0" "cmp = 0 \<Longrightarrow> unat (cn_rtt (snd pt)) \<le> unat (cn_rtt (snd pa))"
      by (auto simp: word_less_nat_alt)
    then show ?thesis using Some False p cmp(1) by (auto simp: ShouldSwitch_def)
  qed (simp add: ShouldSwitch_def Some)
qed (simp add: ShouldSwitch_def)

section \<open>Calls that keep the order\<close>

definition same_info :: "Port \<times> Connection \<Rightarrow> Port \<times> Connection \<Rightarrow> bool" where
  "same_info pc pc' \<longleftrightarrow> info pc' = info pc \<and>
     (sr_struct (cn_requests (snd pc)) \<longrightarrow> sr_struct (cn_requests (snd pc')))"

definition core :: "P2PTransportChannel \<Rightarrow> P2PTransportChannel" where
  "core ch = ch\<lparr>ch_heap := (\<lambda>_. None), ch_sort_dirty := False, ch_events := []\<rparr>"

definition evolve :: "P2PTransportChannel \<Rightarrow> P2PTransportChannel \<Rightarrow> bool" where
  "evolve ch ch' \<longleftrightarrow> core ch' = core ch \<and>
     (\<forall>a. rel_option same_info (conn_at ch a) (conn_at ch' a))"

lemma same_info_refl [simp]: "same_info pc pc"
  by (simp add: same_info_def)

lemma same_info_trans: "same_info a b \<Longrightarrow> same_info b c \<Longrightarrow> same_info a c"
  by (simp add: same_info_def)

lemma evolve_fields:
  assumes "evolve ch ch'"
  shows "ch_connections ch' = ch_connections ch" "ch_best_connection ch' = ch_best_connection ch" "ch_role ch' = ch_role ch"
proof -
  have "ch_connections (core ch') = ch_connections (core ch)" "ch_best_connection (core ch') = ch_best_connection (core ch)"
      "ch_role (core ch') = ch_role (core ch)" using assms by (simp_all add: evolve_def)
  then show "ch_connections ch' = ch_connections ch" "ch_best_connection ch' = ch_best_connection ch" "ch_role ch' = ch_role ch"
    by (simp_all add: core_def)
qed

lemma evolve_refl [simp]: "evolve ch ch"
  by (simp add: evolve_def option.rel_refl)

lemma rel_option_trans:
  "rel_option R x y \<Longrightarrow> rel_option R y z \<Longrightarrow> (\<And>a b c. R a b \<Longrightarrow> R b c \<Longrightarrow> R a c) \<Longrightarrow> rel_option R x z"
  by (cases x; cases y; cases z) auto

lemma evolve_trans:
  assumes "evolve a b" "evolve b c"
  shows "evolve a c"
proof -
  have "rel_option same_info (conn_at a i) (conn_at c i)" for i
  proof (rule rel_option_trans)
    show "rel_option same_info (conn_at a i) (conn_at b i)" using assms(1) unfolding evolve_def by blast
    show "rel_option same_info (conn_at b i) (conn_at c i)" using assms(2) unfolding evolve_def by blast
  qed (rule same_info_trans)
  moreover have "core c = core a" using assms unfolding evolve_def by simp
  ultimately show ?thesis unfolding evolve_def by blast
qed

lemma evolve_conn:
  assumes "evolve ch ch'" "conn_at ch a = Some pc"
  obtains pc' where "conn_at ch' a = Some pc'" "same_info pc pc'"
proof -
  have "rel_option same_info (conn_at ch a) (conn_at ch' a)" using assms(1) unfolding evolve_def by blast
  then have "rel_option same_info (Some pc) (conn_at ch' a)" using assms(2) by simp
  then show ?thesis using that by (cases "conn_at ch' a") auto
qed

lemma comparable_info: "same_info pc pc' \<Longrightarrow> comparable proto pc' = comparable proto pc"
  by (simp add: comparable_def same_info_def)

lemma channel_okI:
  assumes "distinct (ch_connections ch)" "set_option (ch_best_connection ch) \<subseteq> set (ch_connections ch)"
    "\<And>a. a \<in> set (ch_connections ch) \<Longrightarrow> \<exists>pc. conn_at ch a = Some pc \<and> comparable proto pc \<and> sr_struct (cn_requests (snd pc))"
  shows "channel_ok ch"
  unfolding channel_ok_def using assms by blast

lemma channel_okE:
  assumes "channel_ok ch"
  obtains proto where "distinct (ch_connections ch)" "set_option (ch_best_connection ch) \<subseteq> set (ch_connections ch)"
    "\<And>a. a \<in> set (ch_connections ch) \<Longrightarrow> \<exists>pc. conn_at ch a = Some pc \<and> comparable proto pc \<and> sr_struct (cn_requests (snd pc))"
  using assms unfolding channel_ok_def by blast

lemma evolve_ok:
  assumes "channel_ok ch" "evolve ch ch'"
  shows "channel_ok ch'"
proof -
  from assms(1) obtain proto where ok: "distinct (ch_connections ch)" "set_option (ch_best_connection ch) \<subseteq> set (ch_connections ch)"
    "\<And>a. a \<in> set (ch_connections ch) \<Longrightarrow> \<exists>pc. conn_at ch a = Some pc \<and> comparable proto pc \<and> sr_struct (cn_requests (snd pc))"
    by (erule channel_okE)
  show ?thesis
  proof (rule channel_okI [of ch' proto], unfold evolve_fields [OF assms(2)])
    fix a assume "a \<in> set (ch_connections ch)"
    from ok(3) [OF this] obtain pc where pc: "conn_at ch a = Some pc" "comparable proto pc" "sr_struct (cn_requests (snd pc))"
      by blast
    from evolve_conn [OF assms(2) pc(1)] obtain pc' where "conn_at ch' a = Some pc'" "same_info pc pc'" .
    then show "\<exists>pc. conn_at ch' a = Some pc \<and> comparable proto pc \<and> sr_struct (cn_requests (snd pc))"
      using pc comparable_info [of pc pc' proto] by (simp add: same_info_def)
  qed (fact ok)+
qed

text \<open>A call that only changes the state of a connection.\<close>

definition quiet :: "Connection \<Rightarrow> Connection \<Rightarrow> bool" where
  "quiet c c' \<longleftrightarrow> conn_kept c c' \<and> cn_rtt c' = cn_rtt c \<and>
     (\<exists>es. cn_events c' = cn_events c @ es \<and> set es \<subseteq> {SignalStateChange, PostDelete})"

lemma quiet_trans: "quiet a b \<Longrightarrow> quiet b c \<Longrightarrow> quiet a c"
  unfolding quiet_def using conn_kept_trans by fastforce

lemma quiet_states [simp]: "quiet c (set_read_state v c)" "quiet c (set_write_state w c)" "quiet c c"
  by (auto simp: quiet_def set_read_state_def set_write_state_def conn_CheckTimeout_def cn_signal_def Let_def
      conn_kept_def)

lemma quiet_UpdateState: "quiet c (UpdateState now c)"
proof -
  have step: "quiet c (if b then f d else d)" if "quiet c d" "\<And>d. quiet d (f d)" for b f d
    using quiet_trans [OF that(1) that(2)] that(1) by simp
  show ?thesis unfolding UpdateState_def Let_def by (intro step) simp_all
qed

lemma events_sort:
  "set es \<subseteq> {SignalStateChange, PostDelete} \<Longrightarrow>
    \<exists>d ev. foldl (on_conn_event a) (Some ch) es = Some (ch\<lparr>ch_sort_dirty := d, ch_events := ev\<rparr>)"
proof (induction es arbitrary: ch)
  case Nil
  have "ch = ch\<lparr>ch_sort_dirty := ch_sort_dirty ch, ch_events := ch_events ch\<rparr>" by simp
  then show ?case by (metis foldl_Nil)
next
  case (Cons e es)
  obtain d ev where "on_conn_event a (Some ch) e = Some (ch\<lparr>ch_sort_dirty := d, ch_events := ev\<rparr>)"
  proof (cases "e = PostDelete")
    case True
    then show ?thesis using that [where d = "ch_sort_dirty ch" and ev = "ch_events ch"] by simp
  next
    case False
    then have "e = SignalStateChange" using Cons.prems by auto
    then show ?thesis using that [where d = True and ev = "if ch_sort_dirty ch then ch_events ch else ch_events ch @ [PostSort]"]
      by (cases "ch_sort_dirty ch") (simp_all add: RequestSort_def ch_signal_def)
  qed
  with Cons.IH [of "ch\<lparr>ch_sort_dirty := d, ch_events := ev\<rparr>"] Cons.prems show ?case by auto
qed

lemma conn_at_put:
  assumes "conn_at ch a = Some (p, c)"
  shows "conn_at (put_port (fst a) (put_conn (snd a) c' p) ch) b =
    (if b = a then Some (put_conn (snd a) c' p, c')
     else if fst b = fst a then map_option (\<lambda>(_, d). (put_conn (snd a) c' p, d)) (conn_at ch b) else conn_at ch b)"
proof -
  have "ch_heap ch (fst a) = Some p" using assms by (auto simp: conn_at_def split: Option.bind_splits)
  then show ?thesis by (cases a; cases b) (auto simp: conn_at_def put_port_def put_conn_def split: Option.bind_splits)
qed

lemma info_put: "info (put_conn k c' p, d) = info (p, d)"
  by (simp add: info_def put_conn_def conn_priority_def local_candidate_def)

lemma info_quiet: "quiet c c' \<Longrightarrow> info (p, c') = info (p, c)"
  by (simp add: info_def quiet_def conn_kept_def conn_priority_def local_candidate_def)

lemma put_evolve:
  assumes "conn_at ch a = Some (p, c)" "info (p, c') = info (p, c)" "conn_kept c c'"
  shows "evolve ch ((put_port (fst a) (put_conn (snd a) c' p) ch)\<lparr>ch_sort_dirty := d, ch_events := ev\<rparr>)"
proof -
  have at: "conn_at (ch\<lparr>ch_sort_dirty := d, ch_events := ev\<rparr>) b = conn_at ch b" for ch b by (simp add: conn_at_def)
  have "rel_option same_info (conn_at ch b) (conn_at (put_port (fst a) (put_conn (snd a) c' p) ch) b)" for b
  proof -
    have "ch_heap ch (fst a) = Some p" using assms by (auto simp: conn_at_def split: Option.bind_splits)
    then have "fst b = fst a \<Longrightarrow> conn_at ch b = Some pd \<Longrightarrow> fst pd = p" for pd
      by (auto simp: conn_at_def split: Option.bind_splits)
    then show ?thesis using assms unfolding conn_at_put [OF assms(1)]
      by (cases "conn_at ch b") (auto simp: same_info_def info_put conn_kept_def option.rel_refl)
  qed
  then show ?thesis unfolding evolve_def at by (simp add: put_port_def core_def)
qed

lemma call_quiet:
  assumes "conn_at ch a = Some (p, c)" "f c = Some c'" "quiet c c'"
  shows "\<exists>ch'. call_conn ch a (update_conn f (snd a)) = Some ch' \<and> evolve ch ch' \<and>
    (\<forall>b. map_option snd (conn_at ch' b) = (if b = a then Some c' else map_option snd (conn_at ch b)))"
proof -
  have p: "ch_heap ch (fst a) = Some p" "pt_heap p (snd a) = Some c"
    using assms(1) by (auto simp: conn_at_def split: Option.bind_splits)
  obtain es where es: "cn_events c' = cn_events c @ es" "set es \<subseteq> {SignalStateChange, PostDelete}" "conn_kept c c'"
    using assms(3) by (auto simp: quiet_def)
  let ?ch = "put_port (fst a) (put_conn (snd a) c' p) ch"
  obtain d ev where "foldl (on_conn_event a) (Some ?ch) es = Some (?ch\<lparr>ch_sort_dirty := d, ch_events := ev\<rparr>)"
    using events_sort [OF es(2)] by blast
  then have "call_conn ch a (update_conn f (snd a)) = Some (?ch\<lparr>ch_sort_dirty := d, ch_events := ev\<rparr>)"
    using assms(1,2) p es(1) by (simp add: call_conn_def update_conn_def put_conn_def)
  moreover have "evolve ch (?ch\<lparr>ch_sort_dirty := d, ch_events := ev\<rparr>)"
    by (rule put_evolve [OF assms(1) info_quiet [OF assms(3)] es(3)])
  moreover have "conn_at (?ch\<lparr>ch_sort_dirty := d, ch_events := ev\<rparr>) b = conn_at ?ch b" for b by (simp add: conn_at_def)
  ultimately show ?thesis using conn_at_put [OF assms(1), of c']
    by (auto simp: option.map_comp comp_def split_def)
qed

lemma for_each_rel:
  assumes "\<And>x s. x \<in> set xs \<Longrightarrow> I s \<Longrightarrow> \<exists>s'. f x s = Some s' \<and> R s s' \<and> I s'"
    and "\<And>s. R s s" "\<And>a b c. R a b \<Longrightarrow> R b c \<Longrightarrow> R a c" "I s"
  shows "\<exists>s'. for_each f xs s = Some s' \<and> R s s' \<and> I s'"
  using assms(1,4)
proof (induction xs arbitrary: s)
  case (Cons x xs)
  from Cons.prems(1) [of x s] Cons.prems(2) obtain t where t: "f x s = Some t" "R s t" "I t" by auto
  from Cons.IH [OF _ t(3)] Cons.prems(1) obtain s' where "for_each f xs t = Some s'" "R t s'" "I s'" by auto
  with t assms(3) show ?case by auto
qed (simp add: assms(2))

lemma UpdateConnectionStates_evolve:
  assumes "channel_ok ch"
  shows "\<exists>ch'. UpdateConnectionStates now ch = Some ch' \<and> evolve ch ch' \<and> channel_ok ch'"
proof -
  have "\<exists>s'. for_each (\<lambda>a ch. call_conn ch a (update_conn (\<lambda>c. Some (UpdateState now c)) (snd a))) (ch_connections ch) ch = Some s' \<and>
      evolve ch s' \<and> (channel_ok s' \<and> ch_connections s' = ch_connections ch)"
  proof (rule for_each_rel [where R = evolve])
    fix a s assume a: "a \<in> set (ch_connections ch)" and s: "channel_ok s \<and> ch_connections s = ch_connections ch"
    then obtain p c where c: "conn_at s a = Some (p, c)" unfolding channel_ok_def by (metis surj_pair)
    from call_quiet [where f = "\<lambda>c. Some (UpdateState now c)", OF c refl quiet_UpdateState]
    show "\<exists>s'. call_conn s a (update_conn (\<lambda>c. Some (UpdateState now c)) (snd a)) = Some s' \<and> evolve s s' \<and>
        (channel_ok s' \<and> ch_connections s' = ch_connections ch)"
      using evolve_ok evolve_fields(1) s by metis
  qed (use assms evolve_trans in auto)
  then show ?thesis by (auto simp: UpdateConnectionStates_def)
qed

section \<open>Pruning\<close>

definition pruned_from :: "Connection \<Rightarrow> Connection \<Rightarrow> bool" where
  "pruned_from c c' \<longleftrightarrow> c' = c \<or>
     (cn_pruned c' \<and> cn_write_state c' = STATE_WRITE_TIMEOUT \<and> cn_read_state c' = cn_read_state c \<and> cn_rtt c' = cn_rtt c)"

definition prunes :: "conn_id \<Rightarrow> P2PTransportChannel \<Rightarrow> P2PTransportChannel \<Rightarrow> bool" where
  "prunes best ch ch' \<longleftrightarrow> evolve ch ch' \<and>
     (\<forall>b pc pc'. conn_at ch b = Some pc \<longrightarrow> conn_at ch' b = Some pc' \<longrightarrow>
        pruned_from (snd pc) (snd pc') \<and> (b = best \<longrightarrow> snd pc' = snd pc))"

lemma prunes_refl: "prunes best ch ch"
  by (simp add: prunes_def pruned_from_def)

lemma pruned_from_trans: "pruned_from a b \<Longrightarrow> pruned_from b c \<Longrightarrow> pruned_from a c"
  by (auto simp: pruned_from_def)

lemma prunes_trans:
  assumes "prunes best a b" "prunes best b c"
  shows "prunes best a c"
proof -
  have "pruned_from (snd pc) (snd pc') \<and> (i = best \<longrightarrow> snd pc' = snd pc)"
    if at: "conn_at a i = Some pc" "conn_at c i = Some pc'" for i pc pc'
  proof -
    have "evolve a b" using assms(1) by (simp add: prunes_def)
    from evolve_conn [OF this at(1)] obtain pb where "conn_at b i = Some pb" by blast
    then have "pruned_from (snd pc) (snd pb)" "i = best \<Longrightarrow> snd pb = snd pc"
        "pruned_from (snd pb) (snd pc')" "i = best \<Longrightarrow> snd pc' = snd pb"
      using assms at unfolding prunes_def by blast+
    then show ?thesis using pruned_from_trans by metis
  qed
  then show ?thesis using assms evolve_trans unfolding prunes_def by blast
qed

lemma Prune_quiet:
  assumes "sr_struct (cn_requests c)"
  shows "\<exists>c'. Prune c = Some c' \<and> quiet c c' \<and> pruned_from c c' \<and> cn_pruned c'"
proof (cases "cn_pruned c")
  case False
  obtain R where R: "sr_Clear (cn_requests c) = Some R" "sr_struct R" using sr_Clear_struct [OF assms] by blast
  let ?c = "c\<lparr>cn_pruned := True, cn_requests := R\<rparr>"
  have "quiet c ?c" using R(2) by (simp add: quiet_def conn_kept_def)
  then have "quiet c (set_write_state STATE_WRITE_TIMEOUT ?c)" by (rule quiet_trans) simp
  moreover have "pruned_from c (set_write_state STATE_WRITE_TIMEOUT ?c)" "cn_pruned (set_write_state STATE_WRITE_TIMEOUT ?c)"
    by (simp_all add: pruned_from_def set_write_state_def conn_CheckTimeout_def cn_signal_def Let_def)
  ultimately show ?thesis using R(1) False by (simp add: Prune_def)
qed (simp add: Prune_def pruned_from_def)

text \<open>What the loop does to one connection of the network \<open>n\<close>.\<close>

definition outdone :: "P2PTransportChannel \<Rightarrow> conn_id \<Rightarrow> nat \<Rightarrow> conn_id \<Rightarrow> bool" where
  "outdone ch primier n a \<longleftrightarrow> a \<noteq> primier \<and>
     (\<exists>pc pp cmp. conn_at ch a = Some pc \<and> pt_network (fst pc) = n \<and> conn_at ch primier = Some pp \<and>
        CompareConnectionCandidates pp pc = Some cmp \<and> cmp \<ge> 0)"

definition is_pruned :: "P2PTransportChannel \<Rightarrow> conn_id \<Rightarrow> bool" where
  "is_pruned ch a \<longleftrightarrow> (\<exists>pc. conn_at ch a = Some pc \<and> cn_pruned (snd pc))"

lemma is_pruned_mono: "prunes best ch ch' \<Longrightarrow> is_pruned ch a \<Longrightarrow> is_pruned ch' a"
proof -
  assume p: "prunes best ch ch'" and a: "is_pruned ch a"
  then obtain pc where pc: "conn_at ch a = Some pc" "cn_pruned (snd pc)" by (auto simp: is_pruned_def)
  have "evolve ch ch'" using p by (simp add: prunes_def)
  from evolve_conn [OF this pc(1)] obtain pc' where pc': "conn_at ch' a = Some pc'" by blast
  then have "pruned_from (snd pc) (snd pc')" using p pc(1) unfolding prunes_def by blast
  with pc pc' show ?thesis by (auto simp: is_pruned_def pruned_from_def)
qed

lemma CompareConnectionCandidates_info:
  assumes "same_info a a'" "same_info b b'"
  shows "CompareConnectionCandidates a' b' = CompareConnectionCandidates a b"
  using assms by (cases a; cases a'; cases b; cases b')
    (simp add: CompareConnectionCandidates_def same_info_def info_def cong: if_cong)

lemma outdone_info:
  assumes "evolve ch ch'"
  shows "outdone ch primier n a \<Longrightarrow> outdone ch' primier n a"
proof -
  assume "outdone ch primier n a"
  then obtain pc pp cmp where o': "a \<noteq> primier" "conn_at ch a = Some pc" "pt_network (fst pc) = n" "conn_at ch primier = Some pp"
      "CompareConnectionCandidates pp pc = Some cmp" "cmp \<ge> 0" unfolding outdone_def by blast
  from evolve_conn [OF assms o'(2)] obtain pc' where pc': "conn_at ch' a = Some pc'" "same_info pc pc'" .
  from evolve_conn [OF assms o'(4)] obtain pp' where pp': "conn_at ch' primier = Some pp'" "same_info pp pp'" .
  have "pt_network (fst pc') = n" using pc'(2) o'(3) by (auto simp: same_info_def info_def split: prod.splits)
  then show ?thesis using o' pc' pp' CompareConnectionCandidates_info [OF pp'(2) pc'(2)] unfolding outdone_def by auto
qed

definition prune_one :: "conn_id \<Rightarrow> nat \<Rightarrow> conn_id \<Rightarrow> P2PTransportChannel \<Rightarrow> P2PTransportChannel option" where
  "prune_one primier network a ch =
     do { (p, c) \<leftarrow> conn_at ch a;
          if a \<noteq> primier \<and> pt_network p = network then do {
            prim \<leftarrow> conn_at ch primier;
            cmp \<leftarrow> CompareConnectionCandidates prim (p, c);
            if cmp \<ge> 0 then call_conn ch a (update_conn Prune (snd a)) else Some ch }
          else Some ch }"

lemma prune_one_step:
  assumes "channel_ok ch" "a \<in> set (ch_connections ch)" "primier \<in> set (ch_connections ch)"
    and best: "outdone ch primier n best \<Longrightarrow> a \<noteq> best"
  shows "\<exists>ch'. prune_one primier n a ch = Some ch' \<and> prunes best ch ch' \<and> (outdone ch primier n a \<longrightarrow> is_pruned ch' a)"
proof -
  from assms(1) obtain proto where ok: "\<And>a. a \<in> set (ch_connections ch) \<Longrightarrow>
      \<exists>pc. conn_at ch a = Some pc \<and> comparable proto pc \<and> sr_struct (cn_requests (snd pc))"
    unfolding channel_ok_def by blast
  from ok [OF assms(2)] obtain p c where c: "conn_at ch a = Some (p, c)" "comparable proto (p, c)" "sr_struct (cn_requests c)" by auto
  from ok [OF assms(3)] obtain pp where pp: "conn_at ch primier = Some pp" "comparable proto pp" by blast
  obtain cmp where cmp: "CompareConnectionCandidates pp (p, c) = Some cmp"
    using CompareConnectionCandidates_key [OF pp(2) c(2)] by blast
  show ?thesis
  proof (cases "outdone ch primier n a")
    case True
    then have o': "a \<noteq> primier" "pt_network p = n" "cmp \<ge> 0" using c(1) pp(1) cmp by (auto simp: outdone_def)
    obtain c' where c': "Prune c = Some c'" "quiet c c'" "pruned_from c c'" "cn_pruned c'" using Prune_quiet [OF c(3)] by blast
    from call_quiet [where f = Prune, OF c(1) c'(1,2)] obtain ch' where ch': "call_conn ch a (update_conn Prune (snd a)) = Some ch'" "evolve ch ch'"
        "\<And>b. map_option snd (conn_at ch' b) = (if b = a then Some c' else map_option snd (conn_at ch b))" by blast
    have not_best: "a \<noteq> best" using best True by blast
    have at: "snd pc' = (if b = a then c' else snd pc)" if "conn_at ch b = Some pc" "conn_at ch' b = Some pc'" for b pc pc'
      using ch'(3) [of b] that by (simp split: if_splits)
    have "pruned_from (snd pc) (snd pc') \<and> (b = best \<longrightarrow> snd pc' = snd pc)"
      if "conn_at ch b = Some pc" "conn_at ch' b = Some pc'" for b pc pc'
      using at [OF that] that(1) not_best c'(3) c(1) by (cases "b = a") (auto simp: pruned_from_def)
    then have "prunes best ch ch'" using ch'(2) unfolding prunes_def by blast
    moreover have "is_pruned ch' a" using ch'(3) [of a] c'(4) by (auto simp: is_pruned_def)
    ultimately show ?thesis using ch'(1) o' c(1) pp(1) cmp by (simp add: prune_one_def)
  next
    case False
    then have "prune_one primier n a ch = Some ch"
      using c(1) pp(1) cmp by (auto simp: prune_one_def outdone_def)
    with False prunes_refl show ?thesis by blast
  qed
qed

text \<open>One network: the premier outdoes what it can, and the best connection of the channel is not touched.\<close>

lemma prune_network_step:
  assumes ok: "channel_ok ch" and best: "best \<in> set (ch_connections ch)" "ch_best_connection ch = Some best"
  shows "\<exists>ch'. prune_network n ch = Some ch' \<and> prunes best ch ch' \<and>
    (conn_write_state ch best = Some STATE_WRITABLE \<longrightarrow>
      (\<forall>pc. conn_at ch best = Some pc \<longrightarrow> pt_network (fst pc) = n \<longrightarrow>
        (\<forall>a\<in>set (ch_connections ch). outdone ch best n a \<longrightarrow> is_pruned ch' a)))"
proof (cases "\<exists>primier. GetBestConnectionOnNetwork ch n = Some primier \<and> conn_write_state ch primier = Some STATE_WRITABLE")
  case False
  then have "prune_network n ch = Some ch" by (auto simp: prune_network_def split: option.split)
  moreover have "GetBestConnectionOnNetwork ch n = Some best" if "conn_at ch best = Some pc" "pt_network (fst pc) = n" for pc
    using that best(2) by (auto simp: GetBestConnectionOnNetwork_def Let_def split: prod.splits)
  ultimately show ?thesis using False prunes_refl by blast
next
  case True
  then obtain primier where prim: "GetBestConnectionOnNetwork ch n = Some primier" "conn_write_state ch primier = Some STATE_WRITABLE" by blast
  let ?on = "\<lambda>a. case conn_at ch a of None \<Rightarrow> False | Some (p, _) \<Rightarrow> pt_network p = n"
  have prim_in: "primier \<in> set (ch_connections ch)"
    using prim(1) best by (auto simp: GetBestConnectionOnNetwork_def Let_def find_Some_iff split: if_splits)
  have prim_best: "?on best \<Longrightarrow> primier = best" using prim(1) best(2) by (simp add: GetBestConnectionOnNetwork_def Let_def)
  have not_out: "\<not> outdone s primier n best" if "evolve ch s" for s
  proof
    assume o': "outdone s primier n best"
    then obtain pc where pc: "conn_at s best = Some pc" "pt_network (fst pc) = n" "best \<noteq> primier" unfolding outdone_def by blast
    obtain pc0 where "conn_at ch best = Some pc0" using ok best(1) unfolding channel_ok_def by blast
    moreover from evolve_conn [OF that this] have "same_info pc0 pc" using pc(1) by auto
    ultimately have "?on best" using pc(2) by (auto simp: same_info_def info_def split: prod.splits)
    with prim_best pc(3) show False by blast
  qed
  have loop: "\<exists>s'. for_each (prune_one primier n) xs s = Some s' \<and> prunes best s s' \<and>
      (\<forall>a\<in>set xs. outdone ch primier n a \<longrightarrow> is_pruned s' a)"
    if "set xs \<subseteq> set (ch_connections ch)" "evolve ch s" for xs s
    using that
  proof (induction xs arbitrary: s)
    case Nil
    then show ?case using prunes_refl by auto
  next
    case (Cons a xs)
    have s: "channel_ok s" "ch_connections s = ch_connections ch" using evolve_ok [OF ok] evolve_fields Cons.prems(2) by auto
    have "a \<in> set (ch_connections s)" "primier \<in> set (ch_connections s)" using Cons.prems(1) prim_in s(2) by auto
    from prune_one_step [OF s(1) this, of n best] not_out [OF Cons.prems(2)] obtain t where
      t: "prune_one primier n a s = Some t" "prunes best s t" "outdone s primier n a \<Longrightarrow> is_pruned t a" by blast
    have "evolve ch t" using t(2) Cons.prems(2) evolve_trans unfolding prunes_def by blast
    from Cons.IH [OF _ this] Cons.prems(1) obtain s' where s': "for_each (prune_one primier n) xs t = Some s'" "prunes best t s'"
        "\<forall>a\<in>set xs. outdone ch primier n a \<longrightarrow> is_pruned s' a" by auto
    have "outdone ch primier n a \<Longrightarrow> is_pruned s' a"
      using is_pruned_mono [OF s'(2)] t(3) outdone_info [OF Cons.prems(2)] by blast
    then show ?case using t(1) s' prunes_trans [OF t(2) s'(2)] by auto
  qed
  have unf: "prune_network n ch = for_each (prune_one primier n) (ch_connections ch) ch"
    using prim by (simp add: prune_network_def prune_one_def [abs_def])
  from loop [OF subset_refl evolve_refl] obtain s' where s': "prune_network n ch = Some s'" "prunes best ch s'"
      "\<forall>a\<in>set (ch_connections ch). outdone ch primier n a \<longrightarrow> is_pruned s' a" unfolding unf by blast
  moreover have "primier = best" if "conn_at ch best = Some pc" "pt_network (fst pc) = n" for pc
    using prim_best that by (auto split: prod.splits)
  ultimately show ?thesis by blast
qed

section \<open>Sorting\<close>

lemma prune_all:
  assumes ok: "channel_ok ch" and best: "ch_best_connection ch = Some best" "best \<in> set (ch_connections ch)"
  shows "\<exists>ch'. for_each prune_network ns ch = Some ch' \<and> prunes best ch ch' \<and>
    (\<forall>pc. conn_at ch best = Some pc \<longrightarrow> cn_write_state (snd pc) = STATE_WRITABLE \<longrightarrow> pt_network (fst pc) \<in> set ns \<longrightarrow>
      (\<forall>a\<in>set (ch_connections ch). outdone ch best (pt_network (fst pc)) a \<longrightarrow> is_pruned ch' a))"
  using assms
proof (induction ns arbitrary: ch)
  case Nil
  then show ?case using prunes_refl by auto
next
  case (Cons n ns)
  from prune_network_step [OF Cons.prems(1,3,2), of n] obtain t where t: "prune_network n ch = Some t" "prunes best ch t"
      "conn_write_state ch best = Some STATE_WRITABLE \<longrightarrow> (\<forall>pc. conn_at ch best = Some pc \<longrightarrow> pt_network (fst pc) = n \<longrightarrow>
        (\<forall>a\<in>set (ch_connections ch). outdone ch best n a \<longrightarrow> is_pruned t a))" by blast
  have ev: "evolve ch t" using t(2) by (simp add: prunes_def)
  have t_ok: "channel_ok t" "ch_best_connection t = Some best" "best \<in> set (ch_connections t)"
    using evolve_ok [OF Cons.prems(1) ev] evolve_fields [OF ev] Cons.prems by auto
  from Cons.IH [OF t_ok] obtain s' where s': "for_each prune_network ns t = Some s'" "prunes best t s'"
      "\<And>pc a. conn_at t best = Some pc \<Longrightarrow> cn_write_state (snd pc) = STATE_WRITABLE \<Longrightarrow> pt_network (fst pc) \<in> set ns \<Longrightarrow>
        a \<in> set (ch_connections t) \<Longrightarrow> outdone t best (pt_network (fst pc)) a \<Longrightarrow> is_pruned s' a" by blast
  have "is_pruned s' a" if pc: "conn_at ch best = Some pc" "cn_write_state (snd pc) = STATE_WRITABLE"
      "pt_network (fst pc) \<in> set (n # ns)" "a \<in> set (ch_connections ch)" "outdone ch best (pt_network (fst pc)) a" for pc a
  proof (cases "pt_network (fst pc) = n")
    case True
    have "conn_write_state ch best = Some STATE_WRITABLE" using pc(1,2) by (simp add: conn_write_state_def split_def)
    then have "is_pruned t a" using t(3) pc True by blast
    then show ?thesis by (rule is_pruned_mono [OF s'(2)])
  next
    case False
    from evolve_conn [OF ev pc(1)] obtain pc' where pc': "conn_at t best = Some pc'" "same_info pc pc'" .
    have "snd pc' = snd pc" using t(2) pc(1) pc'(1) unfolding prunes_def by blast
    moreover have "pt_network (fst pc') = pt_network (fst pc)" using pc'(2) by (auto simp: same_info_def info_def split: prod.splits)
    ultimately show ?thesis using s'(3) [OF pc'(1)] pc False evolve_fields(1) [OF ev] outdone_info [OF ev] by simp
  qed
  then show ?case using t(1) s'(1) prunes_trans [OF t(2) s'(2)] by auto
qed

lemma SwitchBest_evolve:
  assumes "conn_at ch a = Some pc"
  shows "\<exists>ch'. SwitchBestConnectionTo ch (Some a) = Some ch' \<and> evolve (ch\<lparr>ch_best_connection := Some a\<rparr>) ch' \<and>
    (\<forall>b pb pb'. conn_at ch b = Some pb \<longrightarrow> conn_at ch' b = Some pb' \<longrightarrow>
       cn_write_state (snd pb') = cn_write_state (snd pb))"
proof -
  obtain p c where pc: "pc = (p, c)" by fastforce
  define u where "u = ch_signal (SignalRouteChange (cn_remote_candidate c)) (ch\<lparr>ch_best_connection := Some a\<rparr>)"
  have u: "conn_at u b = conn_at ch b" for b by (simp add: u_def ch_signal_def conn_at_def)
  have at: "conn_at u a = Some (p, c)" using assms pc u by simp
  have ev: "evolve (ch\<lparr>ch_best_connection := Some a\<rparr>) u"
    using u by (simp add: evolve_def core_def u_def ch_signal_def conn_at_def option.rel_refl)
  have "conn_at (ch\<lparr>ch_best_connection := Some a\<rparr>) a = Some (p, c)" using assms pc by (simp add: conn_at_def)
  then have start: "SwitchBestConnectionTo ch (Some a) = NominateBestConnection u"
    by (simp add: SwitchBestConnectionTo_def u_def)
  have best: "ch_best_connection u = Some a" by (simp add: u_def ch_signal_def)
  let ?n = "put_port (fst a) (put_conn (snd a) (set_nominated True c) p) u"
  have "evolve u (?n\<lparr>ch_sort_dirty := ch_sort_dirty u, ch_events := ch_events u\<rparr>)"
    by (rule put_evolve [OF at]) (simp_all add: set_nominated_def info_def conn_kept_def conn_priority_def local_candidate_def)
  moreover have "?n\<lparr>ch_sort_dirty := ch_sort_dirty u, ch_events := ch_events u\<rparr> = ?n" by (simp add: put_port_def)
  ultimately have n: "evolve (ch\<lparr>ch_best_connection := Some a\<rparr>) ?n" using evolve_trans [OF ev] by simp
  have same: "cn_write_state (snd pb') = cn_write_state (snd pb)" if "conn_at ch b = Some pb" "conn_at ?n b = Some pb'" for b pb pb'
    using that conn_at_put [OF at, of "set_nominated True c" b] assms pc u [of b]
    by (auto simp: set_nominated_def split_def split: if_splits)
  show ?thesis
  proof (cases "pt_ice_protocol p = ICEPROTO_RFC5245 \<and> ch_role u = ROLE_CONTROLLING")
    case True
    then have "NominateBestConnection u = Some ?n" using best at by (simp add: NominateBestConnection_def)
    with start n same show ?thesis by auto
  next
    case False
    then have "NominateBestConnection u = Some u" using best at by (auto simp: NominateBestConnection_def)
    with start ev u show ?thesis by auto
  qed
qed

text \<open>The flags of the channel do not touch its connections.\<close>

definition channel_flags :: "P2PTransportChannel \<Rightarrow> P2PTransportChannel" where
  "channel_flags ch =
     (let states = map (conn_write_state ch) (ch_connections ch)
      in if Some STATE_WRITABLE \<in> set states then HandleWritable ch
         else if Some STATE_WRITE_UNRELIABLE \<in> set states \<or> Some STATE_WRITE_INIT \<in> set states
         then HandleNotWritable ch else HandleAllTimedOut ch)"

lemma handlers_keep:
  assumes "f \<in> {HandleWritable, HandleNotWritable, HandleAllTimedOut, set_readable b}"
  shows "ch_heap (f ch) = ch_heap ch" "ch_connections (f ch) = ch_connections ch" "ch_best_connection (f ch) = ch_best_connection ch"
  using assms by (auto simp: HandleWritable_def HandleNotWritable_def HandleAllTimedOut_def Allocate_def ch_signal_def
      set_writable_def set_readable_def Let_def)

lemma channel_flags_keep:
  "ch_heap (channel_flags ch) = ch_heap ch" "ch_connections (channel_flags ch) = ch_connections ch"
  "ch_best_connection (channel_flags ch) = ch_best_connection ch"
  "ch_writable (channel_flags ch) \<longleftrightarrow> (\<exists>a\<in>set (ch_connections ch). conn_write_state ch a = Some STATE_WRITABLE)"
proof -
  have f: "channel_flags ch \<in> {HandleWritable ch, HandleNotWritable ch, HandleAllTimedOut ch}"
    by (simp add: channel_flags_def Let_def)
  then show "ch_heap (channel_flags ch) = ch_heap ch" "ch_connections (channel_flags ch) = ch_connections ch"
      "ch_best_connection (channel_flags ch) = ch_best_connection ch"
    using handlers_keep [of HandleWritable] handlers_keep [of HandleNotWritable] handlers_keep [of HandleAllTimedOut]
    by (elim insertE emptyE; simp)+
  have "ch_writable (HandleWritable ch)" "\<not> ch_writable (HandleNotWritable ch)" "\<not> ch_writable (HandleAllTimedOut ch)"
    by (simp_all add: HandleWritable_def HandleNotWritable_def HandleAllTimedOut_def set_writable_def ch_signal_def Let_def)
  then show "ch_writable (channel_flags ch) \<longleftrightarrow> (\<exists>a\<in>set (ch_connections ch). conn_write_state ch a = Some STATE_WRITABLE)"
    by (auto simp: channel_flags_def Let_def image_iff)
qed

lemma UpdateChannelState_ok:
  assumes "ch_writable ch \<longleftrightarrow> (\<exists>a. ch_best_connection ch = Some a \<and> conn_write_state ch a = Some STATE_WRITABLE)"
  shows "\<exists>ch'. UpdateChannelState ch = Some ch' \<and> ch_heap ch' = ch_heap ch \<and> ch_connections ch' = ch_connections ch \<and>
    ch_best_connection ch' = ch_best_connection ch \<and> ch_writable ch' = ch_writable ch \<and>
    ch_readable ch' = (\<exists>a\<in>set (ch_connections ch). conn_read_state ch a = Some STATE_READABLE)"
proof -
  have "(case ch_best_connection ch of None \<Rightarrow> False | Some a \<Rightarrow> conn_write_state ch a = Some STATE_WRITABLE) = ch_writable ch"
    using assms by (auto split: option.splits)
  then show ?thesis by (simp add: UpdateChannelState_def set_readable_def ch_signal_def)
qed

text \<open>The selection: sorting and switching to the head.\<close>

lemma select_best:
  assumes ok: "channel_ok ch" and conns: "sort_key (key_of ch) (ch_connections ch) = t # rest"
  shows "\<exists>ch'. (do { switch \<leftarrow> ShouldSwitch (ch\<lparr>ch_connections := t # rest\<rparr>) (ch_best_connection ch) (Some t);
                     if switch then SwitchBestConnectionTo (ch\<lparr>ch_connections := t # rest\<rparr>) (Some t)
                     else Some (ch\<lparr>ch_connections := t # rest\<rparr>) }) = Some ch' \<and>
    channel_ok ch' \<and> ch_connections ch' = t # rest \<and> ch_best_connection ch' = Some t \<and>
    (\<forall>a\<in>set (t # rest). key_of ch' t \<le> key_of ch' a) \<and> evolve (ch\<lparr>ch_connections := t # rest, ch_best_connection := Some t\<rparr>) ch'"
proof -
  let ?s = "ch\<lparr>ch_connections := t # rest\<rparr>" and ?b = "ch\<lparr>ch_connections := t # rest, ch_best_connection := Some t\<rparr>"
  have at: "conn_at ?s = conn_at ch" "conn_at ?b = conn_at ch" "key_of ?s = key_of ch" "key_of ?b = key_of ch"
    by (simp_all add: conn_at_def key_of_def fun_eq_iff)
  have set: "set (t # rest) = set (ch_connections ch)" "distinct (t # rest) = distinct (ch_connections ch)"
    using conns by (metis set_sort, metis distinct_sort)
  have sorted: "sorted (map (key_of ch) (t # rest))" using conns by (metis sorted_sort_key)
  have s_ok: "channel_ok ?s" "channel_ok ?b" using ok set unfolding channel_ok_def at by auto
  have switch: "ShouldSwitch ?s (ch_best_connection ch) (Some t) = Some (ch_best_connection ch \<noteq> Some t)"
    using ShouldSwitch_top [OF s_ok(1), of t rest] sorted at(3) by simp
  have min: "\<forall>a\<in>set (t # rest). key_of ch t \<le> key_of ch a" using sorted by auto
  obtain ch' where ch': "(if ch_best_connection ch \<noteq> Some t then SwitchBestConnectionTo ?s (Some t) else Some ?s) = Some ch'"
      "evolve ?b ch'" "\<And>b pb pb'. conn_at ch b = Some pb \<Longrightarrow> conn_at ch' b = Some pb' \<Longrightarrow> cn_write_state (snd pb') = cn_write_state (snd pb)"
  proof (cases "ch_best_connection ch = Some t")
    case True
    then have "?b = ?s" by simp
    then have "evolve ?b ?s" by (metis evolve_refl)
    then show ?thesis using that [of ?s] True at by simp
  next
    case False
    have "t \<in> set (ch_connections ch)" using set(1) by auto
    then obtain pc where "conn_at ?s t = Some pc" using ok at(1) unfolding channel_ok_def by auto
    from SwitchBest_evolve [OF this] show ?thesis using that False at(1) by auto
  qed
  have "key_of ch' b = key_of ch b" if b: "b \<in> set (t # rest)" for b
  proof -
    obtain pb where pb: "conn_at ch b = Some pb" using ok b set(1) unfolding channel_ok_def by blast
    with at(2) have "conn_at ?b b = Some pb" by simp
    from evolve_conn [OF ch'(2) this] obtain pb' where pb': "conn_at ch' b = Some pb'" "same_info pb pb'" .
    have "cn_rtt (snd pb') = cn_rtt (snd pb)" using pb'(2) by (auto simp: same_info_def info_def split: prod.splits)
    then show ?thesis using pb' pb ch'(3) [OF pb pb'(1)] by (simp add: key_of_def conn_key_def pref_key_def same_info_def)
  qed
  then have "\<forall>a\<in>set (t # rest). key_of ch' t \<le> key_of ch' a" using min by simp
  then show ?thesis using switch ch' evolve_ok [OF s_ok(2) ch'(2)] evolve_fields [OF ch'(2)] by simp
qed

lemma conn_key_pruned:
  assumes "same_info pc pc'" "pruned_from (snd pc) (snd pc')"
  shows "conn_key pc \<le> conn_key pc'"
proof -
  have pref: "pref_key pc' = pref_key pc" using assms(1) by (simp add: pref_key_def same_info_def)
  have "write_state_value w \<le> 3" for w by (cases w) simp_all
  then have "write_state_value (cn_write_state (snd pc)) \<le> write_state_value (cn_write_state (snd pc'))"
      "cn_rtt (snd pc') = cn_rtt (snd pc)"
    using assms(2) by (auto simp: pruned_from_def)
  then show ?thesis by (simp add: conn_key_def pref)
qed

text \<open>Pruning keeps the best connection at the top, and it decides whether the channel is writable.\<close>

lemma pruned_best:
  assumes ok: "channel_ok ch" and pr: "prunes t ch ch'" and best: "t \<in> set (ch_connections ch)"
    and min: "\<forall>a\<in>set (ch_connections ch). key_of ch t \<le> key_of ch a"
  shows "\<forall>a\<in>set (ch_connections ch). key_of ch' t \<le> key_of ch' a"
    "(\<exists>a\<in>set (ch_connections ch). conn_write_state ch' a = Some STATE_WRITABLE) \<longleftrightarrow> conn_write_state ch' t = Some STATE_WRITABLE"
proof -
  have ev: "evolve ch ch'" using pr by (simp add: prunes_def)
  have key: "key_of ch a \<le> key_of ch' a \<and> (a = t \<longrightarrow> key_of ch a = key_of ch' a)" if a: "a \<in> set (ch_connections ch)" for a
  proof -
    obtain pc where pc: "conn_at ch a = Some pc" using ok a unfolding channel_ok_def by blast
    from evolve_conn [OF ev pc] obtain pc' where pc': "conn_at ch' a = Some pc'" "same_info pc pc'" .
    have "pruned_from (snd pc) (snd pc')" "a = t \<Longrightarrow> snd pc' = snd pc" using pr pc pc'(1) unfolding prunes_def by blast+
    then show ?thesis using conn_key_pruned [OF pc'(2)] pc pc' by (auto simp: key_of_def conn_key_def pref_key_def same_info_def)
  qed
  then show le: "\<forall>a\<in>set (ch_connections ch). key_of ch' t \<le> key_of ch' a" using min best by (metis order_trans)
  have state: "conn_write_state ch' a = Some STATE_WRITABLE \<longleftrightarrow> key_of ch' a < 2 ^ 128" if a: "a \<in> set (ch_connections ch)" for a
  proof -
    obtain pc where "conn_at ch a = Some pc" using ok a unfolding channel_ok_def by blast
    from evolve_conn [OF ev this] obtain pc' where pc': "conn_at ch' a = Some pc'" by blast
    have rtt: "unat (cn_rtt (snd pc')) < 2 ^ 32" using unsigned_less [of "cn_rtt (snd pc')", where 'a = nat] by simp
    have "conn_key pc' < 2 ^ 128 \<longleftrightarrow> write_state_value (cn_write_state (snd pc')) < 1"
      using mixed_less [of "pref_key pc'" "2 ^ 96" 0 "write_state_value (cn_write_state (snd pc'))" 1, OF pref_key_bound]
        mixed_less [of "unat (cn_rtt (snd pc'))" "2 ^ 32" 0 "write_state_value (cn_write_state (snd pc')) * 2 ^ 96 + pref_key pc'" "2 ^ 96", OF rtt]
      by (simp add: conn_key_def)
    moreover have "write_state_value w < 1 \<longleftrightarrow> w = STATE_WRITABLE" for w by (cases w) simp_all
    ultimately show ?thesis using pc' by (simp add: key_of_def conn_write_state_def split_def)
  qed
  show "(\<exists>a\<in>set (ch_connections ch). conn_write_state ch' a = Some STATE_WRITABLE) \<longleftrightarrow> conn_write_state ch' t = Some STATE_WRITABLE"
    using state le best by (meson le_less_trans)
qed

definition best_selected :: "P2PTransportChannel \<Rightarrow> bool" where
  "best_selected ch \<longleftrightarrow>
     ch_best_connection ch = (case ch_connections ch of [] \<Rightarrow> None | a # _ \<Rightarrow> Some a) \<and>
     (\<forall>best\<in>set_option (ch_best_connection ch). \<forall>a\<in>set (ch_connections ch).
        ConnectionCompare ch a best = Some False \<and>
        (conn_write_state ch best = Some STATE_WRITABLE \<longrightarrow>
           (\<forall>pc. conn_at ch best = Some pc \<longrightarrow> outdone ch best (pt_network (fst pc)) a \<longrightarrow> is_pruned ch a))) \<and>
     ch_writable ch = (\<exists>a\<in>set (ch_connections ch). conn_write_state ch a = Some STATE_WRITABLE) \<and>
     ch_readable ch = (\<exists>a\<in>set (ch_connections ch). conn_read_state ch a = Some STATE_READABLE)"

lemma finish_sort:
  assumes ok: "channel_ok ch" and conns: "ch_connections ch = t # rest" "ch_best_connection ch = Some t"
    and min: "\<forall>a\<in>set (ch_connections ch). key_of ch t \<le> key_of ch a"
    and nets: "\<And>pc. conn_at ch t = Some pc \<Longrightarrow> pt_network (fst pc) \<in> set ns"
  shows "\<exists>ch'. (for_each prune_network ns ch \<bind> (\<lambda>ch. UpdateChannelState (channel_flags ch))) = Some ch' \<and>
    channel_ok ch' \<and> ch_connections ch' = ch_connections ch \<and> best_selected ch'"
proof -
  have t: "t \<in> set (ch_connections ch)" using conns by simp
  from prune_all [OF ok conns(2) t, of ns] obtain u where u: "for_each prune_network ns ch = Some u" "prunes t ch u"
      "\<forall>pc. conn_at ch t = Some pc \<longrightarrow> cn_write_state (snd pc) = STATE_WRITABLE \<longrightarrow> pt_network (fst pc) \<in> set ns \<longrightarrow>
        (\<forall>a\<in>set (ch_connections ch). outdone ch t (pt_network (fst pc)) a \<longrightarrow> is_pruned u a)" by blast
  have ev: "evolve ch u" using u(2) by (simp add: prunes_def)
  note fields = evolve_fields [OF ev]
  have uok: "channel_ok u" by (rule evolve_ok [OF ok ev])
  note pb = pruned_best [OF ok u(2) t min]
  let ?f = "channel_flags u"
  note flags = channel_flags_keep [of u]
  have at: "conn_at ?f = conn_at u" using flags(1) by (simp add: conn_at_def fun_eq_iff)
  have ws: "conn_write_state ?f = conn_write_state u" "conn_read_state ?f = conn_read_state u"
    using at by (simp_all add: conn_write_state_def conn_read_state_def fun_eq_iff)
  have "ch_writable ?f \<longleftrightarrow> (\<exists>a. ch_best_connection ?f = Some a \<and> conn_write_state ?f a = Some STATE_WRITABLE)"
    using flags(3,4) fields conns(2) pb(2) ws(1) by simp
  from UpdateChannelState_ok [OF this] obtain ch' where ch': "UpdateChannelState ?f = Some ch'" "ch_heap ch' = ch_heap ?f"
      "ch_connections ch' = ch_connections ?f" "ch_best_connection ch' = ch_best_connection ?f" "ch_writable ch' = ch_writable ?f"
      "ch_readable ch' = (\<exists>a\<in>set (ch_connections ?f). conn_read_state ?f a = Some STATE_READABLE)" by blast
  have at': "conn_at ch' = conn_at u" using ch'(2) flags(1) by (simp add: conn_at_def fun_eq_iff)
  then have same: "conn_write_state ch' = conn_write_state u" "conn_read_state ch' = conn_read_state u" "key_of ch' = key_of u"
      "outdone ch' = outdone u" "is_pruned ch' = is_pruned u"
    by (simp_all add: conn_write_state_def conn_read_state_def key_of_def outdone_def is_pruned_def fun_eq_iff)
  have c': "ch_connections ch' = ch_connections ch" "ch_best_connection ch' = Some t"
    using ch'(3,4) flags(2,3) fields conns(2) by simp_all
  have ok': "channel_ok ch'" using uok unfolding channel_ok_def at' c' fields conns(2) by simp
  from ok' obtain proto where proto: "\<And>a. a \<in> set (ch_connections ch') \<Longrightarrow>
      \<exists>pc. conn_at ch' a = Some pc \<and> comparable proto pc \<and> sr_struct (cn_requests (snd pc))" unfolding channel_ok_def by blast
  have worse: "ConnectionCompare ch' a t = Some False" if "a \<in> set (ch_connections ch')" for a
    using proto [OF that] proto [of t] t c'(1) ConnectionCompare_key [of ch' a _ t] pb(1) that same(3)
    by (metis not_less)
  have pruned: "is_pruned ch' a" if a: "a \<in> set (ch_connections ch')" "conn_write_state ch' t = Some STATE_WRITABLE"
      "conn_at ch' t = Some pc" "outdone ch' t (pt_network (fst pc)) a" for a pc
  proof -
    obtain pc0 where pc0: "conn_at ch t = Some pc0" using ok t unfolding channel_ok_def by blast
    have at_u: "conn_at u t = Some pc" using a(3) at' by simp
    with evolve_conn [OF ev pc0] have info: "same_info pc0 pc" by auto
    have "snd pc = snd pc0" using u(2) pc0 at_u unfolding prunes_def by blast
    then have "cn_write_state (snd pc0) = STATE_WRITABLE" using a(2,3) by (simp add: conn_write_state_def split_def)
    moreover have n: "pt_network (fst pc) = pt_network (fst pc0)" using info by (auto simp: same_info_def info_def split: prod.splits)
    moreover have "outdone ch t (pt_network (fst pc0)) a"
    proof -
      have "outdone u t (pt_network (fst pc0)) a" using a(4) same(4) n by simp
      then obtain pa cmp where o': "a \<noteq> t" "conn_at u a = Some pa" "pt_network (fst pa) = pt_network (fst pc0)"
          "CompareConnectionCandidates pc pa = Some cmp" "cmp \<ge> 0" using at_u unfolding outdone_def by auto
      obtain pa0 where pa0: "conn_at ch a = Some pa0" using ok a(1) c'(1) unfolding channel_ok_def by auto
      with evolve_conn [OF ev pa0] o'(2) have ia: "same_info pa0 pa" by auto
      have "pt_network (fst pa0) = pt_network (fst pa)" using ia by (auto simp: same_info_def info_def split: prod.splits)
      moreover have "CompareConnectionCandidates pc0 pa0 = Some cmp" using CompareConnectionCandidates_info [OF info ia] o'(4) by simp
      ultimately show ?thesis using o'(1,3,5) pa0 pc0 unfolding outdone_def by auto
    qed
    ultimately show ?thesis using u(3) pc0 nets [OF pc0] a(1) c'(1) same(5) by auto
  qed
  have "best_selected ch'"
    unfolding best_selected_def
  proof (intro conjI)
    show "ch_best_connection ch' = (case ch_connections ch' of [] \<Rightarrow> None | a # _ \<Rightarrow> Some a)" using c' conns(1) by simp
    show "\<forall>best\<in>set_option (ch_best_connection ch'). \<forall>a\<in>set (ch_connections ch').
        ConnectionCompare ch' a best = Some False \<and>
        (conn_write_state ch' best = Some STATE_WRITABLE \<longrightarrow>
           (\<forall>pc. conn_at ch' best = Some pc \<longrightarrow> outdone ch' best (pt_network (fst pc)) a \<longrightarrow> is_pruned ch' a))"
      using worse pruned c'(2) by simp
    show "ch_writable ch' = (\<exists>a\<in>set (ch_connections ch'). conn_write_state ch' a = Some STATE_WRITABLE)"
      using ch'(5) flags(4) fields(1) c'(1) same(1) by simp
    show "ch_readable ch' = (\<exists>a\<in>set (ch_connections ch'). conn_read_state ch' a = Some STATE_READABLE)"
      using ch'(6) flags(2) fields(1) c'(1) ws(2) same(2) by simp
  qed
  then show ?thesis using u(1) ch'(1) c'(1) ok' by simp
qed

lemma network_listed:
  assumes "a \<in> set (ch_connections ch)" "conn_at ch a = Some pc"
  shows "pt_network (fst pc) \<in> set (channel_networks ch)"
proof -
  let ?n = "\<lambda>a. map_option (\<lambda>(p, _). pt_network p) (conn_at ch a)"
  have "?n a = Some (pt_network (fst pc))" using assms(2) by (simp add: split_def)
  then have "pt_network (fst pc) = the (?n a)" "a \<in> set (filter (\<lambda>a. ?n a \<noteq> None) (ch_connections ch))"
    using assms(1) by (simp_all only: option.sel set_filter mem_Collect_eq option.distinct simp_thms not_False_eq_True)
  then show ?thesis unfolding channel_networks_def set_sort set_remdups List.map_filter_def by (simp only: set_map comp_def) blast
qed

lemma SortConnections_ok:
  assumes "channel_ok ch"
  shows "\<exists>ch'. SortConnections now ch = Some ch' \<and> channel_ok ch' \<and>
    set (ch_connections ch') = set (ch_connections ch) \<and> best_selected ch'"
proof -
  obtain u where u: "UpdateConnectionStates now ch = Some u" "evolve ch u" "channel_ok u"
    using UpdateConnectionStates_evolve [OF assms] by blast
  define v where "v = u\<lparr>ch_sort_dirty := False\<rparr>"
  have at: "conn_at v = conn_at u" by (simp add: v_def conn_at_def fun_eq_iff)
  have v: "channel_ok v" using u(3) unfolding channel_ok_def at by (simp add: v_def)
  have conns: "ch_connections v = ch_connections ch" "ch_best_connection v = ch_best_connection u"
    using evolve_fields(1) [OF u(2)] by (simp_all add: v_def)
  define xs where "xs = sort_key (key_of v) (ch_connections v)"
  have sort: "stable_sort (ConnectionCompare v) (ch_connections v) = Some xs" using channel_sort [OF v] by (simp add: xs_def)
  have run: "SortConnections now ch =
      do { switch \<leftarrow> ShouldSwitch (v\<lparr>ch_connections := xs\<rparr>) (ch_best_connection v) (case xs of [] \<Rightarrow> None | a # _ \<Rightarrow> Some a);
           w \<leftarrow> (if switch then SwitchBestConnectionTo (v\<lparr>ch_connections := xs\<rparr>) (case xs of [] \<Rightarrow> None | a # _ \<Rightarrow> Some a)
                 else Some (v\<lparr>ch_connections := xs\<rparr>));
           w \<leftarrow> for_each prune_network (channel_networks v) w;
           UpdateChannelState (channel_flags w) }"
  proof -
    have "ch_best_connection (v\<lparr>ch_connections := xs\<rparr>) = ch_best_connection v" by simp
    then show ?thesis
      by (simp only: SortConnections_def u(1) Option.bind.simps Let_def v_def [symmetric] sort channel_flags_def)
  qed
  show ?thesis
  proof (cases xs)
    case Nil
    then have none: "ch_connections v = []" using xs_def by (metis length_0_conv length_sort)
    then have best: "ch_best_connection v = None" using v by (simp add: channel_ok_def)
    have w: "v\<lparr>ch_connections := []\<rparr> = v" using none by simp
    have nets: "channel_networks v = []" using none by (simp add: channel_networks_def List.map_filter_def)
    let ?f = "channel_flags v"
    note flags = channel_flags_keep [of v]
    have "ch_writable ?f \<longleftrightarrow> (\<exists>a. ch_best_connection ?f = Some a \<and> conn_write_state ?f a = Some STATE_WRITABLE)"
      using flags none best by simp
    from UpdateChannelState_ok [OF this] obtain ch' where ch': "UpdateChannelState ?f = Some ch'"
        "ch_connections ch' = ch_connections ?f" "ch_best_connection ch' = ch_best_connection ?f" "ch_writable ch' = ch_writable ?f"
        "ch_readable ch' = (\<exists>a\<in>set (ch_connections ?f). conn_read_state ?f a = Some STATE_READABLE)" by blast
    have "best_selected ch'" "channel_ok ch'" "ch_connections ch' = []"
      using ch' flags none best by (simp_all add: best_selected_def channel_ok_def)
    moreover have "SortConnections now ch = Some ch'"
      unfolding run Nil using ch'(1) best nets w by (simp add: ShouldSwitch_def)
    ultimately show ?thesis using conns(1) none by auto
  next
    case (Cons t rest)
    then have key: "sort_key (key_of v) (ch_connections v) = t # rest" by (simp add: xs_def)
    from select_best [OF v key] obtain w where w:
      "(do { switch \<leftarrow> ShouldSwitch (v\<lparr>ch_connections := t # rest\<rparr>) (ch_best_connection v) (Some t);
             if switch then SwitchBestConnectionTo (v\<lparr>ch_connections := t # rest\<rparr>) (Some t)
             else Some (v\<lparr>ch_connections := t # rest\<rparr>) }) = Some w"
      "channel_ok w" "ch_connections w = t # rest" "ch_best_connection w = Some t"
      "\<forall>a\<in>set (t # rest). key_of w t \<le> key_of w a" "evolve (v\<lparr>ch_connections := t # rest, ch_best_connection := Some t\<rparr>) w" by blast
    have set: "set (t # rest) = set (ch_connections v)" using key by (metis set_sort)
    have nets: "pt_network (fst pc) \<in> set (channel_networks v)" if pc: "conn_at w t = Some pc" for pc
    proof -
      have tin: "t \<in> set (ch_connections v)" using set by auto
      obtain pc0 where pc0: "conn_at v t = Some pc0" using v tin unfolding channel_ok_def by blast
      then have "conn_at (v\<lparr>ch_connections := t # rest, ch_best_connection := Some t\<rparr>) t = Some pc0" by (simp add: conn_at_def)
      from evolve_conn [OF w(6) this] pc have "same_info pc0 pc" by auto
      then have "pt_network (fst pc) = pt_network (fst pc0)" by (auto simp: same_info_def info_def split: prod.splits)
      then show ?thesis using network_listed [OF tin pc0] by simp
    qed
    have "\<forall>a\<in>set (ch_connections w). key_of w t \<le> key_of w a" using w(3,5) by simp
    from finish_sort [OF w(2,3,4) this nets] obtain ch' where ch':
      "for_each prune_network (channel_networks v) w \<bind> (\<lambda>ch. UpdateChannelState (channel_flags ch)) = Some ch'"
      "channel_ok ch'" "ch_connections ch' = t # rest" "best_selected ch'" using w(3) by auto
    obtain switch where "ShouldSwitch (v\<lparr>ch_connections := t # rest\<rparr>) (ch_best_connection v) (Some t) = Some switch"
        "(if switch then SwitchBestConnectionTo (v\<lparr>ch_connections := t # rest\<rparr>) (Some t)
          else Some (v\<lparr>ch_connections := t # rest\<rparr>)) = Some w"
      using w(1) by (auto split: Option.bind_splits)
    then have "SortConnections now ch = Some ch'" unfolding run Cons using ch'(1) by (cases switch) simp_all
    then show ?thesis using ch' set conns(1) by auto
  qed
qed

section \<open>Properties\<close>


definition example_channel :: P2PTransportChannel where
  "example_channel = (P2PTransportChannel_new 1)\<lparr>ch_ports := [0, 1], ch_connections := [(0, 0), (1, 0)],
     ch_heap := [0 \<mapsto> example_port 1 ROLE_CONTROLLING [65] (example_candidate 2 [66] [2, 2]),
                 1 \<mapsto> example_port 3 ROLE_CONTROLLING [65] (example_candidate 2 [66] [2, 2])], ch_next_id := 2\<rparr>"

lemma conn_priority_defined: "local_candidate p c \<noteq> None \<Longrightarrow> conn_priority p c \<noteq> None"
  by (auto simp: conn_priority_def split_def Let_def)

lemma comparable_new:
  assumes "pt_candidates p \<noteq> []" "cd_generation cand + pt_generation p = 0"
  shows "comparable (pt_ice_protocol p) (p, Connection_new 0 cand)"
proof -
  have "conn_priority p (Connection_new 0 cand) \<noteq> None"
    using assms(1) by (intro conn_priority_defined) (simp add: local_candidate_def Connection_new_def)
  then show ?thesis using assms(2) by (simp add: comparable_def info_def Connection_new_def)
qed

lemma example_port_fields:
  "pt_heap (example_port n role frag remote) = [0 \<mapsto> Connection_new 0 remote]" "pt_generation (example_port n role frag remote) = 0"
  "pt_candidates (example_port n role frag remote) \<noteq> []" "pt_ice_protocol (example_port n role frag remote) = ICEPROTO_RFC5245"
  if "frag \<noteq> []"
  using that by (simp_all add: example_port_def Port_new_def)

lemma example_channel_ok: "channel_ok example_channel"
proof (rule channel_okI [where proto = ICEPROTO_RFC5245])
  fix a assume "a \<in> set (ch_connections example_channel)"
  then have "a \<in> {(0, 0), (1, 0)}" by (simp add: example_channel_def)
  then obtain n where "conn_at example_channel a = Some (example_port n ROLE_CONTROLLING [65] (example_candidate 2 [66] [2, 2]),
      Connection_new 0 (example_candidate 2 [66] [2, 2]))"
    by (auto simp: example_channel_def conn_at_def example_port_fields)
  moreover have "comparable ICEPROTO_RFC5245 (example_port n ROLE_CONTROLLING [65] (example_candidate 2 [66] [2, 2]),
      Connection_new 0 (example_candidate 2 [66] [2, 2]))"
    using comparable_new [of "example_port n ROLE_CONTROLLING [65] (example_candidate 2 [66] [2, 2])" "example_candidate 2 [66] [2, 2]"]
    by (simp add: example_port_fields example_candidate_def)
  moreover have "sr_struct (cn_requests (Connection_new 0 (example_candidate 2 [66] [2, 2])))"
    by (simp add: Connection_new_def empty_requests)
  ultimately show "\<exists>pc. conn_at example_channel a = Some pc \<and> comparable ICEPROTO_RFC5245 pc \<and> sr_struct (cn_requests (snd pc))"
    by (intro exI conjI) (assumption | simp)+
qed (simp_all add: example_channel_def P2PTransportChannel_new_def)

lemma best_selected_nonempty: "best_selected ch \<Longrightarrow> a \<in> set (ch_connections ch) \<Longrightarrow> ch_best_connection ch \<noteq> None"
  unfolding best_selected_def by (cases "ch_connections ch") simp_all


end
