(* ===== verification/ChannelCalls.thy ===== *)
theory ChannelCalls
  imports ChannelSort IceRoles
begin

text \<open>
  Remote candidates, the choice of the connection to ping, and the roles of ports that a channel has replaced.
\<close>

section \<open>Remote candidates\<close>

lemma IsEquivalent_equiv:
  "IsEquivalent a a" "IsEquivalent a b \<Longrightarrow> IsEquivalent b a" "IsEquivalent a b \<Longrightarrow> IsEquivalent b c \<Longrightarrow> IsEquivalent a c"
  by (auto simp: IsEquivalent_def)

definition no_duplicates :: "(Candidate \<times> nat option) list \<Rightarrow> bool" where
  "no_duplicates cs \<longleftrightarrow> sorted_wrt (\<lambda>a b. \<not> IsEquivalent (fst a) (fst b)) cs"

text \<open>
  C11. The remote candidates of a channel contain no duplicates. After a candidate was remembered, an equivalent one is in
  the list, none that is older than it is left, and of the others nothing was lost or reordered.
\<close>

theorem remembered_candidates:
  assumes "no_duplicates (ch_remote_candidates ch)"
  shows "no_duplicates (ch_remote_candidates (RememberRemoteCandidate cand origin ch)) \<and>
    (\<exists>x\<in>set (ch_remote_candidates (RememberRemoteCandidate cand origin ch)). IsEquivalent (fst x) cand) \<and>
    (\<forall>x\<in>set (ch_remote_candidates (RememberRemoteCandidate cand origin ch)). cd_generation cand \<le> cd_generation (fst x)) \<and>
    (\<exists>new. ch_remote_candidates (RememberRemoteCandidate cand origin ch) =
      filter (\<lambda>x. cd_generation cand \<le> cd_generation (fst x)) (ch_remote_candidates ch) @ new \<and> length new \<le> 1)"
proof -
  define k where "k = filter (\<lambda>x. cd_generation cand \<le> cd_generation (fst x)) (ch_remote_candidates ch)"
  have eq: "ch_remote_candidates (RememberRemoteCandidate cand origin ch) =
      (if \<exists>x\<in>set k. IsEquivalent (fst x) cand then k else k @ [(cand, origin)])"
    by (auto simp: RememberRemoteCandidate_def Let_def not_less split_def k_def)
  have nd: "no_duplicates k" using assms unfolding no_duplicates_def k_def by (rule sorted_wrt_filter)
  have gen: "\<forall>x\<in>set k. cd_generation cand \<le> cd_generation (fst x)" by (simp add: k_def)
  show ?thesis
  proof (cases "\<exists>x\<in>set k. IsEquivalent (fst x) cand")
    case True
    then have "ch_remote_candidates (RememberRemoteCandidate cand origin ch) = k @ []" using eq by simp
    with True show ?thesis using nd gen unfolding k_def [symmetric] by (metis append_Nil2 list.size(3) zero_le)
  next
    case False
    then have "no_duplicates (k @ [(cand, origin)])" using nd unfolding no_duplicates_def sorted_wrt_append by simp
    moreover have "ch_remote_candidates (RememberRemoteCandidate cand origin ch) = k @ [(cand, origin)]" using eq False by simp
    ultimately show ?thesis using gen unfolding k_def [symmetric] by (simp add: IsEquivalent_equiv(1) bex_Un)
  qed
qed

section \<open>Pings\<close>

definition first_oldest :: "P2PTransportChannel \<Rightarrow> u32 \<Rightarrow> conn_id list \<Rightarrow> conn_id \<Rightarrow> bool" where
  "first_oldest ch time cs a \<longleftrightarrow> IsPingable ch a \<and> last_ping_sent ch a < time \<and> (\<exists>xs ys. cs = xs @ a # ys \<and>
     (\<forall>b\<in>set xs. IsPingable ch b \<longrightarrow> last_ping_sent ch a < last_ping_sent ch b) \<and>
     (\<forall>b\<in>set ys. IsPingable ch b \<longrightarrow> last_ping_sent ch a \<le> last_ping_sent ch b))"

lemma first_oldest_here:
  assumes "IsPingable ch c" "last_ping_sent ch c < time"
    "\<forall>b\<in>set cs. IsPingable ch b \<longrightarrow> last_ping_sent ch c \<le> last_ping_sent ch b"
  shows "first_oldest ch time (c # cs) c"
  unfolding first_oldest_def using assms by (intro conjI exI [of _ "[]"] exI [of _ cs]) simp_all

lemma first_oldest_later:
  assumes "first_oldest ch time' cs a" "IsPingable ch c \<Longrightarrow> last_ping_sent ch a < last_ping_sent ch c"
    "last_ping_sent ch a < time"
  shows "first_oldest ch time (c # cs) a"
proof -
  from assms(1) obtain xs ys where "cs = xs @ a # ys" "IsPingable ch a"
    "\<forall>b\<in>set xs. IsPingable ch b \<longrightarrow> last_ping_sent ch a < last_ping_sent ch b"
    "\<forall>b\<in>set ys. IsPingable ch b \<longrightarrow> last_ping_sent ch a \<le> last_ping_sent ch b" by (auto simp: first_oldest_def)
  then show ?thesis unfolding first_oldest_def using assms(2,3)
    by (intro conjI exI [of _ "c # xs"] exI [of _ ys]) auto
qed

lemma oldest_pingable_spec:
  "oldest_pingable ch oldest time cs = oldest \<and> (\<forall>b\<in>set cs. IsPingable ch b \<longrightarrow> time \<le> last_ping_sent ch b) \<or>
   (\<exists>a. oldest_pingable ch oldest time cs = Some a \<and> first_oldest ch time cs a)"
proof (induction cs arbitrary: oldest time)
  case (Cons c cs)
  show ?case
  proof (cases "IsPingable ch c \<and> last_ping_sent ch c < time")
    case True
    consider "oldest_pingable ch (Some c) (last_ping_sent ch c) cs = Some c"
        "\<forall>b\<in>set cs. IsPingable ch b \<longrightarrow> last_ping_sent ch c \<le> last_ping_sent ch b"
      | a where "oldest_pingable ch (Some c) (last_ping_sent ch c) cs = Some a" "first_oldest ch (last_ping_sent ch c) cs a"
      using Cons.IH [of "Some c" "last_ping_sent ch c"] by blast
    then show ?thesis
    proof cases
      case 1
      then show ?thesis using True first_oldest_here by simp
    next
      case (2 a)
      then have "last_ping_sent ch a < last_ping_sent ch c" by (simp add: first_oldest_def)
      then have "first_oldest ch time (c # cs) a" using True by (intro first_oldest_later [OF 2(2)]) auto
      then show ?thesis using True 2(1) by simp
    qed
  next
    case False
    then have eq: "oldest_pingable ch oldest time (c # cs) = oldest_pingable ch oldest time cs"
      and le: "IsPingable ch c \<Longrightarrow> time \<le> last_ping_sent ch c" by auto
    have later: "first_oldest ch time (c # cs) a" if f: "first_oldest ch time cs a" for a
    proof (rule first_oldest_later [OF f])
      show "last_ping_sent ch a < time" using f by (simp add: first_oldest_def)
      then show "last_ping_sent ch a < last_ping_sent ch c" if "IsPingable ch c" using le [OF that] by simp
    qed
    from Cons.IH [of oldest time] show ?thesis
    proof
      assume "oldest_pingable ch oldest time cs = oldest \<and> (\<forall>b\<in>set cs. IsPingable ch b \<longrightarrow> time \<le> last_ping_sent ch b)"
      then show ?thesis unfolding eq using le by (intro disjI1) simp
    next
      assume "\<exists>a. oldest_pingable ch oldest time cs = Some a \<and> first_oldest ch time cs a"
      then show ?thesis unfolding eq using later by blast
    qed
  qed
qed simp

text \<open>
  C12. The connection to ping next is the best connection whenever it is writable and was not pinged for 900
  milliseconds (the sum with its last ping is taken modulo \<open>2 ^ 32\<close>). Otherwise it is the first one in the list of those
  pingable connections whose last ping is the oldest, and none is chosen if and only if no connection is
  pingable, up to one that was pinged in the last instant of the clock.
\<close>

theorem next_ping_oldest:
  "if \<exists>best. ch_best_connection ch = Some best \<and> conn_write_state ch best = Some STATE_WRITABLE \<and>
        last_ping_sent ch best + 900 \<le> now
   then FindNextPingableConnection now ch = ch_best_connection ch
   else case FindNextPingableConnection now ch of
     None \<Rightarrow> \<forall>b\<in>set (ch_connections ch). IsPingable ch b \<longrightarrow> last_ping_sent ch b = 0xFFFFFFFF
   | Some a \<Rightarrow> first_oldest ch 0xFFFFFFFF (ch_connections ch) a"
proof -
  have max: "0xFFFFFFFF \<le> w \<longleftrightarrow> w = 0xFFFFFFFF" for w :: u32
    using unsigned_less [of w, where 'a = int] by (auto simp: word_le_def word_uint_eq_iff)
  let ?over = "\<exists>best. ch_best_connection ch = Some best \<and> conn_write_state ch best = Some STATE_WRITABLE \<and>
        last_ping_sent ch best + 900 \<le> now"
  show ?thesis
  proof (cases ?over)
    case True
    then show ?thesis by (auto simp: FindNextPingableConnection_def MAX_CURRENT_WRITABLE_DELAY_def)
  next
    case False
    then have eq: "FindNextPingableConnection now ch = oldest_pingable ch None 0xFFFFFFFF (ch_connections ch)"
      by (auto simp: FindNextPingableConnection_def MAX_CURRENT_WRITABLE_DELAY_def split: option.splits)
    show ?thesis unfolding eq if_not_P [OF False]
      using oldest_pingable_spec [where ch = ch and oldest = None and time = "0xFFFFFFFF" and cs = "ch_connections ch"]
      unfolding max by (auto split: option.splits)
  qed
qed

section \<open>Replaced ports\<close>

lemma on_conn_events_None: "foldl (on_conn_event a) None es = None"
  by (induction es) simp_all

lemma on_conn_events_sort:
  assumes "set es \<subseteq> {SignalStateChange, PostDelete}"
  shows "\<exists>ch'. foldl (on_conn_event a) (Some ch) es = Some ch' \<and> ch_role ch' = ch_role ch"
  using assms
proof (induction es arbitrary: ch)
  case (Cons e es)
  then obtain ch1 where "on_conn_event a (Some ch) e = Some ch1" "ch_role ch1 = ch_role ch"
    by (cases e) (auto simp: RequestSort_def ch_signal_def)
  with Cons.IH [of ch1] Cons.prems show ?case by auto
qed simp

lemma on_port_events_role: "ch_role (foldl on_port_event ch es) = ch_role ch"
  by (induction es arbitrary: ch) (simp_all add: on_port_event_def ch_signal_def)

lemma call_conn_role:
  assumes "conn_at ch a = Some (p, c)" "f p = Some p'" "pt_heap p' (snd a) = Some c'"
    "cn_events c' = cn_events c @ es @ es'" "set es \<subseteq> {SignalStateChange, PostDelete}"
  shows "es' = [] \<Longrightarrow> call_conn ch a f \<noteq> None"
    "es' = [SignalUseCandidate] \<Longrightarrow> ch_role ch \<noteq> ROLE_CONTROLLED \<Longrightarrow> call_conn ch a f = None"
proof -
  let ?ch = "foldl on_port_event (put_port (fst a) p' ch) (drop (length (pt_events p)) (pt_events p'))"
  obtain ch1 where ch1: "foldl (on_conn_event a) (Some ?ch) es = Some ch1" "ch_role ch1 = ch_role ?ch"
    using on_conn_events_sort [OF assms(5)] by blast
  have "ch_role ?ch = ch_role ch" by (simp add: on_port_events_role put_port_def)
  with ch1 have r: "ch_role ch1 = ch_role ch" by simp
  have eq: "call_conn ch a f = foldl (on_conn_event a) (Some ch1) es'"
    using assms(1-4) ch1(1) by (simp add: call_conn_def Let_def)
  show "es' = [] \<Longrightarrow> call_conn ch a f \<noteq> None" unfolding eq by simp
  show "es' = [SignalUseCandidate] \<Longrightarrow> ch_role ch \<noteq> ROLE_CONTROLLED \<Longrightarrow> call_conn ch a f = None"
    unfolding eq using r by (simp add: OnUseCandidate_def)
qed

text \<open>A ping of a controlling port at a port that also believes to be controlling: no assertion fails.\<close>

lemma ping_at_controlling:
  assumes ping: "is_ping sha1 pa tid (ping_username pa ca cb) (pt_password pb) m" "length tid = 12"
    and acq: "acquainted pa ca pb cb" "pt_ice_protocol pa = ICEPROTO_RFC5245" "pt_tiebreaker pa \<noteq> pt_tiebreaker pb"
    and role: "pt_role pa = ROLE_CONTROLLING" "pt_role pb = ROLE_CONTROLLING"
    and cb: "pt_heap pb kb = Some cb" "GetConnection pb (cd_address (cn_remote_candidate cb)) = Some kb"
      "ip_ok (sk_ip (cd_address (cn_remote_candidate cb)))"
    and dg: "digest_ok sha1" "dg_Size sha1 = 20"
    and at: "conn_at ch (i, kb) = Some (pb, cb)"
  shows "call_conn ch (i, kb) (\<lambda>p. conn_OnReadPacket sha1 now p kb (message_bytes m)) \<noteq> None"
proof -
  let ?addr = "cd_address (cn_remote_candidate cb)"
  have pb: "pt_ice_protocol pb = ICEPROTO_RFC5245" "username_fragment pb \<noteq> None" using acq by (auto simp: acquainted_def)
  note conflict = role_conflict [OF ping(1) acq(2) _ _ acq(3) pb(2), of ?addr "cd_username (cn_remote_candidate cb)"]
  show ?thesis
  proof (cases "must_switch pb pa")
    case True
    have "(if pt_ice_protocol pb = ICEPROTO_RFC5245
        then MaybeIceRoleConflict sha1 pb ?addr m (cd_username (cn_remote_candidate cb)) else Some (True, pb)) =
        Some (True, pb\<lparr>pt_events := pt_events pb @ [SignalRoleConflict]\<rparr>)"
      using conflict True pb(1) role by (simp add: port_signal_def)
    from ping_answered [OF ping acq(1) this cb(1) refl cb(2,3) dg, of now] obtain pb1 cb1 es where
      "conn_OnReadPacket sha1 now pb kb (message_bytes m) = Some pb1" "pt_heap pb1 kb = Some cb1"
      "cn_events cb1 = cn_events cb @ es @ []" "set es \<subseteq> {SignalStateChange, PostDelete}"
      using role(2) by auto
    then show ?thesis using at by (intro call_conn_role(1) [of ch "(i, kb)" pb cb]) auto
  next
    case False
    have m: "sm_type m = STUN_BINDING_REQUEST" "sm_transaction_id m = tid" using ping(1) by (simp_all add: is_ping_def)
    from error_response_sent [OF m(1,2) ping(2) pb(1) dg, of ?addr] obtain e where
      e: "SendBindingErrorResponse sha1 pb m ?addr STUN_ERROR_ROLE_CONFLICT STUN_ERROR_REASON_ROLE_CONFLICT =
        Some (port_signal (SendTo (message_bytes e) ?addr False) pb)" by blast
    have "conn_OnReadPacket sha1 now pb kb (message_bytes m) = Some (port_signal (SendTo (message_bytes e) ?addr False) pb)"
      using GetStunMessage_acquainted [OF ping(1) acq(1), of ?addr] conflict False e cb(1) pb(1) m(1) role
      by (simp add: conn_OnReadPacket_def Let_def)
    from call_conn_role(1) [where f = "\<lambda>p. conn_OnReadPacket sha1 now p kb (message_bytes m)", OF at this, of cb "[]" "[]"] cb(1)
    show ?thesis by simp
  qed
qed

text \<open>
  C13. Ports that a new allocator session has replaced do not learn of a new role, and this leads to a failed assertion. A
  channel is controlled and so is its port \<open>pb\<close>; a controlling peer sends a ping, which carries USE-CANDIDATE. Then the channel
  becomes controlling, and the ping arrives. If the port still belongs to the channel, it has been told the role, finds a role
  conflict, and no assertion fails. If a new allocator session has replaced the port in the meantime, it still acts as
  controlled and signals USE-CANDIDATE, and the assertion of \<^verbatim>\<open>OnUseCandidate\<close> fails.
\<close>

theorem replaced_port_keeps_role:
  assumes "acquainted pa ca pb cb" "pt_ice_protocol pa = ICEPROTO_RFC5245" "pt_role pa = ROLE_CONTROLLING"
    "pt_role pb = ROLE_CONTROLLED" "pt_tiebreaker pa \<noteq> pt_tiebreaker pb"
    "pt_heap pa ka = Some ca" "cn_connected ca" "local_candidate pa ca \<noteq> None"
    "sr_struct (cn_requests ca)" "sr_heap (cn_requests ca) q = None" "map_of (sr_requests (cn_requests ca)) tid = None"
    "length tid = 12" "GetConnection pb (cd_address (cn_remote_candidate cb)) = Some kb"
    "ip_ok (sk_ip (cd_address (cn_remote_candidate cb)))" "digest_ok sha1" "dg_Size sha1 = 20"
    "conn_at ch (i, kb) = Some (pb, cb)" "i \<in> set (ch_ports ch)"
  shows "\<exists>pa1 pa2 ping. Ping sha1 t0 pa ka q tid = Some pa1 \<and> request_OnMessage t1 pa1 ka q = Some pa2 \<and>
    pt_events pa2 = pt_events pa @ [SendTo ping (cd_address (cn_remote_candidate ca)) False] \<and>
    call_conn (SetRole ROLE_CONTROLLING ch) (i, kb) (\<lambda>p. conn_OnReadPacket sha1 t2 p kb ping) \<noteq> None \<and>
    call_conn (SetRole ROLE_CONTROLLING (AddAllocatorSession ch)) (i, kb) (\<lambda>p. conn_OnReadPacket sha1 t2 p kb ping) = None"
proof -
  obtain pa1 c1 r m where 1: "Ping sha1 t0 pa ka q tid = Some pa1"
      "is_ping sha1 pa tid (ping_username pa ca cb) (pt_password pb) m" "pt_heap pa1 ka = Some c1"
      "pt_events pa1 = pt_events pa" "cn_remote_candidate c1 = cn_remote_candidate ca" "sr_struct (cn_requests c1)"
      "sr_heap (cn_requests c1) q = Some r" "rq_managed r" "\<not> rq_timeout r" "rq_msg r = m"
    using Ping_sent [OF assms(6-11,1,12,15,16), of t0] by metis
  have m: "message_ok ice_vt (rq_msg r)" "GetByteString m STUN_ATTR_USE_CANDIDATE \<noteq> None"
    using 1(2,10) assms(2,3) by (auto simp: is_ping_def)
  obtain pa2 where 2: "request_OnMessage t1 pa1 ka q = Some pa2"
      "pt_events pa2 = pt_events pa1 @ [SendTo (message_bytes (rq_msg r)) (cd_address (cn_remote_candidate c1)) False]"
    using request_sent [OF 1(3,6-9) m(1), of t1] by blast
  have heap: "pt_heap pb kb = Some cb" using assms(17) by (auto simp: conn_at_def split: Option.bind_splits)
  let ?pb = "pb\<lparr>pt_role := ROLE_CONTROLLING\<rparr>"
  have "call_conn (SetRole ROLE_CONTROLLING ch) (i, kb) (\<lambda>p. conn_OnReadPacket sha1 t2 p kb (message_bytes m)) \<noteq> None"
  proof (rule ping_at_controlling [of sha1 pa tid ca cb ?pb])
    show "conn_at (SetRole ROLE_CONTROLLING ch) (i, kb) = Some (?pb, cb)"
      using assms(17,18) by (auto simp: conn_at_def SetRole_def on_ports_def split: Option.bind_splits)
    have "username_fragment ?pb = username_fragment pb" unfolding username_fragment_def by (rule if_cong) simp_all
    then show "acquainted pa ca ?pb cb" using assms(1) by (simp add: acquainted_def)
  qed (use 1(2) assms heap in \<open>simp_all add: GetConnection_def\<close>)
  moreover have "call_conn (SetRole ROLE_CONTROLLING (AddAllocatorSession ch)) (i, kb)
      (\<lambda>p. conn_OnReadPacket sha1 t2 p kb (message_bytes m)) = None"
  proof -
    have "peers pa ca pb cb" using assms(1-4) by (simp add: peers_def opposite_roles_def)
    from ping_answered [OF 1(2) assms(12,1) peers_no_conflict [OF 1(2) this] heap refl assms(13-16), of t2]
    obtain pb1 cb1 es where "conn_OnReadPacket sha1 t2 pb kb (message_bytes m) = Some pb1" "pt_heap pb1 kb = Some cb1"
      "cn_events cb1 = cn_events cb @ es @ [SignalUseCandidate]" "set es \<subseteq> {SignalStateChange, PostDelete}"
      using assms(1,2,4) m(2) by (auto simp: acquainted_def)
    moreover have "conn_at (SetRole ROLE_CONTROLLING (AddAllocatorSession ch)) (i, kb) = Some (pb, cb)"
      "ch_role (SetRole ROLE_CONTROLLING (AddAllocatorSession ch)) = ROLE_CONTROLLING"
      using assms(17) by (simp_all add: SetRole_def AddAllocatorSession_def on_ports_def conn_at_def)
    ultimately show ?thesis by (intro call_conn_role(2) [of _ "(i, kb)" pb cb]) auto
  qed
  ultimately show ?thesis using 1 2 by auto
qed

section \<open>Witnesses\<close>

theorem remembered_candidates_witness:
  "no_duplicates [(example_candidate 1 [65] [1, 1], None), (example_candidate 2 [66] [2, 2], None)] \<and>
   no_duplicates (ch_remote_candidates (RememberRemoteCandidate ((example_candidate 3 [67] [3, 3])\<lparr>cd_generation := 1\<rparr>) None
     ((P2PTransportChannel_new 1)\<lparr>ch_remote_candidates :=
        [(example_candidate 1 [65] [1, 1], None), (example_candidate 2 [66] [2, 2], None)]\<rparr>)))"
proof -
  have "no_duplicates [(example_candidate 1 [65] [1, 1], None), (example_candidate 2 [66] [2, 2], None)]"
    by (simp add: no_duplicates_def IsEquivalent_def example_candidate_def)
  then show ?thesis
    using remembered_candidates [of "(P2PTransportChannel_new 1)\<lparr>ch_remote_candidates :=
        [(example_candidate 1 [65] [1, 1], None), (example_candidate 2 [66] [2, 2], None)]\<rparr>"] by simp
qed

theorem next_ping_oldest_witness:
  "FindNextPingableConnection 50 example_channel = Some (0, 0)"
proof -
  let ?c = "Connection_new 0 (example_candidate 2 [66] [2, 2])"
  have c: "cn_connected ?c" "cn_write_state ?c = STATE_WRITE_INIT" "cn_last_ping_sent ?c = 0" by (simp_all add: Connection_new_def)
  have at: "\<exists>p. conn_at example_channel (0, 0) = Some (p, ?c)" "\<exists>p. conn_at example_channel (1, 0) = Some (p, ?c)"
    by (auto simp: example_channel_def conn_at_def example_port_fields)
  then have p: "IsPingable example_channel (0, 0)" "IsPingable example_channel (1, 0)" "last_ping_sent example_channel (0, 0) = 0"
      "last_ping_sent example_channel (1, 0) = 0"
    using c by (auto simp: IsPingable_def last_ping_sent_def)
  have f: "ch_best_connection example_channel = None" "ch_connections example_channel = [(0, 0), (1, 0)]"
    by (simp_all add: example_channel_def P2PTransportChannel_new_def)
  show ?thesis using next_ping_oldest [where now = 50 and ch = example_channel] f p
    by (auto simp: first_oldest_def Cons_eq_append_conv split: option.splits)
qed

definition example_controlled :: P2PTransportChannel where
  "example_controlled = (P2PTransportChannel_new 1)\<lparr>ch_ports := [0], ch_connections := [(0, 0)], ch_role := ROLE_CONTROLLED,
     ch_heap := [0 \<mapsto> example_port 2 ROLE_CONTROLLED [66] (example_candidate 1 [65] [1, 1])]\<rparr>"

theorem replaced_port_keeps_role_witness:
  "\<exists>ping. call_conn (SetRole ROLE_CONTROLLING (AddAllocatorSession example_controlled)) (0, 0)
      (\<lambda>p. conn_OnReadPacket toy_digest 40 p 0 ping) = None \<and>
    call_conn (SetRole ROLE_CONTROLLING example_controlled) (0, 0) (\<lambda>p. conn_OnReadPacket toy_digest 40 p 0 ping) \<noteq> None"
proof -
  let ?pa = "example_port 1 ROLE_CONTROLLING [65] (example_candidate 2 [66] [2, 2])"
  let ?pb = "example_port 2 ROLE_CONTROLLED [66] (example_candidate 1 [65] [1, 1])"
  let ?ca = "Connection_new 0 (example_candidate 2 [66] [2, 2])" and ?cb = "Connection_new 0 (example_candidate 1 [65] [1, 1])"
  have p: "acquainted ?pa ?ca ?pb ?cb" "local_candidate ?pa ?ca \<noteq> None" "pt_ice_protocol ?pa = ICEPROTO_RFC5245"
      "pt_role ?pa = ROLE_CONTROLLING" "pt_role ?pb = ROLE_CONTROLLED" "pt_tiebreaker ?pa \<noteq> pt_tiebreaker ?pb"
    by (simp_all add: acquainted_def example_port_def example_candidate_def Port_new_def Connection_new_def
      username_fragment_def local_candidate_def)
  have h: "pt_heap ?pa 0 = Some ?ca" "GetConnection ?pb (cd_address (cn_remote_candidate ?cb)) = Some 0"
      "conn_at example_controlled (0, 0) = Some (?pb, ?cb)"
    by (simp_all add: example_port_def Port_new_def GetConnection_def Connection_new_def example_controlled_def conn_at_def)
  have c: "cn_connected ?ca" "sr_struct (cn_requests ?ca)" "sr_heap (cn_requests ?ca) 7 = None"
      "map_of (sr_requests (cn_requests ?ca)) (replicate 12 9) = None"
      "ip_ok (sk_ip (cd_address (cn_remote_candidate ?cb)))" "0 \<in> set (ch_ports example_controlled)"
    using empty_requests by (simp_all add: Connection_new_def example_candidate_def StunRequestManager_new_def example_controlled_def)
  from replaced_port_keeps_role [OF p(1,3-6) h(1) c(1) p(2) c(2-4) _ h(2) c(5) toy_digest_ok h(3) c(6), of 10 12 40]
  show ?thesis by auto
qed

end
