(* ===== verification/RtpUtils.thy ===== *)
theory RtpUtils
  imports ByteOrder
begin

text \<open>
  \<^verbatim>\<open>src/media/base/rtputils.cc\<close>: the accessors of RTP and RTCP headers. A pointer is
  \<open>None\<close> for \<^verbatim>\<open>NULL\<close> or the bytes it points to. The functions get the length from their
  caller, so an access can leave the block: that is \<open>None\<close>. A getter that returns false is
  \<open>Some None\<close>, one that returns true \<open>Some (Some v)\<close>; a setter returns the boolean and the block.
\<close>

section \<open>Constants\<close>

definition kRtpVersion :: int where "kRtpVersion = 2"
definition kRtpFlagsOffset :: nat where "kRtpFlagsOffset = 0"
definition kRtpPayloadTypeOffset :: nat where "kRtpPayloadTypeOffset = 1"
definition kRtpSeqNumOffset :: nat where "kRtpSeqNumOffset = 2"
definition kRtpTimestampOffset :: nat where "kRtpTimestampOffset = 4"
definition kRtpSsrcOffset :: nat where "kRtpSsrcOffset = 8"
definition kRtcpPayloadTypeOffset :: nat where "kRtcpPayloadTypeOffset = 1"
definition kMinRtpPacketLen :: nat where "kMinRtpPacketLen = 12"
definition kMinRtcpPacketLen :: nat where "kMinRtcpPacketLen = 4"
definition kRtcpTypeSDES :: int where "kRtcpTypeSDES = 202"

lemmas rtp_offsets = kRtpFlagsOffset_def kRtpPayloadTypeOffset_def kRtpSeqNumOffset_def
  kRtpTimestampOffset_def kRtpSsrcOffset_def kRtcpPayloadTypeOffset_def kMinRtpPacketLen_def
  kMinRtcpPacketLen_def

record RtpHeader =
  payload_type :: int
  seq_num :: int
  timestamp :: u32
  ssrc :: u32

type_synonym pointer = "byte list option"
type_synonym 'v get_result = "'v option option"
type_synonym set_result = "(bool \<times> pointer) option"

section \<open>Reading\<close>

definition load :: "byte list \<Rightarrow> nat \<Rightarrow> nat \<Rightarrow> (byte list \<Rightarrow> 'v) \<Rightarrow> 'v get_result" where
  "load memory offset width read =
     (if offset + width \<le> length memory then Some (Some (read (drop offset memory))) else None)"

definition GetUint8 :: "pointer \<Rightarrow> nat \<Rightarrow> int get_result" where
  "GetUint8 data offset =
     (case data of None \<Rightarrow> Some None | Some m \<Rightarrow> load m offset 1 (\<lambda>p. uint (p ! 0)))"

definition GetUint16 :: "pointer \<Rightarrow> nat \<Rightarrow> int get_result" where
  "GetUint16 data offset =
     (case data of None \<Rightarrow> Some None | Some m \<Rightarrow> load m offset 2 (\<lambda>p. uint (GetBE16 p)))"

definition GetUint32 :: "pointer \<Rightarrow> nat \<Rightarrow> u32 get_result" where
  "GetUint32 data offset =
     (case data of None \<Rightarrow> Some None | Some m \<Rightarrow> load m offset 4 GetBE32)"

definition GetRtpFlags :: "pointer \<Rightarrow> nat \<Rightarrow> int get_result" where
  "GetRtpFlags data len =
     (if len < kMinRtpPacketLen then Some None else GetUint8 data kRtpFlagsOffset)"

definition GetRtpPayloadType :: "pointer \<Rightarrow> nat \<Rightarrow> int get_result" where
  "GetRtpPayloadType data len =
     (if len < kMinRtpPacketLen then Some None
      else map_option (map_option (\<lambda>v. v AND 0x7F)) (GetUint8 data kRtpPayloadTypeOffset))"

definition GetRtpSeqNum :: "pointer \<Rightarrow> nat \<Rightarrow> int get_result" where
  "GetRtpSeqNum data len =
     (if len < kMinRtpPacketLen then Some None else GetUint16 data kRtpSeqNumOffset)"

definition GetRtpTimestamp :: "pointer \<Rightarrow> nat \<Rightarrow> u32 get_result" where
  "GetRtpTimestamp data len =
     (if len < kMinRtpPacketLen then Some None else GetUint32 data kRtpTimestampOffset)"

definition GetRtpSsrc :: "pointer \<Rightarrow> nat \<Rightarrow> u32 get_result" where
  "GetRtpSsrc data len =
     (if len < kMinRtpPacketLen then Some None else GetUint32 data kRtpSsrcOffset)"

text \<open>The length of the extension is read behind the contributing sources.\<close>

definition GetRtpHeaderLen :: "pointer \<Rightarrow> nat \<Rightarrow> nat get_result" where
  "GetRtpHeaderLen data len =
     (case data of
        None \<Rightarrow> Some None
      | Some header \<Rightarrow>
          if len < kMinRtpPacketLen then Some None
          else if header = [] then None
          else
            let header_size = kMinRtpPacketLen + unat (header ! 0 AND 0xF) * 4
            in if len < header_size then Some None
               else if header ! 0 AND 0x10 \<noteq> 0 then
                 if len < header_size + 4 then Some None
                 else case load header (header_size + 2) 2 GetBE16 of
                        Some (Some ext) \<Rightarrow>
                          let header_size = header_size + (unat ext + 1) * 4
                          in if len < header_size then Some None else Some (Some header_size)
                      | _ \<Rightarrow> None
               else Some (Some header_size))"

definition and_get :: "'a get_result \<Rightarrow> ('a \<Rightarrow> 'b get_result) \<Rightarrow> 'b get_result" where
  "and_get r k = (case r of None \<Rightarrow> None | Some None \<Rightarrow> Some None | Some (Some v) \<Rightarrow> k v)"

definition GetRtpHeader :: "pointer \<Rightarrow> nat \<Rightarrow> RtpHeader get_result" where
  "GetRtpHeader data len =
     and_get (GetRtpPayloadType data len) (\<lambda>pt.
     and_get (GetRtpSeqNum data len) (\<lambda>seq.
     and_get (GetRtpTimestamp data len) (\<lambda>ts.
     and_get (GetRtpSsrc data len) (\<lambda>s.
       Some (Some \<lparr>payload_type = pt, seq_num = seq, timestamp = ts, ssrc = s\<rparr>)))))"

definition GetRtcpType :: "pointer \<Rightarrow> nat \<Rightarrow> int get_result" where
  "GetRtcpType data len =
     (if len < kMinRtcpPacketLen then Some None else GetUint8 data kRtcpPayloadTypeOffset)"

definition GetRtcpSsrc :: "pointer \<Rightarrow> nat \<Rightarrow> u32 get_result" where
  "GetRtcpSsrc data len =
     (if data = None \<or> len < kMinRtcpPacketLen + 4 then Some None
      else and_get (GetRtcpType data len) (\<lambda>pl_type.
             if pl_type = kRtcpTypeSDES then Some None else GetUint32 data 4))"

section \<open>Writing\<close>

definition store :: "pointer \<Rightarrow> nat \<Rightarrow> byte list \<Rightarrow> set_result" where
  "store data offset bytes =
     (case data of
        None \<Rightarrow> Some (False, None)
      | Some m \<Rightarrow> if offset + length bytes \<le> length m then Some (True, Some (mem_write m offset bytes))
                  else None)"

definition SetUint8 :: "pointer \<Rightarrow> nat \<Rightarrow> int \<Rightarrow> set_result" where
  "SetUint8 data offset v = store data offset [word_of_int v]"

definition SetUint16 :: "pointer \<Rightarrow> nat \<Rightarrow> int \<Rightarrow> set_result" where
  "SetUint16 data offset v = store data offset (SetBE16 (word_of_int v))"

definition SetUint32 :: "pointer \<Rightarrow> nat \<Rightarrow> u32 \<Rightarrow> set_result" where
  "SetUint32 data offset v = store data offset (SetBE32 v)"

definition SetRtpHeaderFlags :: "pointer \<Rightarrow> nat \<Rightarrow> bool \<Rightarrow> bool \<Rightarrow> int \<Rightarrow> set_result" where
  "SetRtpHeaderFlags data len padding extension csrc_count =
     (if csrc_count > 0x0F then Some (False, data)
      else SetUint8 data kRtpFlagsOffset
             (push_bit 6 kRtpVersion OR push_bit 5 (if padding then 1 else 0) OR
              push_bit 4 (if extension then 1 else 0) OR csrc_count))"

definition SetRtpPayloadType :: "pointer \<Rightarrow> nat \<Rightarrow> int \<Rightarrow> set_result" where
  "SetRtpPayloadType data len v =
     (if v \<ge> 0x7F then Some (False, data) else SetUint8 data kRtpPayloadTypeOffset (v AND 0x7F))"

definition SetRtpSeqNum :: "pointer \<Rightarrow> nat \<Rightarrow> int \<Rightarrow> set_result" where
  "SetRtpSeqNum data len v = SetUint16 data kRtpSeqNumOffset v"

definition SetRtpTimestamp :: "pointer \<Rightarrow> nat \<Rightarrow> u32 \<Rightarrow> set_result" where
  "SetRtpTimestamp data len v = SetUint32 data kRtpTimestampOffset v"

definition SetRtpSsrc :: "pointer \<Rightarrow> nat \<Rightarrow> u32 \<Rightarrow> set_result" where
  "SetRtpSsrc data len v = SetUint32 data kRtpSsrcOffset v"

definition and_set :: "set_result \<Rightarrow> (pointer \<Rightarrow> set_result) \<Rightarrow> set_result" where
  "and_set r k = (case r of None \<Rightarrow> None | Some (ok, data) \<Rightarrow> if ok then k data else Some (False, data))"

definition SetRtpHeader :: "pointer \<Rightarrow> nat \<Rightarrow> RtpHeader \<Rightarrow> set_result" where
  "SetRtpHeader data len header =
     and_set (SetRtpHeaderFlags data len False False 0) (\<lambda>data.
     and_set (SetRtpPayloadType data len (payload_type header)) (\<lambda>data.
     and_set (SetRtpSeqNum data len (seq_num header)) (\<lambda>data.
     and_set (SetRtpTimestamp data len (timestamp header)) (\<lambda>data.
       SetRtpSsrc data len (ssrc header)))))"

section \<open>Properties\<close>

text \<open>Within a packet of twelve bytes the fields are read at their offsets.\<close>

lemma load_inside: "offset + width \<le> length m \<Longrightarrow> load m offset width f = Some (Some (f (drop offset m)))"
  by (simp add: load_def)

lemmas rtp_get_defs = GetRtpFlags_def GetRtpPayloadType_def GetRtpSeqNum_def GetRtpTimestamp_def
  GetRtpSsrc_def GetRtpHeader_def GetRtcpType_def GetRtcpSsrc_def GetUint8_def GetUint16_def GetUint32_def
  and_get_def

lemma rtp_fields_defined:
  assumes "len \<le> length m"
  shows "GetRtpFlags (Some m) len \<noteq> None" "GetRtpPayloadType (Some m) len \<noteq> None"
    "GetRtpSeqNum (Some m) len \<noteq> None" "GetRtpTimestamp (Some m) len \<noteq> None"
    "GetRtpSsrc (Some m) len \<noteq> None" "GetRtpHeader (Some m) len \<noteq> None"
    "GetRtcpType (Some m) len \<noteq> None" "GetRtcpSsrc (Some m) len \<noteq> None"
  using assms by (auto simp: rtp_get_defs rtp_offsets load_inside)

text \<open>
  C34. For a packet of any contents and any length up to that of the block, every accessor of RTP and RTCP headers
  reads inside of the packet: it returns false exactly when the packet is shorter than the fixed
  header (12 bytes, for RTCP 4, and 8 for the source, which is also not read from an SDES packet), and otherwise the
  bytes of its field. A header length that is reported lies between the fixed header and the length of the packet,
  counts the contributing sources, and counts an extension if and only if there is one.
\<close>

theorem rtp_reads_inside:
  assumes "len \<le> length m"
  shows "GetRtpFlags (Some m) len = Some (if len < 12 then None else Some (uint (m ! 0))) \<and>
    GetRtpPayloadType (Some m) len = Some (if len < 12 then None else Some (uint (m ! 1) mod 128)) \<and>
    GetRtpSeqNum (Some m) len = Some (if len < 12 then None else Some (uint (GetBE16 (drop 2 m)))) \<and>
    GetRtpTimestamp (Some m) len = Some (if len < 12 then None else Some (GetBE32 (drop 4 m))) \<and>
    GetRtpSsrc (Some m) len = Some (if len < 12 then None else Some (GetBE32 (drop 8 m))) \<and>
    GetRtpHeader (Some m) len = Some (if len < 12 then None else
      Some \<lparr>payload_type = uint (m ! 1) mod 128, seq_num = uint (GetBE16 (drop 2 m)),
        timestamp = GetBE32 (drop 4 m), ssrc = GetBE32 (drop 8 m)\<rparr>) \<and>
    GetRtcpType (Some m) len = Some (if len < 4 then None else Some (uint (m ! 1))) \<and>
    GetRtcpSsrc (Some m) len = Some (if len < 8 \<or> m ! 1 = 202 then None else Some (GetBE32 (drop 4 m))) \<and>
    (\<exists>r. GetRtpHeaderLen (Some m) len = Some r \<and> (len < 12 \<longrightarrow> r = None) \<and>
       (\<forall>n. r = Some n \<longrightarrow> n \<le> len \<and> (\<exists>ext. n = 12 + 4 * (unat (m ! 0) mod 16) + ext \<and>
          (bit (m ! 0) 4 \<longleftrightarrow> 0 < ext))))"
proof -
  have low: "v AND 0x7F = v mod 128" for v :: int
    using take_bit_eq_mask [of 7 v] by (simp add: take_bit_eq_mod mask_eq_exp_minus_1)
  have sdes: "uint (m ! 1) = 202 \<longleftrightarrow> m ! 1 = 202" by (simp add: word_uint_eq_iff)
  have cc: "unat (b AND 0xF) = unat b mod 16" for b :: byte
  proof -
    have "b AND 0xF = b mod 16" using take_bit_eq_mask [of 4 b] by (simp add: take_bit_eq_mod mask_eq_exp_minus_1)
    then show ?thesis by (simp add: unat_mod)
  qed
  have x: "b AND 0x10 \<noteq> 0 \<longleftrightarrow> bit b 4" for b :: byte
    using and_exp_eq_0_iff_not_bit [of b 4] by simp
  have "\<exists>r. GetRtpHeaderLen (Some m) len = Some r \<and> (len < 12 \<longrightarrow> r = None) \<and>
       (\<forall>n. r = Some n \<longrightarrow> n \<le> len \<and> (\<exists>ext. n = 12 + 4 * (unat (m ! 0) mod 16) + ext \<and>
          (bit (m ! 0) 4 \<longleftrightarrow> 0 < ext)))"
    using assms by (auto simp: GetRtpHeaderLen_def load_inside Let_def kMinRtpPacketLen_def cc x)
  then show ?thesis using assms
    by (auto simp: rtp_get_defs rtp_offsets load_inside low sdes [simplified] kRtcpTypeSDES_def)
qed

theorem rtp_reads_inside_witness:
  "16 \<le> length (replicate 16 (0x90 :: byte)) \<and>
   GetRtpHeader (Some (replicate 16 0x90)) 16 \<noteq> Some None \<and> GetRtpHeaderLen (Some (replicate 16 0x90)) 16 \<noteq> None"
  using rtp_reads_inside [of 16 "replicate 16 0x90"] by auto

text \<open>Twelve bytes and what follows them.\<close>

lemma twelve_bytes:
  assumes "12 \<le> length m"
  obtains b0 b1 b2 b3 b4 b5 b6 b7 b8 b9 b10 b11 rest
  where "m = [b0, b1, b2, b3, b4, b5, b6, b7, b8, b9, b10, b11] @ rest"
proof -
  define a where "a = take 12 m"
  have "length a = 12" using assms by (simp add: a_def)
  then obtain b0 b1 b2 b3 b4 b5 b6 b7 b8 b9 b10 b11
    where "a = [b0, b1, b2, b3, b4, b5, b6, b7, b8, b9, b10, b11]"
    by (auto simp: numeral_eq_Suc length_Suc_conv)
  then have "take 12 m = [b0, b1, b2, b3, b4, b5, b6, b7, b8, b9, b10, b11]" by (simp add: a_def)
  then show thesis using that [of b0 b1 b2 b3 b4 b5 b6 b7 b8 b9 b10 b11 "drop 12 m"]
    by (metis append_take_drop_id)
qed

lemma SetRtpHeader_bytes:
  assumes "12 \<le> length m" "payload_type h < 0x7F"
  shows "SetRtpHeader (Some m) len h = Some (True, Some ([0x80, word_of_int (payload_type h AND 0x7F)] @
     SetBE16 (word_of_int (seq_num h)) @ SetBE32 (timestamp h) @ SetBE32 (ssrc h) @ drop 12 m))"
proof -
  obtain b0 b1 b2 b3 b4 b5 b6 b7 b8 b9 b10 b11 rest
    where "m = [b0, b1, b2, b3, b4, b5, b6, b7, b8, b9, b10, b11] @ rest" using twelve_bytes [OF assms(1)] .
  then show ?thesis using assms(2)
    by (simp add: SetRtpHeader_def and_set_def SetRtpHeaderFlags_def SetUint8_def SetRtpPayloadType_def
      SetRtpSeqNum_def SetUint16_def SetRtpTimestamp_def SetUint32_def SetRtpSsrc_def store_def rtp_offsets
      kRtpVersion_def mem_write_def be16.enc_length be32.enc_length SetBE16_def SetBE32_def numeral_nat)
qed

text \<open>
  A header written with \<^verbatim>\<open>SetRtpHeader\<close> reads back unchanged, the header length is the
  twelve bytes of the fixed header, and the rest of the packet is untouched.
\<close>

theorem rtp_header_roundtrip:
  assumes "12 \<le> len" "len \<le> length m" "0 \<le> payload_type h" "payload_type h < 0x7F"
    "0 \<le> seq_num h" "seq_num h < 2 ^ 16"
  shows "\<exists>m'. SetRtpHeader (Some m) len h = Some (True, Some m') \<and> length m' = length m \<and>
     drop 12 m' = drop 12 m \<and> GetRtpHeader (Some m') len = Some (Some h) \<and>
     GetRtpHeaderLen (Some m') len = Some (Some 12)"
proof -
  let ?m = "[0x80, word_of_int (payload_type h AND 0x7F)] @ SetBE16 (word_of_int (seq_num h)) @
     SetBE32 (timestamp h) @ SetBE32 (ssrc h) @ drop 12 m"
  have l: "length ?m = length m" using assms by (simp add: be16.enc_length be32.enc_length)
  have "(0x7F :: int) = mask 7" by (simp add: mask_eq_exp_minus_1)
  then have "payload_type h AND 0x7F = payload_type h"
    using assms(3,4) by (simp only: flip: take_bit_eq_mask) (simp add: take_bit_int_eq_self)
  then have pt: "uint (word_of_int (payload_type h AND 0x7F) :: byte) AND 0x7F = payload_type h"
    using assms(3,4) by (simp add: uint_word_of_int_eq take_bit_int_eq_self)
  have seq: "uint (word_of_int (seq_num h) :: u16) = seq_num h"
    using assms(5,6) by (simp add: uint_word_of_int_eq take_bit_int_eq_self)
  have "GetRtpHeader (Some ?m) len = Some (Some h)"
    using assms(1,2) pt seq be16.dec_enc [of "word_of_int (seq_num h)"] be32.dec_enc [of "timestamp h"]
      be32.dec_enc [of "ssrc h"] l
    by (simp add: rtp_get_defs rtp_offsets load_def be16.enc_length be32.enc_length)
  moreover have "GetRtpHeaderLen (Some ?m) len = Some (Some 12)"
    using assms(1) by (simp add: GetRtpHeaderLen_def rtp_offsets)
  ultimately show ?thesis using SetRtpHeader_bytes [of m h len] assms l
    by (auto simp: be16.enc_length be32.enc_length)
qed

theorem rtp_header_roundtrip_witness:
  "\<exists>m'. SetRtpHeader (Some (replicate 14 7)) 14 \<lparr>payload_type = 96, seq_num = 65535, timestamp = 1, ssrc = 2\<rparr> =
       Some (True, Some m') \<and> length m' = 14 \<and> drop 12 m' = [7, 7] \<and>
     GetRtpHeader (Some m') 14 = Some (Some \<lparr>payload_type = 96, seq_num = 65535, timestamp = 1, ssrc = 2\<rparr>)"
proof -
  have "drop 12 (replicate 14 7) = [7, 7 :: byte]" by (simp add: numeral_2_eq_2)
  then show ?thesis
    using rtp_header_roundtrip [of 14 "replicate 14 7" "\<lparr>payload_type = 96, seq_num = 65535, timestamp = 1, ssrc = 2\<rparr>"]
    by auto
qed

end
