(* ===== verification/StreamParams.thy ===== *)
theory StreamParams
  imports RtpUtils
begin

text \<open>
  \<^verbatim>\<open>src/media/base/streamparams.cc\<close>, the description of the sources of a media stream, and
  \<^verbatim>\<open>src/session/media/ssrcmuxfilter.cc\<close>, which decides from it whether a packet belongs to a
  channel.
\<close>

section \<open>Stream parameters\<close>

record SsrcGroup =
  semantics :: string
  group_ssrcs :: "u32 list"

record StreamParams =
  nick :: string
  sp_name :: string
  ssrcs :: "u32 list"
  ssrc_groups :: "SsrcGroup list"
  sp_type :: string
  display :: string
  cname :: string
  sync_label :: string

definition kFecSsrcGroupSemantics :: string where "kFecSsrcGroupSemantics = ''FEC''"
definition kFidSsrcGroupSemantics :: string where "kFidSsrcGroupSemantics = ''FID''"

definition empty_StreamParams :: StreamParams where
  "empty_StreamParams = \<lparr>nick = [], sp_name = [], ssrcs = [], ssrc_groups = [], sp_type = [],
     display = [], cname = [], sync_label = []\<rparr>"

definition CreateLegacy :: "u32 \<Rightarrow> StreamParams" where
  "CreateLegacy s = empty_StreamParams\<lparr>ssrcs := [s]\<rparr>"

definition SsrcGroup_eq :: "SsrcGroup \<Rightarrow> SsrcGroup \<Rightarrow> bool" where
  "SsrcGroup_eq g other \<longleftrightarrow> semantics g = semantics other \<and> group_ssrcs g = group_ssrcs other"

text \<open>The last conjunct of \<^verbatim>\<open>operator==\<close> compares a member with itself.\<close>

definition StreamParams_eq :: "StreamParams \<Rightarrow> StreamParams \<Rightarrow> bool" where
  "StreamParams_eq s other \<longleftrightarrow> nick s = nick other \<and> sp_name s = sp_name other \<and> ssrcs s = ssrcs other \<and>
     list_all2 SsrcGroup_eq (ssrc_groups s) (ssrc_groups other) \<and> sp_type s = sp_type other \<and>
     display s = display other \<and> cname s = cname other \<and> sync_label s = sync_label s"

definition has_semantics :: "SsrcGroup \<Rightarrow> string \<Rightarrow> bool" where
  "has_semantics g semantics_in \<longleftrightarrow> semantics g = semantics_in \<and> length (group_ssrcs g) > 0"

definition first_ssrc :: "StreamParams \<Rightarrow> u32" where
  "first_ssrc s = (if ssrcs s = [] then 0 else ssrcs s ! 0)"

definition has_ssrcs :: "StreamParams \<Rightarrow> bool" where
  "has_ssrcs s \<longleftrightarrow> ssrcs s \<noteq> []"

definition has_ssrc :: "StreamParams \<Rightarrow> u32 \<Rightarrow> bool" where
  "has_ssrc s x = List.member (ssrcs s) x"

definition add_ssrc :: "StreamParams \<Rightarrow> u32 \<Rightarrow> StreamParams" where
  "add_ssrc s x = s\<lparr>ssrcs := ssrcs s @ [x]\<rparr>"

definition has_ssrc_groups :: "StreamParams \<Rightarrow> bool" where
  "has_ssrc_groups s \<longleftrightarrow> ssrc_groups s \<noteq> []"

definition get_ssrc_group :: "StreamParams \<Rightarrow> string \<Rightarrow> SsrcGroup option" where
  "get_ssrc_group s sem = find (\<lambda>g. has_semantics g sem) (ssrc_groups s)"

definition has_ssrc_group :: "StreamParams \<Rightarrow> string \<Rightarrow> bool" where
  "has_ssrc_group s sem \<longleftrightarrow> get_ssrc_group s sem \<noteq> None"

definition AddSecondarySsrc :: "StreamParams \<Rightarrow> string \<Rightarrow> u32 \<Rightarrow> u32 \<Rightarrow> bool \<times> StreamParams" where
  "AddSecondarySsrc s sem primary_ssrc secondary_ssrc =
     (if \<not> has_ssrc s primary_ssrc then (False, s)
      else (True, s\<lparr>ssrcs := ssrcs s @ [secondary_ssrc],
                    ssrc_groups := ssrc_groups s @
                      [\<lparr>semantics = sem, group_ssrcs = [primary_ssrc, secondary_ssrc]\<rparr>]\<rparr>))"

definition GetSecondarySsrc :: "StreamParams \<Rightarrow> string \<Rightarrow> u32 \<Rightarrow> u32 option" where
  "GetSecondarySsrc s sem primary_ssrc =
     map_option (\<lambda>g. group_ssrcs g ! 1)
       (find (\<lambda>g. has_semantics g sem \<and> length (group_ssrcs g) \<ge> 2 \<and> group_ssrcs g ! 0 = primary_ssrc)
          (ssrc_groups s))"

definition AddFidSsrc :: "StreamParams \<Rightarrow> u32 \<Rightarrow> u32 \<Rightarrow> bool \<times> StreamParams" where
  "AddFidSsrc s primary_ssrc fid_ssrc = AddSecondarySsrc s kFidSsrcGroupSemantics primary_ssrc fid_ssrc"

definition GetFidSsrc :: "StreamParams \<Rightarrow> u32 \<Rightarrow> u32 option" where
  "GetFidSsrc s primary_ssrc = GetSecondarySsrc s kFidSsrcGroupSemantics primary_ssrc"

section \<open>Printing\<close>

fun digits :: "nat \<Rightarrow> string" where
  "digits n = (if n < 10 then [char_of (48 + n)] else digits (n div 10) @ [char_of (48 + n mod 10)])"

declare digits.simps [simp del]

fun comma_separated :: "string list \<Rightarrow> string" where
  "comma_separated [] = []"
| "comma_separated [x] = x"
| "comma_separated (x # y # xs) = x @ '','' @ comma_separated (y # xs)"

definition SsrcsToString :: "u32 list \<Rightarrow> string" where
  "SsrcsToString xs = ''ssrcs:['' @ comma_separated (map (\<lambda>x. digits (unat x)) xs) @ '']''"

definition SsrcGroup_ToString :: "SsrcGroup \<Rightarrow> string" where
  "SsrcGroup_ToString g = ''{semantics:'' @ semantics g @ '';'' @ SsrcsToString (group_ssrcs g) @ ''}''"

definition shown :: "string \<Rightarrow> string \<Rightarrow> string \<Rightarrow> string" where
  "shown label v tail = (if v \<noteq> [] then label @ v @ tail else [])"

definition StreamParams_ToString :: "StreamParams \<Rightarrow> string" where
  "StreamParams_ToString s =
     ''{'' @ shown ''nick:'' (nick s) '';'' @ shown ''name:'' (sp_name s) '';'' @
     SsrcsToString (ssrcs s) @ '';ssrc_groups:'' @
     comma_separated (map SsrcGroup_ToString (ssrc_groups s)) @ '';'' @
     shown ''type:'' (sp_type s) '';'' @ shown ''display:'' (display s) '';'' @
     shown ''cname:'' (cname s) '';'' @ shown ''sync_label:'' (sync_label s) [] @ ''}''"

section \<open>Searching and removing\<close>

type_synonym StreamParamsVec = "StreamParams list"

definition GetStreamBySsrc :: "StreamParamsVec \<Rightarrow> u32 \<Rightarrow> StreamParams option" where
  "GetStreamBySsrc streams x = find (\<lambda>s. has_ssrc s x) streams"

definition GetStreamByNickAndName :: "StreamParamsVec \<Rightarrow> string \<Rightarrow> string \<Rightarrow> StreamParams option" where
  "GetStreamByNickAndName streams nk nm = find (\<lambda>s. nick s = nk \<and> sp_name s = nm) streams"

text \<open>The loops that erase while they iterate; the boolean is \<^verbatim>\<open>ret\<close>.\<close>

fun erase_loop :: "(StreamParams \<Rightarrow> bool) \<Rightarrow> bool \<Rightarrow> StreamParamsVec \<Rightarrow> bool \<times> StreamParamsVec" where
  "erase_loop P ret [] = (ret, [])"
| "erase_loop P ret (s # streams) =
     (if P s then erase_loop P True streams
      else let (ret, rest) = erase_loop P ret streams in (ret, s # rest))"

definition RemoveStreamBySsrc :: "StreamParamsVec \<Rightarrow> u32 \<Rightarrow> bool \<times> StreamParamsVec" where
  "RemoveStreamBySsrc streams x = erase_loop (\<lambda>s. has_ssrc s x) False streams"

definition RemoveStreamByNickAndName :: "StreamParamsVec \<Rightarrow> string \<Rightarrow> string \<Rightarrow> bool \<times> StreamParamsVec" where
  "RemoveStreamByNickAndName streams nk nm = erase_loop (\<lambda>s. nick s = nk \<and> sp_name s = nm) False streams"

section \<open>The SSRC filter\<close>

definition kSsrc01 :: u32 where "kSsrc01 = 1"

record SsrcMuxFilter =
  streams :: StreamParamsVec

definition SsrcMuxFilter_new :: SsrcMuxFilter where
  "SsrcMuxFilter_new = \<lparr>streams = []\<rparr>"

definition ssrc_mux_IsActive :: "SsrcMuxFilter \<Rightarrow> bool" where
  "ssrc_mux_IsActive f \<longleftrightarrow> streams f \<noteq> []"

definition FindStream :: "SsrcMuxFilter \<Rightarrow> u32 \<Rightarrow> bool" where
  "FindStream f x \<longleftrightarrow> GetStreamBySsrc (streams f) x \<noteq> None"

text \<open>The result of \<^verbatim>\<open>GetRtpSsrc\<close> is not looked at: for a packet that is too short the SSRC stays 0.\<close>

definition DemuxPacket :: "SsrcMuxFilter \<Rightarrow> pointer \<Rightarrow> nat \<Rightarrow> bool \<Rightarrow> bool option" where
  "DemuxPacket f data len rtcp =
     (if \<not> rtcp then
        map_option (\<lambda>r. FindStream f (case r of None \<Rightarrow> 0 | Some x \<Rightarrow> x)) (GetRtpSsrc data len)
      else
        case GetRtcpType data len of
          None \<Rightarrow> None
        | Some None \<Rightarrow> Some False
        | Some (Some pl_type) \<Rightarrow>
            if pl_type = kRtcpTypeSDES then Some True
            else
              case GetRtcpSsrc data len of
                None \<Rightarrow> None
              | Some None \<Rightarrow> Some False
              | Some (Some x) \<Rightarrow> if x = kSsrc01 then Some True else Some (FindStream f x))"

definition AddStream :: "SsrcMuxFilter \<Rightarrow> StreamParams \<Rightarrow> bool \<times> SsrcMuxFilter" where
  "AddStream f stream =
     (if GetStreamBySsrc (streams f) (first_ssrc stream) \<noteq> None then (False, f)
      else (True, f\<lparr>streams := streams f @ [stream]\<rparr>))"

definition RemoveStream :: "SsrcMuxFilter \<Rightarrow> u32 \<Rightarrow> bool \<times> SsrcMuxFilter" where
  "RemoveStream f x = (let (ret, ss) = RemoveStreamBySsrc (streams f) x in (ret, f\<lparr>streams := ss\<rparr>))"

section \<open>The filter as a set of sources\<close>

definition sources :: "SsrcMuxFilter \<Rightarrow> u32 set" where
  "sources f = (\<Union>s\<in>set (streams f). set (ssrcs s))"

lemma has_ssrc_iff: "has_ssrc s x \<longleftrightarrow> x \<in> set (ssrcs s)"
  by (simp add: has_ssrc_def)

lemma find_None_eq: "find P xs \<noteq> None \<longleftrightarrow> (\<exists>x\<in>set xs. P x)"
  by (auto simp: find_None_iff)

lemma FindStream_iff: "FindStream f x \<longleftrightarrow> x \<in> sources f"
  by (simp add: FindStream_def GetStreamBySsrc_def sources_def has_ssrc_iff find_None_eq del: not_None_eq)

lemma erase_loop_eq: "erase_loop P ret ss = (ret \<or> (\<exists>s\<in>set ss. P s), filter (\<lambda>s. \<not> P s) ss)"
  by (induction ss arbitrary: ret) auto

lemma AddStream_sources:
  "AddStream f s = (first_ssrc s \<notin> sources f, if first_ssrc s \<in> sources f then f
     else f\<lparr>streams := streams f @ [s]\<rparr>)"
  using FindStream_iff [of f "first_ssrc s"] by (auto simp: AddStream_def FindStream_def)

lemma RemoveStream_eq:
  "RemoveStream f x = (x \<in> sources f, f\<lparr>streams := filter (\<lambda>s. x \<notin> set (ssrcs s)) (streams f)\<rparr>)"
  by (simp add: RemoveStream_def RemoveStreamBySsrc_def erase_loop_eq has_ssrc_iff sources_def)

lemma sources_append: "sources (f\<lparr>streams := streams f @ [s]\<rparr>) = sources f \<union> set (ssrcs s)"
  by (auto simp: sources_def)

lemma DemuxPacket_rtp:
  "DemuxPacket f (Some m) (length m) False =
     Some (if length m < 12 then 0 \<in> sources f else GetBE32 (drop 8 m) \<in> sources f)"
  by (simp add: DemuxPacket_def FindStream_iff rtp_get_defs rtp_offsets load_inside)

lemma DemuxPacket_rtcp:
  "DemuxPacket f (Some m) (length m) True =
     Some (4 \<le> length m \<and> (m ! 1 = 202 \<or>
       8 \<le> length m \<and> (GetBE32 (drop 4 m) = 1 \<or> GetBE32 (drop 4 m) \<in> sources f)))"
proof -
  have "uint (m ! 1) = 202 \<longleftrightarrow> m ! 1 = 202" by (simp add: word_uint_eq_iff)
  then show ?thesis
    by (auto simp: DemuxPacket_def FindStream_iff rtp_get_defs rtp_offsets load_inside kRtcpTypeSDES_def kSsrc01_def)
qed

text \<open>
  C33. The filter implements a list of streams with their sources, and the set of sources that are in some stream.
  A stream is added exactly when its first source is not yet known; it is then the last one and all of its sources are
  known. Removing a source succeeds exactly when it is known; it removes exactly the streams that have it and leaves the
  others in their order, so that a source is known afterwards if and only if some stream has it that does not have the
  removed one. An RTP packet is let through exactly when its source is known, an RTCP packet
  exactly when it is an SDES packet, has the source 1 or has a known one, and no packet makes the filter
  read outside of it.
\<close>

theorem ssrc_filter_refines_set:
  "fst (AddStream f s) = (first_ssrc s \<notin> sources f) \<and>
   streams (snd (AddStream f s)) = streams f @ (if first_ssrc s \<in> sources f then [] else [s]) \<and>
   sources (snd (AddStream f s)) =
     (if first_ssrc s \<in> sources f then sources f else sources f \<union> set (ssrcs s)) \<and>
   fst (RemoveStream f x) = (x \<in> sources f) \<and>
   streams (snd (RemoveStream f x)) = filter (\<lambda>s. x \<notin> set (ssrcs s)) (streams f) \<and>
   sources (snd (RemoveStream f x)) = \<Union> {set (ssrcs s) | s. s \<in> set (streams f) \<and> x \<notin> set (ssrcs s)} \<and>
   DemuxPacket f (Some m) (length m) False =
     Some (if length m < 12 then 0 \<in> sources f else GetBE32 (drop 8 m) \<in> sources f) \<and>
   DemuxPacket f (Some m) (length m) True =
     Some (4 \<le> length m \<and> (m ! 1 = 202 \<or>
       8 \<le> length m \<and> (GetBE32 (drop 4 m) = 1 \<or> GetBE32 (drop 4 m) \<in> sources f)))"
proof -
  have "sources (snd (RemoveStream f x)) = \<Union> {set (ssrcs s) | s. s \<in> set (streams f) \<and> x \<notin> set (ssrcs s)}"
    by (auto simp: RemoveStream_eq sources_def)
  then show ?thesis using DemuxPacket_rtp [of f m] DemuxPacket_rtcp [of f m]
    by (simp add: AddStream_sources sources_append RemoveStream_eq)
qed

end
