(* ===== verification/OfferAnswer.thy ===== *)
theory OfferAnswer
  imports Prelude
begin

text \<open>
  What the filters of \<^verbatim>\<open>src/session/media\<close> that take part in the offer/answer exchange have in
  common: an offer from one side is answered, possibly provisionally first, by the other side. The locale
  \<open>offer_answer\<close> is the contract of such a filter; it is interpreted for the RTCP mux filter and for
  the SRTP filter.
\<close>

datatype ContentSource = CS_LOCAL | CS_REMOTE

fun other :: "ContentSource \<Rightarrow> ContentSource" where
  "other CS_LOCAL = CS_REMOTE"
| "other CS_REMOTE = CS_LOCAL"

lemma other_source_other [simp]: "other (other src) = src"
  by (cases src) auto

lemma other_eq_iff [simp]: "other a = CS_LOCAL \<longleftrightarrow> a = CS_REMOTE" "other a = CS_REMOTE \<longleftrightarrow> a = CS_LOCAL"
  by (cases a; simp)+

section \<open>The exchange\<close>

text \<open>\<open>Offered src\<close>: an offer of \<open>src\<close> is open. \<open>Answering src\<close>: \<open>src\<close> has given a provisional
  answer.\<close>

datatype phase = Stable | Offered ContentSource | Answering ContentSource

datatype ('o, 'a) signal =
    Offer 'o ContentSource
  | ProvisionalAnswer 'a ContentSource
  | Answer 'a ContentSource

lemma signal_source_cases:
  obtains x where "sg = Offer x CS_LOCAL" | x where "sg = Offer x CS_REMOTE"
  | y where "sg = ProvisionalAnswer y CS_LOCAL" | y where "sg = ProvisionalAnswer y CS_REMOTE"
  | y where "sg = Answer y CS_LOCAL" | y where "sg = Answer y CS_REMOTE"
proof (cases sg)
  case (Offer x src)
  then show thesis using that by (cases src) auto
next
  case (ProvisionalAnswer x src)
  then show thesis using that by (cases src) auto
next
  case (Answer x src)
  then show thesis using that by (cases src) auto
qed

text \<open>The specification: what may be accepted in which phase, and the phases that can follow.\<close>

fun accepts :: "phase \<Rightarrow> ('o, 'a) signal \<Rightarrow> bool" where
  "accepts p (Offer _ src) = (p = Stable \<or> p = Offered src)"
| "accepts p (ProvisionalAnswer _ src) = (p = Offered (other src) \<or> p = Answering src)"
| "accepts p (Answer _ src) = (p = Offered (other src) \<or> p = Answering src)"

fun leads_to :: "('o, 'a) signal \<Rightarrow> phase \<Rightarrow> bool" where
  "leads_to (Offer _ src) p = (p = Offered src)"
| "leads_to (ProvisionalAnswer _ src) p = (p = Offered (other src) \<or> p = Answering src)"
| "leads_to (Answer _ src) p = (p = Stable)"

text \<open>Along a sequence of accepted signals: the side whose offer is open, \<open>None\<close> if none is.\<close>

fun open_offer :: "ContentSource option \<Rightarrow> ('o, 'a) signal list \<Rightarrow> ContentSource option" where
  "open_offer w [] = w"
| "open_offer w (Offer _ src # sgs) = open_offer (Some src) sgs"
| "open_offer w (ProvisionalAnswer _ _ # sgs) = open_offer w sgs"
| "open_offer w (Answer _ _ # sgs) = open_offer None sgs"

text \<open>A sequence is well ordered when an answer always meets an open offer of the other side and a new
  offer never crosses an open one.\<close>

fun well_ordered :: "ContentSource option \<Rightarrow> ('o, 'a) signal list \<Rightarrow> bool" where
  "well_ordered w [] = True"
| "well_ordered w (Offer _ src # sgs) = ((w = None \<or> w = Some src) \<and> well_ordered (Some src) sgs)"
| "well_ordered w (ProvisionalAnswer _ src # sgs) = (w = Some (other src) \<and> well_ordered w sgs)"
| "well_ordered w (Answer _ src # sgs) = (w = Some (other src) \<and> well_ordered None sgs)"

fun offerer :: "phase \<Rightarrow> ContentSource option" where
  "offerer Stable = None"
| "offerer (Offered src) = Some src"
| "offerer (Answering src) = Some (other src)"

fun deliver :: "('s \<Rightarrow> ('o, 'a) signal \<Rightarrow> bool \<times> 's) \<Rightarrow> 's \<Rightarrow> ('o, 'a) signal list \<Rightarrow>
    ('o, 'a) signal list \<times> 's" where
  "deliver handle s [] = ([], s)"
| "deliver handle s (sg # sgs) =
     (let (ok, s') = handle s sg; (acc, s'') = deliver handle s' sgs
      in (if ok then sg # acc else acc, s''))"

text \<open>A relation between what was accepted and the state that every single signal keeps.\<close>

lemma deliver_rel:
  assumes step: "\<And>acc s sg ok s'. R acc s \<Longrightarrow> handle s sg = (ok, s') \<Longrightarrow>
      R (if ok then acc @ [sg] else acc) s'"
    and start: "R acc0 s" and run: "deliver handle s sgs = (acc, s')"
  shows "R (acc0 @ acc) s'"
  using start run
proof (induction sgs arbitrary: acc0 s acc)
  case (Cons sg sgs)
  obtain ok u where h: "handle s sg = (ok, u)" by fastforce
  obtain acc' where d: "deliver handle u sgs = (acc', s')" "acc = (if ok then sg # acc' else acc')"
    using Cons.prems(2) h by (auto split: prod.splits)
  show ?case using Cons.IH [OF step [OF Cons.prems(1) h] d(1)] d(2) by auto
qed simp

text \<open>The last offer and whether the last signal is a positive answer, for a yes/no question.\<close>

fun last_offer :: "(bool, bool) signal list \<Rightarrow> bool option" where
  "last_offer [] = None"
| "last_offer (sg # sgs) = (case last_offer sgs of Some b \<Rightarrow> Some b
     | None \<Rightarrow> (case sg of Offer b _ \<Rightarrow> Some b | _ \<Rightarrow> None))"

definition answered_yes :: "(bool, bool) signal list \<Rightarrow> bool" where
  "answered_yes sgs \<longleftrightarrow> sgs \<noteq> [] \<and>
     (case last sgs of Offer _ _ \<Rightarrow> False | ProvisionalAnswer b _ \<Rightarrow> b | Answer b _ \<Rightarrow> b)"

lemma last_offer_snoc:
  "last_offer (sgs @ [sg]) = (case sg of Offer b _ \<Rightarrow> Some b | _ \<Rightarrow> last_offer sgs)"
  by (induction sgs) (auto split: signal.splits option.splits)

lemma answered_yes_snoc:
  "answered_yes (sgs @ [sg]) = (case sg of Offer _ _ \<Rightarrow> False | ProvisionalAnswer b _ \<Rightarrow> b | Answer b _ \<Rightarrow> b)"
  by (simp add: answered_yes_def)

locale offer_answer =
  fixes handle :: "'s \<Rightarrow> ('o, 'a) signal \<Rightarrow> bool \<times> 's" and phase_of :: "'s \<Rightarrow> phase"
    and inv :: "'s \<Rightarrow> bool"
  assumes accepted: "inv s \<Longrightarrow> handle s sg = (True, s') \<Longrightarrow>
      accepts (phase_of s) sg \<and> leads_to sg (phase_of s') \<and> inv s'"
    and refused: "inv s \<Longrightarrow> handle s sg = (False, s') \<Longrightarrow> phase_of s' = phase_of s \<and> inv s'"
begin

lemma accepted_offerer:
  assumes "inv s" "handle s sg = (True, s')"
  shows "well_ordered (offerer (phase_of s)) [sg] \<and>
    offerer (phase_of s') = open_offer (offerer (phase_of s)) [sg]"
  using accepted [OF assms] by (cases sg) auto

lemma well_ordered_Cons:
  "well_ordered w (sg # sgs) \<longleftrightarrow> well_ordered w [sg] \<and> well_ordered (open_offer w [sg]) sgs"
  by (cases sg) auto

lemma open_offer_Cons: "open_offer w (sg # sgs) = open_offer (open_offer w [sg]) sgs"
  by (cases sg) auto

text \<open>Whatever a filter is told, what it accepts is a well-ordered exchange, and its phase is the one
  that follows from the accepted signals alone.\<close>

lemma accepted_well_ordered:
  assumes "inv s" "deliver handle s sgs = (acc, s')"
  shows "well_ordered (offerer (phase_of s)) acc \<and>
    offerer (phase_of s') = open_offer (offerer (phase_of s)) acc \<and> inv s'"
  using assms
proof (induction sgs arbitrary: s acc)
  case (Cons sg sgs)
  obtain ok u where h: "handle s sg = (ok, u)" by fastforce
  obtain acc' where d: "deliver handle u sgs = (acc', s')" "acc = (if ok then sg # acc' else acc')"
    using Cons.prems(2) h by (auto split: prod.splits)
  show ?case
  proof (cases ok)
    case True
    with accepted_offerer [OF Cons.prems(1)] accepted [OF Cons.prems(1)] h
    have "well_ordered (offerer (phase_of s)) [sg]" "offerer (phase_of u) = open_offer (offerer (phase_of s)) [sg]"
      "inv u" by auto
    with Cons.IH [OF _ d(1)] d(2) True show ?thesis
      using well_ordered_Cons [of "offerer (phase_of s)" sg acc'] open_offer_Cons [of "offerer (phase_of s)" sg acc']
      by simp
  next
    case False
    with refused [OF Cons.prems(1)] h have "phase_of u = phase_of s" "inv u" by auto
    with Cons.IH [OF _ d(1)] d(2) False show ?thesis by auto
  qed
qed simp

end

end
