(* ===== verification/RtcpMuxFilter.thy ===== *)
theory RtcpMuxFilter
  imports OfferAnswer
begin

text \<open>
  \<^verbatim>\<open>src/session/media/rtcpmuxfilter.cc\<close>: the negotiation of RTP and RTCP on one port, and the
  recognition of RTCP packets.
\<close>

datatype mux_state = ST_INIT | ST_RECEIVEDOFFER | ST_SENTOFFER | ST_SENTPRANSWER | ST_RECEIVEDPRANSWER | ST_ACTIVE

text \<open>The order of the enumeration, which \<^verbatim>\<open>DemuxRtcp\<close> relies on.\<close>

fun mux_rank :: "mux_state \<Rightarrow> nat" where
  "mux_rank ST_INIT = 0"
| "mux_rank ST_RECEIVEDOFFER = 1"
| "mux_rank ST_SENTOFFER = 2"
| "mux_rank ST_SENTPRANSWER = 3"
| "mux_rank ST_RECEIVEDPRANSWER = 4"
| "mux_rank ST_ACTIVE = 5"

record RtcpMuxFilter =
  mux_state :: mux_state
  offer_enable :: bool

definition RtcpMuxFilter_new :: RtcpMuxFilter where
  "RtcpMuxFilter_new = \<lparr>mux_state = ST_INIT, offer_enable = False\<rparr>"

definition mux_IsActive :: "RtcpMuxFilter \<Rightarrow> bool" where
  "mux_IsActive f \<longleftrightarrow> mux_state f = ST_SENTPRANSWER \<or> mux_state f = ST_RECEIVEDPRANSWER \<or> mux_state f = ST_ACTIVE"

definition mux_ExpectOffer :: "RtcpMuxFilter \<Rightarrow> bool \<Rightarrow> ContentSource \<Rightarrow> bool" where
  "mux_ExpectOffer f enable source \<longleftrightarrow> mux_state f = ST_INIT \<or>
     mux_state f = ST_ACTIVE \<and> enable = offer_enable f \<or>
     mux_state f = ST_SENTOFFER \<and> source = CS_LOCAL \<or>
     mux_state f = ST_RECEIVEDOFFER \<and> source = CS_REMOTE"

definition mux_ExpectAnswer :: "RtcpMuxFilter \<Rightarrow> ContentSource \<Rightarrow> bool" where
  "mux_ExpectAnswer f source \<longleftrightarrow> mux_state f = ST_SENTOFFER \<and> source = CS_REMOTE \<or>
     mux_state f = ST_RECEIVEDOFFER \<and> source = CS_LOCAL \<or>
     mux_state f = ST_SENTPRANSWER \<and> source = CS_LOCAL \<or>
     mux_state f = ST_RECEIVEDPRANSWER \<and> source = CS_REMOTE"

definition mux_SetOffer :: "RtcpMuxFilter \<Rightarrow> bool \<Rightarrow> ContentSource \<Rightarrow> bool \<times> RtcpMuxFilter" where
  "mux_SetOffer f enable src =
     (if \<not> mux_ExpectOffer f enable src then (False, f)
      else (True, f\<lparr>offer_enable := enable,
                    mux_state := (if src = CS_LOCAL then ST_SENTOFFER else ST_RECEIVEDOFFER)\<rparr>))"

definition mux_SetProvisionalAnswer :: "RtcpMuxFilter \<Rightarrow> bool \<Rightarrow> ContentSource \<Rightarrow> bool \<times> RtcpMuxFilter" where
  "mux_SetProvisionalAnswer f answer_enable src =
     (if \<not> mux_ExpectAnswer f src then (False, f)
      else if offer_enable f then
        if answer_enable then
          (True, f\<lparr>mux_state := (if src = CS_REMOTE then ST_RECEIVEDPRANSWER else ST_SENTPRANSWER)\<rparr>)
        else (True, f\<lparr>mux_state := (if src = CS_REMOTE then ST_SENTOFFER else ST_RECEIVEDOFFER)\<rparr>)
      else if answer_enable then (False, f)
      else (True, f))"

definition mux_SetAnswer :: "RtcpMuxFilter \<Rightarrow> bool \<Rightarrow> ContentSource \<Rightarrow> bool \<times> RtcpMuxFilter" where
  "mux_SetAnswer f answer_enable src =
     (if \<not> mux_ExpectAnswer f src then (False, f)
      else if offer_enable f \<and> answer_enable then (True, f\<lparr>mux_state := ST_ACTIVE\<rparr>)
      else if answer_enable then (False, f)
      else (True, f\<lparr>mux_state := ST_INIT\<rparr>))"

text \<open>The packet has at least \<open>len\<close> bytes; one of fewer than two is not looked at.\<close>

definition DemuxRtcp :: "RtcpMuxFilter \<Rightarrow> byte list \<Rightarrow> int \<Rightarrow> bool" where
  "DemuxRtcp f data len =
     (if \<not> offer_enable f \<or> mux_rank (mux_state f) < mux_rank ST_SENTOFFER then False
      else let type = (if len \<ge> 2 then uint (data ! 1 AND 0x7F) else 0) in type \<ge> 64 \<and> type < 96)"

section \<open>The exchange\<close>

fun mux_handle :: "RtcpMuxFilter \<Rightarrow> (bool, bool) signal \<Rightarrow> bool \<times> RtcpMuxFilter" where
  "mux_handle f (Offer enable src) = mux_SetOffer f enable src"
| "mux_handle f (ProvisionalAnswer enable src) = mux_SetProvisionalAnswer f enable src"
| "mux_handle f (Answer enable src) = mux_SetAnswer f enable src"

fun mux_phase :: "mux_state \<Rightarrow> phase" where
  "mux_phase ST_INIT = Stable"
| "mux_phase ST_ACTIVE = Stable"
| "mux_phase ST_SENTOFFER = Offered CS_LOCAL"
| "mux_phase ST_RECEIVEDOFFER = Offered CS_REMOTE"
| "mux_phase ST_SENTPRANSWER = Answering CS_LOCAL"
| "mux_phase ST_RECEIVEDPRANSWER = Answering CS_REMOTE"

definition mux_inv :: "RtcpMuxFilter \<Rightarrow> bool" where
  "mux_inv f \<longleftrightarrow> (mux_IsActive f \<longrightarrow> offer_enable f)"

lemmas mux_defs = mux_SetOffer_def mux_SetProvisionalAnswer_def mux_SetAnswer_def mux_ExpectOffer_def
  mux_ExpectAnswer_def mux_inv_def mux_IsActive_def

interpretation mux: offer_answer mux_handle "\<lambda>f. mux_phase (mux_state f)" mux_inv
proof unfold_locales
  fix f f' :: RtcpMuxFilter and sg
  assume "mux_inv f" "mux_handle f sg = (True, f')"
  then show "accepts (mux_phase (mux_state f)) sg \<and> leads_to sg (mux_phase (mux_state f')) \<and> mux_inv f'"
    by (cases sg rule: signal_source_cases) (auto simp: mux_defs split: if_splits)
next
  fix f f' :: RtcpMuxFilter and sg
  assume "mux_inv f" "mux_handle f sg = (False, f')"
  then show "mux_phase (mux_state f') = mux_phase (mux_state f) \<and> mux_inv f'"
    by (cases sg) (auto simp: mux_defs split: if_splits)
qed

section \<open>Properties\<close>

text \<open>What the filter knows of the exchange.\<close>

definition mux_rel :: "(bool, bool) signal list \<Rightarrow> RtcpMuxFilter \<Rightarrow> bool" where
  "mux_rel acc f \<longleftrightarrow> (mux_IsActive f \<longleftrightarrow> answered_yes acc) \<and> offer_enable f = (last_offer acc = Some True)
     \<and> (mux_IsActive f \<longrightarrow> offer_enable f)"

lemma mux_rel_step:
  assumes "mux_rel acc f" "mux_handle f sg = (ok, f')"
  shows "mux_rel (if ok then acc @ [sg] else acc) f'"
  using assms
  by (cases "mux_state f"; cases sg rule: signal_source_cases)
    (auto simp: mux_rel_def mux_defs answered_yes_snoc last_offer_snoc split: if_splits)

lemma DemuxRtcp_active:
  assumes "mux_IsActive f" "offer_enable f"
  shows "DemuxRtcp f data (int (length data)) \<longleftrightarrow>
    2 \<le> length data \<and> 64 \<le> data ! 1 AND 0x7F \<and> data ! 1 AND 0x7F < 96"
proof -
  have "mux_rank ST_SENTOFFER \<le> mux_rank (mux_state f)" using assms(1) by (auto simp: mux_IsActive_def)
  then show ?thesis using assms(2) by (simp add: DemuxRtcp_def Let_def word_le_def word_less_def)
qed



text \<open>
  An active filter can be switched off again: after a new positive offer it is no longer active and,
  if the offer came from the other side, does not even recognise RTCP packets, and a negative answer puts
  it back into the initial state.
\<close>

lemma rtcp_mux_deactivates:
  "mux_state f = ST_ACTIVE \<Longrightarrow> offer_enable f \<Longrightarrow>
     \<exists>g h. mux_SetOffer f True CS_REMOTE = (True, g) \<and> \<not> mux_IsActive g \<and> \<not> DemuxRtcp g data len \<and>
       mux_SetAnswer g False CS_LOCAL = (True, h) \<and> mux_state h = ST_INIT"
  by (simp add: mux_defs DemuxRtcp_def)

end
