(* ===== verification/SrtpSession.thy ===== *)
theory SrtpSession
  imports RtpUtils TimeUtils "HOL-Library.AList"
begin

text \<open>
  The classes \<^verbatim>\<open>SrtpStat\<close> and \<^verbatim>\<open>SrtpSession\<close> of
  \<^verbatim>\<open>src/session/media/srtpfilter.cc\<close>, built with \<^verbatim>\<open>HAVE_SRTP\<close>. The library libsrtp is not part of
  the repository: what the code calls of it is the record \<open>srtp_lib\<close>, which a caller supplies with
  every call, together with the time and the contents of uninitialised variables.
\<close>

section \<open>Faults\<close>

text \<open>Where the code has undefined behaviour the result is a fault: a null pointer is followed, memory
  outside of a packet is read, the library writes behind the block of the packet, or a \<^verbatim>\<open>std::map\<close> is used whose
  comparison is not a strict weak order on its keys.\<close>

datatype srtp_fault = NullSession | OutsidePacket | BehindBlock | DisorderedKeys

section \<open>Failure statistics\<close>

datatype srtp_mode = PROTECT | UNPROTECT

datatype srtp_error = ERROR_NONE | ERROR_FAIL | ERROR_AUTH | ERROR_REPLAY

fun mode_rank :: "srtp_mode \<Rightarrow> nat" where
  "mode_rank PROTECT = 0"
| "mode_rank UNPROTECT = 1"

fun error_rank :: "srtp_error \<Rightarrow> nat" where
  "error_rank ERROR_NONE = 0"
| "error_rank ERROR_FAIL = 1"
| "error_rank ERROR_AUTH = 2"
| "error_rank ERROR_REPLAY = 3"

datatype err_status = err_status_ok | err_status_auth_fail | err_status_replay_fail | err_status_replay_old
  | err_status_other nat

record FailureKey =
  key_ssrc :: u32
  key_mode :: srtp_mode
  key_error :: srtp_error

definition FailureKey_less :: "FailureKey \<Rightarrow> FailureKey \<Rightarrow> bool" where
  "FailureKey_less a key \<longleftrightarrow> key_ssrc a < key_ssrc key \<or> mode_rank (key_mode a) < mode_rank (key_mode key) \<or>
     error_rank (key_error a) < error_rank (key_error key)"

text \<open>What \<^verbatim>\<open>std::map\<close> asks of its comparison, on the keys it holds.\<close>

definition ordered_keys :: "FailureKey list \<Rightarrow> bool" where
  "ordered_keys ks \<longleftrightarrow> list_all (\<lambda>a. list_all (\<lambda>b. \<not> (FailureKey_less a b \<and> FailureKey_less b a)) ks) ks"

record SrtpStat =
  failures :: "(FailureKey \<times> u32) list"
  signal_silent_time :: u32

definition SrtpStat_new :: SrtpStat where
  "SrtpStat_new = \<lparr>failures = [], signal_silent_time = 1000\<rparr>"

type_synonym srtp_event = "u32 \<times> srtp_mode \<times> srtp_error"

definition HandleSrtpResult :: "u32 \<Rightarrow> SrtpStat \<Rightarrow> FailureKey \<Rightarrow> srtp_fault + (SrtpStat \<times> srtp_event list)" where
  "HandleSrtpResult current_time st key =
     (if key_error key = ERROR_NONE then Inr (st, [])
      else if \<not> ordered_keys (key # map fst (failures st)) then Inl DisorderedKeys
      else
        let last_signal_time = (case map_of (failures st) key of None \<Rightarrow> 0 | Some t \<Rightarrow> t)
        in if last_signal_time = 0 \<or> TimeDiff current_time last_signal_time > sint (signal_silent_time st)
           then Inr (st\<lparr>failures := AList.update key current_time (failures st)\<rparr>,
                     [(key_ssrc key, key_mode key, key_error key)])
           else Inr (st, []))"

definition AddProtectRtpResult :: "u32 \<Rightarrow> SrtpStat \<Rightarrow> u32 \<Rightarrow> err_status \<Rightarrow> srtp_fault + (SrtpStat \<times> srtp_event list)" where
  "AddProtectRtpResult now st x result =
     HandleSrtpResult now st \<lparr>key_ssrc = x, key_mode = PROTECT,
       key_error = (case result of err_status_ok \<Rightarrow> ERROR_NONE | err_status_auth_fail \<Rightarrow> ERROR_AUTH
                    | _ \<Rightarrow> ERROR_FAIL)\<rparr>"

definition AddUnprotectRtpResult :: "u32 \<Rightarrow> SrtpStat \<Rightarrow> u32 \<Rightarrow> err_status \<Rightarrow> srtp_fault + (SrtpStat \<times> srtp_event list)" where
  "AddUnprotectRtpResult now st x result =
     HandleSrtpResult now st \<lparr>key_ssrc = x, key_mode = UNPROTECT,
       key_error = (case result of err_status_ok \<Rightarrow> ERROR_NONE | err_status_auth_fail \<Rightarrow> ERROR_AUTH
                    | err_status_replay_fail \<Rightarrow> ERROR_REPLAY | err_status_replay_old \<Rightarrow> ERROR_REPLAY
                    | err_status_other _ \<Rightarrow> ERROR_FAIL)\<rparr>"

definition AddProtectRtcpResult :: "u32 \<Rightarrow> SrtpStat \<Rightarrow> err_status \<Rightarrow> srtp_fault + (SrtpStat \<times> srtp_event list)" where
  "AddProtectRtcpResult now st result = AddProtectRtpResult now st 0 result"

definition AddUnprotectRtcpResult :: "u32 \<Rightarrow> SrtpStat \<Rightarrow> err_status \<Rightarrow> srtp_fault + (SrtpStat \<times> srtp_event list)" where
  "AddUnprotectRtcpResult now st result = AddUnprotectRtpResult now st 0 result"

section \<open>The library\<close>

record crypto_policy =
  auth_tag_len :: int

datatype ssrc_type = ssrc_any_inbound | ssrc_any_outbound

record srtp_policy =
  policy_rtp :: crypto_policy
  policy_rtcp :: crypto_policy
  policy_ssrc_type :: ssrc_type
  policy_ssrc_value :: u32
  policy_key :: "byte list"
  policy_window_size :: nat
  policy_allow_repeat_tx :: bool

text \<open>A packet function gets the context, the block of memory and the length, and returns the status and
  what has become of the three. A block that has become longer is one that was written behind: the authentication
  tag goes behind the packet, whatever the size of the block.\<close>

type_synonym 'ctx packet_function = "'ctx \<Rightarrow> byte list \<Rightarrow> int \<Rightarrow> err_status \<times> 'ctx \<times> byte list \<times> int"

record 'ctx srtp_lib =
  srtp_init :: err_status
  srtp_install_event_handler :: err_status
  crypto_policy_aes_cm_128_hmac_sha1_80 :: crypto_policy
  crypto_policy_aes_cm_128_hmac_sha1_32 :: crypto_policy
  srtp_create :: "srtp_policy \<Rightarrow> err_status \<times> 'ctx option"
  srtp_protect :: "'ctx packet_function"
  srtp_protect_rtcp :: "'ctx packet_function"
  srtp_unprotect :: "'ctx packet_function"
  srtp_unprotect_rtcp :: "'ctx packet_function"
  lib_Time :: u32
  lib_uninitialised :: int

definition lib_call :: "'ctx packet_function \<Rightarrow> 'ctx \<Rightarrow> byte list \<Rightarrow> int \<Rightarrow>
    srtp_fault + (err_status \<times> 'ctx \<times> byte list \<times> int)" where
  "lib_call g ctx p n =
     (let (err, ctx, q, out_len) = g ctx p n
      in if length p < length q then Inl BehindBlock else Inr (err, ctx, q, out_len))"

section \<open>Sessions\<close>

record 'ctx SrtpSession =
  session :: "'ctx option"
  rtp_auth_tag_len :: int
  rtcp_auth_tag_len :: int
  srtp_stat :: SrtpStat
  last_send_seq_num :: int

definition SrtpSession_new :: "'ctx SrtpSession" where
  "SrtpSession_new = \<lparr>session = None, rtp_auth_tag_len = 0, rtcp_auth_tag_len = 0, srtp_stat = SrtpStat_new,
     last_send_seq_num = -1\<rparr>"

definition CS_AES_CM_128_HMAC_SHA1_80 :: string where
  "CS_AES_CM_128_HMAC_SHA1_80 = ''AES_CM_128_HMAC_SHA1_80''"
definition CS_AES_CM_128_HMAC_SHA1_32 :: string where
  "CS_AES_CM_128_HMAC_SHA1_32 = ''AES_CM_128_HMAC_SHA1_32''"
definition SRTP_MASTER_KEY_LEN :: int where "SRTP_MASTER_KEY_LEN = 30"

text \<open>\<^verbatim>\<open>inited_\<close> is shared by all sessions: it is passed in and returned.\<close>

definition Init :: "'ctx srtp_lib \<Rightarrow> bool \<Rightarrow> bool \<times> bool" where
  "Init lib inited =
     (if \<not> inited then
        if srtp_init lib \<noteq> err_status_ok then (False, inited)
        else if srtp_install_event_handler lib \<noteq> err_status_ok then (False, inited)
        else (True, True)
      else (True, inited))"

definition rtp_policies :: "'ctx srtp_lib \<Rightarrow> string \<Rightarrow> (crypto_policy \<times> crypto_policy) option" where
  "rtp_policies lib cs =
     (if cs = CS_AES_CM_128_HMAC_SHA1_80
      then Some (crypto_policy_aes_cm_128_hmac_sha1_80 lib, crypto_policy_aes_cm_128_hmac_sha1_80 lib)
      else if cs = CS_AES_CM_128_HMAC_SHA1_32
      then Some (crypto_policy_aes_cm_128_hmac_sha1_32 lib, crypto_policy_aes_cm_128_hmac_sha1_80 lib)
      else None)"

definition SetKey :: "'ctx srtp_lib \<Rightarrow> bool \<Rightarrow> 'ctx SrtpSession \<Rightarrow> ssrc_type \<Rightarrow> string \<Rightarrow> byte list option \<Rightarrow>
    int \<Rightarrow> bool \<times> 'ctx SrtpSession \<times> bool" where
  "SetKey lib inited s type cs key len =
     (if session s \<noteq> None then (False, s, inited)
      else
        let (ok, inited) = Init lib inited
        in if \<not> ok then (False, s, inited)
           else
             case rtp_policies lib cs of
               None \<Rightarrow> (False, s, inited)
             | Some (rtp, rtcp) \<Rightarrow>
                 case key of
                   None \<Rightarrow> (False, s, inited)
                 | Some k \<Rightarrow>
                     if len \<noteq> SRTP_MASTER_KEY_LEN then (False, s, inited)
                     else
                       let (err, ctx) = srtp_create lib
                             \<lparr>policy_rtp = rtp, policy_rtcp = rtcp, policy_ssrc_type = type, policy_ssrc_value = 0,
                              policy_key = k, policy_window_size = 1024, policy_allow_repeat_tx = True\<rparr>
                       in if err \<noteq> err_status_ok then (False, s\<lparr>session := ctx\<rparr>, inited)
                          else (True, s\<lparr>session := ctx, rtp_auth_tag_len := auth_tag_len rtp,
                                        rtcp_auth_tag_len := auth_tag_len rtcp\<rparr>, inited))"

definition SetSend :: "'ctx srtp_lib \<Rightarrow> bool \<Rightarrow> 'ctx SrtpSession \<Rightarrow> string \<Rightarrow> byte list option \<Rightarrow> int \<Rightarrow>
    bool \<times> 'ctx SrtpSession \<times> bool" where
  "SetSend lib inited s cs key len = SetKey lib inited s ssrc_any_outbound cs key len"

definition SetRecv :: "'ctx srtp_lib \<Rightarrow> bool \<Rightarrow> 'ctx SrtpSession \<Rightarrow> string \<Rightarrow> byte list option \<Rightarrow> int \<Rightarrow>
    bool \<times> 'ctx SrtpSession \<times> bool" where
  "SetRecv lib inited s cs key len = SetKey lib inited s ssrc_any_inbound cs key len"

definition session_set_signal_silent_time :: "'ctx SrtpSession \<Rightarrow> u32 \<Rightarrow> 'ctx SrtpSession" where
  "session_set_signal_silent_time s t = s\<lparr>srtp_stat := (srtp_stat s)\<lparr>signal_silent_time := t\<rparr>\<rparr>"

text \<open>The result of a packet function: the boolean, the session, the block, \<^verbatim>\<open>*out_len\<close> if it was
  written, and the errors signalled.\<close>

type_synonym 'ctx packet_result =
  "srtp_fault + (bool \<times> 'ctx SrtpSession \<times> byte list \<times> int option \<times> srtp_event list)"

definition size_t :: "int \<Rightarrow> nat" where
  "size_t i = nat (i mod 2 ^ 64)"

definition with_stat :: "srtp_fault + (SrtpStat \<times> srtp_event list) \<Rightarrow>
    (SrtpStat \<Rightarrow> srtp_event list \<Rightarrow> srtp_fault + 'r) \<Rightarrow> srtp_fault + 'r" where
  "with_stat r k = (case r of Inl f \<Rightarrow> Inl f | Inr (st, evs) \<Rightarrow> k st evs)"

definition session_ProtectRtp :: "'ctx srtp_lib \<Rightarrow> 'ctx SrtpSession \<Rightarrow> byte list \<Rightarrow> int \<Rightarrow> int \<Rightarrow> 'ctx packet_result" where
  "session_ProtectRtp lib s p in_len max_len =
     (case session s of
        None \<Rightarrow> Inr (False, s, p, None, [])
      | Some ctx \<Rightarrow>
          if max_len < in_len + rtp_auth_tag_len s then Inr (False, s, p, None, [])
          else
            case lib_call (srtp_protect lib) ctx p in_len of
              Inl e \<Rightarrow> Inl e
            | Inr (err, ctx, p, out_len) \<Rightarrow>
               case GetRtpSsrc (Some p) (size_t in_len) of
                 None \<Rightarrow> Inl OutsidePacket
               | Some x \<Rightarrow>
                   with_stat (case x of None \<Rightarrow> Inr (srtp_stat s, [])
                              | Some x \<Rightarrow> AddProtectRtpResult (lib_Time lib) (srtp_stat s) x err) (\<lambda>st evs.
                   case GetRtpSeqNum (Some p) (size_t in_len) of
                     None \<Rightarrow> Inl OutsidePacket
                   | Some n \<Rightarrow>
                       let seq = (case n of None \<Rightarrow> lib_uninitialised lib | Some n \<Rightarrow> n);
                           s = s\<lparr>session := Some ctx, srtp_stat := st\<rparr>
                       in if err \<noteq> err_status_ok then Inr (False, s, p, Some out_len, evs)
                          else Inr (True, s\<lparr>last_send_seq_num := seq\<rparr>, p, Some out_len, evs)))"

definition session_ProtectRtcp :: "'ctx srtp_lib \<Rightarrow> 'ctx SrtpSession \<Rightarrow> byte list \<Rightarrow> int \<Rightarrow> int \<Rightarrow> 'ctx packet_result" where
  "session_ProtectRtcp lib s p in_len max_len =
     (case session s of
        None \<Rightarrow> Inr (False, s, p, None, [])
      | Some ctx \<Rightarrow>
          if max_len < in_len + 4 + rtcp_auth_tag_len s then Inr (False, s, p, None, [])
          else
            case lib_call (srtp_protect_rtcp lib) ctx p in_len of
              Inl e \<Rightarrow> Inl e
            | Inr (err, ctx, p, out_len) \<Rightarrow>
               with_stat (AddProtectRtcpResult (lib_Time lib) (srtp_stat s) err) (\<lambda>st evs.
                 Inr (err = err_status_ok, s\<lparr>session := Some ctx, srtp_stat := st\<rparr>, p, Some out_len, evs)))"

definition session_UnprotectRtp :: "'ctx srtp_lib \<Rightarrow> 'ctx SrtpSession \<Rightarrow> byte list \<Rightarrow> int \<Rightarrow> 'ctx packet_result" where
  "session_UnprotectRtp lib s p in_len =
     (case session s of
        None \<Rightarrow> Inr (False, s, p, None, [])
      | Some ctx \<Rightarrow>
          case lib_call (srtp_unprotect lib) ctx p in_len of
            Inl e \<Rightarrow> Inl e
          | Inr (err, ctx, p, out_len) \<Rightarrow>
             case GetRtpSsrc (Some p) (size_t in_len) of
               None \<Rightarrow> Inl OutsidePacket
             | Some x \<Rightarrow>
                 with_stat (case x of None \<Rightarrow> Inr (srtp_stat s, [])
                            | Some x \<Rightarrow> AddUnprotectRtpResult (lib_Time lib) (srtp_stat s) x err) (\<lambda>st evs.
                   Inr (err = err_status_ok, s\<lparr>session := Some ctx, srtp_stat := st\<rparr>, p, Some out_len, evs)))"

definition session_UnprotectRtcp :: "'ctx srtp_lib \<Rightarrow> 'ctx SrtpSession \<Rightarrow> byte list \<Rightarrow> int \<Rightarrow> 'ctx packet_result" where
  "session_UnprotectRtcp lib s p in_len =
     (case session s of
        None \<Rightarrow> Inr (False, s, p, None, [])
      | Some ctx \<Rightarrow>
          case lib_call (srtp_unprotect_rtcp lib) ctx p in_len of
            Inl e \<Rightarrow> Inl e
          | Inr (err, ctx, p, out_len) \<Rightarrow>
             with_stat (AddUnprotectRtcpResult (lib_Time lib) (srtp_stat s) err) (\<lambda>st evs.
               Inr (err = err_status_ok, s\<lparr>session := Some ctx, srtp_stat := st\<rparr>, p, Some out_len, evs)))"

end
