(* ===== verification/SrtpFilter.thy ===== *)
theory SrtpFilter
  imports SrtpSession OfferAnswer Base64 Transition
begin

text \<open>
  The class \<^verbatim>\<open>SrtpFilter\<close> of \<^verbatim>\<open>src/session/media/srtpfilter.cc\<close>: the negotiation of SRTP keys
  in the offer/answer exchange and the protection of packets. A session pointer is \<open>None\<close> when it is
  null; following it then is the fault \<open>NullSession\<close>. A key parameter is a string of bytes.
\<close>

section \<open>State\<close>

record CryptoParams =
  cp_tag :: int
  cipher_suite :: string
  key_params :: "byte list"
  session_params :: string

definition Matches :: "CryptoParams \<Rightarrow> CryptoParams \<Rightarrow> bool" where
  "Matches c params \<longleftrightarrow> cp_tag c = cp_tag params \<and> cipher_suite c = cipher_suite params"

datatype srtp_state = SF_INIT | SF_SENTOFFER | SF_RECEIVEDOFFER | SF_SENTPRANSWER_NO_CRYPTO
  | SF_RECEIVEDPRANSWER_NO_CRYPTO | SF_ACTIVE | SF_SENTUPDATEDOFFER | SF_RECEIVEDUPDATEDOFFER
  | SF_SENTPRANSWER | SF_RECEIVEDPRANSWER

fun srtp_rank :: "srtp_state \<Rightarrow> nat" where
  "srtp_rank SF_INIT = 0"
| "srtp_rank SF_SENTOFFER = 1"
| "srtp_rank SF_RECEIVEDOFFER = 2"
| "srtp_rank SF_SENTPRANSWER_NO_CRYPTO = 3"
| "srtp_rank SF_RECEIVEDPRANSWER_NO_CRYPTO = 4"
| "srtp_rank SF_ACTIVE = 5"
| "srtp_rank SF_SENTUPDATEDOFFER = 6"
| "srtp_rank SF_RECEIVEDUPDATEDOFFER = 7"
| "srtp_rank SF_SENTPRANSWER = 8"
| "srtp_rank SF_RECEIVEDPRANSWER = 9"

text \<open>The last field is the static \<^verbatim>\<open>SrtpSession::inited_\<close>.\<close>

record 'ctx SrtpFilter =
  srtp_state :: srtp_state
  signal_silent_time_in_ms :: u32
  offer_params :: "CryptoParams list"
  send_session :: "'ctx SrtpSession option"
  recv_session :: "'ctx SrtpSession option"
  send_rtcp_session :: "'ctx SrtpSession option"
  recv_rtcp_session :: "'ctx SrtpSession option"
  srtp_inited :: bool

definition SrtpFilter_new :: "bool \<Rightarrow> 'ctx SrtpFilter" where
  "SrtpFilter_new inited = \<lparr>srtp_state = SF_INIT, signal_silent_time_in_ms = 0, offer_params = [],
     send_session = None, recv_session = None, send_rtcp_session = None, recv_rtcp_session = None,
     srtp_inited = inited\<rparr>"

definition srtp_IsActive :: "'ctx SrtpFilter \<Rightarrow> bool" where
  "srtp_IsActive f \<longleftrightarrow> srtp_rank (srtp_state f) \<ge> srtp_rank SF_ACTIVE"

section \<open>Negotiation\<close>

definition srtp_ExpectOffer :: "'ctx SrtpFilter \<Rightarrow> ContentSource \<Rightarrow> bool" where
  "srtp_ExpectOffer f source \<longleftrightarrow> srtp_state f = SF_INIT \<or> srtp_state f = SF_ACTIVE \<or>
     srtp_state f = SF_SENTOFFER \<and> source = CS_LOCAL \<or>
     srtp_state f = SF_SENTUPDATEDOFFER \<and> source = CS_LOCAL \<or>
     srtp_state f = SF_RECEIVEDOFFER \<and> source = CS_REMOTE \<or>
     srtp_state f = SF_RECEIVEDUPDATEDOFFER \<and> source = CS_REMOTE"

definition StoreParams :: "'ctx SrtpFilter \<Rightarrow> CryptoParams list \<Rightarrow> ContentSource \<Rightarrow> bool \<times> 'ctx SrtpFilter" where
  "StoreParams f params source =
     (True, f\<lparr>offer_params := params,
              srtp_state := (if srtp_state f = SF_INIT then
                               if source = CS_LOCAL then SF_SENTOFFER else SF_RECEIVEDOFFER
                             else
                               if source = CS_LOCAL then SF_SENTUPDATEDOFFER else SF_RECEIVEDUPDATEDOFFER)\<rparr>)"

definition srtp_SetOffer :: "'ctx SrtpFilter \<Rightarrow> CryptoParams list \<Rightarrow> ContentSource \<Rightarrow> bool \<times> 'ctx SrtpFilter" where
  "srtp_SetOffer f params source =
     (if \<not> srtp_ExpectOffer f source then (False, f) else StoreParams f params source)"

definition srtp_ExpectAnswer :: "'ctx SrtpFilter \<Rightarrow> ContentSource \<Rightarrow> bool" where
  "srtp_ExpectAnswer f source \<longleftrightarrow>
     srtp_state f = SF_SENTOFFER \<and> source = CS_REMOTE \<or>
     srtp_state f = SF_RECEIVEDOFFER \<and> source = CS_LOCAL \<or>
     srtp_state f = SF_SENTUPDATEDOFFER \<and> source = CS_REMOTE \<or>
     srtp_state f = SF_RECEIVEDUPDATEDOFFER \<and> source = CS_LOCAL \<or>
     srtp_state f = SF_SENTPRANSWER_NO_CRYPTO \<and> source = CS_LOCAL \<or>
     srtp_state f = SF_SENTPRANSWER \<and> source = CS_LOCAL \<or>
     srtp_state f = SF_RECEIVEDPRANSWER_NO_CRYPTO \<and> source = CS_REMOTE \<or>
     srtp_state f = SF_RECEIVEDPRANSWER \<and> source = CS_REMOTE"

definition new_session :: "'ctx SrtpFilter \<Rightarrow> 'ctx SrtpSession" where
  "new_session f = session_set_signal_silent_time SrtpSession_new (signal_silent_time_in_ms f)"

definition CreateSrtpSessions :: "'ctx SrtpFilter \<Rightarrow> 'ctx SrtpFilter" where
  "CreateSrtpSessions f = f\<lparr>send_session := Some (new_session f), recv_session := Some (new_session f)\<rparr>"

text \<open>The first offered set of parameters that the single answer matches.\<close>

definition NegotiateParams :: "'ctx SrtpFilter \<Rightarrow> CryptoParams list \<Rightarrow> CryptoParams option" where
  "NegotiateParams f answer_params =
     (if length answer_params = 1 \<and> offer_params f \<noteq> []
      then find (\<lambda>it. Matches (answer_params ! 0) it) (offer_params f) else None)"

definition inline_prefix :: "byte list" where
  "inline_prefix = map of_char ''inline:''"

definition ParseKeyParams :: "byte list \<Rightarrow> int \<Rightarrow> byte list option" where
  "ParseKeyParams params len =
     (if take 7 params \<noteq> inline_prefix then None
      else let (ok, key_str, n) = Decode (drop 7 params) DO_STRICT
           in if \<not> ok \<or> int (length key_str) \<noteq> len then None else Some key_str)"

text \<open>Key the two sessions of the filter; they are present when this is called.\<close>

definition key_sessions :: "'ctx srtp_lib \<Rightarrow> 'ctx SrtpFilter \<Rightarrow> string \<Rightarrow> byte list option \<Rightarrow> int \<Rightarrow>
    string \<Rightarrow> byte list option \<Rightarrow> int \<Rightarrow> bool \<times> 'ctx SrtpFilter" where
  "key_sessions lib f send_cs send_key send_len recv_cs recv_key recv_len =
     (let (ok, s, inited) = SetSend lib (srtp_inited f) (the (send_session f)) send_cs send_key send_len;
          f = f\<lparr>send_session := Some s, srtp_inited := inited\<rparr>
      in if \<not> ok then (False, f)
         else
           let (ok, s, inited) = SetRecv lib (srtp_inited f) (the (recv_session f)) recv_cs recv_key recv_len
           in (ok, f\<lparr>recv_session := Some s, srtp_inited := inited\<rparr>))"

definition ApplyParams :: "'ctx srtp_lib \<Rightarrow> 'ctx SrtpFilter \<Rightarrow> CryptoParams \<Rightarrow> CryptoParams \<Rightarrow>
    bool \<times> 'ctx SrtpFilter" where
  "ApplyParams lib f send_params recv_params =
     (case ParseKeyParams (key_params send_params) SRTP_MASTER_KEY_LEN of
        None \<Rightarrow> (False, f)
      | Some send_key \<Rightarrow>
          case ParseKeyParams (key_params recv_params) SRTP_MASTER_KEY_LEN of
            None \<Rightarrow> (False, f)
          | Some recv_key \<Rightarrow>
              key_sessions lib (CreateSrtpSessions f)
                (cipher_suite send_params) (Some send_key) SRTP_MASTER_KEY_LEN
                (cipher_suite recv_params) (Some recv_key) SRTP_MASTER_KEY_LEN)"

definition ResetParams :: "'ctx SrtpFilter \<Rightarrow> bool \<times> 'ctx SrtpFilter" where
  "ResetParams f = (True, f\<lparr>offer_params := [], srtp_state := SF_INIT\<rparr>)"

definition DoSetAnswer :: "'ctx srtp_lib \<Rightarrow> 'ctx SrtpFilter \<Rightarrow> CryptoParams list \<Rightarrow> ContentSource \<Rightarrow> bool \<Rightarrow>
    bool \<times> 'ctx SrtpFilter" where
  "DoSetAnswer lib f answer_params source final =
     (if \<not> srtp_ExpectAnswer f source then (False, f)
      else if answer_params = [] then
        if final then ResetParams f
        else (True, f\<lparr>srtp_state := (if source = CS_LOCAL then SF_SENTPRANSWER_NO_CRYPTO
                                     else SF_RECEIVEDPRANSWER_NO_CRYPTO)\<rparr>)
      else
        case NegotiateParams f answer_params of
          None \<Rightarrow> (False, f)
        | Some selected_params \<Rightarrow>
            let send_params = (if source = CS_REMOTE then selected_params else answer_params ! 0);
                recv_params = (if source = CS_REMOTE then answer_params ! 0 else selected_params);
                (ok, f) = ApplyParams lib f send_params recv_params
            in if \<not> ok then (False, f)
               else if final then (True, f\<lparr>offer_params := [], srtp_state := SF_ACTIVE\<rparr>)
               else (True, f\<lparr>srtp_state := (if source = CS_LOCAL then SF_SENTPRANSWER
                                            else SF_RECEIVEDPRANSWER)\<rparr>))"

definition srtp_SetAnswer :: "'ctx srtp_lib \<Rightarrow> 'ctx SrtpFilter \<Rightarrow> CryptoParams list \<Rightarrow> ContentSource \<Rightarrow>
    bool \<times> 'ctx SrtpFilter" where
  "srtp_SetAnswer lib f answer_params source = DoSetAnswer lib f answer_params source True"

definition srtp_SetProvisionalAnswer :: "'ctx srtp_lib \<Rightarrow> 'ctx SrtpFilter \<Rightarrow> CryptoParams list \<Rightarrow>
    ContentSource \<Rightarrow> bool \<times> 'ctx SrtpFilter" where
  "srtp_SetProvisionalAnswer lib f answer_params source = DoSetAnswer lib f answer_params source False"

definition SetRtpParams :: "'ctx srtp_lib \<Rightarrow> 'ctx SrtpFilter \<Rightarrow> string \<Rightarrow> byte list option \<Rightarrow> int \<Rightarrow>
    string \<Rightarrow> byte list option \<Rightarrow> int \<Rightarrow> bool \<times> 'ctx SrtpFilter" where
  "SetRtpParams lib f send_cs send_key send_key_len recv_cs recv_key recv_key_len =
     (if srtp_state f = SF_ACTIVE then (False, f)
      else
        let (ok, f) = key_sessions lib (CreateSrtpSessions f) send_cs send_key send_key_len
              recv_cs recv_key recv_key_len
        in if \<not> ok then (False, f) else (True, f\<lparr>srtp_state := SF_ACTIVE\<rparr>))"

text \<open>Both sessions are keyed with \<^verbatim>\<open>SetRecv\<close>, and the first test looks at one pointer twice.\<close>

definition SetRtcpParams :: "'ctx srtp_lib \<Rightarrow> 'ctx SrtpFilter \<Rightarrow> string \<Rightarrow> byte list option \<Rightarrow> int \<Rightarrow>
    string \<Rightarrow> byte list option \<Rightarrow> int \<Rightarrow> bool \<times> 'ctx SrtpFilter" where
  "SetRtcpParams lib f send_cs send_key send_key_len recv_cs recv_key recv_key_len =
     (if send_rtcp_session f \<noteq> None \<or> send_rtcp_session f \<noteq> None then (False, f)
      else
        let (ok, s, inited) = SetRecv lib (srtp_inited f) (new_session f) send_cs send_key send_key_len;
            f = f\<lparr>send_rtcp_session := Some s, srtp_inited := inited\<rparr>
        in if \<not> ok then (False, f)
           else
             let (ok, s, inited) = SetRecv lib (srtp_inited f) (new_session f) recv_cs recv_key recv_key_len
             in (ok, f\<lparr>recv_rtcp_session := Some s, srtp_inited := inited\<rparr>))"

section \<open>Packets\<close>

type_synonym 'ctx filter_result =
  "srtp_fault + (bool \<times> 'ctx SrtpFilter \<times> byte list \<times> int option \<times> srtp_event list)"

definition through :: "'ctx SrtpSession option \<Rightarrow> ('ctx SrtpSession \<Rightarrow> 'ctx packet_result) \<Rightarrow>
    ('ctx SrtpSession \<Rightarrow> 'ctx SrtpFilter) \<Rightarrow> 'ctx filter_result" where
  "through s operation put =
     (case s of
        None \<Rightarrow> Inl NullSession
      | Some s \<Rightarrow> case operation s of Inl e \<Rightarrow> Inl e
                  | Inr (ok, s, p, out_len, evs) \<Rightarrow> Inr (ok, put s, p, out_len, evs))"

definition srtp_ProtectRtp :: "'ctx srtp_lib \<Rightarrow> 'ctx SrtpFilter \<Rightarrow> byte list \<Rightarrow> int \<Rightarrow> int \<Rightarrow> 'ctx filter_result" where
  "srtp_ProtectRtp lib f p in_len max_len =
     (if \<not> srtp_IsActive f then Inr (False, f, p, None, [])
      else through (send_session f) (\<lambda>s. session_ProtectRtp lib s p in_len max_len)
             (\<lambda>s. f\<lparr>send_session := Some s\<rparr>))"

definition srtp_ProtectRtcp :: "'ctx srtp_lib \<Rightarrow> 'ctx SrtpFilter \<Rightarrow> byte list \<Rightarrow> int \<Rightarrow> int \<Rightarrow> 'ctx filter_result" where
  "srtp_ProtectRtcp lib f p in_len max_len =
     (if \<not> srtp_IsActive f then Inr (False, f, p, None, [])
      else if send_rtcp_session f \<noteq> None then
        through (send_rtcp_session f) (\<lambda>s. session_ProtectRtcp lib s p in_len max_len)
          (\<lambda>s. f\<lparr>send_rtcp_session := Some s\<rparr>)
      else through (send_session f) (\<lambda>s. session_ProtectRtcp lib s p in_len max_len)
             (\<lambda>s. f\<lparr>send_session := Some s\<rparr>))"

definition srtp_UnprotectRtp :: "'ctx srtp_lib \<Rightarrow> 'ctx SrtpFilter \<Rightarrow> byte list \<Rightarrow> int \<Rightarrow> 'ctx filter_result" where
  "srtp_UnprotectRtp lib f p in_len =
     (if \<not> srtp_IsActive f then Inr (False, f, p, None, [])
      else through (recv_session f) (\<lambda>s. session_UnprotectRtp lib s p in_len)
             (\<lambda>s. f\<lparr>recv_session := Some s\<rparr>))"

definition srtp_UnprotectRtcp :: "'ctx srtp_lib \<Rightarrow> 'ctx SrtpFilter \<Rightarrow> byte list \<Rightarrow> int \<Rightarrow> 'ctx filter_result" where
  "srtp_UnprotectRtcp lib f p in_len =
     (if \<not> srtp_IsActive f then Inr (False, f, p, None, [])
      else if recv_rtcp_session f \<noteq> None then
        through (recv_rtcp_session f) (\<lambda>s. session_UnprotectRtcp lib s p in_len)
          (\<lambda>s. f\<lparr>recv_rtcp_session := Some s\<rparr>)
      else through (recv_session f) (\<lambda>s. session_UnprotectRtcp lib s p in_len)
             (\<lambda>s. f\<lparr>recv_session := Some s\<rparr>))"

definition srtp_set_signal_silent_time :: "'ctx SrtpFilter \<Rightarrow> u32 \<Rightarrow> srtp_fault + 'ctx SrtpFilter" where
  "srtp_set_signal_silent_time f t =
     (let f = f\<lparr>signal_silent_time_in_ms := t\<rparr>; upd = (\<lambda>s. session_set_signal_silent_time s t)
      in if srtp_state f = SF_ACTIVE then
           case (send_session f, recv_session f) of
             (Some s, Some r) \<Rightarrow>
               Inr (f\<lparr>send_session := Some (upd s), recv_session := Some (upd r),
                      send_rtcp_session := map_option upd (send_rtcp_session f),
                      recv_rtcp_session := map_option upd (recv_rtcp_session f)\<rparr>)
           | _ \<Rightarrow> Inl NullSession
         else Inr f)"

section \<open>The exchange\<close>

type_synonym 'ctx srtp_signal = "(CryptoParams list, 'ctx srtp_lib \<times> CryptoParams list) signal"

fun srtp_handle :: "'ctx SrtpFilter \<Rightarrow> 'ctx srtp_signal \<Rightarrow> bool \<times> 'ctx SrtpFilter" where
  "srtp_handle f (Offer params src) = srtp_SetOffer f params src"
| "srtp_handle f (ProvisionalAnswer (lib, params) src) = srtp_SetProvisionalAnswer lib f params src"
| "srtp_handle f (Answer (lib, params) src) = srtp_SetAnswer lib f params src"

fun srtp_phase :: "srtp_state \<Rightarrow> phase" where
  "srtp_phase SF_INIT = Stable"
| "srtp_phase SF_ACTIVE = Stable"
| "srtp_phase SF_SENTOFFER = Offered CS_LOCAL"
| "srtp_phase SF_SENTUPDATEDOFFER = Offered CS_LOCAL"
| "srtp_phase SF_RECEIVEDOFFER = Offered CS_REMOTE"
| "srtp_phase SF_RECEIVEDUPDATEDOFFER = Offered CS_REMOTE"
| "srtp_phase SF_SENTPRANSWER_NO_CRYPTO = Answering CS_LOCAL"
| "srtp_phase SF_SENTPRANSWER = Answering CS_LOCAL"
| "srtp_phase SF_RECEIVEDPRANSWER_NO_CRYPTO = Answering CS_REMOTE"
| "srtp_phase SF_RECEIVEDPRANSWER = Answering CS_REMOTE"

lemma key_sessions_state [simp]:
  "key_sessions lib f a b c d e g = (ok, f') \<Longrightarrow> srtp_state f' = srtp_state f \<and> offer_params f' = offer_params f"
  by (auto simp: key_sessions_def Let_def split: prod.splits if_splits)

lemma ApplyParams_state:
  "ApplyParams lib f snd_p rcv_p = (ok, f') \<Longrightarrow> srtp_state f' = srtp_state f"
  by (auto simp: ApplyParams_def CreateSrtpSessions_def split: option.splits dest: key_sessions_state)

lemma DoSetAnswer_state:
  assumes "DoSetAnswer lib f ps src final = (ok, f')"
  shows "if ok then srtp_ExpectAnswer f src \<and> srtp_phase (srtp_state f') = (if final then Stable else Answering src)
         else srtp_state f' = srtp_state f"
  using assms
  by (cases src)
    (auto simp: DoSetAnswer_def ResetParams_def Let_def split: if_splits option.splits prod.splits dest: ApplyParams_state)

lemma srtp_ExpectAnswer_phase:
  "srtp_ExpectAnswer f src \<Longrightarrow> srtp_phase (srtp_state f) = Offered (other src) \<or>
     srtp_phase (srtp_state f) = Answering src"
  by (cases src) (auto simp: srtp_ExpectAnswer_def)

interpretation srtp: offer_answer "srtp_handle :: 'ctx SrtpFilter \<Rightarrow> _" "\<lambda>f. srtp_phase (srtp_state f)" "\<lambda>_. True"
proof unfold_locales
  fix f f' :: "'ctx SrtpFilter" and sg
  assume "srtp_handle f sg = (True, f')"
  then show "accepts (srtp_phase (srtp_state f)) sg \<and> leads_to sg (srtp_phase (srtp_state f')) \<and> True"
  proof (cases sg)
    case (Offer ps src)
    then show ?thesis using \<open>srtp_handle f sg = (True, f')\<close>
      by (cases src) (auto simp: srtp_SetOffer_def StoreParams_def srtp_ExpectOffer_def split: if_splits)
  qed (auto simp: srtp_SetProvisionalAnswer_def srtp_SetAnswer_def dest!: DoSetAnswer_state srtp_ExpectAnswer_phase)
next
  fix f f' :: "'ctx SrtpFilter" and sg
  assume "srtp_handle f sg = (False, f')"
  then show "srtp_phase (srtp_state f') = srtp_phase (srtp_state f) \<and> True"
    by (cases sg) (auto simp: srtp_SetOffer_def StoreParams_def srtp_SetProvisionalAnswer_def srtp_SetAnswer_def
      dest!: DoSetAnswer_state split: if_splits)
qed

end
