(* ===== verification/SrtpSafety.thy ===== *)
theory SrtpSafety
  imports SrtpFilter
begin

text \<open>
  The SRTP filter as a transition system: which calls are defined in which states, how the two ends of an
  exchange are keyed, and what goes wrong when a first offer is repeated or errors of different sources
  are counted in one session.
\<close>

section \<open>Sessions are present when they are used\<close>

datatype 'ctx srtp_call =
    Call_signal "'ctx srtp_signal"
  | Call_SetRtpParams "'ctx srtp_lib" string "byte list option" int string "byte list option" int
  | Call_SetRtcpParams "'ctx srtp_lib" string "byte list option" int string "byte list option" int
  | Call_ProtectRtp "'ctx srtp_lib" "byte list" int int
  | Call_ProtectRtcp "'ctx srtp_lib" "byte list" int int
  | Call_UnprotectRtp "'ctx srtp_lib" "byte list" int
  | Call_UnprotectRtcp "'ctx srtp_lib" "byte list" int
  | Call_set_signal_silent_time u32

definition filter_of :: "'ctx filter_result \<Rightarrow> srtp_fault + 'ctx SrtpFilter" where
  "filter_of r = (case r of Inl e \<Rightarrow> Inl e | Inr (ok, f, p, out_len, evs) \<Rightarrow> Inr f)"

fun srtp_result :: "'ctx SrtpFilter \<Rightarrow> 'ctx srtp_call \<Rightarrow> srtp_fault + 'ctx SrtpFilter" where
  "srtp_result f (Call_signal sg) = Inr (snd (srtp_handle f sg))"
| "srtp_result f (Call_SetRtpParams lib cs k n cs' k' n') = Inr (snd (SetRtpParams lib f cs k n cs' k' n'))"
| "srtp_result f (Call_SetRtcpParams lib cs k n cs' k' n') = Inr (snd (SetRtcpParams lib f cs k n cs' k' n'))"
| "srtp_result f (Call_ProtectRtp lib p n m) = filter_of (srtp_ProtectRtp lib f p n m)"
| "srtp_result f (Call_ProtectRtcp lib p n m) = filter_of (srtp_ProtectRtcp lib f p n m)"
| "srtp_result f (Call_UnprotectRtp lib p n) = filter_of (srtp_UnprotectRtp lib f p n)"
| "srtp_result f (Call_UnprotectRtcp lib p n) = filter_of (srtp_UnprotectRtcp lib f p n)"
| "srtp_result f (Call_set_signal_silent_time t) = srtp_set_signal_silent_time f t"

definition srtp_step :: "'ctx SrtpFilter \<Rightarrow> 'ctx srtp_call \<Rightarrow> 'ctx SrtpFilter option" where
  "srtp_step f c = (case srtp_result f c of Inl e \<Rightarrow> None | Inr f' \<Rightarrow> Some f')"

text \<open>What libsrtp promises, with \<open>tags\<close> for the lengths of the authentication tags of a context, for RTP and for
  RTCP: a context is created with the tags of its policy, a failed creation leaves no context, the packet functions
  keep the block and write at most their trailer behind the packet.\<close>

definition writes_trailer :: "('ctx \<Rightarrow> int \<times> int) \<Rightarrow> ('ctx \<Rightarrow> int) \<Rightarrow> 'ctx packet_function \<Rightarrow> bool" where
  "writes_trailer tags trailer g \<longleftrightarrow>
     (\<forall>ctx p n err ctx' q n'. g ctx p n = (err, ctx', q, n') \<longrightarrow> tags ctx' = tags ctx \<and> length p \<le> length q \<and>
        int (length q) \<le> max (int (length p)) (n + trailer ctx))"

definition creates_tags :: "('ctx \<Rightarrow> int \<times> int) \<Rightarrow> 'ctx srtp_lib \<Rightarrow> bool" where
  "creates_tags tags lib \<longleftrightarrow>
     (\<forall>pol err ctx c. srtp_create lib pol = (err, ctx) \<longrightarrow> ctx = Some c \<longrightarrow> err = err_status_ok \<and>
        tags c = (auth_tag_len (policy_rtp pol), auth_tag_len (policy_rtcp pol)))"

definition lib_ok :: "('ctx \<Rightarrow> int \<times> int) \<Rightarrow> 'ctx srtp_lib \<Rightarrow> bool" where
  "lib_ok tags lib \<longleftrightarrow> creates_tags tags lib \<and>
     writes_trailer tags (\<lambda>c. fst (tags c)) (srtp_protect lib) \<and> writes_trailer tags (\<lambda>c. 4 + snd (tags c)) (srtp_protect_rtcp lib) \<and>
     writes_trailer tags (\<lambda>_. 0) (srtp_unprotect lib) \<and> writes_trailer tags (\<lambda>_. 0) (srtp_unprotect_rtcp lib)"

definition packet_fits :: "byte list \<Rightarrow> int \<Rightarrow> bool" where
  "packet_fits p n \<longleftrightarrow> 0 \<le> n \<and> n \<le> int (length p) \<and> length p < 2 ^ 64"

text \<open>What a caller has to respect: a first offer is not repeated before it is answered, packets lie in
  their blocks, and the maximal length is at most that of the block.\<close>

fun srtp_permitted :: "('ctx \<Rightarrow> int \<times> int) \<Rightarrow> 'ctx SrtpFilter \<Rightarrow> 'ctx srtp_call \<Rightarrow> bool" where
  "srtp_permitted tags f (Call_signal (Offer ps src)) = (srtp_state f \<noteq> SF_SENTOFFER \<and> srtp_state f \<noteq> SF_RECEIVEDOFFER)"
| "srtp_permitted tags f (Call_signal (ProvisionalAnswer (lib, ps) src)) = lib_ok tags lib"
| "srtp_permitted tags f (Call_signal (Answer (lib, ps) src)) = lib_ok tags lib"
| "srtp_permitted tags f (Call_SetRtpParams lib cs k n cs' k' n') = lib_ok tags lib"
| "srtp_permitted tags f (Call_SetRtcpParams lib cs k n cs' k' n') = lib_ok tags lib"
| "srtp_permitted tags f (Call_ProtectRtp lib p n m) = (lib_ok tags lib \<and> packet_fits p n \<and> m \<le> int (length p))"
| "srtp_permitted tags f (Call_ProtectRtcp lib p n m) = (lib_ok tags lib \<and> packet_fits p n \<and> m \<le> int (length p))"
| "srtp_permitted tags f (Call_UnprotectRtp lib p n) = (lib_ok tags lib \<and> packet_fits p n)"
| "srtp_permitted tags f (Call_UnprotectRtcp lib p n) = (lib_ok tags lib \<and> packet_fits p n)"
| "srtp_permitted tags f (Call_set_signal_silent_time t) = True"

definition sessions_present :: "'ctx SrtpFilter \<Rightarrow> bool" where
  "sessions_present f \<longleftrightarrow> send_session f \<noteq> None \<and> recv_session f \<noteq> None"

definition sessions :: "'ctx SrtpFilter \<Rightarrow> 'ctx SrtpSession set" where
  "sessions f = set_option (send_session f) \<union> set_option (recv_session f) \<union> set_option (send_rtcp_session f) \<union>
     set_option (recv_rtcp_session f)"

text \<open>The lengths that a session remembers are those of its context.\<close>

definition tagged :: "('ctx \<Rightarrow> int \<times> int) \<Rightarrow> 'ctx SrtpSession \<Rightarrow> bool" where
  "tagged tags s \<longleftrightarrow> (\<forall>c. session s = Some c \<longrightarrow> tags c = (rtp_auth_tag_len s, rtcp_auth_tag_len s))"

definition srtp_inv :: "('ctx \<Rightarrow> int \<times> int) \<Rightarrow> 'ctx SrtpFilter \<Rightarrow> bool" where
  "srtp_inv tags f \<longleftrightarrow> (srtp_IsActive f \<longrightarrow> sessions_present f) \<and> (\<forall>s\<in>sessions f. tagged tags s)"

lemma new_session_tagged [simp]: "tagged tags (new_session f)"
  by (simp add: tagged_def new_session_def session_set_signal_silent_time_def SrtpSession_new_def)

lemma SetKey_tagged:
  assumes "creates_tags tags lib" "tagged tags s" "SetKey lib i s type cs k n = (ok, s', i')"
  shows "tagged tags s'"
proof (cases "session s")
  case None
  have "tags c = (auth_tag_len rtp, auth_tag_len rtcp) \<and> err = err_status_ok"
    if "srtp_create lib \<lparr>policy_rtp = rtp, policy_rtcp = rtcp, policy_ssrc_type = type, policy_ssrc_value = 0,
        policy_key = key, policy_window_size = 1024, policy_allow_repeat_tx = True\<rparr> = (err, Some c)" for rtp rtcp key err c
    using assms(1) that unfolding creates_tags_def by force
  with None assms(2,3) show ?thesis
    by (fastforce simp: SetKey_def tagged_def Let_def split: if_splits option.splits prod.splits)
qed (use assms in \<open>simp add: SetKey_def\<close>)

text \<open>What keying keeps of a session holds for all sessions of the filter.\<close>

definition key_keeps :: "'ctx srtp_lib \<Rightarrow> ('ctx SrtpSession \<Rightarrow> bool) \<Rightarrow> bool" where
  "key_keeps lib P \<longleftrightarrow> (\<forall>f. P (new_session f)) \<and>
     (\<forall>i s type cs k n. P s \<longrightarrow> P (fst (snd (SetKey lib i s type cs k n))))"

lemma key_keepsD: "key_keeps lib P \<Longrightarrow> SetKey lib i s type cs k n = (ok, s', j) \<Longrightarrow> P s \<Longrightarrow> P s'"
  unfolding key_keeps_def by (metis fst_conv snd_conv)

lemma key_keeps_tagged: "creates_tags tags lib \<Longrightarrow> key_keeps lib (tagged tags)"
  unfolding key_keeps_def using SetKey_tagged by (metis new_session_tagged prod.collapse)

lemma key_sessions_keep:
  assumes "key_keeps lib P" "\<forall>s\<in>sessions f. P s" "sessions_present f"
  shows "\<forall>s\<in>sessions (snd (key_sessions lib f cs k n cs' k' n')). P s"
proof -
  obtain x y where xy: "send_session f = Some x" "recv_session f = Some y" "P x" "P y"
    using assms(2,3) by (auto simp: sessions_present_def sessions_def)
  obtain ok s i where s: "SetSend lib (srtp_inited f) x cs k n = (ok, s, i)" by (metis prod_cases3)
  obtain ok' r j where r: "SetRecv lib i y cs' k' n' = (ok', r, j)" by (metis prod_cases3)
  have "P s" "P r" using key_keepsD [OF assms(1)] s r xy(3,4) unfolding SetSend_def SetRecv_def by blast+
  then show ?thesis using assms(2) xy s r by (cases ok) (auto simp: key_sessions_def sessions_def)
qed

lemma CreateSrtpSessions_keep:
  "key_keeps lib P \<Longrightarrow> \<forall>s\<in>sessions f. P s \<Longrightarrow> \<forall>s\<in>sessions (CreateSrtpSessions f). P s"
  by (auto simp: sessions_def CreateSrtpSessions_def key_keeps_def)

lemma sessions_update [simp]:
  "sessions (f\<lparr>srtp_state := st\<rparr>) = sessions f" "sessions (f\<lparr>offer_params := ps\<rparr>) = sessions f"
  "sessions (f\<lparr>offer_params := ps, srtp_state := st\<rparr>) = sessions f" "sessions (f\<lparr>srtp_inited := i\<rparr>) = sessions f"
  by (simp_all add: sessions_def)

lemma CreateSrtpSessions_present [simp]: "sessions_present (CreateSrtpSessions f)"
  by (simp add: sessions_present_def CreateSrtpSessions_def)

lemma key_sessions_present:
  "sessions_present f \<Longrightarrow> sessions_present (snd (key_sessions lib f a b c d e g))"
  by (simp add: key_sessions_def sessions_present_def Let_def split: prod.split)

lemma ApplyParams_present:
  "fst (ApplyParams lib f a b) \<or> sessions_present f \<Longrightarrow> sessions_present (snd (ApplyParams lib f a b))"
  by (simp add: ApplyParams_def key_sessions_present split: option.splits)

lemma srtp_IsActive_states:
  "srtp_IsActive f \<longleftrightarrow> srtp_state f \<in> {SF_ACTIVE, SF_SENTUPDATEDOFFER, SF_RECEIVEDUPDATEDOFFER, SF_SENTPRANSWER,
     SF_RECEIVEDPRANSWER}"
  by (cases "srtp_state f") (simp_all add: srtp_IsActive_def)

lemma ApplyParams_keep:
  assumes "key_keeps lib P" "\<forall>s\<in>sessions f. P s"
  shows "\<forall>s\<in>sessions (snd (ApplyParams lib f a b)). P s"
  using assms key_sessions_keep [OF assms(1) CreateSrtpSessions_keep [OF assms]]
  by (simp add: ApplyParams_def split: option.split)

lemma DoSetAnswer_inv:
  assumes "srtp_inv tags f" "creates_tags tags lib"
  shows "srtp_inv tags (snd (DoSetAnswer lib f ps src final))"
proof (cases "srtp_ExpectAnswer f src \<and> ps \<noteq> [] \<and> NegotiateParams f ps \<noteq> None")
  case True
  then obtain sel where sel: "NegotiateParams f ps = Some sel" by blast
  let ?a = "if src = CS_REMOTE then sel else ps ! 0" and ?b = "if src = CS_REMOTE then ps ! 0 else sel"
  obtain ok f' where a: "ApplyParams lib f ?a ?b = (ok, f')" by fastforce
  have st: "srtp_state f' = srtp_state f" by (rule ApplyParams_state [OF a])
  have "ok \<or> sessions_present f \<Longrightarrow> sessions_present f'" using ApplyParams_present [of lib f ?a ?b] a by simp
  moreover have "\<forall>s\<in>sessions f'. tagged tags s"
    using ApplyParams_keep [OF key_keeps_tagged [OF assms(2)], of f ?a ?b] a assms(1) by (simp add: srtp_inv_def)
  ultimately show ?thesis using True sel a st assms(1)
    by (simp add: DoSetAnswer_def Let_def srtp_inv_def srtp_IsActive_states sessions_present_def)
next
  case False
  then show ?thesis using assms
    by (auto simp: DoSetAnswer_def ResetParams_def srtp_inv_def srtp_IsActive_states)
qed

lemma srtp_handle_inv:
  assumes "srtp_inv tags f" "srtp_permitted tags f (Call_signal sg)"
  shows "srtp_inv tags (snd (srtp_handle f sg))"
proof (cases sg)
  case (Offer ps src)
  then show ?thesis using assms
    by (auto simp: srtp_SetOffer_def StoreParams_def srtp_ExpectOffer_def srtp_inv_def srtp_IsActive_states
      sessions_present_def)
next
  case (ProvisionalAnswer x src)
  then show ?thesis using DoSetAnswer_inv [OF assms(1)] assms(2) by (cases x) (simp add: srtp_SetProvisionalAnswer_def lib_ok_def)
next
  case (Answer x src)
  then show ?thesis using DoSetAnswer_inv [OF assms(1)] assms(2) by (cases x) (simp add: srtp_SetAnswer_def lib_ok_def)
qed

lemma SetRtpParams_inv:
  assumes "srtp_inv tags f" "creates_tags tags lib"
  shows "srtp_inv tags (snd (SetRtpParams lib f cs k n cs' k' n'))"
proof -
  obtain ok f' where a: "key_sessions lib (CreateSrtpSessions f) cs k n cs' k' n' = (ok, f')" by fastforce
  then have "sessions_present f'" using key_sessions_present [of "CreateSrtpSessions f" lib cs k n cs' k' n'] by simp
  moreover have "\<forall>s\<in>sessions f'. tagged tags s"
    using key_sessions_keep [OF key_keeps_tagged CreateSrtpSessions_keep [OF key_keeps_tagged], OF assms(2,2), of f cs k n cs' k' n'] a assms(1)
    by (simp add: srtp_inv_def)
  ultimately show ?thesis using assms(1) a by (simp add: SetRtpParams_def srtp_inv_def sessions_present_def)
qed

lemma SetRtcpParams_inv:
  assumes "srtp_inv tags f" "creates_tags tags lib"
  shows "srtp_inv tags (snd (SetRtcpParams lib f cs k n cs' k' n'))"
proof -
  obtain ok s i where s: "SetRecv lib (srtp_inited f) (new_session f) cs k n = (ok, s, i)" by (metis prod_cases3)
  obtain ok' r j where r: "SetRecv lib i (new_session f) cs' k' n' = (ok', r, j)" by (metis prod_cases3)
  have "tagged tags s" "tagged tags r"
    using SetKey_tagged [OF assms(2) new_session_tagged] s r unfolding SetRecv_def by blast+
  moreover have "new_session (f\<lparr>send_rtcp_session := x, srtp_inited := y\<rparr>) = new_session f" for x y by (simp add: new_session_def)
  ultimately show ?thesis using assms(1) s r
    by (cases ok) (auto simp: SetRtcpParams_def srtp_inv_def sessions_present_def sessions_def srtp_IsActive_def)
qed

section \<open>Faults of the sessions\<close>

text \<open>What a packet operation of a session promises: the session stays tagged, and the only fault is that of
  the statistics, which needs an earlier failure.\<close>

definition op_ok :: "('ctx \<Rightarrow> int \<times> int) \<Rightarrow> 'ctx SrtpSession \<Rightarrow> 'ctx packet_result \<Rightarrow> bool" where
  "op_ok tags s r \<longleftrightarrow>
     (case r of
        Inl e \<Rightarrow> e = DisorderedKeys \<and> failures (srtp_stat s) \<noteq> []
      | Inr (ok, s', p, out_len, evs) \<Rightarrow> tagged tags s')"

lemma op_ok_simps:
  "op_ok tags s (Inl e) \<longleftrightarrow> e = DisorderedKeys \<and> failures (srtp_stat s) \<noteq> []"
  "op_ok tags s (Inr (ok, s', p, out_len, evs)) \<longleftrightarrow> tagged tags s'"
  by (simp_all add: op_ok_def)

lemma HandleSrtpResult_fault:
  "HandleSrtpResult now st key = Inl e \<Longrightarrow> e = DisorderedKeys \<and> failures st \<noteq> []"
  by (auto simp: HandleSrtpResult_def ordered_keys_def FailureKey_less_def Let_def split: if_splits)

lemma size_t_fits: "packet_fits p n \<Longrightarrow> size_t n = nat n \<and> nat n \<le> length p"
  by (auto simp: packet_fits_def size_t_def)

lemma stat_faults:
  "AddProtectRtpResult now st x err = Inl e \<Longrightarrow> e = DisorderedKeys \<and> failures st \<noteq> []"
  "AddUnprotectRtpResult now st x err = Inl e \<Longrightarrow> e = DisorderedKeys \<and> failures st \<noteq> []"
  "AddProtectRtcpResult now st err = Inl e \<Longrightarrow> e = DisorderedKeys \<and> failures st \<noteq> []"
  "AddUnprotectRtcpResult now st err = Inl e \<Longrightarrow> e = DisorderedKeys \<and> failures st \<noteq> []"
  by (simp_all add: AddProtectRtpResult_def AddUnprotectRtpResult_def AddProtectRtcpResult_def
    AddUnprotectRtcpResult_def HandleSrtpResult_fault)

lemma with_stat_ok:
  assumes "\<And>e. r = Inl e \<Longrightarrow> e = DisorderedKeys \<and> failures (srtp_stat s) \<noteq> []" "\<And>st evs. op_ok tags s (k st evs)"
  shows "op_ok tags s (with_stat r k)"
  using assms by (cases r) (auto simp: with_stat_def op_ok_simps)

lemma tagged_update [simp]:
  "tagged tags (s\<lparr>srtp_stat := st\<rparr>) = tagged tags s" "tagged tags (s\<lparr>last_send_seq_num := q\<rparr>) = tagged tags s"
  "tagged tags s \<Longrightarrow> session s = Some c \<Longrightarrow> tags c' = tags c \<Longrightarrow> tagged tags (s\<lparr>session := Some c'\<rparr>)"
  by (auto simp: tagged_def)

text \<open>With room for the trailer the library stays inside of the block.\<close>

lemma lib_call_ok:
  assumes "writes_trailer tags trailer g" "n + trailer ctx \<le> int (length p)"
  obtains err ctx' q n' where "lib_call g ctx p n = Inr (err, ctx', q, n')" "tags ctx' = tags ctx" "length q = length p"
proof -
  obtain err ctx' q n' where g: "g ctx p n = (err, ctx', q, n')" by (metis prod_cases4)
  then have "tags ctx' = tags ctx \<and> length p \<le> length q \<and> int (length q) \<le> max (int (length p)) (n + trailer ctx)"
    using assms(1) unfolding writes_trailer_def by blast
  then show thesis using that [of err ctx' q n'] g assms(2) by (simp add: lib_call_def)
qed

lemma packet_fields:
  assumes "packet_fits p n" "length q = length p"
  obtains x y where "GetRtpSsrc (Some q) (size_t n) = Some x" "GetRtpSeqNum (Some q) (size_t n) = Some y"
  using that size_t_fits [OF assms(1)] assms(2) rtp_fields_defined [of "size_t n" q] by auto

lemma session_ProtectRtp_ok:
  assumes "lib_ok tags lib" "packet_fits p n" "m \<le> int (length p)" "tagged tags s"
  shows "op_ok tags s (session_ProtectRtp lib s p n m)"
proof (cases "session s")
  case (Some ctx)
  show ?thesis
  proof (cases "m < n + rtp_auth_tag_len s")
    case False
    with Some assms(3,4) have "n + fst (tags ctx) \<le> int (length p)" by (simp add: tagged_def)
    with assms(1) obtain err ctx' q n' where g: "lib_call (srtp_protect lib) ctx p n = Inr (err, ctx', q, n')"
        "tags ctx' = tags ctx" "length q = length p" unfolding lib_ok_def by (blast elim: lib_call_ok)
    obtain x y where f: "GetRtpSsrc (Some q) (size_t n) = Some x" "GetRtpSeqNum (Some q) (size_t n) = Some y"
      using packet_fields [OF assms(2) g(3)] .
    have t: "tagged tags (s\<lparr>session := Some ctx'\<rparr>)" using assms(4) Some g(2) by simp
    show ?thesis using Some False g(1) f t
      by (auto simp: session_ProtectRtp_def op_ok_simps Let_def intro!: with_stat_ok split: option.splits dest: stat_faults)
  qed (use Some assms(4) in \<open>simp add: session_ProtectRtp_def op_ok_simps\<close>)
qed (use assms(4) in \<open>simp add: session_ProtectRtp_def op_ok_simps\<close>)

lemma session_ProtectRtcp_ok:
  assumes "lib_ok tags lib" "m \<le> int (length p)" "tagged tags s"
  shows "op_ok tags s (session_ProtectRtcp lib s p n m)"
proof (cases "session s")
  case (Some ctx)
  show ?thesis
  proof (cases "m < n + 4 + rtcp_auth_tag_len s")
    case False
    with Some assms(2,3) have "n + (4 + snd (tags ctx)) \<le> int (length p)" by (simp add: tagged_def)
    with assms(1) obtain err ctx' q n' where g: "lib_call (srtp_protect_rtcp lib) ctx p n = Inr (err, ctx', q, n')"
        "tags ctx' = tags ctx" unfolding lib_ok_def by (blast elim: lib_call_ok)
    have t: "tagged tags (s\<lparr>session := Some ctx'\<rparr>)" using assms(3) Some g(2) by simp
    show ?thesis using Some False g(1) t
      by (auto simp: session_ProtectRtcp_def op_ok_simps intro!: with_stat_ok dest: stat_faults)
  qed (use Some assms(3) in \<open>simp add: session_ProtectRtcp_def op_ok_simps\<close>)
qed (use assms(3) in \<open>simp add: session_ProtectRtcp_def op_ok_simps\<close>)

lemma session_UnprotectRtp_ok:
  assumes "lib_ok tags lib" "packet_fits p n" "tagged tags s"
  shows "op_ok tags s (session_UnprotectRtp lib s p n)"
proof (cases "session s")
  case (Some ctx)
  have "n + 0 \<le> int (length p)" using assms(2) by (simp add: packet_fits_def)
  with assms(1) obtain err ctx' q n' where g: "lib_call (srtp_unprotect lib) ctx p n = Inr (err, ctx', q, n')"
      "tags ctx' = tags ctx" "length q = length p" unfolding lib_ok_def by (blast elim: lib_call_ok)
  obtain x y where f: "GetRtpSsrc (Some q) (size_t n) = Some x" "GetRtpSeqNum (Some q) (size_t n) = Some y"
    using packet_fields [OF assms(2) g(3)] .
  have t: "tagged tags (s\<lparr>session := Some ctx'\<rparr>)" using assms(3) Some g(2) by simp
  show ?thesis using Some g(1) f t
    by (auto simp: session_UnprotectRtp_def op_ok_simps intro!: with_stat_ok split: option.splits dest: stat_faults)
qed (use assms(3) in \<open>simp add: session_UnprotectRtp_def op_ok_simps\<close>)

lemma session_UnprotectRtcp_ok:
  assumes "lib_ok tags lib" "packet_fits p n" "tagged tags s"
  shows "op_ok tags s (session_UnprotectRtcp lib s p n)"
proof (cases "session s")
  case (Some ctx)
  have "n + 0 \<le> int (length p)" using assms(2) by (simp add: packet_fits_def)
  with assms(1) obtain err ctx' q n' where g: "lib_call (srtp_unprotect_rtcp lib) ctx p n = Inr (err, ctx', q, n')"
      "tags ctx' = tags ctx" unfolding lib_ok_def by (blast elim: lib_call_ok)
  have t: "tagged tags (s\<lparr>session := Some ctx'\<rparr>)" using assms(3) Some g(2) by simp
  show ?thesis using Some g(1) t
    by (auto simp: session_UnprotectRtcp_def op_ok_simps intro!: with_stat_ok dest: stat_faults)
qed (use assms(3) in \<open>simp add: session_UnprotectRtcp_def op_ok_simps\<close>)

section \<open>Faults of the filter\<close>

text \<open>The same promise for a call of the filter.\<close>

definition call_ok :: "('ctx \<Rightarrow> int \<times> int) \<Rightarrow> 'ctx SrtpFilter \<Rightarrow> srtp_fault + 'ctx SrtpFilter \<Rightarrow> bool" where
  "call_ok tags f r \<longleftrightarrow>
     (case r of
        Inl e \<Rightarrow> e = DisorderedKeys \<and> (\<exists>s\<in>sessions f. failures (srtp_stat s) \<noteq> [])
      | Inr f' \<Rightarrow> srtp_inv tags f')"

lemma through_ok:
  assumes "x \<in> sessions f" "op_ok tags x (operation x)" "\<And>y. tagged tags y \<Longrightarrow> srtp_inv tags (put y)"
  shows "call_ok tags f (filter_of (through (Some x) operation put))"
  using assms by (auto simp: through_def filter_of_def op_ok_def call_ok_def split: sum.splits prod.splits)

lemma srtp_inv_sessions:
  assumes "srtp_inv tags f" "tagged tags s"
  shows "srtp_inv tags (f\<lparr>send_session := Some s\<rparr>)" "srtp_inv tags (f\<lparr>recv_session := Some s\<rparr>)"
    "srtp_inv tags (f\<lparr>send_rtcp_session := Some s\<rparr>)" "srtp_inv tags (f\<lparr>recv_rtcp_session := Some s\<rparr>)"
  using assms by (auto simp: srtp_inv_def sessions_present_def sessions_def srtp_IsActive_def)

text \<open>The session that a packet call goes to.\<close>

lemma packet_calls:
  "filter_of (srtp_ProtectRtp lib f p n m) = (if srtp_IsActive f
     then filter_of (through (send_session f) (\<lambda>s. session_ProtectRtp lib s p n m) (\<lambda>s. f\<lparr>send_session := Some s\<rparr>)) else Inr f)"
  "filter_of (srtp_UnprotectRtp lib f p n) = (if srtp_IsActive f
     then filter_of (through (recv_session f) (\<lambda>s. session_UnprotectRtp lib s p n) (\<lambda>s. f\<lparr>recv_session := Some s\<rparr>)) else Inr f)"
  "filter_of (srtp_ProtectRtcp lib f p n m) = (if srtp_IsActive f
     then if send_rtcp_session f = None
       then filter_of (through (send_session f) (\<lambda>s. session_ProtectRtcp lib s p n m) (\<lambda>s. f\<lparr>send_session := Some s\<rparr>))
       else filter_of (through (send_rtcp_session f) (\<lambda>s. session_ProtectRtcp lib s p n m) (\<lambda>s. f\<lparr>send_rtcp_session := Some s\<rparr>))
     else Inr f)"
  "filter_of (srtp_UnprotectRtcp lib f p n) = (if srtp_IsActive f
     then if recv_rtcp_session f = None
       then filter_of (through (recv_session f) (\<lambda>s. session_UnprotectRtcp lib s p n) (\<lambda>s. f\<lparr>recv_session := Some s\<rparr>))
       else filter_of (through (recv_rtcp_session f) (\<lambda>s. session_UnprotectRtcp lib s p n) (\<lambda>s. f\<lparr>recv_rtcp_session := Some s\<rparr>))
     else Inr f)"
  by (simp_all add: srtp_ProtectRtp_def srtp_ProtectRtcp_def srtp_UnprotectRtp_def srtp_UnprotectRtcp_def filter_of_def)

lemma active_sessions:
  assumes "srtp_inv tags f" "srtp_IsActive f"
  obtains s r where "send_session f = Some s" "recv_session f = Some r" "tagged tags s" "tagged tags r"
  using assms by (auto simp: srtp_inv_def sessions_present_def sessions_def)

lemma call_ok_kept: "srtp_inv tags f \<Longrightarrow> call_ok tags f (Inr f)"
  by (simp add: call_ok_def)

lemma ProtectRtp_ok:
  assumes "srtp_inv tags f" "srtp_permitted tags f (Call_ProtectRtp lib p n m)"
  shows "call_ok tags f (filter_of (srtp_ProtectRtp lib f p n m))"
proof (cases "srtp_IsActive f")
  case True
  obtain s where s: "send_session f = Some s" "tagged tags s" using active_sessions [OF assms(1) True] .
  then show ?thesis using True assms session_ProtectRtp_ok [of tags lib p n m s]
    by (auto simp: packet_calls sessions_def intro!: through_ok srtp_inv_sessions)
qed (use assms(1) in \<open>simp add: packet_calls call_ok_kept\<close>)

lemma UnprotectRtp_ok:
  assumes "srtp_inv tags f" "srtp_permitted tags f (Call_UnprotectRtp lib p n)"
  shows "call_ok tags f (filter_of (srtp_UnprotectRtp lib f p n))"
proof (cases "srtp_IsActive f")
  case True
  obtain s where s: "recv_session f = Some s" "tagged tags s" using active_sessions [OF assms(1) True] .
  then show ?thesis using True assms session_UnprotectRtp_ok [of tags lib p n s]
    by (auto simp: packet_calls sessions_def intro!: through_ok srtp_inv_sessions)
qed (use assms(1) in \<open>simp add: packet_calls call_ok_kept\<close>)

lemma ProtectRtcp_ok:
  assumes "srtp_inv tags f" "srtp_permitted tags f (Call_ProtectRtcp lib p n m)"
  shows "call_ok tags f (filter_of (srtp_ProtectRtcp lib f p n m))"
proof (cases "srtp_IsActive f")
  case True
  obtain s where s: "send_session f = Some s" "tagged tags s" using active_sessions [OF assms(1) True] .
  have op: "tagged tags x \<Longrightarrow> op_ok tags x (session_ProtectRtcp lib x p n m)" for x
    using assms(2) session_ProtectRtcp_ok by auto
  show ?thesis
  proof (cases "send_rtcp_session f")
    case (Some x)
    moreover from this assms(1) have "tagged tags x" by (simp add: srtp_inv_def sessions_def)
    ultimately show ?thesis using True assms(1) op [of x]
      by (auto simp: packet_calls sessions_def intro!: through_ok srtp_inv_sessions)
  qed (use s True assms(1) op [of s] in \<open>auto simp: packet_calls sessions_def intro!: through_ok srtp_inv_sessions\<close>)
qed (use assms(1) in \<open>simp add: packet_calls call_ok_kept\<close>)

lemma UnprotectRtcp_ok:
  assumes "srtp_inv tags f" "srtp_permitted tags f (Call_UnprotectRtcp lib p n)"
  shows "call_ok tags f (filter_of (srtp_UnprotectRtcp lib f p n))"
proof (cases "srtp_IsActive f")
  case True
  obtain s where s: "recv_session f = Some s" "tagged tags s" using active_sessions [OF assms(1) True] .
  have op: "tagged tags x \<Longrightarrow> op_ok tags x (session_UnprotectRtcp lib x p n)" for x
    using assms(2) session_UnprotectRtcp_ok by auto
  show ?thesis
  proof (cases "recv_rtcp_session f")
    case (Some x)
    moreover from this assms(1) have "tagged tags x" by (simp add: srtp_inv_def sessions_def)
    ultimately show ?thesis using True assms(1) op [of x]
      by (auto simp: packet_calls sessions_def intro!: through_ok srtp_inv_sessions)
  qed (use s True assms(1) op [of s] in \<open>auto simp: packet_calls sessions_def intro!: through_ok srtp_inv_sessions\<close>)
qed (use assms(1) in \<open>simp add: packet_calls call_ok_kept\<close>)

lemma silent_time_ok:
  assumes "srtp_inv tags f"
  shows "call_ok tags f (srtp_set_signal_silent_time f t)"
proof -
  have "tagged tags (session_set_signal_silent_time s t) = tagged tags s" for s
    by (simp add: session_set_signal_silent_time_def)
  then show ?thesis using assms
    by (auto simp: srtp_set_signal_silent_time_def call_ok_def srtp_inv_def sessions_present_def sessions_def
      srtp_IsActive_def Let_def split: option.splits)
qed

lemma srtp_call_ok:
  assumes "srtp_inv tags f" "srtp_permitted tags f c"
  shows "call_ok tags f (srtp_result f c)"
proof (cases c)
  case (Call_signal sg)
  then show ?thesis using srtp_handle_inv [OF assms(1)] assms(2) by (simp add: call_ok_def)
next
  case (Call_SetRtpParams lib cs k n cs' k' n')
  then show ?thesis using SetRtpParams_inv [OF assms(1)] assms(2) by (simp add: call_ok_def lib_ok_def)
next
  case (Call_SetRtcpParams lib cs k n cs' k' n')
  then show ?thesis using SetRtcpParams_inv [OF assms(1)] assms(2) by (simp add: call_ok_def lib_ok_def)
qed (use assms ProtectRtp_ok [OF assms(1)] ProtectRtcp_ok [OF assms(1)] UnprotectRtp_ok [OF assms(1)]
  UnprotectRtcp_ok [OF assms(1)] silent_time_ok [OF assms(1)] in simp_all)

definition srtp_start :: "'ctx SrtpFilter \<Rightarrow> bool" where
  "srtp_start f \<longleftrightarrow> f = SrtpFilter_new True \<or> f = SrtpFilter_new False"

text \<open>Up to a fault of the statistics the filter is safe.\<close>

definition srtp_proper :: "('ctx \<Rightarrow> int \<times> int) \<Rightarrow> 'ctx SrtpFilter \<Rightarrow> 'ctx srtp_call \<Rightarrow> bool" where
  "srtp_proper tags f c \<longleftrightarrow> srtp_permitted tags f c \<and> srtp_result f c \<noteq> Inl DisorderedKeys"

interpretation srtp: safe_system "srtp_start :: 'ctx SrtpFilter \<Rightarrow> bool" "srtp_proper tags" srtp_step "srtp_inv tags"
  for tags
proof unfold_locales
  show "srtp_start f \<Longrightarrow> srtp_inv tags f" for f :: "'ctx SrtpFilter"
    by (auto simp: srtp_start_def SrtpFilter_new_def srtp_inv_def srtp_IsActive_def sessions_def)
  show "\<exists>f'. srtp_step f c = Some f' \<and> srtp_inv tags f'" if "srtp_inv tags f" "srtp_proper tags f c"
    for f :: "'ctx SrtpFilter" and c
    using srtp_call_ok [OF that(1), of c] that(2) by (auto simp: srtp_step_def srtp_proper_def call_ok_def split: sum.splits)
qed

lemma reachable_proper:
  "reachable srtp_start (srtp_permitted tags) srtp_step f \<Longrightarrow> reachable srtp_start (srtp_proper tags) srtp_step f"
proof (induction rule: reachable.induct)
  case (reachable_step f c f')
  then have "srtp_proper tags f c" by (auto simp: srtp_proper_def srtp_step_def split: sum.splits)
  with reachable_step show ?case by (blast intro: reachable.reachable_step)
qed (rule reachable_init)

lemmas srtp_reachable_inv = srtp.reachable_inv [OF reachable_proper]

section \<open>Keys\<close>

lemma ParseKeyParams_iff:
  "ParseKeyParams ps n = Some k \<longleftrightarrow> ps = inline_prefix @ Encode k \<and> int (length k) = n"
proof -
  have strict: "Decode s DO_STRICT = (True, d, m) \<Longrightarrow> s = Encode d" for s d m
    using strict_loop_canonical [of s 0 "[]" d]
    by (auto simp: Decode_def DecodeFromArray_def Encode_def flag_defs split: prod.splits)
  have accepted: "Decode (Encode k) DO_STRICT = (True, k, length (Encode k))"
    using decode_loop_encoded [of 0 "Encode k" k DO_STRICT "[]"]
    by (simp add: Decode_def DecodeFromArray_def Encode_def flag_defs)
  have len: "length inline_prefix = 7" by (simp add: inline_prefix_def)
  show ?thesis
  proof
    assume "ParseKeyParams ps n = Some k"
    then have "take 7 ps = inline_prefix" "drop 7 ps = Encode k" "int (length k) = n"
      by (auto simp: ParseKeyParams_def dest: strict split: if_splits prod.splits)
    then show "ps = inline_prefix @ Encode k \<and> int (length k) = n" by (metis append_take_drop_id)
  next
    assume "ps = inline_prefix @ Encode k \<and> int (length k) = n"
    then show "ParseKeyParams ps n = Some k" using accepted len by (simp add: ParseKeyParams_def)
  qed
qed

text \<open>The policy a session is created with.\<close>

definition key_policy :: "'ctx srtp_lib \<Rightarrow> ssrc_type \<Rightarrow> string \<Rightarrow> byte list \<Rightarrow> srtp_policy" where
  "key_policy lib type cs k =
     \<lparr>policy_rtp = fst (the (rtp_policies lib cs)), policy_rtcp = snd (the (rtp_policies lib cs)),
      policy_ssrc_type = type, policy_ssrc_value = 0, policy_key = k, policy_window_size = 1024,
      policy_allow_repeat_tx = True\<rparr>"

text \<open>A session that holds the context of a key.\<close>

definition keyed :: "'ctx srtp_lib \<Rightarrow> 'ctx SrtpSession option \<Rightarrow> ssrc_type \<Rightarrow> string \<Rightarrow> byte list \<Rightarrow> bool" where
  "keyed lib s type cs k \<longleftrightarrow> rtp_policies lib cs \<noteq> None \<and>
     (\<exists>x. s = Some x \<and> session x = snd (srtp_create lib (key_policy lib type cs k)))"

lemma SetKey_keyed:
  assumes "SetKey lib i s type cs (Some k) n = (True, s', i')"
  shows "keyed lib (Some s') type cs k"
  using assms
  by (auto simp: SetKey_def keyed_def key_policy_def Let_def split: if_splits option.splits prod.splits)

lemma key_sessions_keyed:
  assumes "key_sessions lib f cs (Some k) n cs' (Some k') n' = (True, f')"
  shows "keyed lib (send_session f') ssrc_any_outbound cs k \<and> keyed lib (recv_session f') ssrc_any_inbound cs' k'"
proof -
  obtain ok s i where s: "SetSend lib (srtp_inited f) (the (send_session f)) cs (Some k) n = (ok, s, i)"
    by (metis prod_cases3)
  obtain ok' r j where r: "SetRecv lib i (the (recv_session f)) cs' (Some k') n' = (ok', r, j)"
    by (metis prod_cases3)
  have "ok \<and> ok' \<and> send_session f' = Some s \<and> recv_session f' = Some r"
    using assms s r by (cases ok) (auto simp: key_sessions_def)
  then show ?thesis using s r SetKey_keyed unfolding SetSend_def SetRecv_def by metis
qed

lemma ApplyParams_keyed:
  assumes "ApplyParams lib f a b = (True, f')"
  obtains ka kb where "key_params a = inline_prefix @ Encode ka" "key_params b = inline_prefix @ Encode kb"
    "keyed lib (send_session f') ssrc_any_outbound (cipher_suite a) ka"
    "keyed lib (recv_session f') ssrc_any_inbound (cipher_suite b) kb"
proof -
  obtain ka kb where k: "ParseKeyParams (key_params a) SRTP_MASTER_KEY_LEN = Some ka"
      "ParseKeyParams (key_params b) SRTP_MASTER_KEY_LEN = Some kb"
    using assms by (auto simp: ApplyParams_def split: option.splits)
  with assms have "key_sessions lib (CreateSrtpSessions f) (cipher_suite a) (Some ka) SRTP_MASTER_KEY_LEN
      (cipher_suite b) (Some kb) SRTP_MASTER_KEY_LEN = (True, f')" by (simp add: ApplyParams_def)
  from key_sessions_keyed [OF this] k that [of ka kb] show thesis by (simp add: ParseKeyParams_iff)
qed

lemma SetAnswer_keyed:
  assumes "srtp_SetAnswer lib f [ans] src = (True, f')"
  obtains sel ks kr where "find (Matches ans) (offer_params f) = Some sel" "srtp_state f' = SF_ACTIVE"
    "key_params (if src = CS_REMOTE then sel else ans) = inline_prefix @ Encode ks"
    "key_params (if src = CS_REMOTE then ans else sel) = inline_prefix @ Encode kr"
    "keyed lib (send_session f') ssrc_any_outbound (cipher_suite ans) ks"
    "keyed lib (recv_session f') ssrc_any_inbound (cipher_suite ans) kr"
proof -
  obtain sel where sel: "NegotiateParams f [ans] = Some sel" and exp: "srtp_ExpectAnswer f src"
    using assms by (auto simp: srtp_SetAnswer_def DoSetAnswer_def split: if_splits option.splits)
  then have find: "find (Matches ans) (offer_params f) = Some sel" by (simp add: NegotiateParams_def split: if_splits)
  then have cs: "cipher_suite sel = cipher_suite ans" by (auto simp: find_Some_iff Matches_def)
  let ?a = "if src = CS_REMOTE then sel else ans" and ?b = "if src = CS_REMOTE then ans else sel"
  obtain ok g where g: "ApplyParams lib f ?a ?b = (ok, g)" by fastforce
  then have ok: "ok" "f' = g\<lparr>offer_params := [], srtp_state := SF_ACTIVE\<rparr>"
    using assms sel exp by (auto simp: srtp_SetAnswer_def DoSetAnswer_def split: if_splits)
  from g ok(1) obtain ks kr where "key_params ?a = inline_prefix @ Encode ks" "key_params ?b = inline_prefix @ Encode kr"
    "keyed lib (send_session g) ssrc_any_outbound (cipher_suite ?a) ks"
    "keyed lib (recv_session g) ssrc_any_inbound (cipher_suite ?b) kr" by (auto elim: ApplyParams_keyed)
  with that [OF find] ok(2) cs show thesis by (auto split: if_splits)
qed

lemma Encode_inject: "Encode k = Encode k' \<Longrightarrow> k = k'"
  using decode_loop_encoded [of 0 "Encode k" k DO_LAX "[]"] decode_loop_encoded [of 0 "Encode k'" k' DO_LAX "[]"]
  by (simp add: Encode_def flag_defs)

lemma SetOffer_params: "srtp_SetOffer f ps src = (True, f') \<Longrightarrow> offer_params f' = ps"
  by (auto simp: srtp_SetOffer_def StoreParams_def split: if_splits)

section \<open>Properties\<close>

text \<open>
  C23. When an exchange completes, the two ends are keyed crosswise. Both know the same offer, the answer is
  set at the answering side as the local and at the offering side as the remote one: if both sides accept
  it, both filters are active, and each end's sending session holds the key and the cipher suite of the
  other end's receiving session; the offerer sends with the key of the offered parameters that the answer
  matches, the answerer with the key of the answer.
\<close>

theorem srtp_exchange_keys:
  assumes "srtp_SetOffer fa offer CS_LOCAL = (True, a1)" "srtp_SetOffer fb offer CS_REMOTE = (True, b1)"
    "srtp_SetAnswer libb b1 [ans] CS_LOCAL = (True, b2)" "srtp_SetAnswer liba a1 [ans] CS_REMOTE = (True, a2)"
  shows "srtp_state a2 = SF_ACTIVE \<and> srtp_state b2 = SF_ACTIVE \<and>
    (\<exists>sel k_offer k_answer. sel \<in> set offer \<and> Matches ans sel \<and>
       key_params sel = inline_prefix @ Encode k_offer \<and> key_params ans = inline_prefix @ Encode k_answer \<and>
       keyed liba (send_session a2) ssrc_any_outbound (cipher_suite ans) k_offer \<and>
       keyed libb (recv_session b2) ssrc_any_inbound (cipher_suite ans) k_offer \<and>
       keyed libb (send_session b2) ssrc_any_outbound (cipher_suite ans) k_answer \<and>
       keyed liba (recv_session a2) ssrc_any_inbound (cipher_suite ans) k_answer)"
proof -
  obtain sel ks kr where a: "find (Matches ans) offer = Some sel" "srtp_state a2 = SF_ACTIVE"
      "key_params sel = inline_prefix @ Encode ks" "key_params ans = inline_prefix @ Encode kr"
      "keyed liba (send_session a2) ssrc_any_outbound (cipher_suite ans) ks"
      "keyed liba (recv_session a2) ssrc_any_inbound (cipher_suite ans) kr"
    using SetAnswer_keyed [OF assms(4)] SetOffer_params [OF assms(1)] by (auto split: if_splits)
  obtain sel' ks' kr' where b: "find (Matches ans) offer = Some sel'" "srtp_state b2 = SF_ACTIVE"
      "key_params ans = inline_prefix @ Encode ks'" "key_params sel' = inline_prefix @ Encode kr'"
      "keyed libb (send_session b2) ssrc_any_outbound (cipher_suite ans) ks'"
      "keyed libb (recv_session b2) ssrc_any_inbound (cipher_suite ans) kr'"
    using SetAnswer_keyed [OF assms(3)] SetOffer_params [OF assms(2)] by (auto split: if_splits)
  have eq: "sel' = sel" "ks' = kr" "kr' = ks" using a b Encode_inject [of ks kr'] Encode_inject [of kr ks'] by auto
  moreover have "sel \<in> set offer" "Matches ans sel" using a(1) by (auto simp: find_Some_iff)
  ultimately show ?thesis using a b by blast
qed

text \<open>A library whose contexts are the policies and which writes tags of zeros, and parameters with a key of equal bytes.\<close>

definition grow :: "int \<Rightarrow> byte list \<Rightarrow> byte list" where
  "grow m p = p @ replicate (nat m - length p) 0"

definition example_lib :: "srtp_policy srtp_lib" where
  "example_lib = \<lparr>srtp_init = err_status_ok, srtp_install_event_handler = err_status_ok,
     crypto_policy_aes_cm_128_hmac_sha1_80 = \<lparr>auth_tag_len = 10\<rparr>,
     crypto_policy_aes_cm_128_hmac_sha1_32 = \<lparr>auth_tag_len = 4\<rparr>,
     srtp_create = (\<lambda>pol. (err_status_ok, Some pol)),
     srtp_protect = (\<lambda>ctx p n. let m = n + auth_tag_len (policy_rtp ctx) in (err_status_ok, ctx, grow m p, m)),
     srtp_protect_rtcp = (\<lambda>ctx p n. let m = n + 4 + auth_tag_len (policy_rtcp ctx) in (err_status_ok, ctx, grow m p, m)),
     srtp_unprotect = (\<lambda>ctx p n. (err_status_auth_fail, ctx, p, n)),
     srtp_unprotect_rtcp = (\<lambda>ctx p n. (err_status_ok, ctx, p, n)),
     lib_Time = 1, lib_uninitialised = 0\<rparr>"

definition example_params :: "byte \<Rightarrow> CryptoParams" where
  "example_params b = \<lparr>cp_tag = 1, cipher_suite = CS_AES_CM_128_HMAC_SHA1_80,
     key_params = inline_prefix @ Encode (replicate 30 b), session_params = []\<rparr>"

lemma example_key: "ParseKeyParams (key_params (example_params b)) SRTP_MASTER_KEY_LEN = Some (replicate 30 b)"
  by (simp add: ParseKeyParams_iff example_params_def SRTP_MASTER_KEY_LEN_def)

lemma example_SetKey:
  assumes "session s = None"
  shows "\<exists>s' i'. SetKey example_lib i s type CS_AES_CM_128_HMAC_SHA1_80 (Some k) SRTP_MASTER_KEY_LEN = (True, s', i')"
  using assms by (cases i) (auto simp: SetKey_def Init_def rtp_policies_def example_lib_def)

lemma new_session_unkeyed: "session (new_session f) = None"
  by (simp add: new_session_def session_set_signal_silent_time_def SrtpSession_new_def)

lemma example_key_sessions:
  "\<exists>g. key_sessions example_lib (CreateSrtpSessions f) CS_AES_CM_128_HMAC_SHA1_80 (Some k) SRTP_MASTER_KEY_LEN
     CS_AES_CM_128_HMAC_SHA1_80 (Some k') SRTP_MASTER_KEY_LEN = (True, g)"
proof -
  obtain s i where s: "SetSend example_lib (srtp_inited f) (new_session f) CS_AES_CM_128_HMAC_SHA1_80 (Some k)
      SRTP_MASTER_KEY_LEN = (True, s, i)"
    unfolding SetSend_def using example_SetKey new_session_unkeyed by blast
  obtain r j where r: "SetRecv example_lib i (new_session f) CS_AES_CM_128_HMAC_SHA1_80 (Some k')
      SRTP_MASTER_KEY_LEN = (True, r, j)"
    unfolding SetRecv_def using example_SetKey new_session_unkeyed by blast
  show ?thesis using s r by (simp add: key_sessions_def CreateSrtpSessions_def)
qed

lemma example_answer:
  assumes "offer_params f = [example_params 1]" "srtp_ExpectAnswer f src"
  shows "\<exists>g. srtp_SetAnswer example_lib f [example_params 2] src = (True, g)"
proof -
  have cs: "cipher_suite (example_params b) = CS_AES_CM_128_HMAC_SHA1_80" for b by (simp add: example_params_def)
  have ok: "\<exists>g. ApplyParams example_lib f (example_params b) (example_params c) = (True, g)" for b c
    using example_key_sessions [of f] by (simp add: ApplyParams_def example_key cs)
  obtain g1 g2 where "ApplyParams example_lib f (example_params 1) (example_params 2) = (True, g1)"
      "ApplyParams example_lib f (example_params 2) (example_params 1) = (True, g2)"
    using ok by blast
  moreover have "NegotiateParams f [example_params 2] = Some (example_params 1)"
    using assms(1) by (simp add: NegotiateParams_def Matches_def example_params_def)
  ultimately show ?thesis using assms(2)
    by (cases src) (simp_all add: srtp_SetAnswer_def DoSetAnswer_def)
qed

lemma first_offer:
  "\<exists>f. srtp_SetOffer (SrtpFilter_new i) ps src = (True, f) \<and> srtp_ExpectAnswer f (other src)"
  by (cases src) (simp_all add: srtp_SetOffer_def StoreParams_def SrtpFilter_new_def srtp_ExpectOffer_def
    srtp_ExpectAnswer_def)

lemma example_params_simps:
  "cipher_suite (example_params b) = CS_AES_CM_128_HMAC_SHA1_80"
  "key_params (example_params b) = inline_prefix @ Encode (replicate 30 b)"
  by (simp_all add: example_params_def)

theorem srtp_exchange_keys_witness:
  "\<exists>(a2 :: srtp_policy SrtpFilter) (b2 :: srtp_policy SrtpFilter). srtp_state a2 = SF_ACTIVE \<and> srtp_state b2 = SF_ACTIVE \<and>
     keyed example_lib (send_session a2) ssrc_any_outbound CS_AES_CM_128_HMAC_SHA1_80 (replicate 30 1) \<and>
     keyed example_lib (recv_session b2) ssrc_any_inbound CS_AES_CM_128_HMAC_SHA1_80 (replicate 30 1)"
proof -
  obtain a1 :: "srtp_policy SrtpFilter"
    where 1: "srtp_SetOffer (SrtpFilter_new False) [example_params 1] CS_LOCAL = (True, a1)"
      and e1: "srtp_ExpectAnswer a1 CS_REMOTE"
    using first_offer [of False "[example_params 1]" CS_LOCAL] unfolding other.simps by (elim exE conjE)
  obtain b1 :: "srtp_policy SrtpFilter"
    where 2: "srtp_SetOffer (SrtpFilter_new True) [example_params 1] CS_REMOTE = (True, b1)"
      and e2: "srtp_ExpectAnswer b1 CS_LOCAL"
    using first_offer [of True "[example_params 1]" CS_REMOTE] unfolding other.simps by (elim exE conjE)
  obtain a2 where 3: "srtp_SetAnswer example_lib a1 [example_params 2] CS_REMOTE = (True, a2)"
    using example_answer [OF SetOffer_params [OF 1] e1] by (elim exE)
  obtain b2 where 4: "srtp_SetAnswer example_lib b1 [example_params 2] CS_LOCAL = (True, b2)"
    using example_answer [OF SetOffer_params [OF 2] e2] by (elim exE)
  obtain sel k where s: "sel \<in> set [example_params 1]" and k: "key_params sel = inline_prefix @ Encode k"
      and keyed: "keyed example_lib (send_session a2) ssrc_any_outbound (cipher_suite (example_params 2)) k"
      "keyed example_lib (recv_session b2) ssrc_any_inbound (cipher_suite (example_params 2)) k"
      and st: "srtp_state a2 = SF_ACTIVE" "srtp_state b2 = SF_ACTIVE"
    using srtp_exchange_keys [OF 1 2 4 3] by (elim exE conjE)
  have "Encode k = Encode (replicate 30 1)" using s k by (simp only: example_params_simps set_simps
    insert_iff empty_iff simp_thms append_same_eq same_append_eq)
  then have "k = replicate 30 1" by (rule Encode_inject)
  with keyed st show ?thesis unfolding example_params_simps
    by - (rule exI [of _ a2], rule exI [of _ b2], simp)
qed


definition example_tags :: "srtp_policy \<Rightarrow> int \<times> int" where
  "example_tags pol = (auth_tag_len (policy_rtp pol), auth_tag_len (policy_rtcp pol))"

lemma example_lib_ok: "lib_ok example_tags example_lib"
proof -
  have "int (length (grow m p)) \<le> max (int (length p)) m" "length p \<le> length (grow m p)" for m p
    by (auto simp: grow_def)
  then show ?thesis
    by (auto simp: lib_ok_def creates_tags_def writes_trailer_def example_lib_def example_tags_def Let_def add.assoc
      simp del: le_max_iff_disj)
qed

lemma answer_keeps:
  assumes "key_keeps lib P" "\<forall>s\<in>sessions f. P s" "srtp_SetAnswer lib f ps src = (ok, g)"
  shows "\<forall>s\<in>sessions g. P s"
proof (cases "srtp_ExpectAnswer f src \<and> ps \<noteq> [] \<and> NegotiateParams f ps \<noteq> None")
  case True
  then obtain sel where sel: "NegotiateParams f ps = Some sel" by blast
  let ?a = "if src = CS_REMOTE then sel else ps ! 0" and ?b = "if src = CS_REMOTE then ps ! 0 else sel"
  obtain ok' h where "ApplyParams lib f ?a ?b = (ok', h)" by fastforce
  with ApplyParams_keep [OF assms(1,2), of ?a ?b] True sel assms(3) show ?thesis
    by (auto simp: srtp_SetAnswer_def DoSetAnswer_def Let_def split: if_splits)
next
  case False
  with assms(2,3) show ?thesis by (auto simp: srtp_SetAnswer_def DoSetAnswer_def ResetParams_def split: if_splits)
qed

lemma example_no_failures:
  assumes "srtp_SetOffer (SrtpFilter_new i) ps src = (True, f)" "srtp_SetAnswer lib f ps' src' = (True, g)" "s \<in> sessions g"
  shows "failures (srtp_stat s) = []"
proof -
  have "sessions f = {}" using assms(1)
    by (auto simp: srtp_SetOffer_def StoreParams_def SrtpFilter_new_def sessions_def split: if_splits)
  moreover have "key_keeps lib (\<lambda>s. failures (srtp_stat s) = [])"
    by (auto simp: key_keeps_def new_session_def session_set_signal_silent_time_def SrtpSession_new_def SrtpStat_new_def
      SetKey_def Let_def split: option.split prod.split)
  ultimately show ?thesis using answer_keeps [OF _ _ assms(2)] assms(3) by blast
qed


text \<open>
  C36. A first offer that is repeated before it is answered makes the filter active without sessions, and the
  next packet follows a null pointer.
\<close>

theorem repeated_offer_faults:
  "\<exists>f g. srtp_SetOffer (SrtpFilter_new i) ps src = (True, f) \<and> srtp_SetOffer f ps' src = (True, g) \<and>
     srtp_IsActive g \<and> srtp_ProtectRtp lib g p n m = Inl NullSession \<and>
     srtp_UnprotectRtp lib g p n = Inl NullSession"
  by (cases src) (simp_all add: srtp_SetOffer_def StoreParams_def SrtpFilter_new_def srtp_ExpectOffer_def
    srtp_IsActive_def srtp_ProtectRtp_def srtp_UnprotectRtp_def through_def)

text \<open>\<open>ordered_keys\<close> is what the standard asks for: on ordered keys the comparison is a strict weak order,
  and its equivalence is equality.\<close>

lemma ordered_keys_strict:
  assumes "ordered_keys ks" "a \<in> set ks" "b \<in> set ks" "c \<in> set ks"
  shows "FailureKey_less a b \<Longrightarrow> \<not> FailureKey_less b a"
    and "FailureKey_less a b \<Longrightarrow> FailureKey_less b c \<Longrightarrow> FailureKey_less a c"
    and "\<not> FailureKey_less a b \<Longrightarrow> \<not> FailureKey_less b a \<Longrightarrow> a = b"
proof -
  have asym: "\<not> (FailureKey_less a b \<and> FailureKey_less b a)" "\<not> (FailureKey_less b c \<and> FailureKey_less c b)"
    using assms by (auto simp: ordered_keys_def list_all_iff)
  then show "FailureKey_less a b \<Longrightarrow> \<not> FailureKey_less b a" by blast
  show "FailureKey_less a c" if ab: "FailureKey_less a b" and bc: "FailureKey_less b c"
  proof -
    have "\<not> FailureKey_less b a" "\<not> FailureKey_less c b" using ab bc asym by blast+
    then have le: "key_ssrc a \<le> key_ssrc b" "mode_rank (key_mode a) \<le> mode_rank (key_mode b)"
        "error_rank (key_error a) \<le> error_rank (key_error b)" "key_ssrc b \<le> key_ssrc c"
        "mode_rank (key_mode b) \<le> mode_rank (key_mode c)" "error_rank (key_error b) \<le> error_rank (key_error c)"
      by (simp_all add: FailureKey_less_def not_less)
    then show ?thesis using ab order_less_le_trans [of "key_ssrc a" "key_ssrc b" "key_ssrc c"]
      unfolding FailureKey_less_def by linarith
  qed
  have m: "mode_rank x = mode_rank y \<Longrightarrow> x = y" for x y by (cases x; cases y) auto
  have e: "error_rank x = error_rank y \<Longrightarrow> x = y" for x y by (cases x; cases y) auto
  show "\<not> FailureKey_less a b \<Longrightarrow> \<not> FailureKey_less b a \<Longrightarrow> a = b"
    using m [of "key_mode a" "key_mode b"] e [of "key_error a" "key_error b"]
    unfolding FailureKey_less_def by (simp add: FailureKey.equality)
qed

text \<open>
  The comparison of the failure keys is not an order: a replayed RTCP packet followed by an RTP packet
  that fails for another reason, in the same session, uses a map with two keys that are each less than the
  other.
\<close>

theorem failure_keys_disordered:
  assumes "x \<noteq> 0" "AddUnprotectRtcpResult t st err_status_replay_fail = Inr (st', evs)" "failures st = []"
  shows "AddUnprotectRtpResult t' st' x (err_status_other n) = Inl DisorderedKeys"
  using assms
  by (auto simp: AddUnprotectRtcpResult_def AddUnprotectRtpResult_def HandleSrtpResult_def ordered_keys_def
    FailureKey_less_def Let_def word_greater_zero_iff split: if_splits)

theorem failure_keys_disordered_witness:
  "AddUnprotectRtpResult 2 \<lparr>failures = [(\<lparr>key_ssrc = 0, key_mode = UNPROTECT, key_error = ERROR_REPLAY\<rparr>, 1)],
     signal_silent_time = 1000\<rparr> 7 (err_status_other 1) = Inl DisorderedKeys"
  by (rule failure_keys_disordered [where st = SrtpStat_new and t = 1
        and evs = "[(0, UNPROTECT, ERROR_REPLAY)]"])
    (simp_all add: SrtpStat_new_def AddUnprotectRtcpResult_def AddUnprotectRtpResult_def HandleSrtpResult_def
      ordered_keys_def FailureKey_less_def)

end
