(* ===== verification/PseudoTcp.thy ===== *)
theory PseudoTcp
  imports ByteBuffer FifoBuffer TimeUtils "HOL-Library.Monad_Syntax"
begin

text \<open>
  \<^verbatim>\<open>src/p2p/base/pseudotcp.cc\<close>: a TCP over an unreliable packet transport. The record
  \<open>pseudo_tcp\<close> has the members of the class. The outside world is the record \<open>tcp_env\<close>: what
  the \<open>n\<close>-th call of \<^verbatim>\<open>Now()\<close> returns, and what the transport answers to a packet after
  the calls made so far. Two ghost fields keep count: \<open>m_clock\<close>, the number of clock reads, and
  \<open>m_notify\<close>, the calls made on the \<^verbatim>\<open>IPseudoTcpNotify\<close> object, oldest first; the
  callbacks do not call back into the connection.

  An operation returns \<open>None\<close> where the C++ code accesses memory outside an object or sends
  bytes that were never written: dereferencing the end of a list, an index behind a table, a read
  behind a packet, more payload than the packet buffer holds. \<^verbatim>\<open>ASSERT\<close> has no effect, as in
  a release build.
\<close>

section \<open>Constants and types\<close>

definition PACKET_MAXIMUMS :: "u16 list" where
  "PACKET_MAXIMUMS = [65535, 32000, 17914, 8166, 4352, 2002, 1492, 1006, 508, 296, 0]"

definition MAX_PACKET :: u32 where "MAX_PACKET = 65535"
definition MIN_PACKET :: u32 where "MIN_PACKET = 296"
definition IP_HEADER_SIZE :: u32 where "IP_HEADER_SIZE = 20"
definition UDP_HEADER_SIZE :: u32 where "UDP_HEADER_SIZE = 8"
definition JINGLE_HEADER_SIZE :: u32 where "JINGLE_HEADER_SIZE = 64"
definition DEFAULT_RCV_BUF_SIZE :: u32 where "DEFAULT_RCV_BUF_SIZE = 60 * 1024"
definition DEFAULT_SND_BUF_SIZE :: u32 where "DEFAULT_SND_BUF_SIZE = 90 * 1024"
definition HEADER_SIZE :: u32 where "HEADER_SIZE = 24"
definition PACKET_OVERHEAD :: u32 where
  "PACKET_OVERHEAD = HEADER_SIZE + UDP_HEADER_SIZE + IP_HEADER_SIZE + JINGLE_HEADER_SIZE"
definition MIN_RTO :: u32 where "MIN_RTO = 250"
definition DEF_RTO :: u32 where "DEF_RTO = 3000"
definition MAX_RTO :: u32 where "MAX_RTO = 60000"
definition DEF_ACK_DELAY :: u32 where "DEF_ACK_DELAY = 100"
definition FLAG_CTL :: byte where "FLAG_CTL = 0x02"
definition FLAG_RST :: byte where "FLAG_RST = 0x04"
definition CTL_CONNECT :: byte where "CTL_CONNECT = 0"
definition TCP_OPT_EOL :: byte where "TCP_OPT_EOL = 0"
definition TCP_OPT_NOOP :: byte where "TCP_OPT_NOOP = 1"
definition TCP_OPT_MSS :: byte where "TCP_OPT_MSS = 2"
definition TCP_OPT_WND_SCALE :: byte where "TCP_OPT_WND_SCALE = 3"
definition DEFAULT_TIMEOUT :: int where "DEFAULT_TIMEOUT = 4000"
definition CLOSED_TIMEOUT :: int where "CLOSED_TIMEOUT = 60 * 1000"

datatype tcp_state = TCP_LISTEN | TCP_SYN_SENT | TCP_SYN_RECEIVED | TCP_ESTABLISHED | TCP_CLOSED
datatype tcp_shutdown = SD_NONE | SD_GRACEFUL | SD_FORCEFUL
datatype tcp_errno = E_OK | EINVAL | ENOTCONN | EWOULDBLOCK | ECONNABORTED | ECONNRESET
datatype write_result = WR_SUCCESS | WR_TOO_LARGE | WR_FAIL
datatype send_flags = sfNone | sfDelayedAck | sfImmediateAck
datatype tcp_option = OPT_NODELAY | OPT_ACKDELAY | OPT_RCVBUF | OPT_SNDBUF

datatype tcp_event = TcpWritePacket "byte list" write_result
  | OnTcpOpen | OnTcpReadable | OnTcpWriteable | OnTcpClosed tcp_errno

record tcp_env =
  env_now :: "nat \<Rightarrow> u32"
  env_write :: "tcp_event list \<Rightarrow> byte list \<Rightarrow> write_result"

record segment =
  sg_conv :: u32
  sg_seq :: u32
  sg_ack :: u32
  sg_flags :: byte
  sg_wnd :: u16
  sg_data :: "byte list"
  sg_len :: u32
  sg_tsval :: u32
  sg_tsecr :: u32

record ssegment =
  ss_seq :: u32
  ss_len :: u32
  ss_xmit :: byte
  ss_bCtrl :: bool

record rsegment =
  rs_seq :: u32
  rs_len :: u32

record pseudo_tcp =
  m_shutdown :: tcp_shutdown
  m_error :: tcp_errno
  m_state :: tcp_state
  m_conv :: u32
  m_bReadEnable :: bool
  m_bWriteEnable :: bool
  m_bOutgoing :: bool
  m_lasttraffic :: u32
  m_rlist :: "rsegment list"
  m_rbuf_len :: u32
  m_rcv_nxt :: u32
  m_rcv_wnd :: u32
  m_lastrecv :: u32
  m_rwnd_scale :: byte
  m_rbuf :: fifo_buffer
  m_slist :: "ssegment list"
  m_sbuf_len :: u32
  m_snd_nxt :: u32
  m_snd_wnd :: u32
  m_lastsend :: u32
  m_snd_una :: u32
  m_swnd_scale :: byte
  m_sbuf :: fifo_buffer
  m_mss :: u32
  m_msslevel :: u32
  m_largest :: u32
  m_mtu_advise :: u32
  m_rto_base :: u32
  m_ts_recent :: u32
  m_ts_lastack :: u32
  m_rx_rttvar :: u32
  m_rx_srtt :: u32
  m_rx_rto :: u32
  m_ssthresh :: u32
  m_cwnd :: u32
  m_dup_acks :: byte
  m_recover :: u32
  m_t_ack :: u32
  m_use_nagling :: bool
  m_ack_delay :: u32
  m_support_wnd_scale :: bool
  m_clock :: nat
  m_notify :: "tcp_event list"

section \<open>Helper functions\<close>

definition long_to_bytes :: "u32 \<Rightarrow> byte list" where
  "long_to_bytes val = SetLE32 (HostToNetwork32 val)"

definition short_to_bytes :: "u16 \<Rightarrow> byte list" where
  "short_to_bytes val = SetLE16 (HostToNetwork16 val)"

definition bytes_to_long :: "byte list \<Rightarrow> u32" where
  "bytes_to_long buf = NetworkToHost32 (GetLE32 buf)"

definition bytes_to_short :: "byte list \<Rightarrow> u16" where
  "bytes_to_short buf = NetworkToHost16 (GetLE16 buf)"

definition bound :: "u32 \<Rightarrow> u32 \<Rightarrow> u32 \<Rightarrow> u32" where
  "bound lower middle upper = min (max lower middle) upper"

text \<open>A left shift of a 32-bit integer by 32 or more is undefined.\<close>

definition shift_left :: "u32 \<Rightarrow> byte \<Rightarrow> u32 option" where
  "shift_left v n = (if n < 32 then Some (push_bit (unat n) v) else None)"

definition Now :: "tcp_env \<Rightarrow> pseudo_tcp \<Rightarrow> u32 \<times> pseudo_tcp" where
  "Now env t = (env_now env (m_clock t), t\<lparr>m_clock := m_clock t + 1\<rparr>)"

definition notify :: "pseudo_tcp \<Rightarrow> tcp_event \<Rightarrow> pseudo_tcp" where
  "notify t e = t\<lparr>m_notify := m_notify t @ [e]\<rparr>"

section \<open>Construction and options\<close>

definition PseudoTcp_new :: "tcp_env \<Rightarrow> u32 \<Rightarrow> pseudo_tcp" where
  "PseudoTcp_new env conv =
     (let now = env_now env 0;
          mss = MIN_PACKET - PACKET_OVERHEAD
      in \<lparr>m_shutdown = SD_NONE, m_error = E_OK, m_state = TCP_LISTEN, m_conv = conv,
          m_bReadEnable = True, m_bWriteEnable = False, m_bOutgoing = False,
          m_lasttraffic = now, m_rlist = [], m_rbuf_len = DEFAULT_RCV_BUF_SIZE, m_rcv_nxt = 0,
          m_rcv_wnd = DEFAULT_RCV_BUF_SIZE, m_lastrecv = now, m_rwnd_scale = 0,
          m_rbuf = FifoBuffer_new (unat DEFAULT_RCV_BUF_SIZE), m_slist = [],
          m_sbuf_len = DEFAULT_SND_BUF_SIZE, m_snd_nxt = 0, m_snd_wnd = 1, m_lastsend = now,
          m_snd_una = 0, m_swnd_scale = 0,
          m_sbuf = FifoBuffer_new (unat DEFAULT_SND_BUF_SIZE), m_mss = mss, m_msslevel = 0,
          m_largest = 0, m_mtu_advise = MAX_PACKET, m_rto_base = 0, m_ts_recent = 0,
          m_ts_lastack = 0, m_rx_rttvar = 0, m_rx_srtt = 0, m_rx_rto = DEF_RTO,
          m_ssthresh = DEFAULT_RCV_BUF_SIZE, m_cwnd = 2 * mss, m_dup_acks = 0, m_recover = 0,
          m_t_ack = 0, m_use_nagling = True, m_ack_delay = DEF_ACK_DELAY,
          m_support_wnd_scale = True, m_clock = 1, m_notify = []\<rparr>)"

text \<open>The loop that finds the scale factor of a receive window.\<close>

function scale_down :: "u32 \<Rightarrow> byte \<Rightarrow> u32 \<times> byte" where
  "scale_down new_size scale_factor =
     (if new_size > 0xFFFF then scale_down (drop_bit 1 new_size) (scale_factor + 1)
      else (new_size, scale_factor))"
  by pat_completeness auto

termination scale_down
  by (relation "measure (\<lambda>(n, _). unat n)")
    (auto simp: drop_bit_eq_div unat_div word_less_nat_alt intro!: div_less_dividend)

declare scale_down.simps [simp del]

definition resizeReceiveBuffer :: "pseudo_tcp \<Rightarrow> u32 \<Rightarrow> pseudo_tcp" where
  "resizeReceiveBuffer t new_size =
     (let (new_size, scale_factor) = scale_down new_size 0;
          new_size = push_bit (unat scale_factor) new_size;
          (result, rbuf) = SetCapacity (m_rbuf t) (unat new_size);
          t = t\<lparr>m_rbuf := rbuf, m_rbuf_len := new_size, m_rwnd_scale := scale_factor,
                m_ssthresh := new_size\<rparr>;
          available_space = GetWriteRemaining (m_rbuf t)
      in t\<lparr>m_rcv_wnd := of_nat available_space\<rparr>)"

definition resizeSendBuffer :: "pseudo_tcp \<Rightarrow> u32 \<Rightarrow> pseudo_tcp" where
  "resizeSendBuffer t new_size =
     t\<lparr>m_sbuf_len := new_size, m_sbuf := snd (SetCapacity (m_sbuf t) (unat new_size))\<rparr>"

definition GetOption :: "pseudo_tcp \<Rightarrow> tcp_option \<Rightarrow> int" where
  "GetOption t opt =
     (case opt of
        OPT_NODELAY \<Rightarrow> if m_use_nagling t then 0 else 1
      | OPT_ACKDELAY \<Rightarrow> sint (m_ack_delay t)
      | OPT_SNDBUF \<Rightarrow> sint (m_sbuf_len t)
      | OPT_RCVBUF \<Rightarrow> sint (m_rbuf_len t))"

definition SetOption :: "pseudo_tcp \<Rightarrow> tcp_option \<Rightarrow> int \<Rightarrow> pseudo_tcp" where
  "SetOption t opt value =
     (case opt of
        OPT_NODELAY \<Rightarrow> t\<lparr>m_use_nagling := (value = 0)\<rparr>
      | OPT_ACKDELAY \<Rightarrow> t\<lparr>m_ack_delay := word_of_int value\<rparr>
      | OPT_SNDBUF \<Rightarrow> resizeSendBuffer t (word_of_int value)
      | OPT_RCVBUF \<Rightarrow> resizeReceiveBuffer t (word_of_int value))"

definition disableWindowScale :: "pseudo_tcp \<Rightarrow> pseudo_tcp" where
  "disableWindowScale t = t\<lparr>m_support_wnd_scale := False\<rparr>"

definition isReceiveBufferFull :: "pseudo_tcp \<Rightarrow> bool" where
  "isReceiveBufferFull t = (GetWriteRemaining (m_rbuf t) = 0)"

definition GetCongestionWindow :: "pseudo_tcp \<Rightarrow> u32" where
  "GetCongestionWindow t = m_cwnd t"

definition GetBytesInFlight :: "pseudo_tcp \<Rightarrow> u32" where
  "GetBytesInFlight t = m_snd_nxt t - m_snd_una t"

definition GetBytesBufferedNotSent :: "pseudo_tcp \<Rightarrow> u32" where
  "GetBytesBufferedNotSent t = m_snd_una t + of_nat (GetBuffered (m_sbuf t)) - m_snd_nxt t"

definition GetRoundTripTimeEstimateMs :: "pseudo_tcp \<Rightarrow> u32" where
  "GetRoundTripTimeEstimateMs t = m_rx_srtt t"

definition GetError :: "pseudo_tcp \<Rightarrow> tcp_errno" where
  "GetError t = m_error t"

definition tcp_Close :: "pseudo_tcp \<Rightarrow> bool \<Rightarrow> pseudo_tcp" where
  "tcp_Close t force = t\<lparr>m_shutdown := (if force then SD_FORCEFUL else SD_GRACEFUL)\<rparr>"

definition closedown :: "pseudo_tcp \<Rightarrow> tcp_errno \<Rightarrow> pseudo_tcp" where
  "closedown t err = notify (t\<lparr>m_state := TCP_CLOSED\<rparr>) (OnTcpClosed err)"

text \<open>The search for the current level in \<open>PACKET_MAXIMUMS\<close>.\<close>

function mss_level :: "nat \<Rightarrow> u32 \<Rightarrow> nat" where
  "mss_level level mtu =
     (if level + 1 < length PACKET_MAXIMUMS \<and> PACKET_MAXIMUMS ! (level + 1) > 0 \<and>
         \<not> ucast (PACKET_MAXIMUMS ! level) \<le> mtu
      then mss_level (level + 1) mtu else level)"
  by pat_completeness auto

termination mss_level
  by (relation "measure (\<lambda>(l, _). length PACKET_MAXIMUMS - l)") auto

declare mss_level.simps [simp del]

definition adjustMTU :: "pseudo_tcp \<Rightarrow> pseudo_tcp" where
  "adjustMTU t =
     (let mss = m_mtu_advise t - PACKET_OVERHEAD
      in t\<lparr>m_msslevel := of_nat (mss_level 0 (m_mtu_advise t)), m_mss := mss,
           m_ssthresh := max (m_ssthresh t) (2 * mss), m_cwnd := max (m_cwnd t) mss\<rparr>)"

definition NotifyMTU :: "pseudo_tcp \<Rightarrow> u16 \<Rightarrow> pseudo_tcp" where
  "NotifyMTU t mtu =
     (let t = t\<lparr>m_mtu_advise := ucast mtu\<rparr>
      in if m_state t = TCP_ESTABLISHED then adjustMTU t else t)"

section \<open>Sending\<close>

definition queue :: "pseudo_tcp \<Rightarrow> byte list \<Rightarrow> bool \<Rightarrow> u32 \<times> pseudo_tcp" where
  "queue t data bCtrl =
     (let available_space = GetWriteRemaining (m_sbuf t);
          len = of_nat (length data) :: u32;
          len = (if len > of_nat available_space then of_nat available_space else len);
          slist = m_slist t;
          t = (if slist \<noteq> [] \<and> ss_bCtrl (last slist) = bCtrl \<and> ss_xmit (last slist) = 0
               then t\<lparr>m_slist := butlast slist @ [(last slist)\<lparr>ss_len := ss_len (last slist) + len\<rparr>]\<rparr>
               else t\<lparr>m_slist := slist @ [\<lparr>ss_seq = m_snd_una t + of_nat (GetBuffered (m_sbuf t)),
                        ss_len = len, ss_xmit = 0, ss_bCtrl = bCtrl\<rparr>]\<rparr>);
          (result, written, sbuf) = fifo_Write (m_sbuf t) (take (unat len) data)
      in (of_nat written, t\<lparr>m_sbuf := sbuf\<rparr>))"

definition queueConnectMessage :: "pseudo_tcp \<Rightarrow> pseudo_tcp" where
  "queueConnectMessage t =
     (let buf = ByteBuffer_new ORDER_NETWORK;
          buf = WriteUInt8 buf CTL_CONNECT;
          buf = (if m_support_wnd_scale t
                 then WriteUInt8 (WriteUInt8 (WriteUInt8 buf TCP_OPT_WND_SCALE) 1) (m_rwnd_scale t)
                 else buf);
          t = t\<lparr>m_snd_wnd := of_nat (Length buf)\<rparr>
      in snd (queue t (Data buf) True))"

text \<open>The 24 bytes in front of the payload.\<close>

definition packet_header :: "pseudo_tcp \<Rightarrow> u32 \<Rightarrow> byte \<Rightarrow> u32 \<Rightarrow> byte list" where
  "packet_header t seq flags now =
     long_to_bytes (m_conv t) @ long_to_bytes seq @ long_to_bytes (m_rcv_nxt t) @ [0, flags] @
     short_to_bytes (ucast (drop_bit (unat (m_rwnd_scale t)) (m_rcv_wnd t))) @
     long_to_bytes now @ long_to_bytes (m_ts_recent t)"

text \<open>\<open>None\<close>: the payload overruns the packet buffer, or the send buffer does not hold it.\<close>

definition packet_payload :: "pseudo_tcp \<Rightarrow> u32 \<Rightarrow> u32 \<Rightarrow> byte list option" where
  "packet_payload t offset len =
     (if len = 0 then Some []
      else if unat HEADER_SIZE + unat len > unat MAX_PACKET then None
      else let (result, out) = ReadOffset (m_sbuf t) (unat len) (unat offset)
           in if length out = unat len then Some out else None)"

definition packet :: "tcp_env \<Rightarrow> pseudo_tcp \<Rightarrow> u32 \<Rightarrow> byte \<Rightarrow> u32 \<Rightarrow> u32 \<Rightarrow>
    (write_result \<times> pseudo_tcp) option" where
  "packet env t seq flags offset len =
     (let (now, t) = Now env t;
          header = packet_header t seq flags now;
          t = t\<lparr>m_ts_lastack := m_rcv_nxt t\<rparr>
      in do {
        payload \<leftarrow> packet_payload t offset len;
        let buffer = header @ payload;
        let wres = env_write env (m_notify t) buffer;
        let t = notify t (TcpWritePacket buffer wres);
        if wres \<noteq> WR_SUCCESS \<and> len \<noteq> 0 then Some (wres, t)
        else Some (WR_SUCCESS, t\<lparr>m_t_ack := 0, m_lastsend := (if len > 0 then now else m_lastsend t),
                                 m_lasttraffic := now, m_bOutgoing := True\<rparr>) })"

text \<open>The inner loop of \<^verbatim>\<open>transmit\<close>: the next lower packet size, until it is below the
  payload that was too large; \<open>False\<close> at the end of the table.\<close>

function reduce_mss :: "pseudo_tcp \<Rightarrow> u32 \<Rightarrow> (bool \<times> u32 \<times> pseudo_tcp) option" where
  "reduce_mss t nTransmit =
     (let level = unat (m_msslevel t) + 1 in
      if level \<ge> length PACKET_MAXIMUMS then None
      else if PACKET_MAXIMUMS ! level = 0 then Some (False, nTransmit, t)
      else
        let mss = ucast (PACKET_MAXIMUMS ! level) - PACKET_OVERHEAD;
            t = t\<lparr>m_msslevel := m_msslevel t + 1, m_mss := mss, m_cwnd := 2 * mss\<rparr>
        in if mss < nTransmit then Some (True, mss, t) else reduce_mss t nTransmit)"
  by pat_completeness auto

lemma msslevel_step:
  assumes "\<not> length PACKET_MAXIMUMS \<le> unat (w :: u32) + 1"
  shows "unat (w + 1) = unat w + 1"
  using assms by (simp add: PACKET_MAXIMUMS_def unat_add_small)

termination reduce_mss
  by (relation "measure (\<lambda>(t, _). length PACKET_MAXIMUMS - unat (m_msslevel t))")
    (auto simp: msslevel_step)

declare reduce_mss.simps [simp del]

lemma reduce_mss_level:
  "reduce_mss t n = Some (True, n', t') \<Longrightarrow>
    unat (m_msslevel t) < unat (m_msslevel t') \<and> unat (m_msslevel t') < length PACKET_MAXIMUMS"
proof (induction t n rule: reduce_mss.induct)
  case (1 t n)
  let ?t = "\<lambda>mss. t\<lparr>m_msslevel := m_msslevel t + 1, m_mss := mss, m_cwnd := 2 * mss\<rparr>"
  from "1.prems" have lev: "\<not> length PACKET_MAXIMUMS \<le> unat (m_msslevel t) + 1"
    "PACKET_MAXIMUMS ! (unat (m_msslevel t) + 1) \<noteq> 0"
    by (auto simp: reduce_mss.simps [of t] Let_def split: if_splits)
  show ?case
    using "1.prems" "1.IH" [OF refl lev(1) lev(2) refl refl] lev msslevel_step [OF lev(1)]
    by (auto simp: reduce_mss.simps [of t] Let_def split: if_splits)
qed

text \<open>The parts of the state that the invariants speak of. Most steps change only one of
  them.\<close>

definition snd_core where
  "snd_core t = (m_slist t, m_sbuf t, m_snd_una t, m_snd_nxt t, m_dup_acks t, m_recover t)"

definition rcv_core where
  "rcv_core t = (m_rlist t, m_rbuf t, m_rcv_nxt t, m_rwnd_scale t, m_shutdown t, m_conv t)"

definition mss_core where
  "mss_core t = (m_mss t, m_msslevel t)"

definition misc_core where
  "misc_core t = (m_state t, m_ssthresh t, m_mtu_advise t, m_swnd_scale t)"

lemmas core_defs = snd_core_def rcv_core_def mss_core_def misc_core_def

lemma packet_core:
  assumes "packet env t seq flags offset len = Some (wres, t')"
  shows "snd_core t' = snd_core t \<and> rcv_core t' = rcv_core t \<and> mss_core t' = mss_core t \<and>
    misc_core t' = misc_core t"
  using assms
  by (auto simp: packet_def Now_def notify_def Let_def core_defs split: bind_splits if_splits)

lemma packet_msslevel: "packet env t seq flags offset len = Some (wres, t') \<Longrightarrow>
    m_msslevel t' = m_msslevel t"
  by (drule packet_core) (simp add: core_defs)

text \<open>The outer loop of \<^verbatim>\<open>transmit\<close>; the result tells whether a packet was sent and with
  how much payload.\<close>

function transmit_loop :: "tcp_env \<Rightarrow> pseudo_tcp \<Rightarrow> ssegment \<Rightarrow> u32 \<Rightarrow>
    (bool \<times> u32 \<times> pseudo_tcp) option" where
  "transmit_loop env t seg nTransmit =
     (case packet env t (ss_seq seg) (if ss_bCtrl seg then FLAG_CTL else 0)
             (ss_seq seg - m_snd_una t) nTransmit of
        None \<Rightarrow> None
      | Some (WR_SUCCESS, t) \<Rightarrow> Some (True, nTransmit, t)
      | Some (WR_FAIL, t) \<Rightarrow> Some (False, nTransmit, t)
      | Some (WR_TOO_LARGE, t) \<Rightarrow>
          (case reduce_mss t nTransmit of
             None \<Rightarrow> None
           | Some (False, nTransmit, t) \<Rightarrow> Some (False, nTransmit, t)
           | Some (True, nTransmit, t) \<Rightarrow> transmit_loop env t seg nTransmit))"
  by pat_completeness auto

termination transmit_loop
  by (relation "measure (\<lambda>(_, t, _, _). length PACKET_MAXIMUMS - unat (m_msslevel t))")
    (auto dest!: packet_msslevel reduce_mss_level)

declare transmit_loop.simps [simp del]

text \<open>The list positions that the code holds as iterators are indices. Where less was sent than
  the segment holds, the segment is split in two.\<close>

definition split_segment :: "ssegment list \<Rightarrow> nat \<Rightarrow> u32 \<Rightarrow> byte \<Rightarrow> ssegment list" where
  "split_segment slist i n xmit =
     (let seg = slist ! i;
          subseg = \<lparr>ss_seq = ss_seq seg + n, ss_len = ss_len seg - n, ss_xmit = xmit,
                    ss_bCtrl = ss_bCtrl seg\<rparr>
      in if n < ss_len seg
         then take i slist @ [seg\<lparr>ss_len := n\<rparr>, subseg] @ drop (Suc i) slist else slist)"

definition transmit :: "tcp_env \<Rightarrow> pseudo_tcp \<Rightarrow> nat \<Rightarrow> u32 \<Rightarrow> (bool \<times> pseudo_tcp) option" where
  "transmit env t i now =
     (if i \<ge> length (m_slist t) then None
      else
        let seg = m_slist t ! i in
        if ss_xmit seg \<ge> (if m_state t = TCP_ESTABLISHED then 15 else 30) then Some (False, t)
        else
          case transmit_loop env t seg (min (ss_len seg) (m_mss t)) of
            None \<Rightarrow> None
          | Some (ok, nTransmit, t) \<Rightarrow>
              if \<not> ok then Some (False, t)
              else
                let slist = split_segment (m_slist t) i nTransmit (ss_xmit seg);
                    seg = slist ! i;
                    t = t\<lparr>m_slist := slist[i := seg\<lparr>ss_xmit := ss_xmit seg + 1\<rparr>],
                          m_snd_nxt := (if ss_xmit seg = 0 then m_snd_nxt t + ss_len seg
                                        else m_snd_nxt t),
                          m_rto_base := (if m_rto_base t = 0 then now else m_rto_base t)\<rparr>
                in Some (True, t))"

text \<open>How much \<^verbatim>\<open>attemptSend\<close> may send next.\<close>

definition send_available :: "pseudo_tcp \<Rightarrow> u32" where
  "send_available t =
     (let cwnd = (if m_dup_acks t = 1 \<or> m_dup_acks t = 2
                  then m_cwnd t + ucast (m_dup_acks t) * m_mss t else m_cwnd t);
          nWindow = min (m_snd_wnd t) cwnd;
          nInFlight = m_snd_nxt t - m_snd_una t;
          nUseable = (if nInFlight < nWindow then nWindow - nInFlight else 0);
          snd_buffered = of_nat (GetBuffered (m_sbuf t));
          nAvailable = min (snd_buffered - nInFlight) (m_mss t)
      in if nAvailable > nUseable
         then if nUseable * 4 < nWindow then 0 else nUseable
         else nAvailable)"

text \<open>The first segment that was not transmitted yet; \<open>None\<close> when the search runs off the
  list.\<close>

fun next_unsent :: "ssegment list \<Rightarrow> nat option" where
  "next_unsent [] = None"
| "next_unsent (seg # slist) =
     (if ss_xmit seg > 0 then map_option Suc (next_unsent slist) else Some 0)"

definition send_ack :: "tcp_env \<Rightarrow> pseudo_tcp \<Rightarrow> send_flags \<Rightarrow> pseudo_tcp option" where
  "send_ack env t sflags =
     (if sflags = sfNone then Some t
      else if sflags = sfImmediateAck \<or> m_t_ack t \<noteq> 0
      then map_option snd (packet env t (m_snd_nxt t) 0 0 0)
      else let (now, t) = Now env t in Some (t\<lparr>m_t_ack := now\<rparr>))"

definition nagle_holds :: "pseudo_tcp \<Rightarrow> u32 \<Rightarrow> bool" where
  "nagle_holds t nAvailable \<longleftrightarrow>
     m_use_nagling t \<and> m_snd_nxt t > m_snd_una t \<and> nAvailable < m_mss t"

text \<open>One transmission of the loop.\<close>

definition send_next :: "tcp_env \<Rightarrow> pseudo_tcp \<Rightarrow> u32 \<Rightarrow> u32 \<Rightarrow> (bool \<times> pseudo_tcp) option" where
  "send_next env t nAvailable now =
     (case next_unsent (m_slist t) of
        None \<Rightarrow> None
      | Some i \<Rightarrow> transmit env (t\<lparr>m_slist := split_segment (m_slist t) i nAvailable 0\<rparr>) i now)"

function send_loop :: "tcp_env \<Rightarrow> pseudo_tcp \<Rightarrow> send_flags \<Rightarrow> u32 \<Rightarrow> pseudo_tcp option" where
  "send_loop env t sflags now =
     (let nAvailable = send_available t in
      if nAvailable = 0 then send_ack env t sflags
      else if nagle_holds t nAvailable then Some t
      else
        case send_next env t nAvailable now of
          None \<Rightarrow> None
        | Some (False, t) \<Rightarrow> Some t
        | Some (True, t) \<Rightarrow> send_loop env t sfNone now)"
  by pat_completeness auto

lemma next_unsent_Some:
  "next_unsent slist = Some i \<Longrightarrow> i < length slist \<and> ss_xmit (slist ! i) = 0 \<and>
    (\<forall>j < i. ss_xmit (slist ! j) > 0)"
proof (induction slist arbitrary: i)
  case (Cons seg slist)
  then show ?case
    by (cases i) (auto simp: nth_Cons' word_gt_0 split: if_splits)
qed simp

text \<open>The loop ends because every turn takes payload or a whole segment out of what was not yet
  transmitted.\<close>

definition unsent :: "ssegment list \<Rightarrow> nat" where
  "unsent slist = sum_list (map (\<lambda>s. if ss_xmit s = 0 then 2 * unat (ss_len s) + 1 else 0) slist)"

lemma unsent_append [simp]: "unsent (xs @ ys) = unsent xs + unsent ys"
  by (simp add: unsent_def)

lemma unsent_Cons [simp]:
  "unsent (s # ss) = (if ss_xmit s = 0 then 2 * unat (ss_len s) + 1 else 0) + unsent ss"
  by (simp add: unsent_def)

lemma list_at: "i < length xs \<Longrightarrow> xs = take i xs @ [xs ! i] @ drop (Suc i) xs"
  by (simp add: id_take_nth_drop [symmetric])

lemma reduce_mss_core:
  "reduce_mss t n = Some (ok, n', t') \<Longrightarrow>
    snd_core t' = snd_core t \<and> rcv_core t' = rcv_core t \<and> misc_core t' = misc_core t \<and> (if ok then n' < n \<and> n' = m_mss t' else n' = n)"
proof (induction t n rule: reduce_mss.induct)
  case (1 t n)
  let ?l = "unat (m_msslevel t) + 1"
  let ?mss = "ucast (PACKET_MAXIMUMS ! ?l) - PACKET_OVERHEAD"
  let ?t = "t\<lparr>m_msslevel := m_msslevel t + 1, m_mss := ?mss, m_cwnd := 2 * ?mss\<rparr>"
  note run = "1.prems" [unfolded reduce_mss.simps [of t n] Let_def]
  show ?case
  proof (cases "length PACKET_MAXIMUMS \<le> ?l \<or> PACKET_MAXIMUMS ! ?l = 0 \<or> ?mss < n")
    case True
    with run show ?thesis by (auto simp: core_defs split: if_splits)
  next
    case False
    then have f: "\<not> length PACKET_MAXIMUMS \<le> ?l" "PACKET_MAXIMUMS ! ?l \<noteq> 0" "\<not> ?mss < n" by auto
    with run have "reduce_mss ?t n = Some (ok, n', t')" by simp
    from "1.IH" [OF refl f(1,2) refl refl f(3) this] show ?thesis by (auto simp: core_defs)
  qed
qed

lemma table_mss:
  assumes "l < length PACKET_MAXIMUMS" and "PACKET_MAXIMUMS ! l \<noteq> 0"
  shows "180 \<le> unat (ucast (PACKET_MAXIMUMS ! l) - PACKET_OVERHEAD)"
    and "unat (ucast (PACKET_MAXIMUMS ! l) - PACKET_OVERHEAD) \<le> 65419"
proof -
  have "l \<in> set [0..<11]" using assms(1) by (simp add: PACKET_MAXIMUMS_def)
  then have "l = 0 \<or> l = 1 \<or> l = 2 \<or> l = 3 \<or> l = 4 \<or> l = 5 \<or> l = 6 \<or> l = 7 \<or> l = 8 \<or> l = 9 \<or> l = 10"
    by (simp add: upt_rec) presburger
  then show "180 \<le> unat (ucast (PACKET_MAXIMUMS ! l) - PACKET_OVERHEAD)"
    "unat (ucast (PACKET_MAXIMUMS ! l) - PACKET_OVERHEAD) \<le> 65419"
    using assms(2)
    by (elim disjE; simp add: PACKET_MAXIMUMS_def PACKET_OVERHEAD_def HEADER_SIZE_def
        UDP_HEADER_SIZE_def IP_HEADER_SIZE_def JINGLE_HEADER_SIZE_def)+
qed

lemma reduce_mss_bounds:
  "reduce_mss t n = Some (ok, n', t') \<Longrightarrow> m_mss t' = m_mss t \<and> \<not> ok \<or>
    180 \<le> unat (m_mss t') \<and> unat (m_mss t') \<le> 65419"
proof (induction t n rule: reduce_mss.induct)
  case (1 t n)
  let ?l = "unat (m_msslevel t) + 1"
  let ?mss = "ucast (PACKET_MAXIMUMS ! ?l) - PACKET_OVERHEAD"
  let ?t = "t\<lparr>m_msslevel := m_msslevel t + 1, m_mss := ?mss, m_cwnd := 2 * ?mss\<rparr>"
  note run = "1.prems" [unfolded reduce_mss.simps [of t n] Let_def]
  show ?case
  proof (cases "length PACKET_MAXIMUMS \<le> ?l \<or> PACKET_MAXIMUMS ! ?l = 0")
    case True
    with run show ?thesis by (auto split: if_splits)
  next
    case False
    then have f: "\<not> length PACKET_MAXIMUMS \<le> ?l" "PACKET_MAXIMUMS ! ?l \<noteq> 0" by auto
    then have b: "180 \<le> unat ?mss" "unat ?mss \<le> 65419" using table_mss [of ?l] by auto
    show ?thesis
    proof (cases "?mss < n")
      case True
      with run f b show ?thesis by auto
    next
      case more_: False
      with run f have "reduce_mss ?t n = Some (ok, n', t')" by simp
      from "1.IH" [OF refl f refl refl more_ this] b show ?thesis by auto
    qed
  qed
qed

lemma transmit_loop_core:
  "transmit_loop env t seg n = Some (ok, n', t') \<Longrightarrow>
    snd_core t' = snd_core t \<and> rcv_core t' = rcv_core t \<and> misc_core t' = misc_core t \<and> n' \<le> n \<and> (n \<noteq> 0 \<longrightarrow> n' \<noteq> 0) \<and>
    (m_mss t' = m_mss t \<or> 180 \<le> unat (m_mss t') \<and> unat (m_mss t') \<le> 65419)"
proof (induction env t seg n rule: transmit_loop.induct)
  case (1 env t seg n)
  note run = "1.prems" [unfolded transmit_loop.simps [of env t seg n]]
  from run obtain w t1 where p: "packet env t (ss_seq seg) (if ss_bCtrl seg then FLAG_CTL else 0)
      (ss_seq seg - m_snd_una t) n = Some (w, t1)" by (auto split: option.splits)
  note c1 = packet_core [OF p]
  show ?case
  proof (cases w)
    case WR_TOO_LARGE
    with run p obtain ok2 n2 t2 where r: "reduce_mss t1 n = Some (ok2, n2, t2)"
      by (auto split: option.splits)
    note c2 = reduce_mss_core [OF r] reduce_mss_bounds [OF r]
    show ?thesis
    proof (cases ok2)
      case True
      with run p r WR_TOO_LARGE have "transmit_loop env t2 seg n2 = Some (ok, n', t')" by simp
      with True r WR_TOO_LARGE p "1.IH" have IH: "snd_core t' = snd_core t2 \<and>
        rcv_core t' = rcv_core t2 \<and> misc_core t' = misc_core t2 \<and> n' \<le> n2 \<and> (n2 \<noteq> 0 \<longrightarrow> n' \<noteq> 0) \<and>
        (m_mss t' = m_mss t2 \<or> 180 \<le> unat (m_mss t') \<and> unat (m_mss t') \<le> 65419)" by blast
      have "n2 \<noteq> 0" "n2 < n" using c2 True by auto
      with IH c1 c2 True show ?thesis by (auto simp: mss_core_def)
    next
      case False
      with run p r WR_TOO_LARGE c1 c2 show ?thesis by (auto simp: mss_core_def dest: sym)
    qed
  qed (use run p c1 in \<open>auto simp: mss_core_def\<close>)
qed

lemma word_less_ne: "(a :: u32) < b \<Longrightarrow> b \<noteq> 0"
  by auto

lemma split_segment_unsent:
  assumes "i < length slist" and "ss_xmit (slist ! i) = 0"
  shows "unsent (split_segment slist i n 0) \<le> unsent slist + 1"
proof (cases "n < ss_len (slist ! i)")
  case True
  then have "unat (ss_len (slist ! i) - n) + unat n = unat (ss_len (slist ! i))"
    using unat_diff_le [of n "ss_len (slist ! i)"] by (simp add: word_le_nat_alt word_less_nat_alt)
  moreover have "unsent slist = unsent (take i slist) + (2 * unat (ss_len (slist ! i)) + 1) +
      unsent (drop (Suc i) slist)"
    using assms by (subst list_at [OF assms(1)]) (simp del: append_take_drop_id)
  ultimately show ?thesis using True assms(2)
    by (simp add: split_segment_def Let_def)
qed (simp add: split_segment_def Let_def)

lemma split_segment_nth:
  assumes "i < length slist"
  shows "split_segment slist i n x ! i =
      (if n < ss_len (slist ! i) then (slist ! i)\<lparr>ss_len := n\<rparr> else slist ! i)"
    and "length (split_segment slist i n x) = length slist + (if n < ss_len (slist ! i) then 1 else 0)"
  using assms by (auto simp: split_segment_def Let_def nth_append)

lemma unsent_transmitted:
  assumes "i < length slist" and "ss_xmit (slist ! i) = 0"
  shows "unsent ((split_segment slist i n 0)[i := (split_segment slist i n 0 ! i)\<lparr>ss_xmit := 1\<rparr>]) +
    (if n < ss_len (slist ! i) then 2 * unat n else 2 * unat (ss_len (slist ! i)) + 1) =
    unsent slist"
proof -
  have u: "unsent slist = unsent (take i slist) + (2 * unat (ss_len (slist ! i)) + 1) +
      unsent (drop (Suc i) slist)"
    using assms by (subst list_at [OF assms(1)]) (simp del: append_take_drop_id)
  show ?thesis
  proof (cases "n < ss_len (slist ! i)")
    case True
    then have "unat (ss_len (slist ! i) - n) + unat n = unat (ss_len (slist ! i))"
      using unat_diff_le [of n "ss_len (slist ! i)"] by (simp add: word_le_nat_alt word_less_nat_alt)
    with True u assms show ?thesis
      by (simp add: split_segment_def Let_def list_update_append nth_append)
  next
    case False
    then show ?thesis using u assms
      by (simp add: split_segment_def Let_def upd_conv_take_nth_drop)
  qed
qed

lemma transmit_unsent:
  assumes run: "transmit env t i now = Some (True, t')"
    and x: "ss_xmit (m_slist t ! i) = 0" and mss: "m_mss t \<noteq> 0"
  shows "unsent (m_slist t') + 1 + (if ss_len (m_slist t ! i) = 0 then 0 else 1) \<le> unsent (m_slist t)"
proof -
  let ?seg = "m_slist t ! i"
  from run have i: "i < length (m_slist t)" by (simp add: transmit_def split: if_splits)
  from run x obtain n t1 where
    l: "transmit_loop env t ?seg (min (ss_len ?seg) (m_mss t)) = Some (True, n, t1)"
    and t': "m_slist t' = (split_segment (m_slist t1) i n 0)[i :=
      (split_segment (m_slist t1) i n 0 ! i)\<lparr>ss_xmit := ss_xmit (split_segment (m_slist t1) i n 0 ! i) + 1\<rparr>]"
    by (auto simp: transmit_def Let_def split: if_splits option.splits)
  note c = transmit_loop_core [OF l]
  have s: "m_slist t1 = m_slist t" using c by (simp add: snd_core_def)
  have x1: "ss_xmit (split_segment (m_slist t) i n 0 ! i) = 0"
    using split_segment_nth(1) [OF i] x by simp
  have n0: "ss_len ?seg \<noteq> 0 \<Longrightarrow> unat n \<noteq> 0"
    using c mss by (auto simp: min_def unat_eq_0)
  have l0: "ss_len ?seg \<noteq> 0 \<Longrightarrow> 0 < unat (ss_len ?seg)" by (simp add: unat_gt_0)
  show ?thesis
    using unsent_transmitted [OF i x, of n] t' s x1 n0 l0 by (auto split: if_splits)
qed

lemma send_available_mss: "send_available t \<noteq> 0 \<Longrightarrow> m_mss t \<noteq> 0"
  by (auto simp: send_available_def Let_def min_def split: if_splits)

lemma send_next_unsent:
  assumes "send_next env t n now = Some (True, t')" and "n \<noteq> 0" and "m_mss t \<noteq> 0"
  shows "unsent (m_slist t') < unsent (m_slist t)"
proof -
  from assms(1) obtain i where i: "next_unsent (m_slist t) = Some i"
    and tr: "transmit env (t\<lparr>m_slist := split_segment (m_slist t) i n 0\<rparr>) i now = Some (True, t')"
    by (auto simp: send_next_def split: option.splits)
  note u = next_unsent_Some [OF i]
  have nth: "split_segment (m_slist t) i n 0 ! i = (if n < ss_len (m_slist t ! i)
      then (m_slist t ! i)\<lparr>ss_len := n\<rparr> else m_slist t ! i)"
    using u by (simp add: split_segment_nth)
  have same: "split_segment (m_slist t) i n 0 = m_slist t" if "\<not> n < ss_len (m_slist t ! i)"
    using that by (simp add: split_segment_def Let_def)
  have x: "ss_xmit (m_slist (t\<lparr>m_slist := split_segment (m_slist t) i n 0\<rparr>) ! i) = 0"
    using u nth by simp
  from transmit_unsent [OF tr x] assms(2,3) nth same
    split_segment_unsent [of i "m_slist t" n] u
  show ?thesis by (cases "n < ss_len (m_slist t ! i)") auto
qed

termination send_loop
  by (relation "measure (\<lambda>(_, t, _, _). unsent (m_slist t))")
    (auto dest: send_next_unsent send_available_mss)

declare send_loop.simps [simp del]

definition attemptSend :: "tcp_env \<Rightarrow> pseudo_tcp \<Rightarrow> send_flags \<Rightarrow> pseudo_tcp option" where
  "attemptSend env t sflags =
     (let (now, t) = Now env t;
          t = (if TimeDiff now (m_lastsend t) > uint (m_rx_rto t) then t\<lparr>m_cwnd := m_mss t\<rparr> else t)
      in send_loop env t sflags now)"

end
