(* ===== verification/PseudoTcpProcess.thy ===== *)
theory PseudoTcpProcess
  imports PseudoTcp
begin

text \<open>
  The receiving half of \<^verbatim>\<open>src/p2p/base/pseudotcp.cc\<close> and the calls of its users:
  \<^verbatim>\<open>parse\<close>, \<^verbatim>\<open>process\<close>, the clock, \<^verbatim>\<open>Connect\<close>, \<^verbatim>\<open>Send\<close> and
  \<^verbatim>\<open>Recv\<close>. \<^verbatim>\<open>process\<close> is one function of 240 lines in the source; its parts are
  definitions of their own here, composed in the same order.
\<close>

section \<open>Options of the connect message\<close>

definition applyWindowScaleOption :: "pseudo_tcp \<Rightarrow> byte \<Rightarrow> pseudo_tcp" where
  "applyWindowScaleOption t scale_factor = t\<lparr>m_swnd_scale := scale_factor\<rparr>"

definition applyOption :: "pseudo_tcp \<Rightarrow> byte \<Rightarrow> byte list \<Rightarrow> pseudo_tcp" where
  "applyOption t kind data =
     (if kind = TCP_OPT_MSS then t
      else if kind = TCP_OPT_WND_SCALE then
        if length data \<noteq> 1 then t else applyWindowScaleOption t (data ! 0)
      else t)"

text \<open>The loop: \<open>None\<close> in the first component where the code returns early on an option
  that is longer than what is left. \<^verbatim>\<open>ReadUInt8\<close> on an empty buffer leaves its zeroed
  target alone.\<close>

definition read_byte :: "byte_buffer \<Rightarrow> byte \<times> byte_buffer" where
  "read_byte buf = (case ReadUInt8 buf of None \<Rightarrow> (0, buf) | Some r \<Rightarrow> r)"

lemma read_byte_Length: "Length (snd (read_byte buf)) \<le> Length buf"
    "0 < Length buf \<Longrightarrow> Length (snd (read_byte buf)) < Length buf"
  by (auto simp: read_byte_def ReadUInt8_def ReadBytes_def Length_def split: option.splits if_splits)

lemma Consume_shrinks: "Length (snd (Consume buf n)) \<le> Length buf"
  by (auto simp: Consume_def Length_def)

function options_loop :: "pseudo_tcp \<Rightarrow> byte_buffer \<Rightarrow> byte list \<Rightarrow> byte list option \<times> pseudo_tcp" where
  "options_loop t buf options_specified =
     (if Length buf = 0 then (Some options_specified, t)
      else
        let (kind, buf1) = read_byte buf in
        if kind = TCP_OPT_EOL then (Some options_specified, t)
        else if kind = TCP_OPT_NOOP then options_loop t buf1 options_specified
        else
          let (opt_len, buf2) = read_byte buf1 in
          if unat opt_len \<le> Length buf2 then
            options_loop (applyOption t kind (take (unat opt_len) (Data buf2)))
              (snd (Consume buf2 (unat opt_len))) (kind # options_specified)
          else (None, t))"
  by pat_completeness auto

termination options_loop
proof (relation "measure (\<lambda>(_, buf, _). Length buf)", goal_cases)
  case (2 t buf os x kind buf1)
  have "buf1 = snd (read_byte buf)" using 2(2,3) by (metis snd_conv)
  with read_byte_Length(2) [of buf] 2(1) show ?case by simp
next
  case (3 t buf os x kind buf1 y opt_len buf2)
  have "buf1 = snd (read_byte buf)" "buf2 = snd (read_byte buf1)" using 3 by (metis snd_conv)+
  with read_byte_Length(2) [of buf] read_byte_Length(1) [of buf1]
    Consume_shrinks [of buf2 "unat opt_len"] 3(1) show ?case by simp
qed simp

declare options_loop.simps [simp del]

definition parseOptions :: "pseudo_tcp \<Rightarrow> byte list \<Rightarrow> pseudo_tcp" where
  "parseOptions t data =
     (case options_loop t (ByteBuffer_of data) [] of
        (None, t) \<Rightarrow> t
      | (Some options_specified, t) \<Rightarrow>
          if TCP_OPT_WND_SCALE \<notin> set options_specified \<and> m_rwnd_scale t > 0
          then (resizeReceiveBuffer t DEFAULT_RCV_BUF_SIZE)\<lparr>m_swnd_scale := 0\<rparr>
          else t)"

section \<open>Processing a segment\<close>

datatype 'a outcome = Return bool | Continue 'a \<comment> \<open>early return, or go on\<close>

text \<open>The control code of a segment; goes on with \<^verbatim>\<open>bConnect\<close>.\<close>

definition process_control :: "pseudo_tcp \<Rightarrow> segment \<Rightarrow> bool outcome \<times> pseudo_tcp" where
  "process_control t seg =
     (if sg_flags seg AND FLAG_CTL \<noteq> 0 then
        if sg_len seg = 0 then (Return False, t)
        else if sg_data seg ! 0 = CTL_CONNECT then
          let t = parseOptions t (take (unat (sg_len seg) - 1) (drop 1 (sg_data seg)));
              t = (if m_state t = TCP_LISTEN
                   then queueConnectMessage (t\<lparr>m_state := TCP_SYN_RECEIVED\<rparr>)
                   else if m_state t = TCP_SYN_SENT
                   then notify (adjustMTU (t\<lparr>m_state := TCP_ESTABLISHED\<rparr>)) OnTcpOpen
                   else t)
          in (Continue True, t)
        else (Return False, t)
      else (Continue False, t))"

definition update_timestamp :: "pseudo_tcp \<Rightarrow> segment \<Rightarrow> pseudo_tcp" where
  "update_timestamp t seg =
     (if sg_seq seg \<le> m_ts_lastack t \<and> m_ts_lastack t < sg_seq seg + sg_len seg
      then t\<lparr>m_ts_recent := sg_tsval seg\<rparr> else t)"

text \<open>The estimate of the round trip. The products are 32-bit, the sums with the signed
  \<^verbatim>\<open>rtt\<close> are computed in a 64-bit \<^verbatim>\<open>long\<close>.\<close>

definition update_rtt :: "pseudo_tcp \<Rightarrow> segment \<Rightarrow> u32 \<Rightarrow> pseudo_tcp" where
  "update_rtt t seg now =
     (let rtt = TimeDiff now (sg_tsecr seg) in
      if sg_tsecr seg \<noteq> 0 \<and> rtt \<ge> 0 then
        let t = (if m_rx_srtt t = 0
              then t\<lparr>m_rx_srtt := word_of_int rtt, m_rx_rttvar := word_of_int (rtt div 2)\<rparr>
              else t\<lparr>m_rx_rttvar := word_of_int
                        ((uint (3 * m_rx_rttvar t) + \<bar>rtt - uint (m_rx_srtt t)\<bar>) div 4),
                     m_rx_srtt := word_of_int ((uint (7 * m_rx_srtt t) + rtt) div 8)\<rparr>)
        in t\<lparr>m_rx_rto := bound MIN_RTO (m_rx_srtt t + max 1 (4 * m_rx_rttvar t)) MAX_RTO\<rparr>
      else t)"

text \<open>The loop that frees acknowledged segments; \<open>None\<close> when the list runs out.\<close>

fun free_acked :: "ssegment list \<Rightarrow> u32 \<Rightarrow> u32 \<Rightarrow> (ssegment list \<times> u32) option" where
  "free_acked slist nFree largest =
     (if nFree = 0 then Some (slist, largest)
      else case slist of
        [] \<Rightarrow> None
      | seg # rest \<Rightarrow>
          if nFree < ss_len seg then Some (seg\<lparr>ss_len := ss_len seg - nFree\<rparr> # rest, largest)
          else free_acked rest (nFree - ss_len seg) (max largest (ss_len seg)))"

definition in_flight :: "pseudo_tcp \<Rightarrow> u32" where
  "in_flight t = m_snd_nxt t - m_snd_una t"

text \<open>The congestion window after a new acknowledgement; \<open>None\<close> from the retransmission of
  the first segment, or from a division by zero.\<close>

definition congestion_on_ack :: "tcp_env \<Rightarrow> pseudo_tcp \<Rightarrow> u32 \<Rightarrow> u32 \<Rightarrow> (bool \<times> pseudo_tcp) option" where
  "congestion_on_ack env t nAcked now =
     (if m_dup_acks t \<ge> 3 then
        if m_snd_una t \<ge> m_recover t
        then Some (True, t\<lparr>m_cwnd := min (m_ssthresh t) (in_flight t + m_mss t), m_dup_acks := 0\<rparr>)
        else do {
          (ok, t) \<leftarrow> transmit env t 0 now;
          if \<not> ok then Some (False, closedown t ECONNABORTED)
          else Some (True, t\<lparr>m_cwnd := m_cwnd t + (m_mss t - min nAcked (m_cwnd t))\<rparr>) }
      else
        let t = t\<lparr>m_dup_acks := 0\<rparr> in
        if m_cwnd t < m_ssthresh t then Some (True, t\<lparr>m_cwnd := m_cwnd t + m_mss t\<rparr>)
        else if m_cwnd t = 0 then None
        else Some (True, t\<lparr>m_cwnd := m_cwnd t + max 1 (m_mss t * m_mss t div m_cwnd t)\<rparr>))"

definition process_new_ack :: "tcp_env \<Rightarrow> pseudo_tcp \<Rightarrow> segment \<Rightarrow> u32 \<Rightarrow> (bool \<times> pseudo_tcp) option" where
  "process_new_ack env t seg now =
     do { let t = update_rtt t seg now;
          wnd \<leftarrow> shift_left (ucast (sg_wnd seg)) (m_swnd_scale t);
          let t = t\<lparr>m_snd_wnd := wnd\<rparr>;
          let nAcked = sg_ack seg - m_snd_una t;
          let t = t\<lparr>m_snd_una := sg_ack seg\<rparr>;
          let t = t\<lparr>m_rto_base := (if m_snd_una t = m_snd_nxt t then 0 else now)\<rparr>;
          if unat nAcked > GetBuffered (m_sbuf t) then None
          else do {
            let t = t\<lparr>m_sbuf := ConsumeReadData (m_sbuf t) (unat nAcked)\<rparr>;
            (slist, largest) \<leftarrow> free_acked (m_slist t) nAcked (m_largest t);
            let t = t\<lparr>m_slist := slist, m_largest := largest\<rparr>;
            congestion_on_ack env t nAcked now } }"

definition process_dup_ack :: "tcp_env \<Rightarrow> pseudo_tcp \<Rightarrow> segment \<Rightarrow> u32 \<Rightarrow> (bool \<times> pseudo_tcp) option" where
  "process_dup_ack env t seg now =
     (case shift_left (ucast (sg_wnd seg)) (m_swnd_scale t) of
      None \<Rightarrow> None
    | Some wnd \<Rightarrow>
      let t = t\<lparr>m_snd_wnd := wnd\<rparr> in
      if sg_len seg > 0 then Some (True, t)
      else if m_snd_una t \<noteq> m_snd_nxt t then
        let t = t\<lparr>m_dup_acks := m_dup_acks t + 1\<rparr> in
        if m_dup_acks t = 3 then
          do { (ok, t) \<leftarrow> transmit env t 0 now;
               if \<not> ok then Some (False, closedown t ECONNABORTED)
               else
                 let t = t\<lparr>m_recover := m_snd_nxt t,
                           m_ssthresh := max (in_flight t div 2) (2 * m_mss t)\<rparr>
                 in Some (True, t\<lparr>m_cwnd := m_ssthresh t + 3 * m_mss t\<rparr>) }
        else if m_dup_acks t > 3 then Some (True, t\<lparr>m_cwnd := m_cwnd t + m_mss t\<rparr>)
        else Some (True, t)
      else Some (True, t\<lparr>m_dup_acks := 0\<rparr>))"

definition process_ack :: "tcp_env \<Rightarrow> pseudo_tcp \<Rightarrow> segment \<Rightarrow> u32 \<Rightarrow> (bool \<times> pseudo_tcp) option" where
  "process_ack env t seg now =
     (if sg_ack seg > m_snd_una t \<and> sg_ack seg \<le> m_snd_nxt t then process_new_ack env t seg now
      else if sg_ack seg = m_snd_una t then process_dup_ack env t seg now
      else Some (True, t))"

definition complete_open :: "pseudo_tcp \<Rightarrow> bool \<Rightarrow> pseudo_tcp" where
  "complete_open t bConnect =
     (if m_state t = TCP_SYN_RECEIVED \<and> \<not> bConnect
      then notify (adjustMTU (t\<lparr>m_state := TCP_ESTABLISHED\<rparr>)) OnTcpOpen else t)"

definition notify_writeable :: "pseudo_tcp \<Rightarrow> pseudo_tcp" where
  "notify_writeable t =
     (let kIdealRefillSize = (m_sbuf_len t + m_rbuf_len t) div 2
      in if m_bWriteEnable t \<and> of_nat (GetBuffered (m_sbuf t)) < kIdealRefillSize
         then notify (t\<lparr>m_bWriteEnable := False\<rparr>) OnTcpWriteable else t)"

definition ack_flags :: "pseudo_tcp \<Rightarrow> segment \<Rightarrow> send_flags" where
  "ack_flags t seg =
     (if sg_seq seg \<noteq> m_rcv_nxt t then sfImmediateAck
      else if sg_len seg \<noteq> 0 then if m_ack_delay t = 0 then sfImmediateAck else sfDelayedAck
      else sfNone)"

text \<open>The incoming segment adjusted to the receive buffer: what was received before is cut off in
  front, what does not fit is cut off behind.\<close>

definition trim_front :: "pseudo_tcp \<Rightarrow> segment \<Rightarrow> segment" where
  "trim_front t seg =
     (if sg_seq seg < m_rcv_nxt t then
        let nAdjust = m_rcv_nxt t - sg_seq seg in
        if nAdjust < sg_len seg
        then seg\<lparr>sg_seq := sg_seq seg + nAdjust, sg_data := drop (unat nAdjust) (sg_data seg),
                 sg_len := sg_len seg - nAdjust\<rparr>
        else seg\<lparr>sg_len := 0\<rparr>
      else seg)"

definition trim_back :: "pseudo_tcp \<Rightarrow> segment \<Rightarrow> segment" where
  "trim_back t seg =
     (let available_space = of_nat (GetWriteRemaining (m_rbuf t)) in
      if sg_seq seg + sg_len seg - m_rcv_nxt t > available_space then
        let nAdjust = sg_seq seg + sg_len seg - m_rcv_nxt t - available_space
        in seg\<lparr>sg_len := (if nAdjust < sg_len seg then sg_len seg - nAdjust else 0)\<rparr>
      else seg)"

text \<open>The loop that commits segments received earlier that are now in order; \<open>True\<close> when it
  recovered data.\<close>

fun recover_rlist :: "pseudo_tcp \<Rightarrow> rsegment list \<Rightarrow> bool \<Rightarrow> bool \<times> pseudo_tcp" where
  "recover_rlist t [] recovered = (recovered, t\<lparr>m_rlist := []\<rparr>)"
| "recover_rlist t (r # rs) recovered =
     (if rs_seq r \<le> m_rcv_nxt t then
        if rs_seq r + rs_len r > m_rcv_nxt t then
          let nAdjust = rs_seq r + rs_len r - m_rcv_nxt t
          in recover_rlist (t\<lparr>m_rbuf := ConsumeWriteBuffer (m_rbuf t) (unat nAdjust),
                m_rcv_nxt := m_rcv_nxt t + nAdjust, m_rcv_wnd := m_rcv_wnd t - nAdjust\<rparr>) rs True
        else recover_rlist t rs recovered
      else (recovered, t\<lparr>m_rlist := r # rs\<rparr>))"

text \<open>Insertion of an out-of-order segment, before the first that does not start earlier.\<close>

definition save_rsegment :: "rsegment list \<Rightarrow> rsegment \<Rightarrow> rsegment list" where
  "save_rsegment rlist rseg =
     takeWhile (\<lambda>r. rs_seq r < rs_seq rseg) rlist @ [rseg] @
     dropWhile (\<lambda>r. rs_seq r < rs_seq rseg) rlist"

text \<open>The data of the adjusted segment; returns \<^verbatim>\<open>bNewData\<close> and the send flags.\<close>

definition receive_data :: "pseudo_tcp \<Rightarrow> segment \<Rightarrow> send_flags \<Rightarrow> bool \<times> send_flags \<times> pseudo_tcp" where
  "receive_data t seg sflags =
     (let bIgnoreData = (sg_flags seg AND FLAG_CTL \<noteq> 0 \<or> m_shutdown t \<noteq> SD_NONE) in
      if sg_len seg > 0 then
        if bIgnoreData then
          (False, sflags, if sg_seq seg = m_rcv_nxt t
                          then t\<lparr>m_rcv_nxt := m_rcv_nxt t + sg_len seg\<rparr> else t)
        else
          let nOffset = sg_seq seg - m_rcv_nxt t;
              (result, written, rbuf) =
                WriteOffset (m_rbuf t) (take (unat (sg_len seg)) (sg_data seg)) (unat nOffset);
              t = t\<lparr>m_rbuf := rbuf\<rparr>
          in if sg_seq seg = m_rcv_nxt t then
               let t = t\<lparr>m_rbuf := ConsumeWriteBuffer (m_rbuf t) (unat (sg_len seg)),
                         m_rcv_nxt := m_rcv_nxt t + sg_len seg,
                         m_rcv_wnd := m_rcv_wnd t - sg_len seg\<rparr>;
                   (recovered, t) = recover_rlist t (m_rlist t) False
               in (True, if recovered then sfImmediateAck else sflags, t)
             else
               (False, sflags, t\<lparr>m_rlist := save_rsegment (m_rlist t)
                                   \<lparr>rs_seq = sg_seq seg, rs_len = sg_len seg\<rparr>\<rparr>)
      else (False, sflags, t))"

definition notify_readable :: "pseudo_tcp \<Rightarrow> bool \<Rightarrow> pseudo_tcp" where
  "notify_readable t bNewData =
     (if bNewData \<and> m_bReadEnable t then notify (t\<lparr>m_bReadEnable := False\<rparr>) OnTcpReadable else t)"

text \<open>From the acknowledgement on.\<close>

definition process_data :: "tcp_env \<Rightarrow> pseudo_tcp \<Rightarrow> segment \<Rightarrow> bool \<Rightarrow> pseudo_tcp option" where
  "process_data env t seg bConnect =
     (let t = notify_writeable (complete_open t bConnect);
          sflags = ack_flags t seg;
          seg = trim_back t (trim_front t seg);
          (bNewData, sflags, t) = receive_data t seg sflags
      in do { t \<leftarrow> attemptSend env t sflags; Some (notify_readable t bNewData) })"

definition process :: "tcp_env \<Rightarrow> pseudo_tcp \<Rightarrow> segment \<Rightarrow> (bool \<times> pseudo_tcp) option" where
  "process env t seg =
     (if sg_conv seg \<noteq> m_conv t then Some (False, t)
      else
        let (now, t) = Now env t;
            t = t\<lparr>m_lasttraffic := now, m_lastrecv := now, m_bOutgoing := False\<rparr> in
        if m_state t = TCP_CLOSED then Some (False, t)
        else if sg_flags seg AND FLAG_RST \<noteq> 0 then Some (False, closedown t ECONNRESET)
        else
          case process_control t seg of
            (Return r, t) \<Rightarrow> Some (r, t)
          | (Continue bConnect, t) \<Rightarrow>
              do { (ok, t) \<leftarrow> process_ack env (update_timestamp t seg) seg now;
                   if \<not> ok then Some (False, t)
                   else do { t \<leftarrow> process_data env t seg bConnect; Some (True, t) } })"

text \<open>A packet of 12 to 23 bytes passes the size check and is read behind its end.\<close>

definition parse_segment :: "byte list \<Rightarrow> segment" where
  "parse_segment buffer =
     \<lparr>sg_conv = bytes_to_long buffer, sg_seq = bytes_to_long (drop 4 buffer),
      sg_ack = bytes_to_long (drop 8 buffer), sg_flags = buffer ! 13,
      sg_wnd = bytes_to_short (drop 14 buffer), sg_data = drop 24 buffer,
      sg_len = of_nat (length buffer) - HEADER_SIZE,
      sg_tsval = bytes_to_long (drop 16 buffer), sg_tsecr = bytes_to_long (drop 20 buffer)\<rparr>"

definition parse :: "tcp_env \<Rightarrow> pseudo_tcp \<Rightarrow> byte list \<Rightarrow> (bool \<times> pseudo_tcp) option" where
  "parse env t buffer =
     (if length buffer < 12 then Some (False, t)
      else if length buffer < 24 then None
      else process env t (parse_segment buffer))"

definition NotifyPacket :: "tcp_env \<Rightarrow> pseudo_tcp \<Rightarrow> byte list \<Rightarrow> (bool \<times> pseudo_tcp) option" where
  "NotifyPacket env t buffer =
     (if length buffer > unat MAX_PACKET then Some (False, t) else parse env t buffer)"

section \<open>Timers\<close>

text \<open>The result is \<^verbatim>\<open>nTimeout\<close>, \<open>None\<close> where the connection may be destroyed.\<close>

definition clock_check :: "pseudo_tcp \<Rightarrow> u32 \<Rightarrow> int option" where
  "clock_check t now =
     (if m_shutdown t = SD_FORCEFUL then None
      else if m_shutdown t = SD_GRACEFUL \<and>
              (m_state t \<noteq> TCP_ESTABLISHED \<or> GetBuffered (m_sbuf t) = 0 \<and> m_t_ack t = 0) then None
      else if m_state t = TCP_CLOSED then Some CLOSED_TIMEOUT
      else
        let nTimeout = DEFAULT_TIMEOUT;
            nTimeout = (if m_t_ack t \<noteq> 0
              then min nTimeout (TimeDiff (m_t_ack t + m_ack_delay t) now) else nTimeout);
            nTimeout = (if m_rto_base t \<noteq> 0
              then min nTimeout (TimeDiff (m_rto_base t + m_rx_rto t) now) else nTimeout);
            nTimeout = (if m_snd_wnd t = 0
              then min nTimeout (TimeDiff (m_lastsend t + m_rx_rto t) now) else nTimeout)
        in Some nTimeout)"

definition GetNextClock :: "pseudo_tcp \<Rightarrow> u32 \<Rightarrow> int option" where
  "GetNextClock t now = clock_check t now"

text \<open>The three checks of \<^verbatim>\<open>NotifyClock\<close>; a component \<open>False\<close> tells that the connection
  was closed.\<close>

definition check_retransmit :: "tcp_env \<Rightarrow> pseudo_tcp \<Rightarrow> u32 \<Rightarrow> (bool \<times> pseudo_tcp) option" where
  "check_retransmit env t now =
     (if m_rto_base t \<noteq> 0 \<and> TimeDiff (m_rto_base t + m_rx_rto t) now \<le> 0 then
        if m_slist t = [] then Some (True, t)
        else do {
          (ok, t) \<leftarrow> transmit env t 0 now;
          if \<not> ok then Some (False, closedown t ECONNABORTED)
          else
            let rto_limit = (if m_state t \<in> {TCP_LISTEN, TCP_SYN_SENT, TCP_SYN_RECEIVED}
                             then DEF_RTO else MAX_RTO)
            in Some (True, t\<lparr>m_ssthresh := max (in_flight t div 2) (2 * m_mss t),
                             m_cwnd := m_mss t, m_rx_rto := min rto_limit (m_rx_rto t * 2),
                             m_rto_base := now\<rparr>) }
      else Some (True, t))"

definition check_probe :: "tcp_env \<Rightarrow> pseudo_tcp \<Rightarrow> u32 \<Rightarrow> (bool \<times> pseudo_tcp) option" where
  "check_probe env t now =
     (if m_snd_wnd t = 0 \<and> TimeDiff (m_lastsend t + m_rx_rto t) now \<le> 0 then
        if TimeDiff now (m_lastrecv t) \<ge> 15000 then Some (False, closedown t ECONNABORTED)
        else do {
          (wres, t) \<leftarrow> packet env t (m_snd_nxt t - 1) 0 0 0;
          Some (True, t\<lparr>m_lastsend := now, m_rx_rto := min MAX_RTO (m_rx_rto t * 2)\<rparr>) }
      else Some (True, t))"

definition check_delayed_ack :: "tcp_env \<Rightarrow> pseudo_tcp \<Rightarrow> u32 \<Rightarrow> pseudo_tcp option" where
  "check_delayed_ack env t now =
     (if m_t_ack t \<noteq> 0 \<and> TimeDiff (m_t_ack t + m_ack_delay t) now \<le> 0
      then map_option snd (packet env t (m_snd_nxt t) 0 0 0) else Some t)"

definition NotifyClock :: "tcp_env \<Rightarrow> pseudo_tcp \<Rightarrow> u32 \<Rightarrow> pseudo_tcp option" where
  "NotifyClock env t now =
     (if m_state t = TCP_CLOSED then Some t
      else do {
        (ok, t) \<leftarrow> check_retransmit env t now;
        if \<not> ok then Some t
        else do {
          (ok, t) \<leftarrow> check_probe env t now;
          if \<not> ok then Some t else check_delayed_ack env t now } })"

section \<open>The stream interface\<close>

definition Connect :: "tcp_env \<Rightarrow> pseudo_tcp \<Rightarrow> (int \<times> pseudo_tcp) option" where
  "Connect env t =
     (if m_state t \<noteq> TCP_LISTEN then Some (- 1, t\<lparr>m_error := EINVAL\<rparr>)
      else do {
        t \<leftarrow> attemptSend env (queueConnectMessage (t\<lparr>m_state := TCP_SYN_SENT\<rparr>)) sfNone;
        Some (0, t) })"

definition Recv :: "tcp_env \<Rightarrow> pseudo_tcp \<Rightarrow> nat \<Rightarrow> (int \<times> byte list \<times> pseudo_tcp) option" where
  "Recv env t len =
     (if m_state t \<noteq> TCP_ESTABLISHED then Some (- 1, [], t\<lparr>m_error := ENOTCONN\<rparr>)
      else
        let (result, out, rbuf) = fifo_Read (m_rbuf t) len;
            t = t\<lparr>m_rbuf := rbuf\<rparr> in
        if result = SR_BLOCK
        then Some (- 1, [], t\<lparr>m_bReadEnable := True, m_error := EWOULDBLOCK\<rparr>)
        else
          let available_space = of_nat (GetWriteRemaining (m_rbuf t)) in
          if available_space - m_rcv_wnd t \<ge> min (m_rbuf_len t div 2) (m_mss t) then
            let bWasClosed = (m_rcv_wnd t = 0);
                t = t\<lparr>m_rcv_wnd := available_space\<rparr>
            in if bWasClosed
               then do { t \<leftarrow> attemptSend env t sfImmediateAck; Some (int (length out), out, t) }
               else Some (int (length out), out, t)
          else Some (int (length out), out, t))"

definition Send :: "tcp_env \<Rightarrow> pseudo_tcp \<Rightarrow> byte list \<Rightarrow> (int \<times> pseudo_tcp) option" where
  "Send env t buffer =
     (if m_state t \<noteq> TCP_ESTABLISHED then Some (- 1, t\<lparr>m_error := ENOTCONN\<rparr>)
      else if GetWriteRemaining (m_sbuf t) = 0
      then Some (- 1, t\<lparr>m_bWriteEnable := True, m_error := EWOULDBLOCK\<rparr>)
      else
        let (written, t) = queue t (take (unat (of_nat (length buffer) :: u32)) buffer) False
        in do { t \<leftarrow> attemptSend env t sfNone; Some (sint written, t) })"

end
