(* ===== verification/PseudoTcpSend.thy ===== *)
theory PseudoTcpSend
  imports PseudoTcpProcess
begin

text \<open>
  The sending half: the invariant that ties the segment list to the send buffer and to the
  sequence numbers, and its preservation. From it follow the absence of undefined behaviour on
  the sending side and that every packet handed to the transport carries the bytes of the
  outgoing stream that stand at its sequence number.
\<close>

section \<open>Segment lists\<close>

fun contig :: "u32 \<Rightarrow> ssegment list \<Rightarrow> bool" where
  "contig s [] = True"
| "contig s (x # xs) = (ss_seq x = s \<and> contig (s + ss_len x) xs)"

definition seg_total :: "ssegment list \<Rightarrow> nat" where
  "seg_total slist = sum_list (map (\<lambda>s. unat (ss_len s)) slist)"

definition sent_total :: "ssegment list \<Rightarrow> nat" where
  "sent_total slist = seg_total (filter (\<lambda>s. 0 < ss_xmit s) slist)"

text \<open>Segments that were transmitted come before those that were not.\<close>

definition unsent_last :: "ssegment list \<Rightarrow> bool" where
  "unsent_last slist = sorted_wrt (\<lambda>a b. 0 < ss_xmit b \<longrightarrow> 0 < ss_xmit a) slist"

lemma seg_total_simps [simp]:
  "seg_total [] = 0" "seg_total (s # ss) = unat (ss_len s) + seg_total ss"
  "seg_total (xs @ ys) = seg_total xs + seg_total ys"
  by (simp_all add: seg_total_def)

lemma sent_total_simps [simp]:
  "sent_total [] = 0" "sent_total (s # ss) = (if 0 < ss_xmit s then unat (ss_len s) else 0) + sent_total ss"
  "sent_total (xs @ ys) = sent_total xs + sent_total ys"
  by (simp_all add: sent_total_def)

lemma sent_le_total: "sent_total ss \<le> seg_total ss"
  by (induction ss) auto

lemma sent_all_sent: "\<forall>s \<in> set ss. 0 < ss_xmit s \<Longrightarrow> sent_total ss = seg_total ss"
  by (induction ss) auto

lemma sent_none_sent: "\<forall>s \<in> set ss. ss_xmit s = 0 \<Longrightarrow> sent_total ss = 0"
  by (induction ss) auto

lemma contig_append: "contig s (xs @ ys) \<longleftrightarrow> contig s xs \<and> contig (s + of_nat (seg_total xs)) ys"
  by (induction xs arbitrary: s) (auto simp: add.assoc)

lemma contig_nth:
  assumes "contig s ss" and "i < length ss"
  shows "ss_seq (ss ! i) = s + of_nat (seg_total (take i ss))"
proof -
  have "contig s (take i ss @ [ss ! i] @ drop (Suc i) ss)" using assms list_at by metis
  then show ?thesis by (simp add: contig_append del: append_take_drop_id)
qed

lemma seg_total_at:
  assumes "i < length ss"
  shows "seg_total (take i ss) + unat (ss_len (ss ! i)) + seg_total (drop (Suc i) ss) = seg_total ss"
  using arg_cong [OF list_at [OF assms], of seg_total] by simp

lemma split_word: "(n :: u32) < l \<Longrightarrow> unat (l - n) + unat n = unat l"
  using unat_diff_le [of n l] by (simp add: word_le_nat_alt word_less_nat_alt)

text \<open>Splitting a segment changes neither the bytes it stands for nor what counts as sent.\<close>

lemma list_split_at:
  assumes "i < length ss"
  obtains p q where "ss = p @ (ss ! i) # q" "length p = i"
proof -
  have "ss = take i ss @ ss ! i # drop (Suc i) ss" by (rule id_take_nth_drop [OF assms])
  moreover have "length (take i ss) = i" using assms by simp
  ultimately show thesis by (rule that)
qed

lemma split_segment_ok:
  fixes n :: u32
  assumes i: "i < length ss" and x: "x = ss_xmit (ss ! i)"
  defines "ss' \<equiv> split_segment ss i n x"
  shows "contig s ss' = contig s ss" and "seg_total ss' = seg_total ss"
    and "sent_total ss' = sent_total ss" and "unsent_last ss' = unsent_last ss"
    and "take i ss' = take i ss" and "i < length ss'" and "ss_xmit (ss' ! i) = ss_xmit (ss ! i)"
    and "ss_len (ss' ! i) = min n (ss_len (ss ! i))"
    and "ss_seq (ss' ! i) = ss_seq (ss ! i)"
proof -
  obtain p a q where ss: "ss = p @ a # q" "length p = i"
    using list_split_at [OF i] by metis
  have a: "ss ! i = a" using ss by (simp add: nth_append)
  define sub where "sub = \<lparr>ss_seq = ss_seq a + n, ss_len = ss_len a - n, ss_xmit = ss_xmit a,
    ss_bCtrl = ss_bCtrl a\<rparr>"
  have ss': "ss' = (if n < ss_len a then p @ a\<lparr>ss_len := n\<rparr> # sub # q else p @ a # q)"
    using ss by (auto simp: ss'_def split_segment_def Let_def sub_def x)
  have w: "n < ss_len a \<Longrightarrow> unat (ss_len a - n) + unat n = unat (ss_len a)" by (rule split_word)
  show "contig s ss' = contig s ss" by (auto simp: ss' ss contig_append sub_def add.assoc)
  show "seg_total ss' = seg_total ss" using w by (auto simp: ss' ss sub_def)
  show "sent_total ss' = sent_total ss" using w by (auto simp: ss' ss sub_def)
  show "unsent_last ss' = unsent_last ss"
    unfolding unsent_last_def by (auto simp: ss' ss sub_def sorted_wrt_append)
  show "take i ss' = take i ss" "i < length ss'" using ss by (auto simp: ss')
  show "ss_xmit (ss' ! i) = ss_xmit (ss ! i)" "ss_seq (ss' ! i) = ss_seq (ss ! i)"
    unfolding a using ss by (auto simp: ss' nth_append)
  show "ss_len (ss' ! i) = min n (ss_len (ss ! i))"
    unfolding a using ss by (auto simp: ss' nth_append min_def)
qed

text \<open>Counting a transmission of segment \<open>i\<close>.\<close>

lemma count_xmit_ok:
  assumes i: "i < length ss" and before: "\<forall>j < i. 0 < ss_xmit (ss ! j)"
    and x: "ss_xmit (ss ! i) + 1 \<noteq> 0"
  defines "ss' \<equiv> ss[i := (ss ! i)\<lparr>ss_xmit := ss_xmit (ss ! i) + 1\<rparr>]"
  shows "contig s ss' = contig s ss" and "seg_total ss' = seg_total ss"
    and "sent_total ss' = sent_total ss + (if ss_xmit (ss ! i) = 0 then unat (ss_len (ss ! i)) else 0)"
    and "unsent_last ss \<Longrightarrow> unsent_last ss'"
proof -
  obtain p a q where ss: "ss = p @ a # q" "length p = i"
    using list_split_at [OF i] by metis
  have a: "ss ! i = a" using ss by (simp add: nth_append)
  have ss': "ss' = p @ a\<lparr>ss_xmit := ss_xmit a + 1\<rparr> # q"
    unfolding ss'_def a using ss by (simp add: list_update_append)
  have p: "\<forall>s \<in> set p. 0 < ss_xmit s" using before ss by (auto simp: in_set_conv_nth nth_append)
  have x1: "0 < ss_xmit a + 1" using x by (simp add: a word_gt_0)
  show "contig s ss' = contig s ss" "seg_total ss' = seg_total ss"
    by (simp_all add: ss' ss contig_append)
  show "sent_total ss' = sent_total ss + (if ss_xmit (ss ! i) = 0 then unat (ss_len (ss ! i)) else 0)"
    unfolding a using x1 by (simp add: ss' ss word_gt_0)
  show "unsent_last ss'" if "unsent_last ss"
    using that p x1 unfolding unsent_last_def by (auto simp: ss' ss sorted_wrt_append)
qed

text \<open>Acknowledging whole segments removes them from the front of the list.\<close>

lemma free_acked_ok:
  "unat n = seg_total (take k ss) \<Longrightarrow>
    \<exists>k' l'. free_acked ss n l = Some (drop k' ss, l') \<and> seg_total (take k' ss) = unat n"
proof (induction ss arbitrary: n k l)
  case Nil
  then have "n = 0" by (simp add: unat_eq_0)
  then show ?case by simp
next
  case (Cons a ss)
  show ?case
  proof (cases "n = 0")
    case True
    then show ?thesis by (intro exI [of _ 0] exI [of _ l]) simp
  next
    case False
    then obtain m where k: "k = Suc m"
      using Cons.prems by (cases k) (auto simp: unat_eq_0)
    have len: "ss_len a \<le> n" using Cons.prems by (simp add: k word_le_nat_alt)
    then have "unat (n - ss_len a) = seg_total (take m ss)"
      using Cons.prems unat_diff_le [OF len] by (simp add: k)
    from Cons.IH [OF this, of "max l (ss_len a)"] obtain k' l' where
      k': "free_acked ss (n - ss_len a) (max l (ss_len a)) = Some (drop k' ss, l')"
      "seg_total (take k' ss) = unat (n - ss_len a)" by blast
    have "free_acked (a # ss) n l = Some (drop (Suc k') (a # ss), l')"
      using False len k'(1) by (simp add: not_less)
    moreover have "seg_total (take (Suc k') (a # ss)) = unat n"
      using k'(2) unat_diff_le [OF len] len by (simp add: word_le_nat_alt)
    ultimately show ?thesis by blast
  qed
qed

lemma contig_drop: "contig s ss \<Longrightarrow> contig (s + of_nat (seg_total (take k ss))) (drop k ss)"
  using contig_append [of s "take k ss" "drop k ss"] by simp

lemma seg_total_drop: "seg_total (drop k ss) = seg_total ss - seg_total (take k ss)"
  using seg_total_simps(3) [of "take k ss" "drop k ss"] by simp

lemma unsent_last_drop: "unsent_last ss \<Longrightarrow> unsent_last (drop k ss)"
  by (simp add: unsent_last_def sorted_wrt_drop)

lemma sent_total_drop:
  assumes "unsent_last ss" and "seg_total (take k ss) \<le> sent_total ss"
  shows "sent_total (drop k ss) = sent_total ss - seg_total (take k ss)"
proof -
  have split: "sent_total ss = sent_total (take k ss) + sent_total (drop k ss)"
    using sent_total_simps(3) [of "take k ss" "drop k ss"] by simp
  show ?thesis
  proof (cases "\<forall>s \<in> set (take k ss). 0 < ss_xmit s")
    case True
    with split sent_all_sent [of "take k ss"] show ?thesis by simp
  next
    case False
    then obtain s where s: "s \<in> set (take k ss)" "ss_xmit s = 0" by (auto simp: word_gt_0)
    have "sorted_wrt (\<lambda>a b. 0 < ss_xmit b \<longrightarrow> 0 < ss_xmit a) (take k ss @ drop k ss)"
      using assms(1) by (simp add: unsent_last_def)
    with s have "\<forall>b \<in> set (drop k ss). ss_xmit b = 0"
      by (auto simp only: sorted_wrt_append) (metis word_gt_0 less_irrefl)
    with sent_none_sent [of "drop k ss"] split assms(2) sent_le_total [of "take k ss"]
    show ?thesis by simp
  qed
qed

section \<open>The invariant\<close>

text \<open>
  \<open>S\<close> is the whole outgoing stream: everything given to \<^verbatim>\<open>queue\<close> so far, connect
  message included. The send buffer holds the part not yet acknowledged, the segment list divides
  it up without gaps, and the transmitted segments make up what is in flight. The last conjunct
  says that recovery is about data in flight.
\<close>

definition snd_ok :: "byte list \<Rightarrow> pseudo_tcp \<Rightarrow> bool" where
  "snd_ok S t \<longleftrightarrow> fifo_inv (m_sbuf t) \<and> ff_state (m_sbuf t) \<noteq> SS_CLOSED \<and>
     ff_buffer_length (m_sbuf t) < 2 ^ 31 \<and>
     length S = unat (m_snd_una t) + ff_data_length (m_sbuf t) \<and>
     ff_contents (m_sbuf t) = drop (unat (m_snd_una t)) S \<and>
     contig (m_snd_una t) (m_slist t) \<and> seg_total (m_slist t) = ff_data_length (m_sbuf t) \<and>
     unsent_last (m_slist t) \<and> sent_total (m_slist t) = unat (m_snd_nxt t - m_snd_una t) \<and>
     (m_snd_una t < m_recover t \<longrightarrow>
        unat (m_recover t) - unat (m_snd_una t) \<le> unat (m_snd_nxt t - m_snd_una t))"

definition mss_ok :: "pseudo_tcp \<Rightarrow> bool" where
  "mss_ok t \<longleftrightarrow> 0 < m_mss t \<and> unat (m_mss t) \<le> 65419 \<and> unat (m_msslevel t) \<le> 9"

definition misc_ok :: "pseudo_tcp \<Rightarrow> bool" where
  "misc_ok t \<longleftrightarrow> m_ssthresh t \<noteq> 0 \<and> 117 \<le> unat (m_mtu_advise t) \<and> unat (m_mtu_advise t) \<le> 65535 \<and>
     m_swnd_scale t < 32"

text \<open>A packet given to the transport carries stream bytes at its sequence number.\<close>

fun event_ok :: "byte list \<Rightarrow> tcp_event \<Rightarrow> bool" where
  "event_ok S (TcpWritePacket p wres) \<longleftrightarrow> 24 \<le> length p \<and>
     (length p = 24 \<or> (\<exists>k. k + (length p - 24) \<le> length S \<and> bytes_to_long (drop 4 p) = of_nat k \<and>
        drop 24 p = take (length p - 24) (drop k S)))"
| "event_ok S _ \<longleftrightarrow> True"

definition log_ok :: "byte list \<Rightarrow> pseudo_tcp \<Rightarrow> bool" where
  "log_ok S t \<longleftrightarrow> (\<forall>ev \<in> set (m_notify t). event_ok S ev)"

lemma snd_ok_cong: "snd_core t' = snd_core t \<Longrightarrow> snd_ok S t' = snd_ok S t"
  by (simp add: snd_ok_def snd_core_def)

lemma mss_ok_cong: "mss_core t' = mss_core t \<Longrightarrow> mss_ok t' = mss_ok t"
  by (simp add: mss_ok_def mss_core_def)

lemma misc_ok_cong: "misc_core t' = misc_core t \<Longrightarrow> misc_ok t' = misc_ok t"
  by (simp add: misc_ok_def misc_core_def)

lemma event_ok_mono:
  assumes "event_ok S ev"
  shows "event_ok (S @ T) ev"
proof (cases ev)
  case (TcpWritePacket p w)
  show ?thesis
  proof (cases "length p = 24")
    case False
    with assms TcpWritePacket obtain k where k: "k + (length p - 24) \<le> length S"
      "bytes_to_long (drop 4 p) = of_nat k" "drop 24 p = take (length p - 24) (drop k S)" by auto
    then have "take (length p - 24) (drop k (S @ T)) = drop 24 p" by simp
    with k assms TcpWritePacket show ?thesis by (auto intro!: exI [of _ k])
  qed (use assms TcpWritePacket in simp)
qed simp_all

lemma log_ok_mono: "log_ok S t \<Longrightarrow> log_ok (S @ T) t"
  by (auto simp: log_ok_def event_ok_mono)

section \<open>One packet\<close>

lemma bytes_to_long_at: "bytes_to_long (long_to_bytes v @ rest) = v"
  by (simp add: bytes_to_long_def long_to_bytes_def host_store_network host_load_network
      be32.dec_enc codec_simps)

lemma length_long_to_bytes [simp]: "length (long_to_bytes v) = 4" "length (short_to_bytes w) = 2"
  by (simp_all add: long_to_bytes_def short_to_bytes_def codec_simps)

lemma packet_header_fields:
  "length (packet_header t seq flags now) = 24"
  "bytes_to_long (drop 4 (packet_header t seq flags now @ d)) = seq"
  by (simp_all add: packet_header_def bytes_to_long_at)

text \<open>A piece of the unacknowledged stream that lies in the send buffer.\<close>

definition in_stream :: "pseudo_tcp \<Rightarrow> u32 \<Rightarrow> u32 \<Rightarrow> bool" where
  "in_stream t seq n \<longleftrightarrow> unat n \<le> 65419 \<and>
     unat (seq - m_snd_una t) + unat n \<le> ff_data_length (m_sbuf t)"

lemma size_consts [simp]: "unat HEADER_SIZE = 24" "unat MAX_PACKET = 65535"
  by (simp_all add: HEADER_SIZE_def MAX_PACKET_def)

lemma packet_payload_ok:
  assumes "snd_ok S t" and "in_stream t seq n" and "n \<noteq> 0"
  shows "packet_payload t (seq - m_snd_una t) n =
    Some (take (unat n) (drop (unat (m_snd_una t) + unat (seq - m_snd_una t)) S))"
proof -
  let ?off = "unat (seq - m_snd_una t)"
  have n: "0 < unat n" using assms(3) by (simp add: unat_gt_0)
  then have off: "?off < ff_data_length (m_sbuf t)" using assms(2) by (simp add: in_stream_def)
  have f: "fifo_inv (m_sbuf t)" "ff_contents (m_sbuf t) = drop (unat (m_snd_una t)) S"
    using assms(1) by (simp_all add: snd_ok_def)
  have "length (take (unat n) (drop ?off (ff_contents (m_sbuf t)))) = unat n"
    using assms(2) length_ff_contents [OF f(1)] by (auto simp: in_stream_def)
  moreover have "drop ?off (ff_contents (m_sbuf t)) = drop (unat (m_snd_una t) + ?off) S"
    by (simp add: f(2) add.commute)
  ultimately show ?thesis
    using ReadOffset_spec [OF f(1) off, of "unat n"] assms(2,3)
    by (simp add: packet_payload_def in_stream_def)
qed

lemma snd_ok_update [simp]:
  "snd_ok S (t\<lparr>m_clock := c\<rparr>) = snd_ok S t" "snd_ok S (t\<lparr>m_ts_lastack := v\<rparr>) = snd_ok S t"
  "snd_ok S (t\<lparr>m_notify := ev\<rparr>) = snd_ok S t" "snd_ok S (t\<lparr>m_cwnd := v\<rparr>) = snd_ok S t"
  "snd_ok S (t\<lparr>m_t_ack := v\<rparr>) = snd_ok S t" "snd_ok S (t\<lparr>m_lastsend := v\<rparr>) = snd_ok S t"
  "snd_ok S (t\<lparr>m_rto_base := v\<rparr>) = snd_ok S t" "snd_ok S (t\<lparr>m_state := st\<rparr>) = snd_ok S t"
  by (simp_all add: snd_ok_def)

text \<open>Sending a piece of the stream, or an empty packet, is always defined and logs a packet with
  the right bytes.\<close>

lemma packet_ok:
  assumes ok: "snd_ok S t" "log_ok S t"
    and n: "n = 0 \<or> in_stream t seq n \<and> offset = seq - m_snd_una t"
  shows "\<exists>wres t'. packet env t seq flags offset n = Some (wres, t') \<and> log_ok S t' \<and>
    snd_core t' = snd_core t \<and> rcv_core t' = rcv_core t \<and> mss_core t' = mss_core t \<and>
    misc_core t' = misc_core t \<and> (n = 0 \<longrightarrow> wres = WR_SUCCESS)"
proof -
  let ?t = "t\<lparr>m_clock := m_clock t + 1, m_ts_lastack := m_rcv_nxt t\<rparr>"
  let ?h = "packet_header (t\<lparr>m_clock := m_clock t + 1\<rparr>) seq flags (env_now env (m_clock t))"
  obtain d where d: "packet_payload ?t offset n = Some d"
    and ev: "event_ok S (TcpWritePacket (?h @ d) w)" for w
  proof (cases "n = 0")
    case True
    show thesis by (rule that [of "[]"]) (simp_all add: True packet_payload_def packet_header_fields)
  next
    case False
    with n have s: "in_stream ?t seq n" "offset = seq - m_snd_una ?t"
      by (simp_all add: in_stream_def)
    let ?k = "unat (m_snd_una t) + unat (seq - m_snd_una t)"
    let ?d = "take (unat n) (drop ?k S)"
    have len: "?k + unat n \<le> length S" using s(1) ok(1) by (simp add: in_stream_def snd_ok_def)
    then have l: "length ?d = unat n" by simp
    have k: "(of_nat ?k :: u32) = seq" by simp
    show thesis
    proof (rule that)
      show "packet_payload ?t offset n = Some ?d"
        using packet_payload_ok [OF _ s(1) False, of S] ok(1) s(2) by simp
      fix w
      have "bytes_to_long (drop 4 (?h @ ?d)) = of_nat ?k" unfolding k by (rule packet_header_fields)
      then show "event_ok S (TcpWritePacket (?h @ ?d) w)"
        using len l by (auto simp: packet_header_fields intro!: exI [of _ ?k])
    qed
  qed
  obtain wres t' where p: "packet env t seq flags offset n = Some (wres, t')"
    and nt: "m_notify t' = m_notify t @ [TcpWritePacket (?h @ d) (env_write env (m_notify t) (?h @ d))]"
    and w: "n = 0 \<longrightarrow> wres = WR_SUCCESS"
  proof (cases "packet env t seq flags offset n")
    case None
    with d show thesis by (simp add: packet_def Now_def notify_def Let_def split: if_splits)
  next
    case (Some r)
    with d show thesis
      by (cases r) (rule that, auto simp: packet_def Now_def notify_def Let_def split: if_splits)
  qed
  have "log_ok S t'" using ok(2) ev by (simp add: log_ok_def nt del: event_ok.simps)
  with p w packet_core [OF p] show ?thesis by blast
qed

section \<open>Transmitting a segment\<close>

lemma reduce_mss_ok:
  "mss_ok t \<Longrightarrow> \<exists>ok n' t'. reduce_mss t n = Some (ok, n', t') \<and> mss_ok t' \<and> m_notify t' = m_notify t"
proof (induction t n rule: reduce_mss.induct)
  case (1 t n)
  let ?l = "unat (m_msslevel t) + 1"
  let ?mss = "ucast (PACKET_MAXIMUMS ! ?l) - PACKET_OVERHEAD"
  let ?t = "t\<lparr>m_msslevel := m_msslevel t + 1, m_mss := ?mss, m_cwnd := 2 * ?mss\<rparr>"
  have lev: "\<not> length PACKET_MAXIMUMS \<le> ?l" using "1.prems" by (simp add: mss_ok_def PACKET_MAXIMUMS_def)
  show ?case
  proof (cases "PACKET_MAXIMUMS ! ?l = 0")
    case True
    with lev have "reduce_mss t n = Some (False, n, t)" by (simp add: reduce_mss.simps [of t] Let_def)
    with "1.prems" show ?thesis by blast
  next
    case False
    with table_mss [of ?l] lev have b: "180 \<le> unat ?mss" "unat ?mss \<le> 65419" by auto
    have "?l \<noteq> 10" using False by (auto simp: PACKET_MAXIMUMS_def)
    then have "unat (m_msslevel t + 1) \<le> 9"
      using "1.prems" msslevel_step [OF lev] by (simp add: mss_ok_def)
    with b have ok: "mss_ok ?t" by (simp add: mss_ok_def word_less_nat_alt)
    show ?thesis
    proof (cases "?mss < n")
      case True
      with lev False have "reduce_mss t n = Some (True, ?mss, ?t)"
        by (simp add: reduce_mss.simps [of t] Let_def)
      with ok show ?thesis by auto
    next
      case more_: False
      with lev False have "reduce_mss t n = reduce_mss ?t n"
        by (simp add: reduce_mss.simps [of t] Let_def)
      with "1.IH" [OF refl lev False refl refl more_ ok] show ?thesis by simp
    qed
  qed
qed

lemma in_stream_mono: "in_stream t seq n \<Longrightarrow> n' \<le> n \<Longrightarrow> in_stream t seq n'"
  by (auto simp: in_stream_def word_le_nat_alt)

lemma in_stream_cong: "snd_core t' = snd_core t \<Longrightarrow> in_stream t' = in_stream t"
  by (intro ext) (simp add: in_stream_def snd_core_def)

lemma transmit_loop_ok:
  "snd_ok S t \<Longrightarrow> log_ok S t \<Longrightarrow> mss_ok t \<Longrightarrow> in_stream t (ss_seq seg) n \<Longrightarrow>
    \<exists>ok n' t'. transmit_loop env t seg n = Some (ok, n', t') \<and> log_ok S t' \<and> mss_ok t'"
proof (induction env t seg n rule: transmit_loop.induct)
  case (1 env t seg n)
  let ?flags = "if ss_bCtrl seg then FLAG_CTL else 0" and ?off = "ss_seq seg - m_snd_una t"
  from packet_ok [OF "1.prems"(1,2), of n "ss_seq seg" ?off env ?flags] "1.prems"(4) obtain w t1 where
    p: "packet env t (ss_seq seg) (if ss_bCtrl seg then FLAG_CTL else 0)
      (ss_seq seg - m_snd_una t) n = Some (w, t1)"
    and l1: "log_ok S t1" by blast
  note c1 = packet_core [OF p]
  have s1: "snd_ok S t1" "mss_ok t1" "in_stream t1 = in_stream t"
    using c1 "1.prems"(1,3) snd_ok_cong [of t1 t] mss_ok_cong [of t1 t] in_stream_cong [of t1 t]
    by simp_all
  show ?case
  proof (cases w)
    case WR_TOO_LARGE
    obtain ok2 n2 t2 where r: "reduce_mss t1 n = Some (ok2, n2, t2)" "mss_ok t2"
      "m_notify t2 = m_notify t1" using reduce_mss_ok [OF s1(2)] by blast
    note c2 = reduce_mss_core [OF r(1)]
    have s2: "snd_ok S t2" "log_ok S t2" "in_stream t2 = in_stream t1"
      using c2 s1 l1 r(3) snd_ok_cong [of t2 t1] in_stream_cong [of t2 t1]
      by (simp_all add: log_ok_def)
    show ?thesis
    proof (cases ok2)
      case True
      then have "n2 \<le> n" using c2 by auto
      then have i2: "in_stream t2 (ss_seq seg) n2"
        using in_stream_mono "1.prems"(4) s1(3) s2(3) by metis
      have "\<exists>ok n' t'. transmit_loop env t2 seg n2 = Some (ok, n', t') \<and> log_ok S t' \<and> mss_ok t'"
        by (rule "1.IH" [OF p refl WR_TOO_LARGE r(1) refl _ refl s2(1,2) r(2) i2])
          (simp add: True)
      moreover have "transmit_loop env t seg n = transmit_loop env t2 seg n2"
        using p r(1) True WR_TOO_LARGE by (simp add: transmit_loop.simps [of env t])
      ultimately show ?thesis by simp
    next
      case False
      with p r WR_TOO_LARGE have "transmit_loop env t seg n = Some (False, n2, t2)"
        by (simp add: transmit_loop.simps [of env t])
      with r s2(2) show ?thesis by blast
    qed
  next
    case WR_SUCCESS
    with p have "transmit_loop env t seg n = Some (True, n, t1)"
      by (simp add: transmit_loop.simps [of env t])
    with l1 s1 show ?thesis by blast
  next
    case WR_FAIL
    with p have "transmit_loop env t seg n = Some (False, n, t1)"
      by (simp add: transmit_loop.simps [of env t])
    with l1 s1 show ?thesis by blast
  qed
qed

lemma transmit_limit:
  assumes "i < length (m_slist t)"
    and "(if m_state t = TCP_ESTABLISHED then 15 else 30) \<le> ss_xmit (m_slist t ! i)"
  shows "transmit env t i now = Some (False, t)"
  using assms unfolding transmit_def Let_def by (simp only: not_le [symmetric] if_True if_False not_less)

lemma transmit_fail:
  assumes "i < length (m_slist t)"
    and "\<not> (if m_state t = TCP_ESTABLISHED then 15 else 30) \<le> ss_xmit (m_slist t ! i)"
    and "transmit_loop env t (m_slist t ! i) (min (ss_len (m_slist t ! i)) (m_mss t)) =
      Some (False, n, t1)"
  shows "transmit env t i now = Some (False, t1)"
  using assms unfolding transmit_def Let_def by simp

lemma transmit_sent:
  assumes "i < length (m_slist t)"
    and "\<not> (if m_state t = TCP_ESTABLISHED then 15 else 30) \<le> ss_xmit (m_slist t ! i)"
    and "transmit_loop env t (m_slist t ! i) (min (ss_len (m_slist t ! i)) (m_mss t)) =
      Some (True, n, t1)"
    and "slist = split_segment (m_slist t1) i n (ss_xmit (m_slist t ! i))"
  shows "transmit env t i now = Some (True,
    t1\<lparr>m_slist := slist[i := (slist ! i)\<lparr>ss_xmit := ss_xmit (slist ! i) + 1\<rparr>],
       m_snd_nxt := (if ss_xmit (slist ! i) = 0 then m_snd_nxt t1 + ss_len (slist ! i)
                     else m_snd_nxt t1),
       m_rto_base := (if m_rto_base t1 = 0 then now else m_rto_base t1)\<rparr>)"
  using assms unfolding transmit_def Let_def by simp

text \<open>The index may be that of the first segment, or of the first that was not transmitted.\<close>

lemma first_offset:
  assumes "snd_ok S t" and "i < length (m_slist t)"
  shows "unat (ss_seq (m_slist t ! i) - m_snd_una t) + unat (ss_len (m_slist t ! i))
    \<le> ff_data_length (m_sbuf t)"
proof -
  let ?tot = "seg_total (take i (m_slist t))"
  have seq: "ss_seq (m_slist t ! i) = m_snd_una t + of_nat ?tot"
    using contig_nth [OF _ assms(2)] assms(1) by (simp add: snd_ok_def)
  have tot: "?tot + unat (ss_len (m_slist t ! i)) \<le> ff_data_length (m_sbuf t)"
    using seg_total_at [OF assms(2)] assms(1) by (simp add: snd_ok_def)
  moreover have "ff_data_length (m_sbuf t) < 2 ^ 31"
    using assms(1) by (auto simp: snd_ok_def fifo_inv_def)
  ultimately have "unat (of_nat ?tot :: u32) = ?tot" by (simp add: unat_of_nat_small)
  then show ?thesis using tot by (simp add: seq)
qed

lemma in_flight_grows:
  assumes "unat (nxt - una) + unat len < 2 ^ 31"
  shows "unat (nxt + len - una) = unat (nxt - una) + unat (len :: u32)"
proof -
  have eq: "nxt + len - una = (nxt - una) + len" by simp
  show ?thesis unfolding eq by (rule unat_add_small) (use assms in simp)
qed

lemma snd_ok_transmitted:
  assumes ok: "snd_ok S t1" and i: "i < length (m_slist t1)"
    and before: "\<forall>j < i. 0 < ss_xmit (m_slist t1 ! j)" and x: "ss_xmit (m_slist t1 ! i) + 1 \<noteq> 0"
    and slist: "slist = split_segment (m_slist t1) i n (ss_xmit (m_slist t1 ! i))"
  shows "snd_ok S (t1\<lparr>m_slist := slist[i := (slist ! i)\<lparr>ss_xmit := ss_xmit (slist ! i) + 1\<rparr>],
       m_snd_nxt := (if ss_xmit (slist ! i) = 0 then m_snd_nxt t1 + ss_len (slist ! i)
                     else m_snd_nxt t1), m_rto_base := rb\<rparr>)" (is "snd_ok S ?t'")
proof -
  note sp = split_segment_ok [where n = n, OF i refl, folded slist]
  have x1: "ss_xmit (slist ! i) + 1 \<noteq> 0" using x sp(7) by simp
  have before1: "\<forall>j < i. 0 < ss_xmit (slist ! j)" using before sp(5,6) by (metis nth_take)
  note cx = count_xmit_ok [OF sp(6) before1 x1]
  let ?s2 = "slist[i := (slist ! i)\<lparr>ss_xmit := ss_xmit (slist ! i) + 1\<rparr>]"
  let ?add = "if ss_xmit (slist ! i) = 0 then unat (ss_len (slist ! i)) else 0"
  have k: "seg_total (m_slist t1) = ff_data_length (m_sbuf t1)"
    "sent_total (m_slist t1) = unat (m_snd_nxt t1 - m_snd_una t1)"
    "contig (m_snd_una t1) (m_slist t1)" "unsent_last (m_slist t1)"
    "ff_data_length (m_sbuf t1) < 2 ^ 31"
    using ok by (auto simp: snd_ok_def fifo_inv_def)
  have "sent_total ?s2 \<le> seg_total ?s2" by (rule sent_le_total)
  then have bound: "unat (m_snd_nxt t1 - m_snd_una t1) + ?add < 2 ^ 31" using cx sp k by simp
  have fl: "unat (m_snd_nxt ?t' - m_snd_una t1) = unat (m_snd_nxt t1 - m_snd_una t1) + ?add"
    using in_flight_grows [of "m_snd_nxt t1" "m_snd_una t1" "ss_len (slist ! i)"] bound
    by (simp split: if_splits)
  have "contig (m_snd_una t1) ?s2 \<and> seg_total ?s2 = ff_data_length (m_sbuf t1) \<and> unsent_last ?s2"
    using cx(1,2,4) sp(1,2,4) k by simp
  moreover have "sent_total ?s2 = unat (m_snd_nxt ?t' - m_snd_una t1)"
    using cx(3) sp(3) k(2) fl by simp
  moreover have "m_snd_una t1 < m_recover t1 \<longrightarrow>
      unat (m_recover t1) - unat (m_snd_una t1) \<le> unat (m_snd_nxt ?t' - m_snd_una t1)"
    unfolding fl using ok by (auto simp: snd_ok_def)
  ultimately show ?thesis using ok unfolding snd_ok_def by simp
qed

lemma transmit_ok:
  assumes ok: "snd_ok S t" "log_ok S t" "mss_ok t"
    and i: "i < length (m_slist t)" "\<forall>j < i. 0 < ss_xmit (m_slist t ! j)"
  shows "\<exists>r t'. transmit env t i now = Some (r, t') \<and> snd_ok S t' \<and> log_ok S t' \<and> mss_ok t' \<and>
    rcv_core t' = rcv_core t \<and> misc_core t' = misc_core t"
proof (cases "(if m_state t = TCP_ESTABLISHED then 15 else 30) \<le> ss_xmit (m_slist t ! i)")
  case True
  from transmit_limit [OF i(1) True] ok show ?thesis by blast
next
  case False
  let ?seg = "m_slist t ! i"
  let ?n0 = "min (ss_len ?seg) (m_mss t)"
  have n0: "unat ?n0 \<le> unat (ss_len ?seg)" "unat ?n0 \<le> 65419"
    using ok(3) by (simp_all add: mss_ok_def min_def word_le_nat_alt)
  have "in_stream t (ss_seq ?seg) ?n0"
    using first_offset [OF ok(1) i(1)] n0 by (simp add: in_stream_def)
  from transmit_loop_ok [OF ok this, of env] obtain r n t1 where
    l: "transmit_loop env t ?seg ?n0 = Some (r, n, t1)" and t1: "log_ok S t1" "mss_ok t1" by blast
  note c = transmit_loop_core [OF l]
  have s1: "m_slist t1 = m_slist t" using c by (simp add: snd_core_def)
  have ok1: "snd_ok S t1" using c ok(1) snd_ok_cong [of t1 t] by simp
  show ?thesis
  proof (cases r)
    case fail: False
    with l have "transmit env t i now = Some (False, t1)"
      by (intro transmit_fail [OF i(1) False]) simp
    with c ok1 t1 show ?thesis by blast
  next
    case sent: True
    define slist where "slist = split_segment (m_slist t1) i n (ss_xmit (m_slist t1 ! i))"
    have x: "ss_xmit (m_slist t1 ! i) + 1 \<noteq> 0"
    proof
      assume "ss_xmit (m_slist t1 ! i) + 1 = 0"
      then have "ss_xmit ?seg = 255" by (simp add: s1 add_eq_0_iff2)
      with False show False by (simp split: if_splits)
    qed
    let ?rb = "if m_rto_base t1 = 0 then now else m_rto_base t1"
    let ?t' = "t1\<lparr>m_slist := slist[i := (slist ! i)\<lparr>ss_xmit := ss_xmit (slist ! i) + 1\<rparr>],
       m_snd_nxt := (if ss_xmit (slist ! i) = 0 then m_snd_nxt t1 + ss_len (slist ! i)
                     else m_snd_nxt t1), m_rto_base := ?rb\<rparr>"
    have tr: "transmit env t i now = Some (True, ?t')"
      by (rule transmit_sent [OF i(1) False]) (use l sent s1 slist_def in simp_all)
    have "snd_ok S ?t'"
      by (rule snd_ok_transmitted [OF ok1 _ _ x slist_def]) (use i s1 in simp_all)
    moreover have "log_ok S ?t'" "mss_ok ?t'" "rcv_core ?t' = rcv_core t" "misc_core ?t' = misc_core t"
      using t1 c by (simp_all add: log_ok_def mss_ok_def core_defs)
    ultimately show ?thesis using tr by blast
  qed
qed

section \<open>Queueing\<close>

lemma fifo_Write_all:
  assumes "fifo_inv f" "ff_state f \<noteq> SS_CLOSED" "length d \<le> GetWriteRemaining f"
  shows "\<exists>r g. fifo_Write f d = (r, length d, g) \<and> fifo_inv g \<and> ff_state g = ff_state f \<and>
    ff_contents g = ff_contents f @ d \<and> ff_data_length g = ff_data_length f + length d \<and>
    ff_buffer_length g = ff_buffer_length f"
proof (cases "ff_data_length f = ff_buffer_length f")
  case True
  with assms show ?thesis
    by (simp add: fifo_Write_def WriteOffsetLocked_def GetWriteRemaining_def)
next
  case False
  then have "ff_data_length f < ff_buffer_length f" using assms(1) by (simp add: fifo_inv_def)
  moreover obtain r m g where w: "fifo_Write f d = (r, m, g)" by (metis prod.exhaust)
  ultimately show ?thesis
    using fifo_Write_contents [OF assms(1,2) _ w] assms(3) by (simp add: min_def)
qed

lemma queue_slist_ok:
  fixes len :: u32 and c :: bool
  assumes "contig una ss" "unsent_last ss" "seg_total ss + unat len < 2 ^ 31"
  defines "ss' \<equiv> (if ss \<noteq> [] \<and> ss_bCtrl (last ss) = c \<and> ss_xmit (last ss) = 0
    then butlast ss @ [(last ss)\<lparr>ss_len := ss_len (last ss) + len\<rparr>]
    else ss @ [\<lparr>ss_seq = una + of_nat (seg_total ss), ss_len = len, ss_xmit = 0, ss_bCtrl = c\<rparr>])"
  shows "contig una ss' \<and> unsent_last ss' \<and> seg_total ss' = seg_total ss + unat len \<and>
    sent_total ss' = sent_total ss"
proof (cases "ss \<noteq> [] \<and> ss_bCtrl (last ss) = c \<and> ss_xmit (last ss) = 0")
  case True
  define p a where "p = butlast ss" and "a = last ss"
  have ss: "ss = p @ [a]" using True by (simp add: p_def a_def)
  have ss': "ss' = p @ [a\<lparr>ss_len := ss_len a + len\<rparr>]" using True by (simp add: ss'_def p_def a_def)
  have "unat (ss_len a + len) = unat (ss_len a) + unat len"
    using assms(3) by (intro unat_add_small) (simp add: ss)
  moreover have "ss_xmit a = 0" using True by (simp add: a_def)
  ultimately show ?thesis
    using assms(1,2) by (simp add: ss ss' contig_append unsent_last_def sorted_wrt_append)
next
  case False
  then have "ss' = ss @ [\<lparr>ss_seq = una + of_nat (seg_total ss), ss_len = len, ss_xmit = 0,
    ss_bCtrl = c\<rparr>]" by (auto simp: ss'_def)
  then show ?thesis using assms(1,2) by (simp add: contig_append unsent_last_def sorted_wrt_append)
qed

definition queued :: "pseudo_tcp \<Rightarrow> byte list \<Rightarrow> byte list" where
  "queued t data = take (GetWriteRemaining (m_sbuf t)) data"

lemma queue_ok:
  assumes ok: "snd_ok S t" and len: "length data < 2 ^ 32" and q: "queue t data c = (w, t')"
  shows "snd_ok (S @ queued t data) t' \<and> unat w = length (queued t data) \<and>
    rcv_core t' = rcv_core t \<and> mss_core t' = mss_core t \<and> misc_core t' = misc_core t \<and>
    m_notify t' = m_notify t"
proof -
  let ?f = "m_sbuf t" and ?d = "queued t data" and ?ss = "m_slist t"
  have f: "fifo_inv ?f" "ff_state ?f \<noteq> SS_CLOSED" "ff_buffer_length ?f < 2 ^ 31"
    using ok by (simp_all add: snd_ok_def)
  have rem: "GetWriteRemaining ?f < 2 ^ 31" using f(3) by (simp add: GetWriteRemaining_def)
  define len' :: u32 where "len' = (if of_nat (length data) > (of_nat (GetWriteRemaining ?f) :: u32)
      then of_nat (GetWriteRemaining ?f) else of_nat (length data))"
  have ul: "unat (of_nat (length data) :: u32) = length data"
    "unat (of_nat (GetWriteRemaining ?f) :: u32) = GetWriteRemaining ?f"
    using len rem by (simp_all add: unat_of_nat_small)
  have l': "unat len' = length ?d" "take (unat len') data = ?d"
    using ul by (auto simp: len'_def queued_def word_less_nat_alt min_def)
  have fit: "length ?d \<le> GetWriteRemaining ?f" by (simp add: queued_def)
  obtain r g where w: "fifo_Write ?f ?d = (r, length ?d, g)" "fifo_inv g" "ff_state g = ff_state ?f"
    "ff_contents g = ff_contents ?f @ ?d" "ff_data_length g = ff_data_length ?f + length ?d"
    "ff_buffer_length g = ff_buffer_length ?f"
    using fifo_Write_all [OF f(1,2) fit] by blast
  have tot: "seg_total ?ss = ff_data_length ?f" using ok by (simp add: snd_ok_def)
  define ss' where "ss' = (if ?ss \<noteq> [] \<and> ss_bCtrl (last ?ss) = c \<and> ss_xmit (last ?ss) = 0
    then butlast ?ss @ [(last ?ss)\<lparr>ss_len := ss_len (last ?ss) + len'\<rparr>]
    else ?ss @ [\<lparr>ss_seq = m_snd_una t + of_nat (seg_total ?ss), ss_len = len', ss_xmit = 0,
      ss_bCtrl = c\<rparr>])"
  have "seg_total ?ss + unat len' < 2 ^ 31"
    using tot l'(1) fit f by (auto simp: GetWriteRemaining_def fifo_inv_def)
  with queue_slist_ok [of "m_snd_una t" ?ss len' c] ok
  have s': "contig (m_snd_una t) ss' \<and> unsent_last ss' \<and>
      seg_total ss' = seg_total ?ss + unat len' \<and> sent_total ss' = sent_total ?ss"
    by (simp add: snd_ok_def ss'_def)
  have "queue t data c = (of_nat (length ?d), t\<lparr>m_slist := ss', m_sbuf := g\<rparr>)"
  proof (cases "?ss \<noteq> [] \<and> ss_bCtrl (last ?ss) = c \<and> ss_xmit (last ?ss) = 0")
    case True
    then show ?thesis using w(1) l'
      by (simp add: queue_def Let_def ss'_def tot GetBuffered_def flip: len'_def)
  next
    case False
    then show ?thesis using w(1) l'
      unfolding queue_def Let_def len'_def [symmetric] ss'_def tot GetBuffered_def if_not_P [OF False]
      by simp
  qed
  with q have t': "t' = t\<lparr>m_slist := ss', m_sbuf := g\<rparr>" "w = of_nat (length ?d)" by simp_all
  have "snd_ok (S @ ?d) t'"
    using ok s' w(2-6) l'(1) tot by (simp add: snd_ok_def t'(1))
  moreover have "unat w = length ?d" using l'(1) t'(2) fit rem by (simp add: unat_of_nat_small)
  ultimately show ?thesis by (simp add: t'(1) core_defs)
qed

section \<open>The send loop\<close>

text \<open>What the sending side keeps, whatever it does.\<close>

definition snd_all :: "byte list \<Rightarrow> pseudo_tcp \<Rightarrow> bool" where
  "snd_all S t \<longleftrightarrow> snd_ok S t \<and> log_ok S t \<and> mss_ok t \<and> misc_ok t"

definition sends :: "byte list \<Rightarrow> pseudo_tcp \<Rightarrow> pseudo_tcp option \<Rightarrow> bool" where
  "sends S t r \<longleftrightarrow> (\<exists>t'. r = Some t' \<and> snd_all S t' \<and> rcv_core t' = rcv_core t \<and> misc_core t' = misc_core t)"

lemma sends_trans:
  "snd_all S t' \<Longrightarrow> rcv_core t' = rcv_core t \<Longrightarrow> misc_core t' = misc_core t \<Longrightarrow> sends S t' r \<Longrightarrow> sends S t r"
  by (auto simp: sends_def)

lemma snd_all_core:
  "snd_all S t \<Longrightarrow> snd_core t' = snd_core t \<Longrightarrow> mss_core t' = mss_core t \<Longrightarrow>
    misc_core t' = misc_core t \<Longrightarrow> log_ok S t' \<Longrightarrow> snd_all S t'"
  using snd_ok_cong [of t' t S] mss_ok_cong [of t' t] misc_ok_cong [of t' t]
  by (simp add: snd_all_def)

lemma packet_sends:
  assumes "snd_all S t"
  shows "sends S t (map_option snd (packet env t seq flags offset 0))"
proof -
  have "snd_ok S t" "log_ok S t" using assms by (simp_all add: snd_all_def)
  from packet_ok [OF this, of 0 seq offset env flags] obtain w t' where
    "packet env t seq flags offset 0 = Some (w, t')" "log_ok S t'" "snd_core t' = snd_core t"
    "rcv_core t' = rcv_core t" "mss_core t' = mss_core t" "misc_core t' = misc_core t" by blast
  with snd_all_core [OF assms, of t'] show ?thesis by (simp add: sends_def)
qed

lemma Now_core: "Now env t = (now, t') \<Longrightarrow> snd_core t' = snd_core t \<and> rcv_core t' = rcv_core t \<and>
    mss_core t' = mss_core t \<and> misc_core t' = misc_core t \<and> m_notify t' = m_notify t"
  by (auto simp: Now_def core_defs)

lemma send_ack_sends:
  assumes "snd_all S t"
  shows "sends S t (send_ack env t sflags)"
proof -
  have "sends S t (Some t)" using assms by (simp add: sends_def)
  moreover have "sends S t (Some (t\<lparr>m_clock := c, m_t_ack := v\<rparr>))" for c v
    using snd_all_core [OF assms, of "t\<lparr>m_clock := c, m_t_ack := v\<rparr>"] assms
    by (simp add: sends_def core_defs log_ok_def snd_all_def)
  ultimately show ?thesis
    using packet_sends [OF assms] by (simp add: send_ack_def Now_def)
qed

lemma next_unsent_exists:
  "sent_total ss < seg_total ss \<Longrightarrow> \<exists>i. next_unsent ss = Some i"
  by (induction ss) auto

lemma sent_bytes_left:
  assumes "snd_ok S t" and "send_available t \<noteq> 0"
  shows "sent_total (m_slist t) < seg_total (m_slist t)"
proof (rule ccontr)
  assume "\<not> ?thesis"
  then have "sent_total (m_slist t) = seg_total (m_slist t)"
    using sent_le_total [of "m_slist t"] by simp
  then have eq: "unat (m_snd_nxt t - m_snd_una t) = GetBuffered (m_sbuf t)"
    using assms(1) by (simp add: snd_ok_def GetBuffered_def)
  have "of_nat (unat (m_snd_nxt t - m_snd_una t)) = m_snd_nxt t - m_snd_una t" by simp
  then have "of_nat (GetBuffered (m_sbuf t)) = m_snd_nxt t - m_snd_una t" by (simp only: eq)
  then have "send_available t = 0" by (simp add: send_available_def Let_def)
  with assms(2) show False by simp
qed

lemma send_next_ok:
  assumes ok: "snd_all S t" and n: "send_available t \<noteq> 0"
  shows "\<exists>r t'. send_next env t n now = Some (r, t') \<and> snd_all S t' \<and>
    rcv_core t' = rcv_core t \<and> misc_core t' = misc_core t"
proof -
  have o: "snd_ok S t" "log_ok S t" "mss_ok t" "misc_ok t" using ok by (simp_all add: snd_all_def)
  obtain i where i: "next_unsent (m_slist t) = Some i"
    using next_unsent_exists sent_bytes_left [OF o(1) n] by blast
  note u = next_unsent_Some [OF i]
  let ?t = "t\<lparr>m_slist := split_segment (m_slist t) i n 0\<rparr>"
  have "0 = ss_xmit (m_slist t ! i)" using u by simp
  note sp = split_segment_ok [where n = n, OF _ this]
  have il: "i < length (m_slist t)" using u by simp
  have "snd_ok S ?t" using o(1) sp(1-4) [OF il] by (simp add: snd_ok_def)
  moreover have "log_ok S ?t" "mss_ok ?t" using o by (simp_all add: log_ok_def mss_ok_def)
  moreover have "\<forall>j < i. 0 < ss_xmit (split_segment (m_slist t) i n 0 ! j)"
    using u sp(5,6) [OF il] by (metis nth_take)
  ultimately obtain r t' where t': "transmit env ?t i now = Some (r, t')" "snd_ok S t'" "log_ok S t'"
    "mss_ok t'" "rcv_core t' = rcv_core ?t" "misc_core t' = misc_core ?t"
    using transmit_ok [of S ?t i env now] sp(6) [OF il] by auto
  have "misc_ok t'" using misc_ok_cong [of t' t] t'(6) o(4) by (simp add: misc_core_def)
  with t' i show ?thesis by (simp add: send_next_def snd_all_def core_defs)
qed

lemma send_loop_ok: "snd_all S t \<Longrightarrow> sends S t (send_loop env t sflags now)"
proof (induction env t sflags now rule: send_loop.induct)
  case (1 env t sflags now)
  let ?n = "send_available t"
  note eq = send_loop.simps [of env t sflags now, unfolded Let_def]
  show ?case
  proof (cases "?n = 0 \<or> nagle_holds t ?n")
    case True
    then show ?thesis
      using send_ack_sends [OF "1.prems"] "1.prems" by (auto simp: eq sends_def)
  next
    case False
    then obtain r t' where t': "send_next env t ?n now = Some (r, t')" "snd_all S t'"
      "rcv_core t' = rcv_core t" "misc_core t' = misc_core t"
      using send_next_ok [OF "1.prems", of env ?n now] by blast
    show ?thesis
    proof (cases r)
      case True
      with t' False have "send_loop env t sflags now = send_loop env t' sfNone now"
        by (simp add: eq)
      moreover have "sends S t' (send_loop env t' sfNone now)"
        by (rule "1.IH" [OF refl _ _ t'(1) refl _ t'(2)]) (use False True in simp_all)
      ultimately show ?thesis using sends_trans [OF t'(2-4)] by simp
    next
      case stop: False
      with t' False have "send_loop env t sflags now = Some t'" by (simp add: eq)
      with t' show ?thesis by (simp add: sends_def)
    qed
  qed
qed

lemma attemptSend_ok:
  assumes "snd_all S t"
  shows "sends S t (attemptSend env t sflags)"
proof -
  let ?t = "t\<lparr>m_clock := m_clock t + 1\<rparr>"
  have "snd_all S (?t\<lparr>m_cwnd := v\<rparr>)" "snd_all S ?t" for v
    using snd_all_core [OF assms, of "?t\<lparr>m_cwnd := v\<rparr>"] snd_all_core [OF assms, of ?t] assms
    by (simp_all add: core_defs log_ok_def snd_all_def)
  then have "sends S (?t\<lparr>m_cwnd := v\<rparr>) (send_loop env (?t\<lparr>m_cwnd := v\<rparr>) sflags now)"
    "sends S ?t (send_loop env ?t sflags now)" for v now
    by (simp_all only: send_loop_ok)
  then show ?thesis
    by (simp add: attemptSend_def Now_def sends_def core_defs)
qed

end
