(* ===== verification/PseudoTcpAck.thy ===== *)
theory PseudoTcpAck
  imports PseudoTcpSend
begin

text \<open>
  Acknowledgements: what \<^verbatim>\<open>process\<close> does to the sending side when the peer acknowledges data
  or repeats an acknowledgement, retransmissions of fast recovery included.
\<close>

section \<open>Acknowledgements\<close>

text \<open>The peer acknowledges whole segments: the acknowledgement falls on a boundary of the list. The
  code does not move the sequence number of a segment of which only a part is acknowledged, and a
  retransmission of such a segment reads outside the send buffer.\<close>

definition ack_aligned :: "pseudo_tcp \<Rightarrow> segment \<Rightarrow> bool" where
  "ack_aligned t seg \<longleftrightarrow> (m_snd_una t < sg_ack seg \<and> sg_ack seg \<le> m_snd_nxt t \<longrightarrow>
     (\<exists>k \<le> length (m_slist t). seg_total (take k (m_slist t)) = unat (sg_ack seg - m_snd_una t)))"

lemma acked_words:
  assumes "una < ack" and "ack \<le> (nxt :: u32)"
  shows "unat (ack - una) = unat ack - unat una" "unat (nxt - una) = unat nxt - unat una"
    "unat (nxt - ack) = unat (nxt - una) - unat (ack - una)" "unat (ack - una) \<le> unat (nxt - una)"
proof -
  have le: "una \<le> ack" "una \<le> nxt" "unat una < unat ack" "unat ack \<le> unat nxt"
    using assms by (simp_all add: word_le_nat_alt word_less_nat_alt)
  note d = unat_diff_le [OF le(1)] unat_diff_le [OF le(2)] unat_diff_le [OF assms(2)]
  show "unat (ack - una) = unat ack - unat una" "unat (nxt - una) = unat nxt - unat una"
    by (rule d(1), rule d(2))
  show "unat (nxt - ack) = unat (nxt - una) - unat (ack - una)" unfolding d using le(3,4) by linarith
  show "unat (ack - una) \<le> unat (nxt - una)" unfolding d using le(3,4) by linarith
qed

lemma snd_ok_acked:
  assumes ok: "snd_ok S t" and ack: "m_snd_una t < ack" "ack \<le> m_snd_nxt t"
    and k: "seg_total (take k (m_slist t)) = unat (ack - m_snd_una t)"
  shows "unat (ack - m_snd_una t) \<le> GetBuffered (m_sbuf t)"
    and "snd_ok S (t\<lparr>m_snd_una := ack, m_sbuf := ConsumeReadData (m_sbuf t) (unat (ack - m_snd_una t)),
      m_slist := drop k (m_slist t)\<rparr>)"
proof -
  let ?n = "unat (ack - m_snd_una t)" and ?f = "m_sbuf t" and ?ss = "m_slist t"
  note w = acked_words [OF ack]
  have f: "fifo_inv ?f" "seg_total ?ss = ff_data_length ?f"
    "sent_total ?ss = unat (m_snd_nxt t - m_snd_una t)"
    using ok by (simp_all add: snd_ok_def)
  have "seg_total (take k ?ss) \<le> seg_total ?ss"
    using seg_total_simps(3) [of "take k ?ss" "drop k ?ss"] by simp
  then have n: "?n \<le> ff_data_length ?f" using k f(2) by simp
  then show "?n \<le> GetBuffered ?f" by (simp add: GetBuffered_def)
  note c = ConsumeReadData_spec [OF f(1) n]
  have una: "unat ack = unat (m_snd_una t) + ?n" using w(1) ack(1) by (simp add: word_less_nat_alt)
  have "ff_contents (ConsumeReadData ?f ?n) = drop ?n (ff_contents ?f)"
    using ff.consume_read_contents [OF f(1), of ?n] n by (simp add: GetBuffered_def)
  then have "ff_contents (ConsumeReadData ?f ?n) = drop (unat ack) S"
    using ok una by (simp add: snd_ok_def add.commute)
  moreover have "contig ack (drop k ?ss)"
    using contig_drop [of "m_snd_una t" ?ss k] ok k by (simp add: snd_ok_def)
  moreover have "sent_total (drop k ?ss) = unat (m_snd_nxt t - ack)"
    using sent_total_drop [of ?ss k] ok k w(3,4) by (simp add: snd_ok_def)
  moreover have "ack < m_recover t \<longrightarrow>
      unat (m_recover t) - unat ack \<le> unat (m_snd_nxt t - ack)"
  proof
    assume r: "ack < m_recover t"
    with ack(1) have "m_snd_una t < m_recover t" by (auto intro: less_trans)
    with ok have "unat (m_recover t) - unat (m_snd_una t) \<le> unat (m_snd_nxt t - m_snd_una t)"
      by (simp add: snd_ok_def)
    then show "unat (m_recover t) - unat ack \<le> unat (m_snd_nxt t - ack)"
      unfolding w(3) una by linarith
  qed
  ultimately show "snd_ok S (t\<lparr>m_snd_una := ack, m_sbuf := ConsumeReadData ?f ?n,
      m_slist := drop k ?ss\<rparr>)"
    using ok c n una k seg_total_drop [of k ?ss] unsent_last_drop [of ?ss k]
    by (simp add: snd_ok_def)
qed

lemma recover_nonempty:
  assumes "snd_ok S t" and "m_snd_una t \<noteq> m_snd_nxt t"
  shows "m_slist t \<noteq> []"
proof
  assume "m_slist t = []"
  then have "unat (m_snd_nxt t - m_snd_una t) = 0" using assms(1) by (simp add: snd_ok_def)
  then show False using assms(2) by (simp add: unat_eq_0)
qed

text \<open>Results of the steps that may close the connection.\<close>

definition steps_ok :: "byte list \<Rightarrow> pseudo_tcp \<Rightarrow> (bool \<times> pseudo_tcp) option \<Rightarrow> bool" where
  "steps_ok S t r \<longleftrightarrow> (\<exists>ok t'. r = Some (ok, t') \<and> snd_all S t' \<and> rcv_core t' = rcv_core t \<and>
     (m_state t' = m_state t \<or> m_state t' = TCP_CLOSED))"

lemma snd_all_closedown: "snd_all S t \<Longrightarrow> snd_all S (closedown t e)"
  by (simp add: snd_all_def closedown_def notify_def snd_ok_def mss_ok_def misc_ok_def log_ok_def)

lemma rcv_core_closedown [simp]: "rcv_core (closedown t e) = rcv_core t"
    "m_state (closedown t e) = TCP_CLOSED"
  by (simp_all add: closedown_def notify_def rcv_core_def)

lemma first_transmit_ok:
  assumes "snd_all S t" and "m_slist t \<noteq> []"
  obtains r t' where "transmit env t 0 now = Some (r, t')" "snd_all S t'" "rcv_core t' = rcv_core t"
    "misc_core t' = misc_core t"
proof -
  have o: "snd_ok S t" "log_ok S t" "mss_ok t" "misc_ok t" using assms by (simp_all add: snd_all_def)
  from transmit_ok [OF o(1-3), of 0 env now] assms(2) obtain r t' where t':
    "transmit env t 0 now = Some (r, t')" "snd_ok S t'" "log_ok S t'" "mss_ok t'"
    "rcv_core t' = rcv_core t" "misc_core t' = misc_core t" by auto
  have "misc_ok t'" using misc_ok_cong [OF t'(6)] o(4) by simp
  then have "snd_all S t'" using t' by (simp add: snd_all_def)
  with t' that show thesis by blast
qed

lemma snd_all_update [simp]:
  "snd_all S (t\<lparr>m_cwnd := v\<rparr>) = snd_all S t" "snd_all S (t\<lparr>m_rto_base := v\<rparr>) = snd_all S t"
  "snd_all S (t\<lparr>m_snd_wnd := v\<rparr>) = snd_all S t" "snd_all S (t\<lparr>m_rx_rto := v\<rparr>) = snd_all S t"
  "snd_all S (t\<lparr>m_rx_srtt := v\<rparr>) = snd_all S t" "snd_all S (t\<lparr>m_rx_rttvar := v\<rparr>) = snd_all S t"
  "snd_all S (t\<lparr>m_ts_recent := v\<rparr>) = snd_all S t" "snd_all S (t\<lparr>m_lastsend := v\<rparr>) = snd_all S t"
  "snd_all S (t\<lparr>m_largest := v\<rparr>) = snd_all S t" "snd_all S (t\<lparr>m_clock := n\<rparr>) = snd_all S t"
  "snd_all S (t\<lparr>m_lasttraffic := v\<rparr>) = snd_all S t" "snd_all S (t\<lparr>m_lastrecv := v\<rparr>) = snd_all S t"
  "snd_all S (t\<lparr>m_bOutgoing := b\<rparr>) = snd_all S t" "snd_all S (t\<lparr>m_rcv_wnd := v\<rparr>) = snd_all S t"
  "snd_all S (t\<lparr>m_rlist := rl\<rparr>) = snd_all S t" "snd_all S (t\<lparr>m_rbuf := rb\<rparr>) = snd_all S t"
  "snd_all S (t\<lparr>m_rcv_nxt := v\<rparr>) = snd_all S t" "snd_all S (t\<lparr>m_error := e\<rparr>) = snd_all S t"
  "snd_all S (t\<lparr>m_bReadEnable := b\<rparr>) = snd_all S t" "snd_all S (t\<lparr>m_bWriteEnable := b\<rparr>) = snd_all S t"
  "snd_all S (t\<lparr>m_state := st\<rparr>) = snd_all S t"
  "snd_all S (t\<lparr>m_shutdown := sd\<rparr>) = snd_all S t" "snd_all S (t\<lparr>m_use_nagling := b\<rparr>) = snd_all S t"
  "snd_all S (t\<lparr>m_ack_delay := v\<rparr>) = snd_all S t" "snd_all S (t\<lparr>m_rwnd_scale := sc\<rparr>) = snd_all S t"
  "snd_all S (t\<lparr>m_rbuf_len := v\<rparr>) = snd_all S t" "snd_all S (t\<lparr>m_support_wnd_scale := b\<rparr>) = snd_all S t"
  "snd_all S (t\<lparr>m_dup_acks := d\<rparr>) = snd_all S t"
  by (simp_all add: snd_all_def snd_ok_def mss_ok_def misc_ok_def log_ok_def)

lemma snd_all_scale: "snd_all S t \<Longrightarrow> sc < 32 \<Longrightarrow> snd_all S (t\<lparr>m_swnd_scale := sc\<rparr>)"
  by (simp add: snd_all_def snd_ok_def mss_ok_def misc_ok_def log_ok_def)

lemma shift_left_scale: "snd_all S t \<Longrightarrow> shift_left v (m_swnd_scale t) = Some (push_bit (unat (m_swnd_scale t)) v)"
  by (simp add: snd_all_def misc_ok_def shift_left_def)

lemma rcv_core_update [simp]:
  "rcv_core (t\<lparr>m_cwnd := v\<rparr>) = rcv_core t" "rcv_core (t\<lparr>m_rto_base := v\<rparr>) = rcv_core t"
  "rcv_core (t\<lparr>m_snd_wnd := v\<rparr>) = rcv_core t" "rcv_core (t\<lparr>m_rx_rto := v\<rparr>) = rcv_core t"
  "rcv_core (t\<lparr>m_rx_srtt := v\<rparr>) = rcv_core t" "rcv_core (t\<lparr>m_rx_rttvar := v\<rparr>) = rcv_core t"
  "rcv_core (t\<lparr>m_ts_recent := v\<rparr>) = rcv_core t" "rcv_core (t\<lparr>m_lastsend := v\<rparr>) = rcv_core t"
  "rcv_core (t\<lparr>m_largest := v\<rparr>) = rcv_core t" "rcv_core (t\<lparr>m_clock := n\<rparr>) = rcv_core t"
  "rcv_core (t\<lparr>m_lasttraffic := v\<rparr>) = rcv_core t" "rcv_core (t\<lparr>m_lastrecv := v\<rparr>) = rcv_core t"
  "rcv_core (t\<lparr>m_bOutgoing := b\<rparr>) = rcv_core t" "rcv_core (t\<lparr>m_rcv_wnd := v\<rparr>) = rcv_core t"
  "rcv_core (t\<lparr>m_error := e\<rparr>) = rcv_core t" "rcv_core (t\<lparr>m_state := st\<rparr>) = rcv_core t"
  "rcv_core (t\<lparr>m_bReadEnable := b\<rparr>) = rcv_core t" "rcv_core (t\<lparr>m_bWriteEnable := b\<rparr>) = rcv_core t"
  "rcv_core (t\<lparr>m_slist := ss\<rparr>) = rcv_core t" "rcv_core (t\<lparr>m_sbuf := sb\<rparr>) = rcv_core t"
  "rcv_core (t\<lparr>m_snd_una := v\<rparr>) = rcv_core t" "rcv_core (t\<lparr>m_dup_acks := d\<rparr>) = rcv_core t"
  "rcv_core (t\<lparr>m_recover := v\<rparr>) = rcv_core t" "rcv_core (t\<lparr>m_ssthresh := v\<rparr>) = rcv_core t"
  "rcv_core (t\<lparr>m_swnd_scale := sc\<rparr>) = rcv_core t" "rcv_core (t\<lparr>m_use_nagling := b\<rparr>) = rcv_core t"
  "rcv_core (t\<lparr>m_ack_delay := v\<rparr>) = rcv_core t" "rcv_core (t\<lparr>m_mtu_advise := v\<rparr>) = rcv_core t"
  by (simp_all add: rcv_core_def)

lemma steps_okI:
  "snd_all S t' \<Longrightarrow> rcv_core t' = rcv_core t \<Longrightarrow> m_state t' = m_state t \<or> m_state t' = TCP_CLOSED \<Longrightarrow>
    steps_ok S t (Some (r, t'))"
  by (auto simp: steps_ok_def)

lemma congestion_on_ack_ok:
  assumes ok: "snd_all S t"
  shows "steps_ok S t (congestion_on_ack env t nAcked now)"
proof (cases "3 \<le> m_dup_acks t")
  case dup: True
  show ?thesis
  proof (cases "m_recover t \<le> m_snd_una t")
    case True
    then show ?thesis using dup ok by (simp add: congestion_on_ack_def steps_okI)
  next
    case False
    then have lt: "m_snd_una t < m_recover t" by simp
    have "snd_ok S t" using ok by (simp add: snd_all_def)
    with lt have "unat (m_recover t) - unat (m_snd_una t) \<le> unat (m_snd_nxt t - m_snd_una t)"
      by (simp add: snd_ok_def)
    then have "m_snd_una t \<noteq> m_snd_nxt t" using lt by (auto simp: word_less_nat_alt)
    then have "m_slist t \<noteq> []" using recover_nonempty [of S t] ok by (simp add: snd_all_def)
    from first_transmit_ok [OF ok this, of env now] obtain r t' where
      t': "transmit env t 0 now = Some (r, t')" "snd_all S t'" "rcv_core t' = rcv_core t"
      "misc_core t' = misc_core t" by blast
    have st: "m_state t' = m_state t" using t'(4) by (simp add: misc_core_def)
    show ?thesis
      using dup False t'(1-3) st snd_all_closedown [OF t'(2)]
      by (cases r) (simp_all add: congestion_on_ack_def steps_okI)
  qed
next
  case False
  have s: "m_ssthresh t \<noteq> 0" using ok by (simp add: snd_all_def misc_ok_def)
  have "snd_all S (t\<lparr>m_dup_acks := 0\<rparr>)" using ok by simp
  moreover have "m_cwnd t \<noteq> 0 \<or> m_cwnd t < m_ssthresh t" using s by (auto simp: word_gt_0)
  ultimately show ?thesis using False
    by (auto simp: congestion_on_ack_def Let_def intro!: steps_okI)
qed

lemma update_rtt_core:
  "snd_all S (update_rtt t seg now) = snd_all S t" "rcv_core (update_rtt t seg now) = rcv_core t"
  "m_state (update_rtt t seg now) = m_state t" "m_slist (update_rtt t seg now) = m_slist t"
  "m_snd_una (update_rtt t seg now) = m_snd_una t" "m_snd_nxt (update_rtt t seg now) = m_snd_nxt t"
  "m_sbuf (update_rtt t seg now) = m_sbuf t" "m_largest (update_rtt t seg now) = m_largest t"
  "m_swnd_scale (update_rtt t seg now) = m_swnd_scale t"
  by (simp_all add: update_rtt_def Let_def)

lemma steps_ok_trans:
  "rcv_core t' = rcv_core t \<Longrightarrow> m_state t' = m_state t \<Longrightarrow> steps_ok S t' r \<Longrightarrow> steps_ok S t r"
  by (auto simp: steps_ok_def)

lemma process_new_ack_ok:
  assumes ok: "snd_all S t" and ack: "m_snd_una t < sg_ack seg" "sg_ack seg \<le> m_snd_nxt t"
    and al: "ack_aligned t seg"
  shows "steps_ok S t (process_new_ack env t seg now)"
proof -
  let ?n = "sg_ack seg - m_snd_una t"
  from al ack obtain k0 where "unat ?n = seg_total (take k0 (m_slist t))"
    by (metis ack_aligned_def)
  from free_acked_ok [OF this, of "m_largest t"] obtain k l where
    k: "free_acked (m_slist t) ?n (m_largest t) = Some (drop k (m_slist t), l)"
    "seg_total (take k (m_slist t)) = unat ?n" by blast
  have so: "snd_ok S t" using ok by (simp add: snd_all_def)
  note a = snd_ok_acked [OF so ack k(2)]
  define t0 where "t0 = update_rtt t seg now"
  define t1 where "t1 = t0\<lparr>m_snd_wnd := push_bit (unat (m_swnd_scale t)) (ucast (sg_wnd seg)),
    m_snd_una := sg_ack seg, m_rto_base := (if sg_ack seg = m_snd_nxt t then 0 else now),
    m_sbuf := ConsumeReadData (m_sbuf t) (unat ?n), m_slist := drop k (m_slist t), m_largest := l\<rparr>"
  have "snd_all S t1"
  proof -
    have "snd_all S t0" using ok by (simp add: t0_def update_rtt_core)
    moreover have "snd_core t0 = snd_core t"
      by (simp add: t0_def snd_core_def update_rtt_def Let_def)
    ultimately show ?thesis using a(2)
      by (simp add: t1_def snd_all_def snd_ok_def snd_core_def mss_ok_def misc_ok_def log_ok_def)
  qed
  moreover have "process_new_ack env t seg now = congestion_on_ack env t1 ?n now"
    using a(1) k(1) shift_left_scale [OF ok]
    by (simp add: process_new_ack_def Let_def t1_def t0_def update_rtt_core del: free_acked.simps)
  moreover have "rcv_core t1 = rcv_core t" "m_state t1 = m_state t"
    by (simp_all add: t1_def t0_def update_rtt_core)
  ultimately show ?thesis using congestion_on_ack_ok [of S t1 env ?n now] steps_ok_trans by metis
qed

lemma snd_all_recover:
  assumes "snd_all S t" and "v \<noteq> 0"
  shows "snd_all S (t\<lparr>m_recover := m_snd_nxt t, m_ssthresh := v\<rparr>)"
proof -
  have "m_snd_una t < m_snd_nxt t \<longrightarrow>
      unat (m_snd_nxt t) - unat (m_snd_una t) \<le> unat (m_snd_nxt t - m_snd_una t)"
    using unat_diff_le [of "m_snd_una t" "m_snd_nxt t"] by simp
  with assms show ?thesis
    by (simp add: snd_all_def snd_ok_def mss_ok_def misc_ok_def log_ok_def)
qed

text \<open>Half of what is in flight or two segments, whichever is more, is never zero.\<close>

lemma ssthresh_nonzero:
  assumes "mss_ok t"
  shows "max v (2 * m_mss t) \<noteq> 0"
proof -
  have "unat (2 * m_mss t) = 2 * unat (m_mss t)"
    using assms by (simp add: mss_ok_def unat_word_ariths)
  moreover have "0 < unat (m_mss t)" using assms by (simp add: mss_ok_def word_less_nat_alt)
  ultimately have "0 < 2 * m_mss t" by (simp add: word_less_nat_alt)
  then show ?thesis by (auto simp: max_def)
qed

lemma process_dup_ack_ok:
  assumes ok: "snd_all S t"
  shows "steps_ok S t (process_dup_ack env t seg now)"
proof -
  define t0 where "t0 = t\<lparr>m_snd_wnd := push_bit (unat (m_swnd_scale t)) (ucast (sg_wnd seg))\<rparr>"
  have ok0: "snd_all S t0" "rcv_core t0 = rcv_core t" "m_state t0 = m_state t"
    using ok by (simp_all add: t0_def)
  define t1 where "t1 = t0\<lparr>m_dup_acks := m_dup_acks t0 + 1\<rparr>"
  have ok1: "snd_all S t1" "rcv_core t1 = rcv_core t" "m_state t1 = m_state t"
    using ok0 by (simp_all add: t1_def)
  note eq = process_dup_ack_def [of env t seg now, unfolded shift_left_scale [OF ok] option.case Let_def, folded t0_def,
    folded t1_def]
  show ?thesis
  proof (cases "\<not> sg_len seg > 0 \<and> m_snd_una t0 \<noteq> m_snd_nxt t0 \<and> m_dup_acks t1 = 3")
    case False
    then show ?thesis using ok0 ok1 by (auto simp: eq intro!: steps_okI)
  next
    case True
    have "snd_ok S t1" "m_snd_una t1 \<noteq> m_snd_nxt t1"
      using True ok1(1) by (simp_all add: snd_all_def t1_def)
    from first_transmit_ok [OF ok1(1) recover_nonempty [OF this], of env now] obtain r t' where
      t': "transmit env t1 0 now = Some (r, t')" "snd_all S t'" "rcv_core t' = rcv_core t1"
      "misc_core t' = misc_core t1" by blast
    have st: "m_state t' = m_state t" "rcv_core t' = rcv_core t"
      using t'(3,4) ok1 by (simp_all add: misc_core_def)
    show ?thesis
    proof (cases r)
      case False
      with True t' st snd_all_closedown [OF t'(2)] show ?thesis by (simp add: eq steps_okI)
    next
      case ok: True
      have "mss_ok t'" using t'(2) by (simp add: snd_all_def)
      from snd_all_recover [OF t'(2) ssthresh_nonzero [OF this]] ok True t'(1) st
      show ?thesis by (auto simp: eq intro!: steps_okI)
    qed
  qed
qed

lemma process_ack_ok:
  assumes "snd_all S t" and "ack_aligned t seg"
  shows "steps_ok S t (process_ack env t seg now)"
  using process_new_ack_ok [OF assms(1) _ _ assms(2)] process_dup_ack_ok [OF assms(1)] assms(1)
  by (simp add: process_ack_def steps_okI)

end
