(* ===== verification/PseudoTcpRecv.thy ===== *)
theory PseudoTcpRecv
  imports PseudoTcpAck
begin

text \<open>
  The receiving half: reassembly. The invariant \<open>rcv_ok\<close> has a part that holds whatever the
  peer sends (the saved segments fit the buffer) and, under the flag \<open>h\<close> for an honest peer, the
  part about content: \<open>P\<close> is the stream of the peer, \<open>D\<close> what the user has read so far, and
  \<open>b\<close> the sequence number at which the user data starts, behind the connect message.
\<close>

section \<open>The invariant\<close>

abbreviation rseg_end :: "rsegment \<Rightarrow> nat" where
  "rseg_end r \<equiv> unat (rs_seq r) + unat (rs_len r)"

definition rseg_ok :: "bool \<Rightarrow> byte list \<Rightarrow> fifo_buffer \<Rightarrow> nat \<Rightarrow> rsegment \<Rightarrow> bool" where
  "rseg_ok h P f nxt r \<longleftrightarrow> rseg_end r < 2 ^ 32 \<and> rseg_end r \<le> nxt + GetWriteRemaining f \<and>
     (h \<longrightarrow> rseg_end r \<le> length P \<and>
        (\<forall>j. unat (rs_seq r) \<le> j \<and> nxt \<le> j \<and> j < rseg_end r \<longrightarrow>
           ff_view f ! (ff_data_length f + (j - nxt)) = P ! j))"

text \<open>The receive buffer against the stream; \<open>nxt\<close> is the next sequence number.\<close>

definition rbuf_ok :: "bool \<Rightarrow> byte list \<Rightarrow> byte list \<Rightarrow> nat \<Rightarrow> fifo_buffer \<Rightarrow> nat \<Rightarrow> bool" where
  "rbuf_ok h P D b f nxt \<longleftrightarrow> fifo_inv f \<and> ff_state f \<noteq> SS_CLOSED \<and> ff_buffer_length f < 2 ^ 31 \<and>
     (h \<longrightarrow> b \<le> nxt \<and> nxt \<le> length P \<and> D @ ff_contents f = drop b (take nxt P))"

definition rcv_ok :: "bool \<Rightarrow> byte list \<Rightarrow> byte list \<Rightarrow> nat \<Rightarrow> pseudo_tcp \<Rightarrow> bool" where
  "rcv_ok h P D b t \<longleftrightarrow> m_rwnd_scale t = 0 \<and>
     rbuf_ok (h \<and> m_shutdown t = SD_NONE) P D b (m_rbuf t) (unat (m_rcv_nxt t)) \<and>
     (m_shutdown t = SD_NONE \<longrightarrow> list_all (rseg_ok h P (m_rbuf t) (unat (m_rcv_nxt t))) (m_rlist t))"

lemma rcv_ok_cong: "rcv_core t' = rcv_core t \<Longrightarrow> rcv_ok h P D b t' = rcv_ok h P D b t"
  by (simp add: rcv_ok_def rcv_core_def)

section \<open>Committing and staging\<close>

lemma take_drop_extend:
  assumes "nxt + n \<le> length P" "b \<le> nxt"
  shows "drop b (take (nxt + n) P) = drop b (take nxt P) @ take n (drop nxt P)"
  using assms by (simp add: take_add drop_append)

text \<open>Committing \<open>n\<close> staged bytes that agree with the stream.\<close>

lemma commit_rbuf_ok:
  assumes ok: "rbuf_ok h P D b f nxt" and n: "n \<le> GetWriteRemaining f"
    and content: "h \<Longrightarrow> nxt + n \<le> length P \<and>
      (\<forall>j. nxt \<le> j \<and> j < nxt + n \<longrightarrow> ff_view f ! (ff_data_length f + (j - nxt)) = P ! j)"
  shows "rbuf_ok h P D b (ConsumeWriteBuffer f n) (nxt + n)"
proof -
  have f: "fifo_inv f" using ok by (simp add: rbuf_ok_def)
  note c = ConsumeWriteBuffer_spec [OF f n]
  have view: "length (ff_view f) = ff_buffer_length f" by (rule length_ff_view [OF f])
  have fit: "ff_data_length f + n \<le> ff_buffer_length f"
    using n f by (auto simp: GetWriteRemaining_def fifo_inv_def)
  have "ff_contents (ConsumeWriteBuffer f n) = ff_contents f @ take n (drop nxt P)" if h
  proof -
    have "take n (drop (ff_data_length f) (ff_view f)) = take n (drop nxt P)"
    proof (rule nth_equalityI)
      show "length (take n (drop (ff_data_length f) (ff_view f))) = length (take n (drop nxt P))"
        using view fit content [OF that] by auto
      fix i assume "i < length (take n (drop (ff_data_length f) (ff_view f)))"
      then have i: "i < n" by simp
      then show "take n (drop (ff_data_length f) (ff_view f)) ! i = take n (drop nxt P) ! i"
        using view fit content [OF that] by (auto simp: dest!: spec [of _ "nxt + i"])
    qed
    then show ?thesis using c by (simp add: ff_contents_def take_add)
  qed
  then have "D @ ff_contents (ConsumeWriteBuffer f n) = drop b (take (nxt + n) P)" if h
    using that ok take_drop_extend [of nxt n P b] content [OF that]
    by (simp add: rbuf_ok_def flip: append_assoc)
  with ok c content show ?thesis by (auto simp: rbuf_ok_def)
qed

lemma rseg_ok_commit:
  assumes "rseg_ok h P f nxt r" and "fifo_inv f" and "n \<le> GetWriteRemaining f"
  shows "rseg_ok h P (ConsumeWriteBuffer f n) (nxt + n) r"
proof -
  note c = ConsumeWriteBuffer_spec [OF assms(2,3)]
  have "nxt + n + GetWriteRemaining (ConsumeWriteBuffer f n) = nxt + GetWriteRemaining f"
    using c assms(3) by (simp add: GetWriteRemaining_def)
  then show ?thesis using assms(1) c by (auto simp: rseg_ok_def)
qed

text \<open>Staging stream bytes at the sequence number \<open>s\<close>.\<close>

lemma stage_ok:
  assumes ok: "rbuf_ok h P D b f nxt" and d: "d \<noteq> []" and s: "nxt \<le> s"
    and fit: "s - nxt + length d \<le> GetWriteRemaining f"
    and honest: "h' \<Longrightarrow> s + length d \<le> length P \<and> d = take (length d) (drop s P)"
  obtains f' where "WriteOffset f d (s - nxt) = (SR_SUCCESS, length d, f')"
    "rbuf_ok h P D b f' nxt" "GetWriteRemaining f' = GetWriteRemaining f"
    "\<And>r. rseg_ok h' P f nxt r \<Longrightarrow> rseg_ok h' P f' nxt r"
    "h' \<Longrightarrow> (\<forall>j. s \<le> j \<and> j < s + length d \<longrightarrow> ff_view f' ! (ff_data_length f' + (j - nxt)) = P ! j)"
proof -
  have f: "fifo_inv f" "ff_state f \<noteq> SS_CLOSED" using ok by (simp_all add: rbuf_ok_def)
  have room: "GetBuffered f + (s - nxt) + length d \<le> ff_buffer_length f"
    using fit d f(1) by (auto simp: GetWriteRemaining_def GetBuffered_def fifo_inv_def)
  obtain f' where w: "WriteOffset f d (s - nxt) = (SR_SUCCESS, length d, f')" "fifo_inv f'"
    "ff_state f' \<noteq> SS_CLOSED" "ff_contents f' = ff_contents f" "GetBuffered f' = GetBuffered f"
    "ff_buffer_length f' = ff_buffer_length f"
    "ff_view f' = mem_write (ff_view f) (GetBuffered f + (s - nxt)) d"
    using ff.write_stages [OF f room d] by metis
  have view: "length (ff_view f) = ff_buffer_length f" by (rule length_ff_view [OF f(1)])
  have nth: "ff_view f' ! (ff_data_length f' + (j - nxt)) =
      (if s \<le> j \<and> j < s + length d then d ! (j - s) else ff_view f ! (ff_data_length f + (j - nxt)))"
    if "nxt \<le> j" "ff_data_length f + (j - nxt) < ff_buffer_length f" for j
    using that s room w(5) view unfolding w(7)
    by (subst nth_mem_write) (auto simp: GetBuffered_def intro!: arg_cong [of _ _ "(!) d"])
  have dP: "d ! (j - s) = P ! j" if h' "s \<le> j" "j < s + length d" for j
  proof -
    have "d ! (j - s) = take (length d) (drop s P) ! (j - s)" using honest [OF that(1)] by simp
    also have "\<dots> = P ! j" using that conjunct1 [OF honest [OF that(1)]] by simp
    finally show ?thesis .
  qed
  have inb: "ff_data_length f + (j - nxt) < ff_buffer_length f"
    if "j < nxt + GetWriteRemaining f" "nxt \<le> j" for j
    using that f(1) by (auto simp: GetWriteRemaining_def fifo_inv_def)
  show thesis
  proof (rule that [OF w(1)])
    show "rbuf_ok h P D b f' nxt" using ok w by (simp add: rbuf_ok_def)
    show rem: "GetWriteRemaining f' = GetWriteRemaining f"
      using w(5,6) by (simp add: GetWriteRemaining_def GetBuffered_def)
    show "rseg_ok h' P f' nxt r" if "rseg_ok h' P f nxt r" for r
      using that inb nth dP by (auto simp: rseg_ok_def rem)
    show "\<forall>j. s \<le> j \<and> j < s + length d \<longrightarrow> ff_view f' ! (ff_data_length f' + (j - nxt)) = P ! j" if h'
      using inb nth dP [OF that] fit s by auto
  qed
qed

section \<open>Recovering saved segments\<close>

lemma recover_rlist_ok:
  assumes "rbuf_ok h P D b (m_rbuf t) (unat (m_rcv_nxt t))"
    and "list_all (rseg_ok h P (m_rbuf t) (unat (m_rcv_nxt t))) rs"
    and "recover_rlist t rs rc = (rc', t')"
  shows "rbuf_ok h P D b (m_rbuf t') (unat (m_rcv_nxt t')) \<and>
    list_all (rseg_ok h P (m_rbuf t') (unat (m_rcv_nxt t'))) (m_rlist t') \<and>
    m_rwnd_scale t' = m_rwnd_scale t \<and> m_shutdown t' = m_shutdown t \<and> m_state t' = m_state t \<and>
    snd_all S t' = snd_all S t"
  using assms
proof (induction rs arbitrary: t rc)
  case Nil
  then show ?case by auto
next
  case (Cons r rs)
  let ?nxt = "unat (m_rcv_nxt t)" and ?f = "m_rbuf t"
  have r: "rseg_ok h P ?f ?nxt r" and rs: "list_all (rseg_ok h P ?f ?nxt) rs"
    using Cons.prems(2) by simp_all
  have e: "unat (rs_seq r + rs_len r) = rseg_end r"
    using r unat_add_small [of "rs_seq r" "rs_len r"] by (simp add: rseg_ok_def)
  show ?case
  proof (cases "rs_seq r \<le> m_rcv_nxt t \<and> rs_seq r + rs_len r > m_rcv_nxt t")
    case True
    let ?n = "rs_seq r + rs_len r - m_rcv_nxt t"
    have "m_rcv_nxt t \<le> rs_seq r + rs_len r" using True by (simp add: less_imp_le)
    then have n: "unat ?n = rseg_end r - ?nxt" using unat_diff_le [of "m_rcv_nxt t"] e by simp
    have lt: "?nxt < rseg_end r" using True e by (simp add: word_less_nat_alt)
    have fit: "unat ?n \<le> GetWriteRemaining ?f" using r n lt by (auto simp: rseg_ok_def)
    have nxt: "unat (m_rcv_nxt t + ?n) = ?nxt + unat ?n" using e n lt by simp
    let ?t1 = "t\<lparr>m_rbuf := ConsumeWriteBuffer ?f (unat ?n), m_rcv_nxt := m_rcv_nxt t + ?n,
      m_rcv_wnd := m_rcv_wnd t - ?n\<rparr>"
    have ok1: "rbuf_ok h P D b (ConsumeWriteBuffer ?f (unat ?n)) (?nxt + unat ?n)"
      by (rule commit_rbuf_ok [OF Cons.prems(1) fit])
        (use r n lt True in \<open>auto simp: rseg_ok_def word_le_nat_alt\<close>)
    have f: "fifo_inv ?f" using Cons.prems(1) by (simp add: rbuf_ok_def)
    have rs1: "list_all (rseg_ok h P (ConsumeWriteBuffer ?f (unat ?n)) (?nxt + unat ?n)) rs"
      using rs rseg_ok_commit [OF _ f fit] by (auto simp: list_all_iff)
    have run: "recover_rlist ?t1 rs True = (rc', t')" using Cons.prems(3) True by (simp add: Let_def)
    have "rbuf_ok h P D b (m_rbuf ?t1) (unat (m_rcv_nxt ?t1))"
      "list_all (rseg_ok h P (m_rbuf ?t1) (unat (m_rcv_nxt ?t1))) rs"
      using ok1 rs1 nxt by simp_all
    from Cons.IH [OF this run] show ?thesis by simp
  next
    case False
    show ?thesis
    proof (cases "rs_seq r \<le> m_rcv_nxt t")
      case True
      with False Cons.prems(3) have "recover_rlist t rs rc = (rc', t')" by simp
      from Cons.IH [OF Cons.prems(1) rs this] show ?thesis .
    next
      case later: False
      with Cons.prems(3) have "t' = t\<lparr>m_rlist := r # rs\<rparr>" by simp
      with Cons.prems(1,2) show ?thesis by simp
    qed
  qed
qed

section \<open>Receiving a segment\<close>

text \<open>A segment as the peer built it: its payload is the piece of the stream at its sequence
  number, and the stream is shorter than the sequence space.\<close>

definition seg_wf :: "bool \<Rightarrow> byte list \<Rightarrow> segment \<Rightarrow> bool" where
  "seg_wf h P seg \<longleftrightarrow> unat (sg_len seg) \<le> length (sg_data seg) \<and>
     unat (sg_seq seg) + unat (sg_len seg) < 2 ^ 32 \<and>
     (h \<and> sg_len seg \<noteq> 0 \<longrightarrow> unat (sg_seq seg) + unat (sg_len seg) \<le> length P \<and>
        take (unat (sg_len seg)) (sg_data seg) =
          take (unat (sg_len seg)) (drop (unat (sg_seq seg)) P))"

lemma trim_front_ok:
  fixes t :: pseudo_tcp
  assumes "seg_wf h P seg"
  defines "seg' \<equiv> trim_front t seg"
  shows "seg_wf h P seg'" and "sg_len seg' = 0 \<or> m_rcv_nxt t \<le> sg_seq seg'"
    and "sg_flags seg' = sg_flags seg"
proof -
  show "seg_wf h P seg'"
  proof (cases "sg_seq seg < m_rcv_nxt t \<and> m_rcv_nxt t - sg_seq seg < sg_len seg")
    case True
    let ?a = "m_rcv_nxt t - sg_seq seg"
    have a: "unat ?a = unat (m_rcv_nxt t) - unat (sg_seq seg)" "unat (sg_seq seg) < unat (m_rcv_nxt t)"
      using True unat_diff_less [of "sg_seq seg" "m_rcv_nxt t"] by (simp_all add: word_less_nat_alt)
    have l: "unat (sg_len seg - ?a) = unat (sg_len seg) - unat ?a" "unat ?a < unat (sg_len seg)"
      using True unat_diff_less [of ?a "sg_len seg"] by (simp_all add: word_less_nat_alt)
    have eq: "seg' = seg\<lparr>sg_seq := m_rcv_nxt t, sg_data := drop (unat ?a) (sg_data seg),
        sg_len := sg_len seg - ?a\<rparr>"
      using True by (simp add: seg'_def trim_front_def Let_def)
    have "take (unat (sg_len seg) - unat ?a) (drop (unat ?a) (sg_data seg)) =
        take (unat (sg_len seg) - unat ?a) (drop (unat (m_rcv_nxt t)) P)" if h
    proof -
      have "take (unat (sg_len seg) - unat ?a) (drop (unat ?a) (sg_data seg)) =
          drop (unat ?a) (take (unat (sg_len seg)) (sg_data seg))" by (simp add: drop_take)
      also have "\<dots> = drop (unat ?a) (take (unat (sg_len seg)) (drop (unat (sg_seq seg)) P))"
        using assms(1) that l(2) by (auto simp: seg_wf_def)
      also have "\<dots> = take (unat (sg_len seg) - unat ?a) (drop (unat (m_rcv_nxt t)) P)"
        using a by (simp add: drop_take)
      finally show ?thesis .
    qed
    then show ?thesis using assms(1) a l by (auto simp: seg_wf_def eq)
  next
    case False
    then show ?thesis using assms(1) by (auto simp: seg'_def trim_front_def seg_wf_def Let_def)
  qed
  show "sg_len seg' = 0 \<or> m_rcv_nxt t \<le> sg_seq seg'" "sg_flags seg' = sg_flags seg"
    by (auto simp: seg'_def trim_front_def Let_def)
qed

lemma seg_wf_shorten:
  "seg_wf h P seg \<Longrightarrow> unat l \<le> unat (sg_len seg) \<Longrightarrow> seg_wf h P (seg\<lparr>sg_len := l\<rparr>)"
  by (cases "sg_len seg = 0")
    (auto simp: seg_wf_def min_def unat_eq_0 dest: arg_cong [of _ _ "take (unat l)"])

lemma trim_back_ok:
  fixes t :: pseudo_tcp
  assumes wf: "seg_wf h P seg" and seq: "sg_len seg = 0 \<or> m_rcv_nxt t \<le> sg_seq seg"
    and buf: "rbuf_ok h' P D b (m_rbuf t) (unat (m_rcv_nxt t))"
  defines "seg' \<equiv> trim_back t seg"
  shows "seg_wf h P seg'" and "sg_len seg' = 0 \<or> m_rcv_nxt t \<le> sg_seq seg' \<and>
      unat (sg_seq seg') - unat (m_rcv_nxt t) + unat (sg_len seg') \<le> GetWriteRemaining (m_rbuf t)"
    and "sg_flags seg' = sg_flags seg" and "sg_seq seg' = sg_seq seg"
proof -
  let ?av = "of_nat (GetWriteRemaining (m_rbuf t)) :: u32"
  let ?w = "sg_seq seg + sg_len seg - m_rcv_nxt t"
  have "GetWriteRemaining (m_rbuf t) < 2 ^ 32" using buf by (auto simp: rbuf_ok_def GetWriteRemaining_def)
  then have av: "unat ?av = GetWriteRemaining (m_rbuf t)" by (simp add: unat_of_nat_small)
  have len: "sg_len seg' = (if ?w > ?av then if ?w - ?av < sg_len seg then sg_len seg - (?w - ?av) else 0
      else sg_len seg)"
    by (simp add: seg'_def trim_back_def Let_def)
  have s': "seg' = seg\<lparr>sg_len := sg_len seg'\<rparr>"
    by (simp add: seg'_def trim_back_def Let_def)
  show "sg_flags seg' = sg_flags seg" "sg_seq seg' = sg_seq seg" by (subst s', simp)+
  have le: "unat (sg_len seg') \<le> unat (sg_len seg)"
    using len unat_diff_less [of "?w - ?av" "sg_len seg"] by (simp split: if_splits)
  show "seg_wf h P seg'" by (subst s') (rule seg_wf_shorten [OF wf le])
  show "sg_len seg' = 0 \<or> m_rcv_nxt t \<le> sg_seq seg' \<and>
      unat (sg_seq seg') - unat (m_rcv_nxt t) + unat (sg_len seg') \<le> GetWriteRemaining (m_rbuf t)"
  proof (cases "sg_len seg' = 0")
    case False
    then have "0 < unat (sg_len seg')" by (simp add: unat_gt_0)
    with le have "0 < unat (sg_len seg)" by linarith
    then have "sg_len seg \<noteq> 0" by auto
    with seq have nxt: "m_rcv_nxt t \<le> sg_seq seg" by simp
    then have o: "unat (m_rcv_nxt t) \<le> unat (sg_seq seg)" by (simp add: word_le_nat_alt)
    have e: "unat (sg_seq seg + sg_len seg) = unat (sg_seq seg) + unat (sg_len seg)"
      using wf by (intro unat_add_small) (simp add: seg_wf_def)
    then have "m_rcv_nxt t \<le> sg_seq seg + sg_len seg" using o by (simp add: word_le_nat_alt)
    from unat_diff_le [OF this] have w: "unat ?w = unat (sg_seq seg) - unat (m_rcv_nxt t) + unat (sg_len seg)"
      using e o by simp
    have "unat (sg_seq seg) - unat (m_rcv_nxt t) + unat (sg_len seg') \<le> unat ?av"
    proof (cases "?w > ?av")
      case True
      with False len have lt: "?w - ?av < sg_len seg" by (auto split: if_splits)
      have "unat (sg_len seg') = unat (sg_len seg) - (unat ?w - unat ?av)"
        using len True lt unat_diff_less [OF lt] unat_diff_less [OF True] by simp
      moreover have "unat ?w - unat ?av < unat (sg_len seg)"
        using lt unat_diff_less [OF True] by (simp add: word_less_nat_alt)
      ultimately show ?thesis using w True by (simp add: word_less_nat_alt)
    next
      case no: False
      then show ?thesis using len w by (simp add: word_less_nat_alt not_less)
    qed
    then show ?thesis using nxt av by (simp add: \<open>sg_seq seg' = sg_seq seg\<close>)
  qed simp
qed

text \<open>The user data starts behind the last control bytes. Control bytes are expected before any
  user data: the code does not keep the buffer aligned with the sequence numbers when it skips
  control bytes, so data saved out of order before them would be delivered at the wrong place.\<close>

definition is_control :: "segment \<Rightarrow> bool" where
  "is_control seg \<longleftrightarrow> sg_flags seg AND FLAG_CTL \<noteq> 0"

definition accepts_control :: "pseudo_tcp \<Rightarrow> segment \<Rightarrow> bool" where
  "accepts_control t seg \<longleftrightarrow> is_control seg \<and> 0 < sg_len seg \<and> sg_seq seg = m_rcv_nxt t"

definition control_first :: "nat \<Rightarrow> pseudo_tcp \<Rightarrow> segment \<Rightarrow> bool" where
  "control_first b t seg \<longleftrightarrow> (accepts_control t seg \<longrightarrow> m_rlist t = [] \<and> unat (m_rcv_nxt t) = b)"

definition data_start :: "nat \<Rightarrow> pseudo_tcp \<Rightarrow> segment \<Rightarrow> nat" where
  "data_start b t seg =
     (if accepts_control t seg then unat (m_rcv_nxt t) + unat (sg_len seg) else b)"

lemma rbuf_ok_skip:
  assumes "rbuf_ok h P D b f nxt" and "h \<Longrightarrow> nxt = b \<and> nxt + n \<le> length P"
  shows "rbuf_ok h P D (nxt + n) f (nxt + n)"
  using assms by (auto simp: rbuf_ok_def)

lemma rseg_ok_skip: "rseg_ok False P f nxt r \<Longrightarrow> rseg_ok False P f (nxt + n) r"
  by (simp add: rseg_ok_def)

lemma save_rsegment_set: "set (save_rsegment rl r) = insert r (set rl)"
proof -
  let ?P = "\<lambda>x. rs_seq x < rs_seq r"
  have "set rl = set (takeWhile ?P rl) \<union> set (dropWhile ?P rl)"
    by (metis set_append takeWhile_dropWhile_id)
  then show ?thesis by (auto simp: save_rsegment_def)
qed

lemma receive_data_ok:
  assumes ok: "rcv_ok h P D b t" and wf: "seg_wf h P seg"
    and fit: "sg_len seg = 0 \<or> m_rcv_nxt t \<le> sg_seq seg \<and>
      unat (sg_seq seg) - unat (m_rcv_nxt t) + unat (sg_len seg) \<le> GetWriteRemaining (m_rbuf t)"
    and ctl: "h \<Longrightarrow> m_shutdown t = SD_NONE \<Longrightarrow> control_first b t seg"
    and run: "receive_data t seg sflags = (nd, sf, t')"
  shows "rcv_ok h P D (data_start b t seg) t' \<and> snd_all S t' = snd_all S t \<and>
    m_state t' = m_state t \<and> m_shutdown t' = m_shutdown t"
proof -
  let ?nxt = "unat (m_rcv_nxt t)" and ?f = "m_rbuf t" and ?n = "unat (sg_len seg)"
  let ?h = "h \<and> m_shutdown t = SD_NONE"
  have buf: "rbuf_ok ?h P D b ?f ?nxt" and sc: "m_rwnd_scale t = 0"
    and rl: "m_shutdown t = SD_NONE \<Longrightarrow> list_all (rseg_ok h P ?f ?nxt) (m_rlist t)"
    using ok by (simp_all add: rcv_ok_def)
  note eq = run [unfolded receive_data_def Let_def]
  consider (empty) "sg_len seg = 0"
    | (closed) "0 < sg_len seg" "m_shutdown t \<noteq> SD_NONE"
    | (control) "0 < sg_len seg" "m_shutdown t = SD_NONE" "is_control seg"
    | (data) "0 < sg_len seg" "m_shutdown t = SD_NONE" "\<not> is_control seg"
    by (auto simp: word_gt_0)
  then show ?thesis
  proof cases
    case empty
    with eq ok show ?thesis by (simp add: data_start_def accepts_control_def)
  next
    case closed
    with eq ok show ?thesis by (auto simp: rcv_ok_def rbuf_ok_def split: if_splits)
  next
    case control
    show ?thesis
    proof (cases "sg_seq seg = m_rcv_nxt t")
      case True
      have "unat (sg_seq seg) + ?n < 2 ^ 32" using wf by (simp add: seg_wf_def)
      then have nxt: "unat (m_rcv_nxt t + sg_len seg) = ?nxt + ?n" using True by (simp add: unat_add_small)
      have acc: "accepts_control t seg" using control True by (simp add: accepts_control_def)
      have t': "t' = t\<lparr>m_rcv_nxt := m_rcv_nxt t + sg_len seg\<rparr>"
        using eq control True by (simp add: is_control_def)
      have "rbuf_ok ?h P D (?nxt + ?n) ?f (?nxt + ?n)"
        by (rule rbuf_ok_skip [OF buf]) (use ctl acc wf True control(1) in \<open>auto simp: control_first_def seg_wf_def\<close>)
      moreover have "list_all (rseg_ok h P ?f (?nxt + ?n)) (m_rlist t)"
      proof (cases h)
        case True
        with ctl control acc show ?thesis by (simp add: control_first_def)
      next
        case False
        with rl [OF control(2)] rseg_ok_skip [of P ?f ?nxt] show ?thesis
          by (auto simp: list_all_iff)
      qed
      ultimately show ?thesis using sc acc nxt by (simp add: t' rcv_ok_def data_start_def)
    next
      case False
      with eq control ok show ?thesis
        by (simp add: data_start_def accepts_control_def is_control_def)
    qed
  next
    case data
    let ?s = "unat (sg_seq seg)" and ?d = "take ?n (sg_data seg)"
    have ge: "?nxt \<le> ?s" and room: "?s - ?nxt + ?n \<le> GetWriteRemaining ?f"
      using fit data(1) by (auto simp: word_le_nat_alt)
    have len: "length ?d = ?n" using wf by (simp add: seg_wf_def)
    have ne: "?d \<noteq> []" using len data(1) by (auto simp: word_gt_0 unat_eq_0)
    have off: "unat (sg_seq seg - m_rcv_nxt t) = ?s - ?nxt"
      using unat_diff_le [of "m_rcv_nxt t" "sg_seq seg"] ge by (simp add: word_le_nat_alt)
    obtain f' where w: "WriteOffset ?f ?d (?s - ?nxt) = (SR_SUCCESS, length ?d, f')"
      and f': "rbuf_ok ?h P D b f' ?nxt" "GetWriteRemaining f' = GetWriteRemaining ?f"
      and keep: "\<And>r. rseg_ok h P ?f ?nxt r \<Longrightarrow> rseg_ok h P f' ?nxt r"
      and new: "h \<Longrightarrow> \<forall>j. ?s \<le> j \<and> j < ?s + length ?d \<longrightarrow>
        ff_view f' ! (ff_data_length f' + (j - ?nxt)) = P ! j"
      by (rule stage_ok [OF buf ne ge, of h])
        (use room len wf data(1) in \<open>auto simp: seg_wf_def\<close>)
    have start: "data_start b t seg = b" using data by (simp add: data_start_def accepts_control_def)
    have rl': "list_all (rseg_ok h P f' ?nxt) (m_rlist t)"
      using rl [OF data(2)] keep by (auto simp: list_all_iff)
    show ?thesis
    proof (cases "sg_seq seg = m_rcv_nxt t")
      case False
      let ?r = "\<lparr>rs_seq = sg_seq seg, rs_len = sg_len seg\<rparr>"
      have t': "t' = t\<lparr>m_rbuf := f', m_rlist := save_rsegment (m_rlist t) ?r\<rparr>"
        using eq data False w off by (simp add: is_control_def)
      have "rseg_ok h P f' ?nxt ?r"
        using wf new f'(2) room ge len data(1) by (auto simp: rseg_ok_def seg_wf_def)
      with rl' have "list_all (rseg_ok h P f' ?nxt) (save_rsegment (m_rlist t) ?r)"
        by (simp add: list_all_iff save_rsegment_set)
      with f'(1) sc start show ?thesis by (simp add: t' rcv_ok_def)
    next
      case True
      let ?c = "ConsumeWriteBuffer f' ?n"
      let ?t1 = "t\<lparr>m_rbuf := ?c, m_rcv_nxt := m_rcv_nxt t + sg_len seg,
        m_rcv_wnd := m_rcv_wnd t - sg_len seg\<rparr>"
      have "?s + ?n < 2 ^ 32" using wf by (simp add: seg_wf_def)
      then have nxt: "unat (m_rcv_nxt t + sg_len seg) = ?nxt + ?n" using True by (simp add: unat_add_small)
      have le: "?n \<le> GetWriteRemaining f'" using room f'(2) by simp
      have c: "rbuf_ok ?h P D b ?c (?nxt + ?n)"
        by (rule commit_rbuf_ok [OF f'(1) le]) (use new wf len True data(1) in \<open>auto simp: seg_wf_def\<close>)
      have fi: "fifo_inv f'" using f'(1) by (simp add: rbuf_ok_def)
      have rl1: "list_all (rseg_ok h P ?c (?nxt + ?n)) (m_rlist t)"
        using rl' rseg_ok_commit [OF _ fi le] by (auto simp: list_all_iff)
      obtain rc where rec: "recover_rlist ?t1 (m_rlist t) False = (rc, t')"
        using eq data True w off by (auto simp: is_control_def split: prod.splits)
      have "rbuf_ok h P D b (m_rbuf ?t1) (unat (m_rcv_nxt ?t1))"
        "list_all (rseg_ok h P (m_rbuf ?t1) (unat (m_rcv_nxt ?t1))) (m_rlist t)"
        using c rl1 nxt data(2) by simp_all
      from recover_rlist_ok [OF this rec, of S] sc start data(2) show ?thesis
        by (simp add: rcv_ok_def)
    qed
  qed
qed

end
