(* ===== verification/PseudoTcpSafety.thy ===== *)
theory PseudoTcpSafety
  imports PseudoTcpRecv
begin

text \<open>
  Whole calls: every call that the users of a connection make keeps the invariants of both
  directions, and none of them runs into undefined behaviour.
\<close>

section \<open>Options and the connect message\<close>

lemma options_loop_core:
  "options_loop t buf os = (r, t') \<Longrightarrow> \<exists>sc. t' = t\<lparr>m_swnd_scale := sc\<rparr>"
proof (induction t buf os arbitrary: r t' rule: options_loop.induct)
  case (1 t buf os)
  obtain kind buf1 where k: "read_byte buf = (kind, buf1)" by (metis prod.exhaust)
  obtain opt_len buf2 where o: "read_byte buf1 = (opt_len, buf2)" by (metis prod.exhaust)
  have self: "\<exists>sc. u = t\<lparr>m_swnd_scale := sc\<rparr>" if "u = t" for u
    by (rule exI [of _ "m_swnd_scale t"]) (simp add: that)
  have app: "\<exists>sc. applyOption t kind d = t\<lparr>m_swnd_scale := sc\<rparr>" for d
  proof (cases "kind = TCP_OPT_WND_SCALE \<and> length d = 1 \<and> kind \<noteq> TCP_OPT_MSS")
    case True
    then show ?thesis by (auto simp: applyOption_def applyWindowScaleOption_def)
  next
    case False
    then show ?thesis by (intro self) (auto simp: applyOption_def)
  qed
  note run = "1.prems" [unfolded options_loop.simps [of t buf os] k o Let_def prod.case]
  note IH = "1.IH" [OF _ k [symmetric] refl]
  show ?case
  proof (cases "Length buf = 0 \<or> kind = TCP_OPT_EOL")
    case True
    with run show ?thesis by (intro self) (auto split: if_splits)
  next
    case False
    show ?thesis
    proof (cases "kind = TCP_OPT_NOOP")
      case True
      with run False have next_: "options_loop t buf1 os = (r, t')" by simp
      show ?thesis by (rule IH(1) [OF _ _ True next_]) (use False in simp_all)
    next
      case noop: False
      show ?thesis
      proof (cases "unat opt_len \<le> Length buf2")
        case True
        let ?t = "applyOption t kind (take (unat opt_len) (Data buf2))"
        from run False noop True
        have "options_loop ?t (snd (Consume buf2 (unat opt_len))) (kind # os) = (r, t')" by simp
        then have "\<exists>sc. t' = ?t\<lparr>m_swnd_scale := sc\<rparr>"
          by (rule IH(2) [OF _ _ noop o [symmetric] refl True, rotated 2]) (use False in simp_all)
        with app [of "take (unat opt_len) (Data buf2)"] show ?thesis by auto
      next
        case False
        with run \<open>\<not> (Length buf = 0 \<or> kind = TCP_OPT_EOL)\<close> noop show ?thesis
          by (intro self) simp
      qed
    qed
  qed
qed

text \<open>The scale that the options ask for does not depend on the rest of the state.\<close>

lemma applyOption_scale:
  "m_swnd_scale u = m_swnd_scale t \<Longrightarrow> m_swnd_scale (applyOption u kind d) = m_swnd_scale (applyOption t kind d)"
  "m_rwnd_scale (applyOption t kind d) = m_rwnd_scale t"
  by (simp_all add: applyOption_def applyWindowScaleOption_def)

lemma options_loop_scale:
  "m_swnd_scale u = m_swnd_scale t \<Longrightarrow> fst (options_loop u buf os) = fst (options_loop t buf os) \<and>
    m_swnd_scale (snd (options_loop u buf os)) = m_swnd_scale (snd (options_loop t buf os)) \<and>
    m_rwnd_scale (snd (options_loop t buf os)) = m_rwnd_scale t"
proof (induction t buf os arbitrary: u rule: options_loop.induct)
  case (1 t buf os)
  obtain kind buf1 where k: "read_byte buf = (kind, buf1)" by (metis prod.exhaust)
  obtain opt_len buf2 where o: "read_byte buf1 = (opt_len, buf2)" by (metis prod.exhaust)
  note IH = "1.IH" [OF _ k [symmetric] refl]
  note app = applyOption_scale(1) [OF "1.prems"]
  note eqs = options_loop.simps [of t buf os] options_loop.simps [of u buf os] k o Let_def prod.case
  consider (stop) "Length buf = 0 \<or> kind = TCP_OPT_EOL" | (noop) "Length buf \<noteq> 0" "kind \<noteq> TCP_OPT_EOL" "kind = TCP_OPT_NOOP"
    | (opt) "Length buf \<noteq> 0" "kind \<noteq> TCP_OPT_EOL" "kind \<noteq> TCP_OPT_NOOP" "unat opt_len \<le> Length buf2"
    | (long) "Length buf \<noteq> 0" "kind \<noteq> TCP_OPT_EOL" "kind \<noteq> TCP_OPT_NOOP" "\<not> unat opt_len \<le> Length buf2" by blast
  then show ?case
  proof cases
    case noop
    from IH(1) [OF noop "1.prems"] noop show ?thesis by (simp add: eqs)
  next
    case opt
    from IH(2) [OF opt(1-3) o [symmetric] refl opt(4) app] opt show ?thesis by (simp add: eqs applyOption_scale(2))
  qed (use "1.prems" in \<open>auto simp: eqs\<close>)
qed

lemma parseOptions_scale:
  assumes "m_swnd_scale u = m_swnd_scale t" "m_rwnd_scale u = m_rwnd_scale t"
  shows "m_swnd_scale (parseOptions u d) = m_swnd_scale (parseOptions t d)"
proof -
  let ?b = "ByteBuffer_of d"
  obtain r t' where t': "options_loop t ?b [] = (r, t')" by (metis prod.exhaust)
  obtain q u' where u': "options_loop u ?b [] = (q, u')" by (metis prod.exhaust)
  have "q = r" "m_swnd_scale u' = m_swnd_scale t'" "m_rwnd_scale t' = m_rwnd_scale t" "m_rwnd_scale u' = m_rwnd_scale u"
    using options_loop_scale [OF assms(1), of ?b "[]"] options_loop_scale [OF refl, of u ?b "[]"] t' u' by simp_all
  with assms(2) show ?thesis unfolding parseOptions_def t' u' prod.case by (cases r) (simp_all add: if_distrib cong: if_cong)
qed

text \<open>A connect message does not ask for a window scale of 32 or more.\<close>

definition scale_ok :: "pseudo_tcp \<Rightarrow> segment \<Rightarrow> bool" where
  "scale_ok t seg \<longleftrightarrow> (is_control seg \<and> sg_len seg \<noteq> 0 \<and> sg_data seg ! 0 = CTL_CONNECT \<longrightarrow>
     m_swnd_scale (parseOptions t (take (unat (sg_len seg) - 1) (drop 1 (sg_data seg)))) < 32)"

lemma scale_ok_cong:
  "m_swnd_scale u = m_swnd_scale t \<Longrightarrow> m_rwnd_scale u = m_rwnd_scale t \<Longrightarrow> scale_ok u seg = scale_ok t seg"
  unfolding scale_ok_def by (simp only: parseOptions_scale [of u t])

text \<open>Without a scaled receive window, options change only the scale of the send window.\<close>

lemma parseOptions_core:
  assumes "m_rwnd_scale t = 0"
  obtains sc where "parseOptions t data = t\<lparr>m_swnd_scale := sc\<rparr>"
proof -
  obtain r t' where l: "options_loop t (ByteBuffer_of data) [] = (r, t')" by (metis prod.exhaust)
  from options_loop_core [OF l] obtain sc where t': "t' = t\<lparr>m_swnd_scale := sc\<rparr>" by blast
  with l assms have "parseOptions t data = t'" by (simp add: parseOptions_def split: option.splits)
  with t' that show thesis by blast
qed

lemma mss_level_le: "level \<le> 9 \<Longrightarrow> mss_level level mtu \<le> 9"
proof (induction level mtu rule: mss_level.induct)
  case (1 level mtu)
  show ?case
  proof (cases "level + 1 < length PACKET_MAXIMUMS \<and> PACKET_MAXIMUMS ! (level + 1) > 0 \<and>
      \<not> ucast (PACKET_MAXIMUMS ! level) \<le> mtu")
    case True
    then have "level + 1 \<noteq> 10" by (auto simp: PACKET_MAXIMUMS_def)
    then have "level + 1 \<le> 9" using "1.prems" by simp
    with "1.IH" [OF True] True show ?thesis by (simp add: mss_level.simps [of level])
  next
    case False
    then show ?thesis using "1.prems" by (simp only: mss_level.simps [of level] if_False)
  qed
qed

lemma adjustMTU_ok:
  assumes "snd_all S t"
  shows "snd_all S (adjustMTU t)" "rcv_core (adjustMTU t) = rcv_core t" "m_state (adjustMTU t) = m_state t"
    "m_slist (adjustMTU t) = m_slist t" "m_snd_una (adjustMTU t) = m_snd_una t"
    "m_snd_nxt (adjustMTU t) = m_snd_nxt t"
proof -
  let ?mss = "m_mtu_advise t - PACKET_OVERHEAD"
  have m: "117 \<le> unat (m_mtu_advise t)" "unat (m_mtu_advise t) \<le> 65535" "m_ssthresh t \<noteq> 0"
    using assms by (simp_all add: snd_all_def misc_ok_def)
  have p: "unat PACKET_OVERHEAD = 116" by (simp add: PACKET_OVERHEAD_def HEADER_SIZE_def
      UDP_HEADER_SIZE_def IP_HEADER_SIZE_def JINGLE_HEADER_SIZE_def)
  have mss: "unat ?mss = unat (m_mtu_advise t) - 116"
    using unat_diff_le [of PACKET_OVERHEAD "m_mtu_advise t"] m(1) p by (simp add: word_le_nat_alt)
  have "unat (of_nat (mss_level 0 (m_mtu_advise t)) :: u32) \<le> 9"
    using mss_level_le [of 0 "m_mtu_advise t"] by (simp add: unat_of_nat_small)
  moreover have "max (m_ssthresh t) v \<noteq> 0" for v
    using m(3) by (auto simp: max_def word_gt_0)
  ultimately show "snd_all S (adjustMTU t)"
    using assms m mss
    by (simp add: adjustMTU_def Let_def snd_all_def snd_ok_def log_ok_def mss_ok_def misc_ok_def
        word_less_nat_alt)
qed (simp_all add: adjustMTU_def Let_def rcv_core_def)

lemma snd_all_notify [simp]: "snd_all S (notify t OnTcpOpen) = snd_all S t"
    "snd_all S (notify t OnTcpReadable) = snd_all S t" "snd_all S (notify t OnTcpWriteable) = snd_all S t"
  by (simp_all add: notify_def snd_all_def snd_ok_def mss_ok_def misc_ok_def log_ok_def)

lemma notify_core [simp]: "rcv_core (notify t e) = rcv_core t" "snd_core (notify t e) = snd_core t"
    "m_state (notify t e) = m_state t" "misc_core (notify t e) = misc_core t"
    "mss_core (notify t e) = mss_core t" "m_slist (notify t e) = m_slist t"
    "m_snd_una (notify t e) = m_snd_una t" "m_snd_nxt (notify t e) = m_snd_nxt t"
  by (simp_all add: notify_def core_defs)

definition connect_message :: "pseudo_tcp \<Rightarrow> byte list" where
  "connect_message t =
     (if m_support_wnd_scale t then [CTL_CONNECT, TCP_OPT_WND_SCALE, 1, m_rwnd_scale t]
      else [CTL_CONNECT])"

lemma queueConnectMessage_eq:
  "queueConnectMessage t =
    snd (queue (t\<lparr>m_snd_wnd := of_nat (length (connect_message t))\<rparr>) (connect_message t) True)"
proof -
  note w = net_buf_WriteBytes [of _ _ "[v]" for v, folded WriteUInt8_def]
  have "net_buf (WriteUInt8 (ByteBuffer_new ORDER_NETWORK) CTL_CONNECT) [CTL_CONNECT]"
    using w [OF net_buf_new, of CTL_CONNECT] by simp
  moreover from w [OF w [OF w [OF this, of TCP_OPT_WND_SCALE], of 1], of "m_rwnd_scale t"]
  have "net_buf (WriteUInt8 (WriteUInt8 (WriteUInt8 (WriteUInt8 (ByteBuffer_new ORDER_NETWORK)
      CTL_CONNECT) TCP_OPT_WND_SCALE) 1) (m_rwnd_scale t)) [CTL_CONNECT, TCP_OPT_WND_SCALE, 1, m_rwnd_scale t]"
    by simp
  ultimately show ?thesis
    by (simp add: queueConnectMessage_def connect_message_def Let_def net_buf_Data net_buf_Length)
qed

lemma queue_sends:
  assumes "snd_all S t" and "length data < 2 ^ 32" and "queue t data c = (w, t')"
  shows "snd_all (S @ queued t data) t'" "rcv_core t' = rcv_core t" "misc_core t' = misc_core t"
    "unat w = length (queued t data)"
proof -
  have "snd_ok S t" using assms(1) by (simp add: snd_all_def)
  note q = queue_ok [OF this assms(2,3)]
  show "rcv_core t' = rcv_core t" "misc_core t' = misc_core t" "unat w = length (queued t data)"
    using q by simp_all
  have "log_ok (S @ queued t data) t'"
    using assms(1) q log_ok_mono [of S t "queued t data"] by (simp add: snd_all_def log_ok_def)
  then show "snd_all (S @ queued t data) t'"
    using assms(1) q mss_ok_cong [of t' t] misc_ok_cong [of t' t] by (simp add: snd_all_def)
qed

lemma queueConnectMessage_ok:
  assumes "snd_all S t"
  shows "snd_all (S @ queued t (connect_message t)) (queueConnectMessage t)"
    "rcv_core (queueConnectMessage t) = rcv_core t" "m_state (queueConnectMessage t) = m_state t"
proof -
  let ?t = "t\<lparr>m_snd_wnd := of_nat (length (connect_message t))\<rparr>"
  obtain w t' where q: "queue ?t (connect_message t) True = (w, t')" by (metis prod.exhaust)
  have len: "length (connect_message t) < 2 ^ 32" by (simp add: connect_message_def)
  from assms have "snd_all S ?t" by simp
  from queue_sends [OF this len q] q
  show "snd_all (S @ queued t (connect_message t)) (queueConnectMessage t)"
    "rcv_core (queueConnectMessage t) = rcv_core t" "m_state (queueConnectMessage t) = m_state t"
    by (simp_all add: queueConnectMessage_eq queued_def misc_core_def)
qed

section \<open>Processing a segment\<close>

definition tcp_inv :: "bool \<Rightarrow> byte list \<Rightarrow> byte list \<Rightarrow> byte list \<Rightarrow> nat \<Rightarrow> pseudo_tcp \<Rightarrow> bool" where
  "tcp_inv h P S D b t \<longleftrightarrow> snd_all S t \<and> rcv_ok h P D b t \<and> (m_state t = TCP_LISTEN \<longrightarrow> S = [])"

text \<open>The transitions of the connection state.\<close>

fun next_state :: "tcp_state \<Rightarrow> tcp_state \<Rightarrow> bool" where
  "next_state TCP_LISTEN s = (s \<noteq> TCP_ESTABLISHED)"
| "next_state TCP_SYN_SENT s = (s \<in> {TCP_SYN_SENT, TCP_ESTABLISHED, TCP_CLOSED})"
| "next_state TCP_SYN_RECEIVED s = (s \<in> {TCP_SYN_RECEIVED, TCP_ESTABLISHED, TCP_CLOSED})"
| "next_state TCP_ESTABLISHED s = (s \<in> {TCP_ESTABLISHED, TCP_CLOSED})"
| "next_state TCP_CLOSED s = (s = TCP_CLOSED)"

lemma next_state_refl [simp]: "next_state s s" "next_state s TCP_CLOSED"
  by (cases s; simp)+

lemma listen_nothing_sent:
  assumes "snd_all [] t"
  shows "m_snd_nxt t = m_snd_una t"
proof -
  have "snd_ok [] t" using assms by (simp add: snd_all_def)
  then have "sent_total (m_slist t) = unat (m_snd_nxt t - m_snd_una t)" "seg_total (m_slist t) = 0"
    by (simp_all add: snd_ok_def)
  with sent_le_total [of "m_slist t"] have "unat (m_snd_nxt t - m_snd_una t) = 0" by simp
  then show ?thesis by (simp add: unat_eq_0)
qed

lemma queue_una_nxt:
  "m_snd_una (snd (queue t d c)) = m_snd_una t" "m_snd_nxt (snd (queue t d c)) = m_snd_nxt t"
  by (simp_all add: queue_def Let_def split: prod.splits)

definition connect_request :: "pseudo_tcp \<Rightarrow> segment \<Rightarrow> bool" where
  "connect_request t seg \<longleftrightarrow> m_state t = TCP_LISTEN \<and> sg_conv seg = m_conv t \<and>
     sg_flags seg AND FLAG_RST = 0 \<and> is_control seg \<and> sg_len seg \<noteq> 0 \<and> sg_data seg ! 0 = CTL_CONNECT"

text \<open>What a segment adds to the outgoing stream: the connect message of a listening side.\<close>

definition reply :: "pseudo_tcp \<Rightarrow> segment \<Rightarrow> byte list" where
  "reply t seg = (if connect_request t seg then queued t (connect_message t) else [])"

lemma rcv_ok_scale: "rcv_ok h P D b t \<Longrightarrow> m_rwnd_scale t = 0"
  by (simp add: rcv_ok_def)

lemma process_control_ok:
  assumes inv: "tcp_inv h P S D b t" and al: "ack_aligned t seg" and scale: "scale_ok t seg"
    and conv: "sg_conv seg = m_conv t" "sg_flags seg AND FLAG_RST = 0"
    and run: "process_control t seg = (r, t')"
  shows "tcp_inv h P (S @ reply t seg) D b t' \<and> ack_aligned t' seg \<and>
    rcv_core t' = rcv_core t \<and> next_state (m_state t) (m_state t') \<and>
    (r = Continue True \<or> m_state t' = m_state t)"
proof -
  have s: "snd_all S t" "rcv_ok h P D b t" "m_state t = TCP_LISTEN \<longrightarrow> S = []"
    using inv by (simp_all add: tcp_inv_def)
  show ?thesis
  proof (cases "is_control seg \<and> sg_len seg \<noteq> 0 \<and> sg_data seg ! 0 = CTL_CONNECT")
    case False
    with run have "t' = t" "reply t seg = []"
      by (auto simp: process_control_def is_control_def reply_def connect_request_def split: if_splits)
    moreover from False run have "r = Continue True \<or> m_state t' = m_state t"
      by (auto simp: process_control_def is_control_def split: if_splits)
    ultimately show ?thesis
      using inv al by simp
  next
    case True
    let ?d = "take (unat (sg_len seg) - 1) (drop 1 (sg_data seg))"
    obtain sc where o: "parseOptions t ?d = t\<lparr>m_swnd_scale := sc\<rparr>"
      using parseOptions_core [OF rcv_ok_scale [OF s(2)]] by blast
    let ?t = "t\<lparr>m_swnd_scale := sc\<rparr>"
    have "sc < 32" using scale True o by (simp add: scale_ok_def)
    then have s1: "snd_all S ?t" using s(1) by (simp add: snd_all_scale)
    have al1: "ack_aligned ?t seg" using al by (simp add: ack_aligned_def)
    note eq = run [unfolded process_control_def Let_def o]
    show ?thesis
    proof (cases "m_state t = TCP_LISTEN")
      case listen: True
      let ?u = "?t\<lparr>m_state := TCP_SYN_RECEIVED\<rparr>"
      from eq True listen have t': "t' = queueConnectMessage ?u" "r = Continue True"
        by (simp_all add: is_control_def)
      have "snd_all S ?u" using s1 by simp
      note q = queueConnectMessage_ok [OF this]
      have "reply t seg = queued ?u (connect_message ?u)"
        using True listen conv by (simp add: reply_def connect_request_def queued_def connect_message_def)
      moreover have "m_snd_nxt t = m_snd_una t" using listen_nothing_sent s(1,3) listen by blast
      ultimately show ?thesis
        using q s(2) rcv_ok_cong [of t' t h P D b] listen
        by (auto simp: t' tcp_inv_def ack_aligned_def queueConnectMessage_eq queue_una_nxt)
    next
      case False
      have rep: "reply t seg = []" using False by (simp add: reply_def connect_request_def)
      show ?thesis
      proof (cases "m_state t = TCP_SYN_SENT")
        case sent: True
        let ?u = "?t\<lparr>m_state := TCP_ESTABLISHED\<rparr>"
        from eq True sent have t': "t' = notify (adjustMTU ?u) OnTcpOpen" "r = Continue True"
          by (simp_all add: is_control_def)
        have "snd_all S ?u" using s1 by simp
        note q = adjustMTU_ok [OF this]
        show ?thesis
          using q s(2) rcv_ok_cong [of t' t h P D b] rep sent al
          by (simp add: t' tcp_inv_def ack_aligned_def)
      next
        case other: False
        with eq True False have "t' = ?t" "r = Continue True" by (simp_all add: is_control_def)
        then show ?thesis
          using s s1 rep rcv_ok_cong [of t' t h P D b] al1 by (simp add: tcp_inv_def)
      qed
    qed
  qed
qed

text \<open>The segment as it is adjusted to what the receive buffer can take.\<close>

definition adjusted :: "pseudo_tcp \<Rightarrow> segment \<Rightarrow> segment" where
  "adjusted t seg = trim_back t (trim_front t seg)"

lemma adjusted_cong: "rcv_core t' = rcv_core t \<Longrightarrow> adjusted t' seg = adjusted t seg"
proof -
  assume "rcv_core t' = rcv_core t"
  then have "m_rcv_nxt t' = m_rcv_nxt t" "m_rbuf t' = m_rbuf t" by (simp_all add: rcv_core_def)
  then show ?thesis by (simp only: adjusted_def trim_back_def trim_front_def)
qed

lemma control_first_cong:
  "rcv_core t' = rcv_core t \<Longrightarrow> control_first b t' seg = control_first b t seg"
  by (simp add: control_first_def accepts_control_def rcv_core_def)

text \<open>The start of the user data, read off the next sequence number.\<close>

definition start_after :: "nat \<Rightarrow> pseudo_tcp \<Rightarrow> pseudo_tcp \<Rightarrow> segment \<Rightarrow> nat" where
  "start_after b t t' seg =
     (if is_control seg \<and> m_rcv_nxt t' \<noteq> m_rcv_nxt t then unat (m_rcv_nxt t') else b)"

lemma start_after_same [simp]: "m_rcv_nxt t' = m_rcv_nxt t \<Longrightarrow> start_after b t t' seg = b"
  by (simp add: start_after_def)

lemma data_start_eq:
  assumes "receive_data t seg fl = (nd, sf, t')" and "unat (sg_seq seg) + unat (sg_len seg) < 2 ^ 32"
  shows "data_start b t seg = start_after b t t' seg"
proof (cases "accepts_control t seg")
  case True
  then have t': "t' = t\<lparr>m_rcv_nxt := m_rcv_nxt t + sg_len seg\<rparr>" and n: "sg_len seg \<noteq> 0"
    and eq: "sg_seq seg = m_rcv_nxt t" "is_control seg"
    using assms(1) by (auto simp: receive_data_def accepts_control_def is_control_def Let_def)
  have "unat (m_rcv_nxt t + sg_len seg) = unat (m_rcv_nxt t) + unat (sg_len seg)"
    by (rule unat_add_small) (use assms(2) eq in simp)
  with True t' n eq show ?thesis by (simp add: data_start_def start_after_def)
next
  case False
  then have "is_control seg \<Longrightarrow> t' = t"
    using assms(1)
    by (simp add: receive_data_def accepts_control_def is_control_def Let_def split: if_splits)
  with False show ?thesis by (auto simp: data_start_def start_after_def)
qed

lemma complete_open_ok:
  assumes "tcp_inv h P S D b t"
  shows "tcp_inv h P S D b (complete_open t bc)" "rcv_core (complete_open t bc) = rcv_core t"
    "m_state (complete_open t bc) = m_state t \<or>
      \<not> bc \<and> m_state t = TCP_SYN_RECEIVED \<and> m_state (complete_open t bc) = TCP_ESTABLISHED"
proof -
  let ?t = "t\<lparr>m_state := TCP_ESTABLISHED\<rparr>"
  have "snd_all S ?t" using assms by (simp add: tcp_inv_def)
  note a = adjustMTU_ok [OF this]
  show r: "rcv_core (complete_open t bc) = rcv_core t" using a by (simp add: complete_open_def)
  show "tcp_inv h P S D b (complete_open t bc)"
    using assms a rcv_ok_cong [OF r] by (auto simp: tcp_inv_def complete_open_def)
  show "m_state (complete_open t bc) = m_state t \<or>
      \<not> bc \<and> m_state t = TCP_SYN_RECEIVED \<and> m_state (complete_open t bc) = TCP_ESTABLISHED"
    using a by (simp add: complete_open_def)
qed

lemma notify_user_ok:
  assumes "tcp_inv h P S D b t"
  shows "tcp_inv h P S D b (notify_writeable t)" "rcv_core (notify_writeable t) = rcv_core t"
    "m_state (notify_writeable t) = m_state t"
    "tcp_inv h P S D b (notify_readable t nd)" "rcv_core (notify_readable t nd) = rcv_core t"
    "m_state (notify_readable t nd) = m_state t"
proof -
  show r: "rcv_core (notify_writeable t) = rcv_core t" "rcv_core (notify_readable t nd) = rcv_core t"
    "m_state (notify_writeable t) = m_state t" "m_state (notify_readable t nd) = m_state t"
    by (simp_all add: notify_writeable_def notify_readable_def Let_def)
  have "snd_all S (notify_writeable t)" "snd_all S (notify_readable t nd)"
    using assms by (simp_all add: tcp_inv_def notify_writeable_def notify_readable_def Let_def)
  then show "tcp_inv h P S D b (notify_writeable t)" "tcp_inv h P S D b (notify_readable t nd)"
    using assms rcv_ok_cong [OF r(1)] rcv_ok_cong [OF r(2)] r by (simp_all add: tcp_inv_def)
qed

lemma attemptSend_inv:
  assumes "tcp_inv h P S D b t"
  obtains t' where "attemptSend env t fl = Some t'" "tcp_inv h P S D b t'" "rcv_core t' = rcv_core t"
    "m_state t' = m_state t"
proof -
  have "snd_all S t" using assms by (simp add: tcp_inv_def)
  from attemptSend_ok [OF this, of env fl] obtain t' where t': "attemptSend env t fl = Some t'"
    "snd_all S t'" "rcv_core t' = rcv_core t" "misc_core t' = misc_core t" by (auto simp: sends_def)
  have st: "m_state t' = m_state t" using t'(4) by (simp add: misc_core_def)
  have "tcp_inv h P S D b t'"
    using assms t' st rcv_ok_cong [OF t'(3)] by (simp add: tcp_inv_def)
  with t' st that show thesis by blast
qed

lemma process_data_ok:
  assumes inv: "tcp_inv h P S D b t" and wf: "seg_wf h P seg"
    and ctl: "h \<Longrightarrow> m_shutdown t = SD_NONE \<Longrightarrow> control_first b t (adjusted t seg)"
  obtains t' where "process_data env t seg bc = Some t'" "tcp_inv h P S D (start_after b t t' seg) t'"
    "m_state t' = m_state t \<or>
      \<not> bc \<and> m_state t = TCP_SYN_RECEIVED \<and> m_state t' = TCP_ESTABLISHED"
proof -
  define t0 where "t0 = notify_writeable (complete_open t bc)"
  note c = complete_open_ok [OF inv, of bc]
  note n = notify_user_ok [OF c(1)]
  have i0: "tcp_inv h P S D b t0" and r0: "rcv_core t0 = rcv_core t"
    using n(1,2) c(2) by (simp_all add: t0_def)
  define seg' where "seg' = adjusted t0 seg"
  have adj: "seg' = adjusted t seg" by (simp add: seg'_def adjusted_cong [OF r0])
  have ok0: "rcv_ok h P D b t0" using i0 by (simp add: tcp_inv_def)
  then have buf: "rbuf_ok (h \<and> m_shutdown t0 = SD_NONE) P D b (m_rbuf t0) (unat (m_rcv_nxt t0))"
    by (simp add: rcv_ok_def)
  note f = trim_front_ok [where t = t0, OF wf]
  note g = trim_back_ok [OF f(1,2) buf, folded adjusted_def seg'_def]
  have ctl0: "h \<Longrightarrow> m_shutdown t0 = SD_NONE \<Longrightarrow> control_first b t0 seg'"
    using ctl control_first_cong [OF r0, of b seg'] r0 by (simp add: adj rcv_core_def)
  obtain nd sf t1 where rd: "receive_data t0 seg' (ack_flags t0 seg) = (nd, sf, t1)"
    by (metis prod.exhaust)
  note ok1 = receive_data_ok [where S = S, OF ok0 g(1,2) ctl0 rd]
  have "unat (sg_seq seg') + unat (sg_len seg') < 2 ^ 32" using g(1) by (simp add: seg_wf_def)
  from data_start_eq [OF rd this] have start: "data_start b t0 seg' = start_after b t0 t1 seg'" .
  have "tcp_inv h P S D (start_after b t0 t1 seg') t1"
    using ok1 i0 by (simp add: tcp_inv_def start)
  from attemptSend_inv [OF this, of env sf] obtain t2 where t2: "attemptSend env t1 sf = Some t2"
    "tcp_inv h P S D (start_after b t0 t1 seg') t2" "rcv_core t2 = rcv_core t1" "m_state t2 = m_state t1"
    by blast
  note n2 = notify_user_ok(4-6) [OF t2(2), of nd]
  let ?t' = "notify_readable t2 nd"
  have "is_control seg' = is_control seg" using g(3) f(3) by (simp add: is_control_def)
  then have "start_after b t0 t1 seg' = start_after b t ?t' seg"
    using n2(2) t2(3) r0 by (simp add: start_after_def rcv_core_def)
  then have "tcp_inv h P S D (start_after b t ?t' seg) ?t'" using n2(1) by simp
  moreover have "process_data env t seg bc = Some ?t'"
    using rd t2(1) by (simp add: process_data_def t0_def seg'_def adjusted_def Let_def)
  moreover have "m_state ?t' = m_state t \<or>
      \<not> bc \<and> m_state t = TCP_SYN_RECEIVED \<and> m_state ?t' = TCP_ESTABLISHED"
    using n2(3) t2(4) ok1 n(3) c(3) by (simp add: t0_def)
  ultimately show thesis using that by blast
qed

text \<open>What is asked of a segment: that the stream stays below the sequence space, that it
  acknowledges whole segments, that it asks for a window scale below 32, and of an honest peer that it carries the peer's stream.\<close>

definition seg_allowed :: "bool \<Rightarrow> byte list \<Rightarrow> nat \<Rightarrow> pseudo_tcp \<Rightarrow> segment \<Rightarrow> bool" where
  "seg_allowed h P b t seg \<longleftrightarrow> seg_wf h P seg \<and> ack_aligned t seg \<and> scale_ok t seg \<and>
     (h \<and> m_shutdown t = SD_NONE \<longrightarrow> control_first b t (adjusted t seg))"

lemma update_timestamp_core:
  "snd_all S (update_timestamp t seg) = snd_all S t" "rcv_core (update_timestamp t seg) = rcv_core t"
  "m_state (update_timestamp t seg) = m_state t"
  "ack_aligned (update_timestamp t seg) seg' = ack_aligned t seg'"
  by (simp_all add: update_timestamp_def ack_aligned_def)

lemma process_ok:
  assumes inv: "tcp_inv h P S D b t" and al: "seg_allowed h P b t seg"
  obtains r t' where "process env t seg = Some (r, t')"
    "tcp_inv h P (S @ (if m_state t = TCP_CLOSED then [] else reply t seg)) D (start_after b t t' seg) t'"
    "next_state (m_state t) (m_state t')"
proof -
  let ?now = "env_now env (m_clock t)"
  define t0 where "t0 = t\<lparr>m_clock := m_clock t + 1, m_lasttraffic := ?now, m_lastrecv := ?now,
    m_bOutgoing := False\<rparr>"
  have r0: "rcv_core t0 = rcv_core t" "m_state t0 = m_state t" by (simp_all add: t0_def)
  have i0: "tcp_inv h P S D b t0"
    using inv rcv_ok_cong [OF r0(1)] by (simp add: tcp_inv_def t0_def)
  have rep: "reply t0 seg = reply t seg"
    by (simp add: reply_def connect_request_def queued_def connect_message_def t0_def)
  have n0: "m_rcv_nxt t0 = m_rcv_nxt t" "m_conv t0 = m_conv t" by (simp_all add: t0_def)
  have al0: "ack_aligned t0 seg" using al by (simp add: seg_allowed_def ack_aligned_def t0_def)
  have "scale_ok t seg" using al by (simp add: seg_allowed_def)
  then have sc0: "scale_ok t0 seg" using scale_ok_cong [of t0 t seg] by (simp add: t0_def)
  note eq = process_def [of env t seg, unfolded Now_def Let_def prod.case, folded t0_def]
  consider (conv) "sg_conv seg \<noteq> m_conv t" | (closed) "sg_conv seg = m_conv t" "m_state t = TCP_CLOSED"
    | (rst) "sg_conv seg = m_conv t" "m_state t \<noteq> TCP_CLOSED" "sg_flags seg AND FLAG_RST \<noteq> 0"
    | (go) "sg_conv seg = m_conv t" "m_state t \<noteq> TCP_CLOSED" "sg_flags seg AND FLAG_RST = 0" by blast
  then show thesis
  proof cases
    case conv
    then have "reply t seg = []" by (simp add: reply_def connect_request_def)
    with conv inv show thesis by (intro that [of False t]) (simp_all add: process_def)
  next
    case closed
    with i0 r0 n0 eq show thesis by (intro that [of False t0]) (simp_all add: t0_def)
  next
    case rst
    have "reply t seg = []" using rst by (simp add: reply_def connect_request_def)
    moreover have "tcp_inv h P S D b (closedown t0 ECONNRESET)"
      using i0 snd_all_closedown [of S t0 ECONNRESET]
        rcv_ok_cong [OF rcv_core_closedown(1), of h P D b t0 ECONNRESET] by (simp add: tcp_inv_def)
    moreover have "m_rcv_nxt (closedown t0 ECONNRESET) = m_rcv_nxt t"
      by (simp add: closedown_def notify_def n0)
    ultimately show thesis using rst r0 n0 eq
      by (intro that [of False "closedown t0 ECONNRESET"]) (simp_all add: t0_def)
  next
    case go
    obtain r1 t1 where c: "process_control t0 seg = (r1, t1)" by (metis prod.exhaust)
    note c1 = process_control_ok [OF i0 al0 sc0 _ go(3) c]
    have i1: "tcp_inv h P (S @ reply t seg) D b t1" "ack_aligned t1 seg" "rcv_core t1 = rcv_core t0"
      "next_state (m_state t) (m_state t1)" "r1 = Continue True \<or> m_state t1 = m_state t"
      using c1 go(1) n0 rep r0 by simp_all
    have nx1: "m_rcv_nxt t1 = m_rcv_nxt t" using i1(3) n0 by (simp add: rcv_core_def)
    show thesis
    proof (cases r1)
      case (Return r)
      with eq go c r0 n0 have "process env t seg = Some (r, t1)" by (simp add: t0_def)
      with i1 nx1 go show thesis by (intro that [of r t1]) simp_all
    next
      case (Continue bc)
      let ?u = "update_timestamp t1 seg" and ?S = "S @ reply t seg"
      have "snd_all ?S ?u" "ack_aligned ?u seg"
        using i1(1,2) by (simp_all add: update_timestamp_core tcp_inv_def)
      from process_ack_ok [OF this, of env ?now] obtain ok t2 where
        a: "process_ack env ?u seg ?now = Some (ok, t2)" "snd_all ?S t2" "rcv_core t2 = rcv_core t1"
        "m_state t2 = m_state t1 \<or> m_state t2 = TCP_CLOSED"
        by (auto simp: steps_ok_def update_timestamp_core)
      have i2: "tcp_inv h P ?S D b t2"
        using i1(1) a rcv_ok_cong [OF a(3)] by (auto simp: tcp_inv_def)
      have r2: "rcv_core t2 = rcv_core t" using a(3) i1(3) r0(1) by simp
      have nx2: "m_rcv_nxt t2 = m_rcv_nxt t" using r2 by (simp add: rcv_core_def)
      have st2: "next_state (m_state t) (m_state t2)" using i1(4) a(4) by auto
      show thesis
      proof (cases ok)
        case False
        with eq go c Continue a(1) r0 n0 have "process env t seg = Some (False, t2)"
          by (simp add: t0_def)
        with i2 nx2 go st2 show thesis by (intro that [of False t2]) simp_all
      next
        case True
        have "h \<Longrightarrow> m_shutdown t2 = SD_NONE \<Longrightarrow> control_first b t2 (adjusted t2 seg)"
          using al r2 control_first_cong [OF r2] adjusted_cong [OF r2]
          by (simp add: seg_allowed_def rcv_core_def)
        from process_data_ok [where env = env and bc = bc, OF i2 _ this] al obtain t3 where
          d: "process_data env t2 seg bc = Some t3" "tcp_inv h P ?S D (start_after b t2 t3 seg) t3"
          "m_state t3 = m_state t2 \<or> \<not> bc \<and> m_state t2 = TCP_SYN_RECEIVED \<and> m_state t3 = TCP_ESTABLISHED"
          by (auto simp: seg_allowed_def)
        have "process env t seg = Some (True, t3)"
          using eq go c Continue a(1) True d(1) r0 n0 by (simp add: t0_def)
        moreover have "start_after b t2 t3 seg = start_after b t t3 seg"
          by (simp add: start_after_def nx2)
        moreover have "next_state (m_state t) (m_state t3)"
          using st2 d(3) i1(5) a(4) Continue by auto
        ultimately show thesis using that d(2) go by simp
      qed
    qed
  qed
qed

end
