(* ===== verification/PseudoTcpCalls.thy ===== *)
theory PseudoTcpCalls
  imports PseudoTcpSafety
begin

text \<open>
  The calls of a connection as steps of one transition system, with what they add to the streams
  in both directions, and what holds in every reachable state.
\<close>

section \<open>Calls\<close>

lemma inv_core:
  assumes "tcp_inv h P S D b t" and "snd_all S t'" and "rcv_core t' = rcv_core t"
    and "m_state t' = TCP_LISTEN \<Longrightarrow> m_state t = TCP_LISTEN"
  shows "tcp_inv h P S D b t'"
  using assms rcv_ok_cong [OF assms(3), of h P D b] by (simp add: tcp_inv_def)

lemma NotifyPacket_ok:
  assumes inv: "tcp_inv h P S D b t" and len: "length buf < 12 \<or> 24 \<le> length buf"
    and al: "24 \<le> length buf \<and> length buf \<le> 65535 \<Longrightarrow> seg_allowed h P b t (parse_segment buf)"
  defines "seg \<equiv> parse_segment buf"
  obtains r t' where "NotifyPacket env t buf = Some (r, t')"
    "tcp_inv h P (S @ (if (24 \<le> length buf \<and> length buf \<le> 65535) \<and> m_state t \<noteq> TCP_CLOSED
        then reply t seg else [])) D
      (if 24 \<le> length buf \<and> length buf \<le> 65535 then start_after b t t' seg else b) t'"
    "next_state (m_state t) (m_state t')"
proof (cases "24 \<le> length buf \<and> length buf \<le> 65535")
  case True
  then have "NotifyPacket env t buf = process env t seg"
    by (simp add: NotifyPacket_def parse_def seg_def)
  moreover obtain r t' where
    "process env t seg = Some (r, t')" "tcp_inv h P (S @ (if m_state t = TCP_CLOSED then []
      else reply t seg)) D (start_after b t t' seg) t'" "next_state (m_state t) (m_state t')"
    by (rule process_ok [OF inv al [OF True, folded seg_def]])
  ultimately show thesis using that True by (auto split: if_splits)
next
  case False
  then have "NotifyPacket env t buf = Some (False, t)"
    using len by (auto simp: NotifyPacket_def parse_def)
  moreover have "\<not> ((24 \<le> length buf \<and> length buf \<le> 65535) \<and> m_state t \<noteq> TCP_CLOSED)"
    using False by blast
  ultimately show thesis using that inv False by (simp only: if_False append_Nil2 next_state_refl)
qed

lemma closedown_inv: "tcp_inv h P S D b t \<Longrightarrow> tcp_inv h P S D b (closedown t e)"
  by (rule inv_core) (simp_all add: tcp_inv_def snd_all_closedown)

lemma check_retransmit_ok:
  assumes inv: "tcp_inv h P S D b t"
  obtains r t' where "check_retransmit env t now = Some (r, t')" "tcp_inv h P S D b t'"
    "m_state t' = m_state t \<or> m_state t' = TCP_CLOSED"
proof (cases "m_rto_base t \<noteq> 0 \<and> TimeDiff (m_rto_base t + m_rx_rto t) now \<le> 0 \<and> m_slist t \<noteq> []")
  case True
  have s: "snd_all S t" using inv by (simp add: tcp_inv_def)
  from first_transmit_ok [OF s, of env now] True obtain r t1 where
    t1: "transmit env t 0 now = Some (r, t1)" "snd_all S t1" "rcv_core t1 = rcv_core t"
    "misc_core t1 = misc_core t" by blast
  have st: "m_state t1 = m_state t" using t1(4) by (simp add: misc_core_def)
  have i1: "tcp_inv h P S D b t1" by (rule inv_core [OF inv t1(2,3)]) (simp add: st)
  show thesis
  proof (cases r)
    case False
    with True t1(1) have "check_retransmit env t now = Some (False, closedown t1 ECONNABORTED)"
      by (simp add: check_retransmit_def)
    then show thesis by (rule that) (use closedown_inv [OF i1] st in simp_all)
  next
    case ok: True
    let ?v = "max (in_flight t1 div 2) (2 * m_mss t1)"
    let ?lim = "if m_state t1 \<in> {TCP_LISTEN, TCP_SYN_SENT, TCP_SYN_RECEIVED} then DEF_RTO else MAX_RTO"
    let ?t' = "t1\<lparr>m_ssthresh := ?v, m_cwnd := m_mss t1, m_rx_rto := min ?lim (m_rx_rto t1 * 2),
      m_rto_base := now\<rparr>"
    have "check_retransmit env t now = Some (True, ?t')"
      using True t1(1) ok by (simp add: check_retransmit_def Let_def)
    moreover have "?v \<noteq> 0" by (rule ssthresh_nonzero) (use t1(2) in \<open>simp add: snd_all_def\<close>)
    then have "snd_all S ?t'"
      using t1(2) by (simp add: snd_all_def snd_ok_def mss_ok_def misc_ok_def log_ok_def)
    ultimately show thesis
      using that inv_core [OF i1, of ?t'] st by simp
  qed
next
  case False
  then have "check_retransmit env t now = Some (True, t)" by (auto simp: check_retransmit_def)
  with that inv show thesis by simp
qed

lemma packet_inv:
  assumes inv: "tcp_inv h P S D b t"
  obtains w t' where "packet env t seq fl off 0 = Some (w, t')" "tcp_inv h P S D b t'"
    "m_state t' = m_state t"
proof -
  from packet_sends [of S t env seq fl off] inv obtain w t' where t':
    "packet env t seq fl off 0 = Some (w, t')" "snd_all S t'" "rcv_core t' = rcv_core t"
    "misc_core t' = misc_core t" by (auto simp: sends_def tcp_inv_def)
  have "m_state t' = m_state t" using t'(4) by (simp add: misc_core_def)
  with that [OF t'(1)] inv_core [OF inv t'(2,3)] show thesis by simp
qed

lemma check_probe_ok:
  assumes inv: "tcp_inv h P S D b t"
  obtains r t' where "check_probe env t now = Some (r, t')" "tcp_inv h P S D b t'"
    "m_state t' = m_state t \<or> m_state t' = TCP_CLOSED"
proof -
  obtain w t1 where p: "packet env t (m_snd_nxt t - 1) 0 0 0 = Some (w, t1)" "tcp_inv h P S D b t1"
    "m_state t1 = m_state t" by (rule packet_inv [OF inv])
  have i2: "tcp_inv h P S D b (t1\<lparr>m_lastsend := now, m_rx_rto := v\<rparr>)" for v
    by (rule inv_core [OF p(2)]) (use p(2) in \<open>simp_all add: tcp_inv_def\<close>)
  show thesis
  proof (cases "m_snd_wnd t = 0 \<and> TimeDiff (m_lastsend t + m_rx_rto t) now \<le> 0")
    case False
    then show thesis using that inv by (auto simp: check_probe_def)
  next
    case True
    show thesis
    proof (cases "TimeDiff now (m_lastrecv t) \<ge> 15000")
      case dead: True
      with True have "check_probe env t now = Some (False, closedown t ECONNABORTED)"
        by (simp add: check_probe_def)
      then show thesis by (rule that) (use closedown_inv [OF inv] in simp_all)
    next
      case False
      with True p have "check_probe env t now =
        Some (True, t1\<lparr>m_lastsend := now, m_rx_rto := min MAX_RTO (m_rx_rto t1 * 2)\<rparr>)"
        by (simp add: check_probe_def)
      then show thesis by (rule that) (use i2 p in simp_all)
    qed
  qed
qed

lemma check_delayed_ack_ok:
  assumes inv: "tcp_inv h P S D b t"
  obtains t' where "check_delayed_ack env t now = Some t'" "tcp_inv h P S D b t'"
    "m_state t' = m_state t"
proof -
  obtain w t1 where p: "packet env t (m_snd_nxt t) 0 0 0 = Some (w, t1)" "tcp_inv h P S D b t1"
    "m_state t1 = m_state t" by (rule packet_inv [OF inv])
  show thesis
  proof (cases "m_t_ack t \<noteq> 0 \<and> TimeDiff (m_t_ack t + m_ack_delay t) now \<le> 0")
    case True
    with p that show thesis by (simp add: check_delayed_ack_def)
  next
    case False
    then have "check_delayed_ack env t now = Some t" by (auto simp: check_delayed_ack_def)
    with that inv show thesis by blast
  qed
qed

lemma NotifyClock_ok:
  assumes inv: "tcp_inv h P S D b t"
  obtains t' where "NotifyClock env t now = Some t'" "tcp_inv h P S D b t'"
    "m_state t' = m_state t \<or> m_state t' = TCP_CLOSED"
proof (cases "m_state t = TCP_CLOSED")
  case True
  with inv that show thesis by (simp add: NotifyClock_def)
next
  case False
  obtain r1 t1 where 1: "check_retransmit env t now = Some (r1, t1)" "tcp_inv h P S D b t1"
    "m_state t1 = m_state t \<or> m_state t1 = TCP_CLOSED" by (rule check_retransmit_ok [OF inv])
  obtain r2 t2 where 2: "check_probe env t1 now = Some (r2, t2)" "tcp_inv h P S D b t2"
    "m_state t2 = m_state t1 \<or> m_state t2 = TCP_CLOSED" by (rule check_probe_ok [OF 1(2)])
  obtain t3 where 3: "check_delayed_ack env t2 now = Some t3" "tcp_inv h P S D b t3"
    "m_state t3 = m_state t2" by (rule check_delayed_ack_ok [OF 2(2)])
  have "NotifyClock env t now = Some (if \<not> r1 then t1 else if \<not> r2 then t2 else t3)"
    using False 1(1) 2(1) 3(1) by (simp add: NotifyClock_def)
  then show thesis by (rule that) (use 1 2 3 in auto)
qed

lemma Connect_ok:
  assumes inv: "tcp_inv h P S D b t"
  obtains r t' where "Connect env t = Some (r, t')"
    "tcp_inv h P (S @ (if m_state t = TCP_LISTEN then queued t (connect_message t) else [])) D b t'"
    "next_state (m_state t) (m_state t')"
proof (cases "m_state t = TCP_LISTEN")
  case True
  let ?t = "t\<lparr>m_state := TCP_SYN_SENT\<rparr>" and ?S = "S @ queued t (connect_message t)"
  have "snd_all S ?t" using inv by (simp add: tcp_inv_def)
  note q = queueConnectMessage_ok [OF this]
  have "queued ?t (connect_message ?t) = queued t (connect_message t)"
    by (simp add: queued_def connect_message_def)
  then have "tcp_inv h P ?S D b (queueConnectMessage ?t)"
    using q inv rcv_ok_cong [of "queueConnectMessage ?t" t h P D b] by (simp add: tcp_inv_def)
  then obtain t' where t': "attemptSend env (queueConnectMessage ?t) sfNone = Some t'"
    "tcp_inv h P ?S D b t'" "m_state t' = m_state (queueConnectMessage ?t)"
    by (rule attemptSend_inv)
  show thesis by (rule that [of 0 t']) (use True t' q in \<open>simp_all add: Connect_def\<close>)
next
  case False
  have "tcp_inv h P S D b (t\<lparr>m_error := EINVAL\<rparr>)"
    by (rule inv_core [OF inv]) (use inv in \<open>simp_all add: tcp_inv_def\<close>)
  with False that show thesis by (simp add: Connect_def)
qed

lemma sint_small: "unat w < 2 ^ 31 \<Longrightarrow> sint (w :: u32) = int (unat w)"
  using of_nat_less_iff [of "unat w" "2 ^ 31", where 'a = int] by (simp add: sint_u32)

text \<open>\<^verbatim>\<open>Send\<close> takes what fits and reports how much that was.\<close>

lemma Send_ok:
  assumes inv: "tcp_inv h P S D b t"
  obtains r t' where "Send env t buf = Some (r, t')"
    "tcp_inv h P (S @ take (nat r) buf) D b t'" "m_state t' = m_state t"
    "r = (if m_state t \<noteq> TCP_ESTABLISHED \<or> GetWriteRemaining (m_sbuf t) = 0 then - 1
          else int (min (length buf mod 2 ^ 32) (GetWriteRemaining (m_sbuf t))))"
proof (cases "m_state t \<noteq> TCP_ESTABLISHED \<or> GetWriteRemaining (m_sbuf t) = 0")
  case True
  have e: "tcp_inv h P S D b (t\<lparr>m_error := ENOTCONN\<rparr>)"
    "tcp_inv h P S D b (t\<lparr>m_bWriteEnable := True, m_error := EWOULDBLOCK\<rparr>)"
    by (rule inv_core [OF inv]; use inv in \<open>simp add: tcp_inv_def\<close>)+
  show thesis
  proof (cases "m_state t = TCP_ESTABLISHED")
    case False
    with e(1) that show thesis by (simp add: Send_def)
  next
    case est: True
    with True have "Send env t buf = Some (- 1, t\<lparr>m_bWriteEnable := True, m_error := EWOULDBLOCK\<rparr>)"
      by (simp add: Send_def)
    then show thesis by (rule that) (use e(2) True in simp_all)
  qed
next
  case False
  let ?m = "length buf mod 2 ^ 32"
  let ?d = "take ?m buf"
  have ul: "unat (of_nat (length buf) :: u32) = ?m" by (simp add: unat_of_nat)
  have len: "length ?d < 2 ^ 32" by (simp add: min.strict_coboundedI2)
  obtain w t1 where q: "queue t ?d False = (w, t1)" by (metis prod.exhaust)
  have s: "snd_all S t" using inv by (simp add: tcp_inv_def)
  note k = queue_sends [OF s len q]
  let ?S = "S @ queued t ?d"
  have i1: "tcp_inv h P ?S D b t1"
    using inv k False rcv_ok_cong [OF k(2)] by (simp add: tcp_inv_def misc_core_def)
  obtain t' where t': "attemptSend env t1 sfNone = Some t'" "tcp_inv h P ?S D b t'"
    "m_state t' = m_state t1" by (rule attemptSend_inv [OF i1])
  have "GetWriteRemaining (m_sbuf t) < 2 ^ 31"
    using s by (auto simp: snd_all_def snd_ok_def GetWriteRemaining_def)
  moreover have lq: "length (queued t ?d) = min ?m (GetWriteRemaining (m_sbuf t))"
    by (simp add: queued_def min.commute)
  ultimately have "sint w = int (length (queued t ?d))"
    using k(4) sint_small [of w] by simp
  then have r: "Send env t buf = Some (int (length (queued t ?d)), t')"
    using False q t'(1) ul by (simp add: Send_def)
  have tk: "take (length (queued t ?d)) buf = queued t ?d"
    by (simp add: queued_def min.commute min.left_commute)
  show thesis
    by (rule that [OF r]) (use t' tk k(3) lq False in \<open>simp_all add: misc_core_def\<close>)
qed

text \<open>Reading moves the view of the buffer; saved segments stay where they are.\<close>

lemma rseg_ok_read:
  assumes "rseg_ok h P f nxt r" and f: "fifo_inv f" and k: "k \<le> ff_data_length f"
  shows "rseg_ok h P (ConsumeReadData f k) nxt r"
proof -
  note c = ConsumeReadData_spec [OF f k]
  have len: "length (ff_view f) = ff_buffer_length f" "ff_data_length f \<le> ff_buffer_length f"
    using length_ff_view [OF f] f by (simp_all add: fifo_inv_def)
  have "rotate k (ff_view f) ! (ff_data_length f - k + i) = ff_view f ! (ff_data_length f + i)"
    if "i < GetWriteRemaining f" for i
    using that len k by (simp add: nth_rotate GetWriteRemaining_def)
  moreover have "GetWriteRemaining f \<le> GetWriteRemaining (ConsumeReadData f k)"
    using c by (simp add: GetWriteRemaining_def)
  moreover have "j - nxt < GetWriteRemaining f" if "nxt \<le> j" "j < rseg_end r" for j
    using that assms(1) by (auto simp: rseg_ok_def)
  ultimately show ?thesis
    using assms(1) by (auto simp: rseg_ok_def c(2,3) simp del: Nat.add_diff_assoc)
qed

lemma rcv_ok_read:
  assumes "rcv_ok h P D b t" and k: "k \<le> ff_data_length (m_rbuf t)"
  shows "rcv_ok h P (D @ take k (ff_contents (m_rbuf t))) b (t\<lparr>m_rbuf := ConsumeReadData (m_rbuf t) k\<rparr>)"
proof -
  let ?f = "m_rbuf t"
  have f: "fifo_inv ?f" using assms(1) by (simp add: rcv_ok_def rbuf_ok_def)
  note c = ConsumeReadData_spec [OF f k]
  have "ff_contents (ConsumeReadData ?f k) = drop k (ff_contents ?f)"
    using ff.consume_read_contents [OF f, of k] k by (simp add: GetBuffered_def)
  then show ?thesis
    using assms(1) c rseg_ok_read [OF _ f k] by (auto simp: rcv_ok_def rbuf_ok_def list_all_iff)
qed

lemma Recv_ok:
  assumes inv: "tcp_inv h P S D b t"
  obtains r out t' where "Recv env t n = Some (r, out, t')" "tcp_inv h P S (D @ out) b t'"
    "m_state t' = m_state t"
    "if m_state t \<noteq> TCP_ESTABLISHED \<or> ff_contents (m_rbuf t) = [] then r = - 1 \<and> out = []
     else out = take n (ff_contents (m_rbuf t)) \<and> r = int (length out)"
proof -
  let ?f = "m_rbuf t"
  have s: "snd_all S t" and rc: "rcv_ok h P D b t" using inv by (simp_all add: tcp_inv_def)
  have f: "fifo_inv ?f" "ff_state ?f \<noteq> SS_CLOSED" using rc by (simp_all add: rcv_ok_def rbuf_ok_def)
  have e: "tcp_inv h P S D b (t\<lparr>m_error := ENOTCONN\<rparr>)"
    "tcp_inv h P S D b (t\<lparr>m_bReadEnable := True, m_error := EWOULDBLOCK\<rparr>)"
    by (rule inv_core [OF inv]; use s in simp)+
  consider (conn) "m_state t \<noteq> TCP_ESTABLISHED"
    | (none) "m_state t = TCP_ESTABLISHED" "ff_data_length ?f = 0"
    | (data) "m_state t = TCP_ESTABLISHED" "0 < ff_data_length ?f" by blast
  then show thesis
  proof cases
    case conn
    with e(1) show thesis
      by (intro that [of "- 1" "[]" "t\<lparr>m_error := ENOTCONN\<rparr>"]) (simp_all add: Recv_def)
  next
    case none
    have "fifo_Read ?f n = (SR_BLOCK, [], ?f)"
      using none f(2) by (simp add: fifo_Read_def ReadOffsetLocked_def Let_def)
    with none e(2) show thesis
      by (intro that [of "- 1" "[]" "t\<lparr>m_bReadEnable := True, m_error := EWOULDBLOCK\<rparr>"])
        (simp_all add: Recv_def Let_def ff_contents_def)
  next
    case data
    let ?k = "min n (ff_data_length ?f)"
    let ?out = "take n (ff_contents ?f)"
    let ?t = "t\<lparr>m_rbuf := ConsumeReadData ?f ?k\<rparr>"
    have len: "length (ff_contents ?f) = ff_data_length ?f" by (rule length_ff_contents [OF f(1)])
    then have out: "?out = take ?k (ff_contents ?f)" by (simp add: min_def)
    have "rcv_ok h P (D @ ?out) b ?t" unfolding out by (rule rcv_ok_read [OF rc]) simp
    then have i1: "tcp_inv h P S (D @ ?out) b ?t" using inv s by (simp add: tcp_inv_def)
    have i2: "tcp_inv h P S (D @ ?out) b (?t\<lparr>m_rcv_wnd := v\<rparr>)" for v
      by (rule inv_core [OF i1]) (use s in simp_all)
    let ?v = "of_nat (GetWriteRemaining (ConsumeReadData ?f ?k)) :: u32"
    obtain t3 where t3: "attemptSend env (?t\<lparr>m_rcv_wnd := ?v\<rparr>) sfImmediateAck = Some t3"
      "tcp_inv h P S (D @ ?out) b t3" "m_state t3 = m_state (?t\<lparr>m_rcv_wnd := ?v\<rparr>)"
      by (rule attemptSend_inv [OF i2])
    have ne: "ff_contents ?f \<noteq> []" using len data(2) by auto
    have "\<exists>t'. Recv env t n = Some (int (length ?out), ?out, t') \<and>
        tcp_inv h P S (D @ ?out) b t' \<and> m_state t' = m_state t"
      using fifo_Read_eq [OF f(1) data(2), of n] data(1) t3 i1 i2
      by (simp add: Recv_def Let_def)
    then show thesis using that data(1) ne by auto
  qed
qed

lemma NotifyMTU_ok:
  assumes inv: "tcp_inv h P S D b t" and mtu: "117 \<le> unat mtu"
  shows "tcp_inv h P S D b (NotifyMTU t mtu)" "m_state (NotifyMTU t mtu) = m_state t"
proof -
  let ?t = "t\<lparr>m_mtu_advise := ucast mtu\<rparr>"
  have lt: "unat mtu < 2 ^ 16" using unsigned_less [of mtu, where 'a = nat] by simp
  then have u: "unat (ucast mtu :: u32) = unat mtu" by (simp add: unsigned_ucast_eq take_bit_nat_eq_self)
  have s: "snd_all S ?t"
    using inv mtu lt
    by (simp add: tcp_inv_def snd_all_def snd_ok_def mss_ok_def misc_ok_def log_ok_def u)
  note a = adjustMTU_ok [OF s]
  show "m_state (NotifyMTU t mtu) = m_state t" using a by (simp add: NotifyMTU_def Let_def)
  then show "tcp_inv h P S D b (NotifyMTU t mtu)"
    by (intro inv_core [OF inv]) (use s a in \<open>simp_all add: NotifyMTU_def Let_def\<close>)
qed

lemma tcp_Close_ok:
  assumes inv: "tcp_inv h P S D b t"
  shows "tcp_inv h P S D b (tcp_Close t force)" "m_state (tcp_Close t force) = m_state t"
  using inv by (auto simp: tcp_inv_def tcp_Close_def rcv_ok_def rbuf_ok_def)

text \<open>Buffer sizes: the send buffer below 2 GB, the receive buffer small enough for an unscaled
  window and set while nothing is saved out of order.\<close>

definition option_allowed :: "pseudo_tcp \<Rightarrow> tcp_option \<Rightarrow> int \<Rightarrow> bool" where
  "option_allowed t opt value \<longleftrightarrow>
     (opt = OPT_SNDBUF \<longrightarrow> 0 < value \<and> value < 2 ^ 31) \<and>
     (opt = OPT_RCVBUF \<longrightarrow> 0 < value \<and> value \<le> 0xFFFF \<and> m_rlist t = [])"

lemma resizeSendBuffer_ok:
  assumes inv: "tcp_inv h P S D b t" and v: "0 < unat v" "unat v < 2 ^ 31"
  shows "tcp_inv h P S D b (resizeSendBuffer t v)" "m_state (resizeSendBuffer t v) = m_state t"
proof -
  obtain ok g where c: "SetCapacity (m_sbuf t) (unat v) = (ok, g)" by (metis prod.exhaust)
  have f: "fifo_inv (m_sbuf t)" using inv by (simp add: tcp_inv_def snd_all_def snd_ok_def)
  note k = SetCapacity_spec [OF f v(1) c]
  show st: "m_state (resizeSendBuffer t v) = m_state t" by (simp add: resizeSendBuffer_def)
  have "snd_all S (resizeSendBuffer t v)"
    using inv k v(2) c
    by (auto simp: tcp_inv_def resizeSendBuffer_def snd_all_def snd_ok_def mss_ok_def misc_ok_def
        log_ok_def)
  then show "tcp_inv h P S D b (resizeSendBuffer t v)"
    by (intro inv_core [OF inv]) (simp_all add: resizeSendBuffer_def rcv_core_def)
qed

lemma resizeReceiveBuffer_ok:
  assumes inv: "tcp_inv h P S D b t" and v: "0 < unat v" "unat v \<le> 0xFFFF" and rl: "m_rlist t = []"
  shows "tcp_inv h P S D b (resizeReceiveBuffer t v)" "m_state (resizeReceiveBuffer t v) = m_state t"
proof -
  have sc: "scale_down v 0 = (v, 0)"
    using v(2) by (simp add: scale_down.simps [of v] word_less_nat_alt not_less)
  obtain ok g where c: "SetCapacity (m_rbuf t) (unat v) = (ok, g)" by (metis prod.exhaust)
  have f: "fifo_inv (m_rbuf t)" using inv by (simp add: tcp_inv_def rcv_ok_def rbuf_ok_def)
  note k = SetCapacity_spec [OF f v(1) c]
  have eq: "resizeReceiveBuffer t v = t\<lparr>m_rbuf := g, m_rbuf_len := v, m_rwnd_scale := 0,
      m_ssthresh := v, m_rcv_wnd := of_nat (GetWriteRemaining g)\<rparr>"
    by (simp add: resizeReceiveBuffer_def sc c Let_def)
  have "v \<noteq> 0" using v(1) by auto
  then have "snd_all S (resizeReceiveBuffer t v)"
    using inv by (simp add: eq tcp_inv_def snd_all_def snd_ok_def mss_ok_def misc_ok_def log_ok_def)
  moreover have "rcv_ok h P D b (resizeReceiveBuffer t v)"
    using inv k v(2) rl by (auto simp: eq tcp_inv_def rcv_ok_def rbuf_ok_def)
  ultimately show "tcp_inv h P S D b (resizeReceiveBuffer t v)"
    "m_state (resizeReceiveBuffer t v) = m_state t"
    using inv by (simp_all add: tcp_inv_def eq)
qed

lemma SetOption_ok:
  assumes inv: "tcp_inv h P S D b t" and al: "option_allowed t opt value"
  shows "tcp_inv h P S D b (SetOption t opt value)" "m_state (SetOption t opt value) = m_state t"
proof -
  have u: "unat (word_of_int value :: u32) = nat value" if "0 < value" "value < 2 ^ 31"
    using that by (simp add: unat_eq_nat_uint uint_word_of_int)
  have e: "tcp_inv h P S D b (t\<lparr>m_use_nagling := x\<rparr>)" "tcp_inv h P S D b (t\<lparr>m_ack_delay := y\<rparr>)" for x y
    by (rule inv_core [OF inv]; use inv in \<open>simp add: tcp_inv_def\<close>)+
  have "tcp_inv h P S D b (SetOption t opt value) \<and> m_state (SetOption t opt value) = m_state t"
  proof (cases opt)
    case OPT_SNDBUF
    with al have "0 < value" "value < 2 ^ 31" by (simp_all add: option_allowed_def)
    with OPT_SNDBUF u resizeSendBuffer_ok [OF inv, of "word_of_int value"] show ?thesis
      by (auto simp: SetOption_def)
  next
    case OPT_RCVBUF
    with al have "0 < value" "value \<le> 0xFFFF" "m_rlist t = []" by (simp_all add: option_allowed_def)
    with OPT_RCVBUF u resizeReceiveBuffer_ok [OF inv, of "word_of_int value"] show ?thesis
      by (auto simp: SetOption_def)
  qed (simp_all add: SetOption_def e)
  then show "tcp_inv h P S D b (SetOption t opt value)" "m_state (SetOption t opt value) = m_state t"
    by simp_all
qed

end
