(* ===== verification/PseudoTcpConnection.thy ===== *)
theory PseudoTcpConnection
  imports PseudoTcpCalls Transition
begin

text \<open>
  A connection and its history as one transition system. A state has the connection and three
  ghosts: everything accepted for sending so far (connect message included), everything the user
  has read, and the sequence number of the peer at which the user data starts. \<open>P\<close> is the
  whole stream of the peer. The flag \<open>h\<close> tells whether the peer is honest: its packets carry
  pieces of \<open>P\<close> at their sequence numbers, in any order, with loss and repetition.
\<close>

section \<open>Calls\<close>

datatype tcp_call = CallConnect | CallSend "byte list" | CallRecv nat | CallPacket "byte list"
  | CallClock u32 | CallMTU u16 | CallOption tcp_option int | CallClose bool

record conn =
  cn_tcp :: pseudo_tcp
  cn_out :: "byte list"
  cn_in :: "byte list"
  cn_start :: nat

definition conn_init :: "tcp_env \<Rightarrow> conn \<Rightarrow> bool" where
  "conn_init env c \<longleftrightarrow> (\<exists>conv. c = \<lparr>cn_tcp = PseudoTcp_new env conv, cn_out = [], cn_in = [],
     cn_start = 0\<rparr>)"

abbreviation whole_packet :: "byte list \<Rightarrow> bool" where
  "whole_packet buf \<equiv> 24 \<le> length buf \<and> length buf \<le> 65535"

definition packet_step :: "tcp_env \<Rightarrow> conn \<Rightarrow> byte list \<Rightarrow> conn option" where
  "packet_step env c buf =
     (case NotifyPacket env (cn_tcp c) buf of
        None \<Rightarrow> None
      | Some (r, t') \<Rightarrow>
          let t = cn_tcp c; seg = parse_segment buf
          in Some (c\<lparr>cn_tcp := t',
               cn_out := cn_out c @ (if whole_packet buf \<and> m_state t \<noteq> TCP_CLOSED then reply t seg else []),
               cn_start := (if whole_packet buf then start_after (cn_start c) t t' seg else cn_start c)\<rparr>))"

fun conn_step :: "tcp_env \<Rightarrow> conn \<Rightarrow> tcp_call \<Rightarrow> conn option" where
  "conn_step env c CallConnect =
     (case Connect env (cn_tcp c) of None \<Rightarrow> None
      | Some (r, t') \<Rightarrow> Some (c\<lparr>cn_tcp := t', cn_out := cn_out c @
          (if m_state (cn_tcp c) = TCP_LISTEN then queued (cn_tcp c) (connect_message (cn_tcp c)) else [])\<rparr>))"
| "conn_step env c (CallSend buf) =
     (case Send env (cn_tcp c) buf of None \<Rightarrow> None
      | Some (r, t') \<Rightarrow> Some (c\<lparr>cn_tcp := t', cn_out := cn_out c @ take (nat r) buf\<rparr>))"
| "conn_step env c (CallRecv n) =
     (case Recv env (cn_tcp c) n of None \<Rightarrow> None
      | Some (r, out, t') \<Rightarrow> Some (c\<lparr>cn_tcp := t', cn_in := cn_in c @ out\<rparr>))"
| "conn_step env c (CallPacket buf) = packet_step env c buf"
| "conn_step env c (CallClock now) =
     (case NotifyClock env (cn_tcp c) now of None \<Rightarrow> None | Some t' \<Rightarrow> Some (c\<lparr>cn_tcp := t'\<rparr>))"
| "conn_step env c (CallMTU mtu) = Some (c\<lparr>cn_tcp := NotifyMTU (cn_tcp c) mtu\<rparr>)"
| "conn_step env c (CallOption opt value) = Some (c\<lparr>cn_tcp := SetOption (cn_tcp c) opt value\<rparr>)"
| "conn_step env c (CallClose force) = Some (c\<lparr>cn_tcp := tcp_Close (cn_tcp c) force\<rparr>)"

text \<open>
  What the callers owe. A packet is shorter than a header prefix or has a whole header; an MTU
  leaves room for payload; the buffer sizes are sane. Everything else is up to the peer, see
  \<open>seg_allowed\<close>.
\<close>

fun call_permitted :: "bool \<Rightarrow> byte list \<Rightarrow> conn \<Rightarrow> tcp_call \<Rightarrow> bool" where
  "call_permitted h P c (CallPacket buf) = ((length buf < 12 \<or> 24 \<le> length buf) \<and>
     (whole_packet buf \<longrightarrow> seg_allowed h P (cn_start c) (cn_tcp c) (parse_segment buf)))"
| "call_permitted h P c (CallMTU mtu) = (117 \<le> unat mtu)"
| "call_permitted h P c (CallOption opt value) = option_allowed (cn_tcp c) opt value"
| "call_permitted h P c _ = True"

definition conn_inv :: "bool \<Rightarrow> byte list \<Rightarrow> conn \<Rightarrow> bool" where
  "conn_inv h P c \<longleftrightarrow> tcp_inv h P (cn_out c) (cn_in c) (cn_start c) (cn_tcp c)"

section \<open>Every call is safe\<close>

lemma PseudoTcp_new_inv: "tcp_inv h P [] [] 0 (PseudoTcp_new env conv)"
proof -
  have f: "fifo_inv (FifoBuffer_new n)" "ff_contents (FifoBuffer_new n) = []" if "0 < n" for n
    using that by (simp_all add: fifo_inv_def FifoBuffer_new_def ff_contents_def)
  have n: "ff_state (FifoBuffer_new n) = SS_OPEN" "ff_data_length (FifoBuffer_new n) = 0"
    "ff_buffer_length (FifoBuffer_new n) = n" for n by (simp_all add: FifoBuffer_new_def)
  have k: "unat DEFAULT_SND_BUF_SIZE = 92160" "unat DEFAULT_RCV_BUF_SIZE = 61440"
    "DEFAULT_RCV_BUF_SIZE \<noteq> 0" "MIN_PACKET - PACKET_OVERHEAD = 180" "unat MAX_PACKET = 65535"
    by (simp_all add: DEFAULT_SND_BUF_SIZE_def DEFAULT_RCV_BUF_SIZE_def MIN_PACKET_def
        PACKET_OVERHEAD_def HEADER_SIZE_def UDP_HEADER_SIZE_def IP_HEADER_SIZE_def
        JINGLE_HEADER_SIZE_def MAX_PACKET_def)
  have "snd_ok [] (PseudoTcp_new env conv)"
    by (simp add: snd_ok_def PseudoTcp_new_def Let_def f n k unsent_last_def)
  moreover have "log_ok [] (PseudoTcp_new env conv)" "mss_ok (PseudoTcp_new env conv)"
    "misc_ok (PseudoTcp_new env conv)"
    by (simp_all add: log_ok_def mss_ok_def misc_ok_def PseudoTcp_new_def Let_def k)
  moreover have "rcv_ok h P [] 0 (PseudoTcp_new env conv)"
    by (simp add: rcv_ok_def rbuf_ok_def PseudoTcp_new_def Let_def f n k)
  ultimately show ?thesis by (simp add: tcp_inv_def snd_all_def)
qed

lemma conn_step_safe:
  assumes "conn_inv h P c" and "call_permitted h P c call"
  shows "\<exists>c'. conn_step env c call = Some c' \<and> conn_inv h P c' \<and>
    next_state (m_state (cn_tcp c)) (m_state (cn_tcp c'))"
proof -
  let ?t = "cn_tcp c"
  have inv: "tcp_inv h P (cn_out c) (cn_in c) (cn_start c) ?t" using assms(1) by (simp add: conn_inv_def)
  have same: "next_state s s'" if "s' = s \<or> s' = TCP_CLOSED" for s s' using that by auto
  show ?thesis
  proof (cases call)
    case CallConnect
    obtain r t' where "Connect env ?t = Some (r, t')" "tcp_inv h P (cn_out c @
        (if m_state ?t = TCP_LISTEN then queued ?t (connect_message ?t) else [])) (cn_in c) (cn_start c) t'"
      "next_state (m_state ?t) (m_state t')" by (rule Connect_ok [OF inv])
    with CallConnect show ?thesis by (simp add: conn_inv_def)
  next
    case (CallSend buf)
    obtain r t' where "Send env ?t buf = Some (r, t')"
      "tcp_inv h P (cn_out c @ take (nat r) buf) (cn_in c) (cn_start c) t'" "m_state t' = m_state ?t"
      by (rule Send_ok [OF inv])
    with CallSend show ?thesis by (simp add: conn_inv_def)
  next
    case (CallRecv n)
    obtain r out t' where "Recv env ?t n = Some (r, out, t')"
      "tcp_inv h P (cn_out c) (cn_in c @ out) (cn_start c) t'" "m_state t' = m_state ?t"
      by (rule Recv_ok [OF inv])
    with CallRecv show ?thesis by (simp add: conn_inv_def)
  next
    case (CallPacket buf)
    then have al: "length buf < 12 \<or> 24 \<le> length buf"
      "whole_packet buf \<Longrightarrow> seg_allowed h P (cn_start c) ?t (parse_segment buf)"
      using assms(2) by simp_all
    obtain r t' where "NotifyPacket env ?t buf = Some (r, t')"
      "tcp_inv h P (cn_out c @ (if whole_packet buf \<and> m_state ?t \<noteq> TCP_CLOSED
          then reply ?t (parse_segment buf) else [])) (cn_in c)
        (if whole_packet buf then start_after (cn_start c) ?t t' (parse_segment buf) else cn_start c) t'"
      "next_state (m_state ?t) (m_state t')"
      by (rule NotifyPacket_ok [OF inv al])
    with CallPacket show ?thesis by (simp add: conn_inv_def packet_step_def Let_def)
  next
    case (CallClock now)
    obtain t' where "NotifyClock env ?t now = Some t'"
      "tcp_inv h P (cn_out c) (cn_in c) (cn_start c) t'" "m_state t' = m_state ?t \<or> m_state t' = TCP_CLOSED"
      by (rule NotifyClock_ok [OF inv])
    with CallClock same show ?thesis by (simp add: conn_inv_def)
  next
    case (CallMTU mtu)
    with NotifyMTU_ok [OF inv] assms(2) show ?thesis by (simp add: conn_inv_def)
  next
    case (CallOption opt v)
    with SetOption_ok [OF inv] assms(2) show ?thesis by (simp add: conn_inv_def)
  next
    case (CallClose force)
    with tcp_Close_ok [OF inv] show ?thesis by (simp add: conn_inv_def)
  qed
qed

interpretation tcp: safe_system "conn_init env" "call_permitted h P" "conn_step env" "conn_inv h P"
  for env h P
proof
  show "conn_inv h P c" if "conn_init env c" for c
    using that PseudoTcp_new_inv by (auto simp: conn_init_def conn_inv_def)
  show "\<exists>c'. conn_step env c call = Some c' \<and> conn_inv h P c'"
    if "conn_inv h P c" "call_permitted h P c call" for c call
    using conn_step_safe [OF that] by blast
qed

end
