(* ===== verification/PseudoTcpPair.thy ===== *)
theory PseudoTcpPair
  imports PseudoTcpConnection "HOL-Library.Sublist"
begin

text \<open>
  Two connections joined by a network that loses, reorders and repeats packets: a packet that
  either side ever handed to its transport may be delivered to the other side at any time, any
  number of times or never. No assumption about the content of packets is left: that the peer is
  honest is proved from the sending invariant of the other side.
\<close>

section \<open>The pair\<close>

datatype side = SideA | SideB

record pair =
  pr_a :: conn
  pr_b :: conn

fun other_side :: "side \<Rightarrow> side" where
  "other_side SideA = SideB"
| "other_side SideB = SideA"

fun end_of :: "side \<Rightarrow> pair \<Rightarrow> conn" where
  "end_of SideA p = pr_a p"
| "end_of SideB p = pr_b p"

fun set_end :: "side \<Rightarrow> conn \<Rightarrow> pair \<Rightarrow> pair" where
  "set_end SideA c p = p\<lparr>pr_a := c\<rparr>"
| "set_end SideB c p = p\<lparr>pr_b := c\<rparr>"

definition pair_init :: "(side \<Rightarrow> tcp_env) \<Rightarrow> pair \<Rightarrow> bool" where
  "pair_init env p \<longleftrightarrow> (\<forall>s. conn_init (env s) (end_of s p))"

definition pair_step :: "(side \<Rightarrow> tcp_env) \<Rightarrow> pair \<Rightarrow> side \<times> tcp_call \<Rightarrow> pair option" where
  "pair_step env p = (\<lambda>(s, call). map_option (\<lambda>c. set_end s c p) (conn_step (env s) (end_of s p) call))"

fun sent_packets :: "tcp_event list \<Rightarrow> byte list list" where
  "sent_packets [] = []"
| "sent_packets (TcpWritePacket p w # evs) = p # sent_packets evs"
| "sent_packets (ev # evs) = sent_packets evs"

definition on_wire :: "conn \<Rightarrow> byte list \<Rightarrow> bool" where
  "on_wire c buf \<longleftrightarrow> buf \<in> set (sent_packets (m_notify (cn_tcp c)))"

lemma sent_packets_set: "buf \<in> set (sent_packets evs) \<longleftrightarrow> (\<exists>w. TcpWritePacket buf w \<in> set evs)"
  by (induction evs rule: sent_packets.induct) auto

text \<open>A delivered packet was sent by the other side. The remaining conditions are on the use of
  the protocol: streams shorter than the sequence space, acknowledgements of whole segments, a window scale below 32,
  control bytes before data (see \<open>ack_aligned\<close> and \<open>control_first\<close>).\<close>

definition delivery_ok :: "pair \<Rightarrow> side \<Rightarrow> byte list \<Rightarrow> bool" where
  "delivery_ok p s buf \<longleftrightarrow>
     (let c = end_of s p; t = cn_tcp c; seg = parse_segment buf; peer = end_of (other_side s) p
      in on_wire peer buf \<and> length (cn_out peer) < 2 ^ 32 \<and> ack_aligned t seg \<and> scale_ok t seg \<and>
         (m_shutdown t = SD_NONE \<longrightarrow> control_first (cn_start c) t (adjusted t seg)))"

fun pair_permitted :: "pair \<Rightarrow> side \<times> tcp_call \<Rightarrow> bool" where
  "pair_permitted p (s, CallPacket buf) = delivery_ok p s buf"
| "pair_permitted p (s, call) = call_permitted True [] (end_of s p) call"

definition pair_inv :: "pair \<Rightarrow> bool" where
  "pair_inv p \<longleftrightarrow> (\<forall>s. conn_inv True (cn_out (end_of (other_side s) p)) (end_of s p))"

section \<open>Honest peers\<close>

lemma logged_packet_honest:
  assumes ev: "event_ok S (TcpWritePacket buf w)" and len: "whole_packet buf" and S: "length S < 2 ^ 32"
  shows "seg_wf True S (parse_segment buf)"
proof -
  let ?seg = "parse_segment buf" and ?n = "length buf - 24"
  have "unat (of_nat (length buf) :: u32) = length buf" using len by (simp add: unat_of_nat_small)
  then have n: "unat (sg_len ?seg) = ?n"
    using unat_diff_le [of HEADER_SIZE "of_nat (length buf)"] len
    by (simp add: parse_segment_def word_le_nat_alt)
  have d: "length (sg_data ?seg) = ?n" by (simp add: parse_segment_def)
  show ?thesis
  proof (cases "?n = 0")
    case True
    have "unat (sg_seq ?seg) < 2 ^ 32" using unsigned_less [of "sg_seq ?seg"] by simp
    with True n d show ?thesis by (simp add: seg_wf_def unat_eq_0)
  next
    case False
    with ev obtain k where k: "k + ?n \<le> length S" "bytes_to_long (drop 4 buf) = of_nat k"
      "drop 24 buf = take ?n (drop k S)" by auto
    then have "unat (sg_seq ?seg) = k"
      using S by (simp add: parse_segment_def unat_of_nat_small)
    moreover have "sg_data ?seg = take ?n (drop k S)" using k(3) by (simp add: parse_segment_def)
    ultimately show ?thesis using k(1) S n by (simp add: seg_wf_def)
  qed
qed

lemma on_wire_honest:
  assumes "conn_inv h P c" and "on_wire c buf"
  shows "24 \<le> length buf" "whole_packet buf \<Longrightarrow> length (cn_out c) < 2 ^ 32 \<Longrightarrow>
    seg_wf True (cn_out c) (parse_segment buf)"
proof -
  from assms obtain w where ev: "event_ok (cn_out c) (TcpWritePacket buf w)"
    by (auto simp: conn_inv_def tcp_inv_def snd_all_def log_ok_def on_wire_def sent_packets_set
        simp del: event_ok.simps)
  then show "24 \<le> length buf" by simp
  show "seg_wf True (cn_out c) (parse_segment buf)"
    if "whole_packet buf" "length (cn_out c) < 2 ^ 32"
    by (rule logged_packet_honest [OF ev that])
qed

section \<open>Growing streams\<close>

lemma rcv_ok_extend:
  assumes "rcv_ok h P D b t"
  shows "rcv_ok h (P @ Q) D b t"
proof -
  have "rseg_ok h (P @ Q) f nxt r" if "rseg_ok h P f nxt r" for f nxt r
    using that by (auto simp: rseg_ok_def nth_append)
  with assms show ?thesis by (auto simp: rcv_ok_def rbuf_ok_def list_all_iff)
qed

lemma conn_inv_extend: "conn_inv h P c \<Longrightarrow> conn_inv h (P @ Q) c"
  by (simp add: conn_inv_def tcp_inv_def rcv_ok_extend)

lemma conn_step_out: "conn_step env c call = Some c' \<Longrightarrow> \<exists>Q. cn_out c' = cn_out c @ Q"
  by (cases call) (auto simp: packet_step_def Let_def split: option.splits)

lemma end_of_set_end [simp]: "end_of s (set_end s c p) = c"
    "end_of (other_side s) (set_end s c p) = end_of (other_side s) p"
    "end_of s (set_end (other_side s) c p) = end_of s p"
  by (cases s; simp)+

lemma other_side_cases: "(s :: side) = s' \<or> s = other_side s'"
  by (cases s; cases s'; simp)

lemma other_other [simp]: "other_side (other_side s) = s"
  by (cases s) simp_all

lemma pair_permitted_call:
  assumes "pair_inv p" and "pair_permitted p (s, call)"
  shows "call_permitted True (cn_out (end_of (other_side s) p)) (end_of s p) call"
proof (cases call)
  case (CallPacket buf)
  let ?peer = "end_of (other_side s) p"
  have d: "delivery_ok p s buf" using assms(2) CallPacket by simp
  have "conn_inv True (cn_out (end_of s p)) ?peer"
    using assms(1) unfolding pair_inv_def by (metis other_other)
  note w = on_wire_honest [OF this]
  show ?thesis using d w [of buf] CallPacket by (auto simp: delivery_ok_def seg_allowed_def Let_def)
qed (use assms(2) in simp_all)

lemma pair_step_safe:
  assumes inv: "pair_inv p" and per: "pair_permitted p sc"
  shows "\<exists>p'. pair_step env p sc = Some p' \<and> pair_inv p'"
proof -
  obtain s call where sc: "sc = (s, call)" by (metis prod.exhaust)
  let ?o = "other_side s"
  have i: "conn_inv True (cn_out (end_of ?o p)) (end_of s p)"
    "conn_inv True (cn_out (end_of s p)) (end_of ?o p)"
    using inv unfolding pair_inv_def by (metis other_other)+
  from conn_step_safe [OF i(1) pair_permitted_call [OF inv per [unfolded sc]], of "env s"]
  obtain c' where c': "conn_step (env s) (end_of s p) call = Some c'"
    "conn_inv True (cn_out (end_of ?o p)) c'" by blast
  from conn_step_out [OF c'(1)] obtain Q where "cn_out c' = cn_out (end_of s p) @ Q" by blast
  with conn_inv_extend [OF i(2), of Q] have "conn_inv True (cn_out c') (end_of ?o p)" by simp
  then have "conn_inv True (cn_out (end_of (other_side u) (set_end s c' p))) (end_of u (set_end s c' p))"
    for u using other_side_cases [of u s] c'(2) by auto
  then have "pair_inv (set_end s c' p)" by (simp add: pair_inv_def)
  with c'(1) show ?thesis by (simp add: sc pair_step_def)
qed

interpretation pair: safe_system "pair_init env" pair_permitted "pair_step env" pair_inv for env
proof
  show "pair_inv p" if "pair_init env p" for p
    unfolding pair_inv_def
  proof
    fix s
    have "conn_init (env s) (end_of s p)" using that by (simp add: pair_init_def)
    then show "conn_inv True (cn_out (end_of (other_side s) p)) (end_of s p)" by (rule tcp.init_inv)
  qed
qed (rule pair_step_safe)

end
