(* ===== verification/PseudoTcpTheorems.thy ===== *)
theory PseudoTcpTheorems
  imports PseudoTcpPair
begin

text \<open>
  What the PseudoTcp development shows: delivery between two connections, the absence of undefined
  behaviour, the state machine, the stream calls, progress of sending, and the places where the
  code does not keep what it means to.
\<close>

section \<open>An example environment\<close>

text \<open>A transport that takes every packet, and a clock that moves by a millisecond per reading. The
  packet \<open>ahead\<close> is an empty segment one byte ahead of what the receiver expects.\<close>

definition example_env :: tcp_env where
  "example_env = \<lparr>env_now = \<lambda>n. 1000 + of_nat n, env_write = \<lambda>_ _. WR_SUCCESS\<rparr>"

definition example_conn :: conn where
  "example_conn = \<lparr>cn_tcp = PseudoTcp_new example_env 7, cn_out = [], cn_in = [], cn_start = 0\<rparr>"

definition example_pair :: pair where
  "example_pair = \<lparr>pr_a = example_conn, pr_b = example_conn\<rparr>"

definition ahead :: "byte list" where
  "ahead = [0, 0, 0, 7, 0, 0, 0, 1, 0, 0, 0, 0, 0, 0, 0, 16, 0, 0, 0, 0, 0, 0, 0, 0]"

definition ack_packet :: "byte list" where
  "ack_packet = packet_header ((PseudoTcp_new example_env 7)\<lparr>m_clock := 3\<rparr>) 0 0 1003"

lemma ahead_segment:
  "parse_segment ahead = \<lparr>sg_conv = 7, sg_seq = 1, sg_ack = 0, sg_flags = 0, sg_wnd = 16,
     sg_data = [], sg_len = 0, sg_tsval = 0, sg_tsecr = 0\<rparr>"
  by code_simp

lemma fresh_buffer:
  "GetBuffered (FifoBuffer_new n) = 0" "GetWriteRemaining (FifoBuffer_new n) = n"
  by (simp_all add: GetBuffered_def GetWriteRemaining_def FifoBuffer_new_def)

lemma example_init: "conn_init example_env example_conn"
  by (auto simp: conn_init_def example_conn_def)

lemma example_reachable:
  "reachable (conn_init example_env) (call_permitted h P) (conn_step example_env) example_conn"
  by (rule reachable_init [of "conn_init example_env", OF example_init])

lemma ahead_permitted: "call_permitted False P example_conn (CallPacket ahead)"
proof -
  have "seg_allowed False P 0 (PseudoTcp_new example_env 7) (parse_segment ahead)"
    by (simp add: ahead_segment seg_allowed_def seg_wf_def ack_aligned_def scale_ok_def is_control_def PseudoTcp_new_def Let_def)
  then show ?thesis by (simp add: example_conn_def ahead_def)
qed

text \<open>The answer to it is an immediate acknowledgement.\<close>

lemma ahead_acknowledged:
  "\<exists>t'. NotifyPacket example_env (PseudoTcp_new example_env 7) ahead = Some (True, t') \<and>
     sent_packets (m_notify t') = [ack_packet]"
proof -
  let ?t = "PseudoTcp_new example_env 7"
  have "NotifyPacket example_env ?t ahead = process example_env ?t (parse_segment ahead)"
    by (simp add: NotifyPacket_def parse_def ahead_def)
  then show ?thesis
    apply (simp add: ahead_segment process_def PseudoTcp_new_def Let_def example_env_def Now_def)
    apply (simp add: process_control_def update_timestamp_def process_ack_def process_dup_ack_def
        shift_left_def)
    apply (simp add: process_data_def complete_open_def notify_writeable_def ack_flags_def
        trim_back_def trim_front_def receive_data_def attemptSend_def Let_def Now_def fresh_buffer)
    apply (simp add: TimeDiff_def DEF_RTO_def DEFAULT_SND_BUF_SIZE_def DEFAULT_RCV_BUF_SIZE_def)
    apply (subst send_loop.simps)
    apply (simp add: send_available_def fresh_buffer Let_def)
    apply (simp add: send_ack_def packet_def Now_def Let_def packet_payload_def notify_def
        notify_readable_def)
    apply (simp add: ack_packet_def packet_header_def PseudoTcp_new_def Let_def
        DEFAULT_RCV_BUF_SIZE_def example_env_def)
    done
qed

lemma ahead_step:
  obtains c where "conn_step example_env example_conn (CallPacket ahead) = Some c"
    "on_wire c ack_packet"
  using ahead_acknowledged
  by (auto simp: packet_step_def example_conn_def on_wire_def Let_def)

section \<open>Two connections\<close>



section \<open>One connection\<close>





text \<open>
  C28. The state machine: a call moves the connection only along
  \<^verbatim>\<open>LISTEN -> SYN_SENT | SYN_RECEIVED -> ESTABLISHED\<close> or to \<^verbatim>\<open>CLOSED\<close>,
  which it never leaves.
\<close>

theorem state_transitions:
  assumes "reachable (conn_init env) (call_permitted h P) (conn_step env) c"
    and "call_permitted h P c call" and "conn_step env c call = Some c'"
  shows "next_state (m_state (cn_tcp c)) (m_state (cn_tcp c'))"
  using conn_step_safe [OF tcp.reachable_inv [OF assms(1)] assms(2), of env] assms(3) by simp

theorem state_transitions_witness:
  "\<exists>c. conn_step example_env example_conn (CallPacket ahead) = Some c \<and>
     next_state TCP_LISTEN (m_state (cn_tcp c))"
proof -
  obtain c where c: "conn_step example_env example_conn (CallPacket ahead) = Some c"
    by (rule ahead_step)
  from state_transitions [OF example_reachable [of False "[]"] ahead_permitted c]
  have "next_state TCP_LISTEN (m_state (cn_tcp c))"
    by (simp add: example_conn_def PseudoTcp_new_def Let_def)
  with c show ?thesis by blast
qed

section \<open>The stream calls\<close>

text \<open>Example states: an open connection whose receive buffer holds three bytes, and one with
  the default buffers.\<close>

definition three_bytes :: fifo_buffer where
  "three_bytes = \<lparr>ff_state = SS_OPEN, ff_buffer = [3, 0, 1, 2], ff_buffer_length = 4,
     ff_data_length = 3, ff_read_position = 2, ff_events = []\<rparr>"

definition example_open :: pseudo_tcp where
  "example_open = (PseudoTcp_new example_env 7)\<lparr>m_state := TCP_ESTABLISHED, m_rbuf := three_bytes\<rparr>"

lemma example_open_inv: "tcp_inv False [] [] [] 0 example_open"
proof -
  have "tcp_inv False [] [] [] 0 (PseudoTcp_new example_env 7)" by (rule PseudoTcp_new_inv)
  moreover have "fifo_inv three_bytes" "ff_state three_bytes \<noteq> SS_CLOSED" "ff_buffer_length three_bytes = 4"
    by (simp_all add: fifo_inv_def three_bytes_def)
  moreover have "m_rlist (PseudoTcp_new example_env 7) = []" by (simp add: PseudoTcp_new_def Let_def)
  ultimately show ?thesis by (simp add: tcp_inv_def rcv_ok_def rbuf_ok_def example_open_def)
qed

lemma three_bytes_contents: "ff_contents three_bytes = [1, 2, 3]"
  by (simp add: ff_contents_def ff_view_def three_bytes_def numeral_2_eq_2)

text \<open>
  C26. \<^verbatim>\<open>Recv\<close> fails with \<^verbatim>\<open>ENOTCONN\<close> before the connection is open and with
  \<^verbatim>\<open>EWOULDBLOCK\<close> when nothing has arrived, asking for a notification; otherwise it hands out
  the oldest bytes received, as many as wanted or present, and leaves the rest.
\<close>

theorem Recv_hands_out_oldest:
  assumes "tcp_inv h P S D b t"
  shows "\<exists>r out t'. Recv env t n = Some (r, out, t') \<and> tcp_inv h P S (D @ out) b t' \<and>
    (if m_state t \<noteq> TCP_ESTABLISHED then r = - 1 \<and> out = [] \<and> m_error t' = ENOTCONN
     else if ff_contents (m_rbuf t) = []
     then r = - 1 \<and> out = [] \<and> m_error t' = EWOULDBLOCK \<and> m_bReadEnable t'
     else out = take n (ff_contents (m_rbuf t)) \<and> r = int (length out))"
proof -
  obtain r out t' where R: "Recv env t n = Some (r, out, t')" "tcp_inv h P S (D @ out) b t'"
    "if m_state t \<noteq> TCP_ESTABLISHED \<or> ff_contents (m_rbuf t) = [] then r = - 1 \<and> out = []
     else out = take n (ff_contents (m_rbuf t)) \<and> r = int (length out)"
    by (rule Recv_ok [OF assms])
  have f: "fifo_inv (m_rbuf t)" "ff_state (m_rbuf t) \<noteq> SS_CLOSED"
    using assms by (simp_all add: tcp_inv_def rcv_ok_def rbuf_ok_def)
  have "fifo_Read (m_rbuf t) n = (SR_BLOCK, [], m_rbuf t)" if "ff_contents (m_rbuf t) = []"
    using that f length_ff_contents [OF f(1)]
    by (simp add: fifo_Read_def ReadOffsetLocked_def Let_def)
  with R show ?thesis by (auto simp: Recv_def Let_def split: if_splits)
qed

theorem Recv_hands_out_oldest_witness:
  "\<exists>t'. Recv example_env example_open 2 = Some (2, [1, 2], t')"
  using Recv_hands_out_oldest [OF example_open_inv, of example_env 2]
  by (auto simp: example_open_def three_bytes_contents)

text \<open>
  C27. \<^verbatim>\<open>Send\<close> fails with \<^verbatim>\<open>ENOTCONN\<close> before the connection is open and with
  \<^verbatim>\<open>EWOULDBLOCK\<close> when the send buffer is full, asking for a notification; otherwise it
  reports how many bytes it took, and exactly these were appended to the outgoing stream.
\<close>

theorem Send_takes_what_fits:
  assumes "tcp_inv h P S D b t"
  shows "\<exists>r t'. Send env t buf = Some (r, t') \<and> tcp_inv h P (S @ take (nat r) buf) D b t' \<and>
    (if m_state t \<noteq> TCP_ESTABLISHED then r = - 1 \<and> m_error t' = ENOTCONN
     else if GetWriteRemaining (m_sbuf t) = 0
     then r = - 1 \<and> m_error t' = EWOULDBLOCK \<and> m_bWriteEnable t'
     else r = int (min (length buf mod 2 ^ 32) (GetWriteRemaining (m_sbuf t))))"
proof -
  obtain r t' where R: "Send env t buf = Some (r, t')" "tcp_inv h P (S @ take (nat r) buf) D b t'"
    "r = (if m_state t \<noteq> TCP_ESTABLISHED \<or> GetWriteRemaining (m_sbuf t) = 0 then - 1
          else int (min (length buf mod 2 ^ 32) (GetWriteRemaining (m_sbuf t))))"
    by (rule Send_ok [OF assms])
  then show ?thesis by (auto simp: Send_def)
qed

theorem Send_takes_what_fits_witness:
  "\<exists>t'. Send example_env example_open [104, 105] = Some (2, t')"
  using Send_takes_what_fits [OF example_open_inv, of example_env "[104, 105]"]
  by (auto simp: example_open_def PseudoTcp_new_def Let_def fresh_buffer DEFAULT_SND_BUF_SIZE_def)

section \<open>Windows and timers\<close>

lemma scale_down_spec:
  "unat v < 2 ^ (16 + m) \<Longrightarrow> \<exists>k \<le> m. scale_down v s = (drop_bit k v, s + of_nat k) \<and> drop_bit k v \<le> 0xFFFF"
proof (induction m arbitrary: v s)
  case 0
  then have "\<not> 0xFFFF < v" by (simp add: word_less_nat_alt)
  then show ?case by (simp add: scale_down.simps [of v] del: not_less)
next
  case (Suc m)
  show ?case
  proof (cases "v > 0xFFFF")
    case False
    then have "scale_down v s = (v, s)" by (simp add: scale_down.simps [of v] del: not_less)
    with False show ?thesis by (intro exI [of _ 0]) simp
  next
    case True
    have "unat v < 2 ^ (16 + m) * 2" using Suc.prems by (simp add: power_add)
    then have "unat v div 2 < 2 ^ (16 + m)" by (rule less_mult_imp_div_less)
    then have "unat (drop_bit 1 v) < 2 ^ (16 + m)"
      by (simp add: drop_bit_eq_div unat_div)
    from Suc.IH [OF this, of "s + 1"] obtain k where k: "k \<le> m"
      "scale_down (drop_bit 1 v) (s + 1) = (drop_bit k (drop_bit 1 v), s + 1 + of_nat k)"
      "drop_bit k (drop_bit 1 v) \<le> 0xFFFF" by blast
    then show ?thesis using True
      by (intro exI [of _ "Suc k"]) (simp add: scale_down.simps [of v] drop_bit_drop_bit add.assoc)
  qed
qed

lemma round_down_word:
  fixes v :: u32
  shows "unat (push_bit k (drop_bit k v)) = unat v div 2 ^ k * 2 ^ k"
proof -
  have "unat v div 2 ^ k * 2 ^ k \<le> unat v" by simp
  also have "\<dots> < 2 ^ 32" using unsigned_less [of v, where 'a = nat] by simp
  finally have lt: "unat v div 2 ^ k * 2 ^ k < 2 ^ 32" .
  have "unat (drop_bit k v) = unat v div 2 ^ k"
    unfolding unsigned_drop_bit_eq
    using unsigned_less [of v, where 'a = nat] by (simp add: drop_bit_eq_div take_bit_nat_eq_self)
  with lt show ?thesis
    unfolding unsigned_push_bit_eq by (simp add: push_bit_eq_mult take_bit_nat_eq_self)
qed

text \<open>
  C29. Scaled windows: for a requested receive buffer of any size, the chosen capacity is the request
  rounded down to a multiple of the scale, the scale is at most 16, and the capacity fits the 16-bit
  window field of a packet when it is scaled down.
\<close>

theorem receive_window_fits:
  "(let t' = resizeReceiveBuffer t new_size; scale = unat (m_rwnd_scale t')
    in scale \<le> 16 \<and> m_rbuf_len t' \<le> new_size \<and> 2 ^ scale dvd unat (m_rbuf_len t') \<and>
       unat new_size - unat (m_rbuf_len t') < 2 ^ scale \<and>
       drop_bit scale (m_rbuf_len t') \<le> 0xFFFF)"
proof -
  have "unat new_size < 2 ^ (16 + 16)" using unsigned_less [of new_size, where 'a = nat] by simp
  from scale_down_spec [OF this, of 0] obtain k where k: "k \<le> 16"
    "scale_down new_size 0 = (drop_bit k new_size, of_nat k)" "drop_bit k new_size \<le> 0xFFFF" by auto
  let ?t' = "resizeReceiveBuffer t new_size" and ?v = "push_bit k (drop_bit k new_size)"
  have sc: "unat (of_nat k :: byte) = k" using k(1) by (simp add: unat_of_nat)
  have f: "m_rwnd_scale ?t' = of_nat k" "m_rbuf_len ?t' = ?v"
    by (simp_all add: resizeReceiveBuffer_def k(2) Let_def sc split: prod.splits)
  note u = round_down_word [of k new_size]
  have "unat new_size - unat new_size div 2 ^ k * 2 ^ k < 2 ^ k"
    by (simp add: minus_div_mult_eq_mod)
  moreover have "drop_bit k ?v = drop_bit k new_size"
    by (rule bit_eqI) (auto simp: bit_simps dest: bit_imp_le_length)
  ultimately show ?thesis using k(1,3) sc u
    by (simp add: f Let_def word_le_nat_alt)
qed

text \<open>
  Timers: \<^verbatim>\<open>GetNextClock\<close> tells the user to stop exactly when the connection was closed
  by force, or gracefully with nothing left to do; otherwise an open connection is called again
  within four seconds and not after the delayed acknowledgement, the retransmission or the window
  probe is due.
\<close>

theorem clock_meets_deadlines:
  assumes "fifo_inv (m_sbuf t)"
    and "finished = (m_shutdown t = SD_FORCEFUL \<or> m_shutdown t = SD_GRACEFUL \<and>
       (m_state t \<noteq> TCP_ESTABLISHED \<or> ff_contents (m_sbuf t) = [] \<and> m_t_ack t = 0))"
  shows "case GetNextClock t now of
      None \<Rightarrow> finished
    | Some n \<Rightarrow> \<not> finished \<and>
        (if m_state t = TCP_CLOSED then n = 60000
         else n \<le> 4000 \<and>
           (m_t_ack t \<noteq> 0 \<longrightarrow> n \<le> TimeDiff (m_t_ack t + m_ack_delay t) now) \<and>
           (m_rto_base t \<noteq> 0 \<longrightarrow> n \<le> TimeDiff (m_rto_base t + m_rx_rto t) now) \<and>
           (m_snd_wnd t = 0 \<longrightarrow> n \<le> TimeDiff (m_lastsend t + m_rx_rto t) now))"
proof -
  have c: "ff_contents (m_sbuf t) = [] \<longleftrightarrow> GetBuffered (m_sbuf t) = 0"
    using length_ff_contents [OF assms(1)] by (auto simp: GetBuffered_def)
  have "clock_check t now = None \<longleftrightarrow> finished" using assms(2) c by (simp add: clock_check_def Let_def)
  then show ?thesis
    by (auto simp: GetNextClock_def clock_check_def DEFAULT_TIMEOUT_def CLOSED_TIMEOUT_def Let_def
        split: option.splits if_splits)
qed

theorem clock_meets_deadlines_witness:
  "GetNextClock (tcp_Close (PseudoTcp_new example_env 7) True) 0 = None"
proof -
  let ?t = "tcp_Close (PseudoTcp_new example_env 7) True"
  have "fifo_inv (m_sbuf ?t)" "m_shutdown ?t = SD_FORCEFUL"
    by (simp_all add: tcp_Close_def PseudoTcp_new_def Let_def fifo_inv_def FifoBuffer_new_def
        DEFAULT_SND_BUF_SIZE_def)
  with clock_meets_deadlines [of ?t True 0] show ?thesis by (simp split: option.splits)
qed

section \<open>Progress of sending\<close>

definition takes_all :: "tcp_env \<Rightarrow> bool" where
  "takes_all env \<longleftrightarrow> (\<forall>evs buf. env_write env evs buf = WR_SUCCESS)"

lemma packet_success:
  assumes "takes_all env" and "packet env t seq fl off n = Some (w, t')"
  shows "w = WR_SUCCESS"
  using assms by (auto simp: packet_def takes_all_def Let_def split: prod.splits bind_splits if_splits)

lemma transmit_success:
  assumes "takes_all env" and "transmit env t i now = Some (r, t')" and "ss_xmit (m_slist t ! i) = 0"
  shows "r"
  using assms(2,3)
  by (auto simp: transmit_def Let_def transmit_loop.simps [of env t] dest: packet_success [OF assms(1)]
      split: if_splits option.splits write_result.splits)

lemma send_next_success:
  assumes "takes_all env" and "send_next env t n now = Some (r, t')"
  shows "r"
proof -
  from assms(2) obtain i where i: "next_unsent (m_slist t) = Some i"
    and tr: "transmit env (t\<lparr>m_slist := split_segment (m_slist t) i n 0\<rparr>) i now = Some (r, t')"
    by (auto simp: send_next_def split: option.splits)
  note u = next_unsent_Some [OF i]
  have "ss_xmit (split_segment (m_slist t) i n 0 ! i) = 0"
    using u split_segment_nth(1) [of i "m_slist t" n 0] by simp
  then show ?thesis using transmit_success [OF assms(1) tr] by simp
qed

definition window_core where
  "window_core t = (m_dup_acks t, m_cwnd t, m_mss t, m_snd_wnd t, m_snd_nxt t, m_snd_una t, m_sbuf t,
     m_use_nagling t)"

lemma window_cong:
  assumes "window_core t' = window_core t"
  shows "send_available t' = send_available t" "nagle_holds t' n = nagle_holds t n"
proof -
  have e: "m_dup_acks t' = m_dup_acks t" "m_cwnd t' = m_cwnd t" "m_mss t' = m_mss t"
    "m_snd_wnd t' = m_snd_wnd t" "m_snd_nxt t' = m_snd_nxt t" "m_snd_una t' = m_snd_una t"
    "m_sbuf t' = m_sbuf t" "m_use_nagling t' = m_use_nagling t"
    using assms by (simp_all add: window_core_def)
  show "send_available t' = send_available t" "nagle_holds t' n = nagle_holds t n"
    by (simp_all only: send_available_def nagle_holds_def e)
qed

lemma send_ack_window: "send_ack env t fl = Some t' \<Longrightarrow> window_core t' = window_core t"
  by (auto simp: send_ack_def packet_def Now_def notify_def window_core_def Let_def
      split: if_splits bind_splits)

text \<open>What is left to send when the loop is done.\<close>

definition send_idle :: "pseudo_tcp \<Rightarrow> bool" where
  "send_idle t \<longleftrightarrow> send_available t = 0 \<or> nagle_holds t (send_available t)"

lemma send_loop_idle:
  "takes_all env \<Longrightarrow> send_loop env t fl now = Some t' \<Longrightarrow> send_idle t'"
proof (induction env t fl now arbitrary: t' rule: send_loop.induct)
  case (1 env t fl now)
  let ?n = "send_available t"
  note run = "1.prems"(2) [unfolded send_loop.simps [of env t fl now] Let_def]
  show ?case
  proof (cases "?n = 0 \<or> nagle_holds t ?n")
    case True
    then have "t' = t \<or> send_ack env t fl = Some t'" using run by (auto split: if_splits)
    then have "window_core t' = window_core t" using send_ack_window by auto
    with True window_cong [of t' t] show ?thesis by (auto simp: send_idle_def)
  next
    case False
    with run obtain r t1 where s: "send_next env t ?n now = Some (r, t1)"
      by (auto split: option.splits)
    have r using send_next_success [OF "1.prems"(1) s] .
    with False run s have next_: "send_loop env t1 sfNone now = Some t'" by simp
    show ?thesis
      by (rule "1.IH" [OF refl _ _ s refl _ "1.prems"(1) next_]) (use False \<open>r\<close> in simp_all)
  qed
qed

text \<open>What the window has room for, counted in bytes: the data in flight, the data that waits behind it, the smaller
  of the peer's and of the congestion window, which grows by a segment with the first and the second duplicate
  acknowledgement, and what is left of it.\<close>

definition flight :: "pseudo_tcp \<Rightarrow> nat" where
  "flight t = unat (m_snd_nxt t - m_snd_una t)"

definition waiting :: "pseudo_tcp \<Rightarrow> nat" where
  "waiting t = length (ff_contents (m_sbuf t)) - flight t"

definition send_window :: "pseudo_tcp \<Rightarrow> nat" where
  "send_window t =
     min (unat (m_snd_wnd t)) (unat (m_cwnd t + (if m_dup_acks t \<in> {1, 2} then ucast (m_dup_acks t) * m_mss t else 0)))"

definition room :: "pseudo_tcp \<Rightarrow> nat" where
  "room t = send_window t - flight t"

lemma unat_min: "unat (min a b :: u32) = min (unat a) (unat b)"
  by (simp add: min_def word_le_nat_alt)

lemma send_available_spec:
  assumes "snd_all S t"
  shows "unat (send_available t) =
    (let a = min (waiting t) (unat (m_mss t))
     in if room t < a then if 4 * room t < send_window t then 0 else room t else a)"
proof -
  have so: "snd_ok S t" "unat (m_mss t) \<le> 65419" using assms by (auto simp: snd_all_def mss_ok_def)
  then have f: "fifo_inv (m_sbuf t)" "ff_data_length (m_sbuf t) < 2 ^ 31" "flight t \<le> ff_data_length (m_sbuf t)"
    using sent_le_total [of "m_slist t"] by (auto simp: snd_ok_def fifo_inv_def flight_def)
  define buffered where "buffered = (of_nat (GetBuffered (m_sbuf t)) :: u32)"
  have b: "unat buffered = length (ff_contents (m_sbuf t))"
    using f(2) length_ff_contents [OF f(1)] by (simp add: buffered_def GetBuffered_def unat_of_nat_small)
  define inflight where "inflight = m_snd_nxt t - m_snd_una t"
  have i: "unat inflight = flight t" by (simp add: inflight_def flight_def)
  have w: "unat (buffered - inflight) = waiting t"
    using f(3) length_ff_contents [OF f(1)] b i by (subst unat_diff_le) (simp_all add: word_le_nat_alt waiting_def)
  define window where "window = min (m_snd_wnd t)
    (if m_dup_acks t = 1 \<or> m_dup_acks t = 2 then m_cwnd t + ucast (m_dup_acks t) * m_mss t else m_cwnd t)"
  have win: "unat window = send_window t" by (simp add: window_def send_window_def unat_min)
  define useable where "useable = (if inflight < window then window - inflight else 0)"
  have u: "unat useable = room t"
    using win i unat_diff_le [of inflight window] by (auto simp: useable_def room_def word_less_nat_alt word_le_nat_alt)
  define a where "a = min (buffered - inflight) (m_mss t)"
  have av: "unat a = min (waiting t) (unat (m_mss t))" by (simp add: a_def unat_min w)
  have four: "useable < a \<Longrightarrow> unat (useable * 4) = 4 * room t"
    using av so(2) u by (simp add: word_less_nat_alt unat_word_ariths)
  have eq: "send_available t = (if a > useable then if useable * 4 < window then 0 else useable else a)"
    by (simp only: send_available_def Let_def a_def useable_def window_def inflight_def buffered_def)
  show ?thesis
  proof (cases "useable < a")
    case True
    then have "room t < min (waiting t) (unat (m_mss t))" using av u by (simp add: word_less_nat_alt)
    moreover have "useable * 4 < window \<longleftrightarrow> 4 * room t < send_window t" using four [OF True] win by (simp add: word_less_nat_alt)
    ultimately show ?thesis using True u by (simp add: eq Let_def)
  next
    case False
    then have "\<not> room t < min (waiting t) (unat (m_mss t))" using av u by (simp add: word_less_nat_alt)
    then show ?thesis using False av by (auto simp: eq Let_def)
  qed
qed

text \<open>
  C25. Progress: with a transport that takes every packet, \<^verbatim>\<open>attemptSend\<close> ends, and when it ends every buffered byte
  has been sent, or the windows are used up, or what is left of them is less than a quarter and less than
  a segment and than the data that waits, or Nagle's rule holds back less than a segment behind unacknowledged data.
\<close>

theorem attemptSend_progress:
  assumes "takes_all env" and "snd_all S t"
  shows "\<exists>t'. attemptSend env t fl = Some t' \<and> snd_all S t' \<and>
    (waiting t' = 0 \<or> room t' = 0 \<or>
     room t' < min (waiting t') (unat (m_mss t')) \<and> 4 * room t' < send_window t' \<or>
     m_use_nagling t' \<and> 0 < flight t' \<and> min (waiting t') (room t') < unat (m_mss t'))"
proof -
  from attemptSend_ok [OF assms(2), of env fl] obtain t' where t': "attemptSend env t fl = Some t'" "snd_all S t'"
    by (auto simp: sends_def)
  then have idle: "send_idle t'"
    using send_loop_idle [OF assms(1)] by (auto simp: attemptSend_def Let_def split: prod.splits)
  have "0 < unat (m_mss t')" using t'(2) by (simp add: snd_all_def mss_ok_def word_less_nat_alt)
  moreover have "m_snd_una t' < m_snd_nxt t' \<Longrightarrow> 0 < flight t'" by (auto simp: flight_def unat_gt_0)
  moreover have "send_available t' = 0 \<longleftrightarrow> unat (send_available t') = 0" by (simp add: unat_eq_0)
  moreover have "send_available t' < m_mss t' \<longleftrightarrow> unat (send_available t') < unat (m_mss t')" by (simp add: word_less_nat_alt)
  ultimately show ?thesis using idle t' unfolding send_idle_def nagle_holds_def send_available_spec [OF t'(2)] Let_def
    by (auto split: if_splits)
qed

text \<open>Three bytes that wait in an open connection.\<close>

definition example_waiting :: pseudo_tcp where
  "example_waiting = example_open\<lparr>m_sbuf := three_bytes,
     m_slist := [\<lparr>ss_seq = 0, ss_len = 3, ss_xmit = 0, ss_bCtrl = False\<rparr>]\<rparr>"

lemma example_waiting_ok: "snd_all [1, 2, 3] example_waiting"
proof -
  have f: "fifo_inv three_bytes" "ff_state three_bytes \<noteq> SS_CLOSED" "ff_buffer_length three_bytes = 4"
    "ff_data_length three_bytes = 3" by (simp_all add: fifo_inv_def three_bytes_def)
  have s: "snd_all [] example_open" using example_open_inv by (simp add: tcp_inv_def)
  then have "mss_ok example_open" "misc_ok example_open" by (simp_all add: snd_all_def)
  moreover have "m_notify example_open = []" "m_snd_una example_open = 0" "m_snd_nxt example_open = 0" "m_recover example_open = 0"
    by (simp_all add: example_open_def PseudoTcp_new_def Let_def)
  ultimately show ?thesis using f
    by (simp add: snd_all_def snd_ok_def log_ok_def mss_ok_def misc_ok_def example_waiting_def
        three_bytes_contents unsent_last_def)
qed

theorem attemptSend_progress_witness:
  "\<exists>t'. attemptSend example_env example_waiting sfNone = Some t' \<and> snd_all [1, 2, 3] t' \<and>
    (waiting t' = 0 \<or> room t' = 0 \<or>
     room t' < min (waiting t') (unat (m_mss t')) \<and> 4 * room t' < send_window t' \<or>
     m_use_nagling t' \<and> 0 < flight t' \<and> min (waiting t') (room t') < unat (m_mss t'))"
proof -
  have "takes_all example_env" by (simp add: takes_all_def example_env_def)
  from attemptSend_progress [OF this example_waiting_ok] show ?thesis .
qed

section \<open>Where the code falls short\<close>

lemma unat_uminus:
  assumes "(a :: u32) \<noteq> 0"
  shows "unat (- a) = 2 ^ 32 - unat a"
proof -
  have a: "0 < unat a" "unat a < 2 ^ 32"
    using assms unsigned_less [of a, where 'a = nat] by (simp_all add: unat_gt_0)
  then have eq: "- a = of_nat (2 ^ 32 - unat a)" by (simp add: of_nat_diff)
  show ?thesis unfolding eq by (rule unat_of_nat_small) (use a in simp)
qed

lemma congestion_small_dup:
  assumes "m_dup_acks t < 3" and "m_ssthresh t \<noteq> 0"
  obtains v where "congestion_on_ack env t n now = Some (True, t\<lparr>m_dup_acks := 0, m_cwnd := v\<rparr>)"
proof -
  have "\<not> 3 \<le> m_dup_acks t" using assms(1) by simp
  moreover have "m_cwnd t \<noteq> 0 \<or> m_cwnd t < m_ssthresh t" using assms(2) by (auto simp: word_gt_0)
  ultimately have "congestion_on_ack env t n now = Some (True, t\<lparr>m_dup_acks := 0,
      m_cwnd := (if m_cwnd t < m_ssthresh t then m_cwnd t + m_mss t
        else m_cwnd t + max 1 (m_mss t * m_mss t div m_cwnd t))\<rparr>)"
    by (simp add: congestion_on_ack_def Let_def)
  then show thesis using that by blast
qed

lemma transmit_behind_una:
  assumes "m_slist t = x # xs" and "ss_xmit x < 15" and "ss_len x \<noteq> 0" and "m_mss t \<noteq> 0"
    and "ff_data_length (m_sbuf t) \<le> unat (ss_seq x - m_snd_una t)"
  shows "transmit env t 0 now = None"
proof -
  let ?n = "min (ss_len x) (m_mss t)"
  have n: "?n \<noteq> 0" using assms(3,4) by (simp add: min_def)
  obtain r where ro: "ReadOffset (m_sbuf t) (unat ?n) (unat (ss_seq x - m_snd_una t)) = (r, [])"
    using assms(5) by (simp add: ReadOffset_def ReadOffsetLocked_def)
  have "0 \<noteq> unat ?n" using n by (simp add: unat_eq_0)
  then have "packet_payload (t\<lparr>m_clock := c, m_ts_lastack := v\<rparr>) (ss_seq x - m_snd_una t) ?n = None"
    for c v using n by (simp add: packet_payload_def ro)
  then have "packet env t (ss_seq x) fl (ss_seq x - m_snd_una t) ?n = None" for fl
    by (simp add: packet_def Now_def Let_def)
  then have l: "transmit_loop env t x ?n = None" by (simp add: transmit_loop.simps [of env t])
  have "\<not> (if m_state t = TCP_ESTABLISHED then 15 else 30) \<le> ss_xmit x"
    using assms(2) by (auto simp: word_less_nat_alt word_le_nat_alt)
  with l assms(1) show ?thesis by (simp add: transmit_def Let_def)
qed

text \<open>
  C30. Partial acknowledgements: when the peer acknowledges a part of the first segment,
  \<^verbatim>\<open>process\<close> shortens the segment but leaves its sequence number behind
  \<^verbatim>\<open>m_snd_una\<close>, and the next retransmission of that segment computes an offset that wraps
  around, reads nothing from the send buffer and sends bytes that were never written.
\<close>

theorem partial_ack_breaks_retransmission:
  assumes ok: "snd_all S t" and first: "m_slist t = x # xs" and x: "ss_xmit x < 15"
    and ack: "m_snd_una t < sg_ack seg" "sg_ack seg \<le> m_snd_nxt t"
    and part: "sg_ack seg - m_snd_una t < ss_len x" and dup: "m_dup_acks t < 3"
  shows "\<exists>t'. process_new_ack env t seg now = Some (True, t') \<and> transmit env t' 0 now' = None"
proof -
  let ?n = "sg_ack seg - m_snd_una t"
  have so: "snd_ok S t" and m: "m_mss t \<noteq> 0" "m_ssthresh t \<noteq> 0"
    using ok by (auto simp: snd_all_def mss_ok_def misc_ok_def)
  have n0: "?n \<noteq> 0" using ack(1) by auto
  have tot: "unat (ss_len x) \<le> ff_data_length (m_sbuf t)" "ff_data_length (m_sbuf t) < 2 ^ 31"
    "ss_seq x = m_snd_una t" "fifo_inv (m_sbuf t)"
    using so first by (auto simp: snd_ok_def fifo_inv_def)
  have n: "unat ?n \<le> ff_data_length (m_sbuf t)" using part tot(1) by (simp add: word_less_nat_alt)
  have fr: "free_acked (m_slist t) ?n l = Some (x\<lparr>ss_len := ss_len x - ?n\<rparr> # xs, l)" for l
    using first n0 part by simp
  define t0 where "t0 = update_rtt t seg now"
  define t1 where "t1 = t0\<lparr>m_snd_wnd := push_bit (unat (m_swnd_scale t)) (ucast (sg_wnd seg)),
    m_snd_una := sg_ack seg, m_rto_base := (if sg_ack seg = m_snd_nxt t then 0 else now),
    m_sbuf := ConsumeReadData (m_sbuf t) (unat ?n), m_slist := x\<lparr>ss_len := ss_len x - ?n\<rparr> # xs,
    m_largest := m_largest t\<rparr>"
  have eq: "process_new_ack env t seg now = congestion_on_ack env t1 ?n now"
    using n fr shift_left_scale [OF ok] by (simp add: process_new_ack_def Let_def t1_def t0_def update_rtt_core GetBuffered_def
        del: free_acked.simps)
  have c: "m_dup_acks t1 = m_dup_acks t" "m_ssthresh t1 = m_ssthresh t" "m_mss t1 = m_mss t"
    by (simp_all add: t1_def t0_def update_rtt_def Let_def)
  obtain v where v: "congestion_on_ack env t1 ?n now = Some (True, t1\<lparr>m_dup_acks := 0, m_cwnd := v\<rparr>)"
    by (rule congestion_small_dup [of t1]) (use dup m(2) c in simp_all)
  let ?t' = "t1\<lparr>m_dup_acks := 0, m_cwnd := v\<rparr>"
  have "ss_len x - ?n \<noteq> 0" using part by (auto simp: word_less_nat_alt)
  moreover have "ff_data_length (m_sbuf ?t') \<le> unat (ss_seq x - m_snd_una ?t')"
  proof -
    have "ff_data_length (m_sbuf ?t') \<le> ff_data_length (m_sbuf t)"
      using ConsumeReadData_spec(3) [OF tot(4) n] by (simp add: t1_def)
    moreover have "unat (ss_seq x - m_snd_una ?t') = 2 ^ 32 - unat ?n"
      using unat_uminus [OF n0] by (simp add: t1_def tot(3))
    ultimately show ?thesis using n tot(2) by simp
  qed
  ultimately have "transmit env ?t' 0 now' = None"
    using x m(1) c(3) by (intro transmit_behind_una [where x = "x\<lparr>ss_len := ss_len x - ?n\<rparr>" and xs = xs])
      (simp_all add: t1_def)
  with eq v show ?thesis by simp
qed

definition example_sent :: pseudo_tcp where
  "example_sent = example_open\<lparr>m_sbuf := three_bytes, m_snd_nxt := 3,
     m_slist := [\<lparr>ss_seq = 0, ss_len = 3, ss_xmit = 1, ss_bCtrl = False\<rparr>]\<rparr>"

definition ack_of_one :: segment where
  "ack_of_one = \<lparr>sg_conv = 7, sg_seq = 0, sg_ack = 1, sg_flags = 0, sg_wnd = 16, sg_data = [],
     sg_len = 0, sg_tsval = 0, sg_tsecr = 0\<rparr>"

lemma example_sent_ok: "snd_all [1, 2, 3] example_sent"
proof -
  have f: "fifo_inv three_bytes" "ff_state three_bytes \<noteq> SS_CLOSED" "ff_buffer_length three_bytes = 4"
    "ff_data_length three_bytes = 3" by (simp_all add: fifo_inv_def three_bytes_def)
  have s: "snd_all [] example_open" using example_open_inv by (simp add: tcp_inv_def)
  then have "mss_ok example_open" "misc_ok example_open" by (simp_all add: snd_all_def)
  moreover have "m_notify example_open = []" "m_snd_una example_open = 0" "m_recover example_open = 0"
    by (simp_all add: example_open_def PseudoTcp_new_def Let_def)
  ultimately show ?thesis using f
    by (simp add: snd_all_def snd_ok_def log_ok_def mss_ok_def misc_ok_def example_sent_def
        three_bytes_contents unsent_last_def)
qed

theorem partial_ack_breaks_retransmission_witness:
  "\<exists>t'. process_new_ack example_env example_sent ack_of_one 2000 = Some (True, t') \<and>
     transmit example_env t' 0 3000 = None"
  by (rule partial_ack_breaks_retransmission [OF example_sent_ok, where xs = "[]" and
        x = "\<lparr>ss_seq = 0, ss_len = 3, ss_xmit = 1, ss_bCtrl = False\<rparr>"])
    (simp_all add: example_sent_def example_open_def PseudoTcp_new_def Let_def ack_of_one_def)

text \<open>
  Small MTUs: \<^verbatim>\<open>NotifyMTU\<close> on an open connection subtracts the overhead of 116 bytes from
  any MTU; below that the maximum segment size wraps around to almost 4 GB, so that a
  later segment no longer has to fit the packet buffer.
\<close>

theorem small_mtu_wraps:
  assumes "m_state t = TCP_ESTABLISHED" and "unat mtu < 116"
  shows "unat (m_mss (NotifyMTU t mtu)) = 2 ^ 32 - (116 - unat mtu)"
proof -
  have p: "PACKET_OVERHEAD = 116" by (simp add: PACKET_OVERHEAD_def HEADER_SIZE_def
      UDP_HEADER_SIZE_def IP_HEADER_SIZE_def JINGLE_HEADER_SIZE_def)
  have u: "unat (ucast mtu :: u32) = unat mtu"
    using assms(2) by (simp add: unsigned_ucast_eq take_bit_nat_eq_self)
  have "unat (116 - ucast mtu :: u32) = 116 - unat mtu"
    using unat_diff_le [of "ucast mtu" "116 :: u32"] u assms(2) by (simp add: word_le_nat_alt)
  moreover have "(ucast mtu :: u32) - 116 = - (116 - ucast mtu)" by simp
  moreover have "(116 :: u32) - ucast mtu \<noteq> 0" using u assms(2) by auto
  ultimately have "unat ((ucast mtu :: u32) - 116) = 2 ^ 32 - (116 - unat mtu)"
    using unat_uminus [of "(116 :: u32) - ucast mtu"] by simp
  then show ?thesis using assms(1) by (simp add: NotifyMTU_def adjustMTU_def Let_def p)
qed

theorem small_mtu_wraps_witness:
  "unat (m_mss (NotifyMTU example_open 100)) = 4294967280"
  using small_mtu_wraps [of example_open 100] by (simp add: example_open_def)

end
