(* ===== verification/Spec2Isabelle.thy ===== *)
theory Spec2Isabelle
  imports FifoBuffer StunRequestSchedule ChannelCalls StreamParams RtcpMuxFilter SrtpSafety StunIntegrity PseudoTcpTheorems
begin

text \<open>
  \<^bold>\<open>Verification of libjingle.\<close>

  libjingle is a C++ library for peer-to-peer sessions: it finds a path between two peers with STUN and
  ICE, runs a reliable byte stream (PseudoTcp) over the datagrams of that path, and negotiates and carries
  media sessions with RTP and SRTP. Its own code lies under \<^verbatim>\<open>src/src\<close> and \<^verbatim>\<open>src/include\<close>; paths
  below are relative to those. Everything is modelled as HOL functions on explicit states; a C++ object
  is a record, a method a function from the object (and its arguments) to its result and the new object.

  \<^bold>\<open>Foundations.\<close>
  \<^item> \<open>Prelude\<close>: machine types, C memory as lists with \<^verbatim>\<open>memcpy\<close>, word lemmas, the
    locale \<open>fixed_codec\<close> of fixed-width encodings.
  \<^item> \<open>ByteOrder\<close> (\<^verbatim>\<open>base/byteorder.h\<close>): integers in both byte orders; six interpretations of
    \<open>fixed_codec\<close>.
  \<^item> \<open>ByteBuffer\<close> (\<^verbatim>\<open>base/bytebuffer.cc\<close>): every operation, its invariant, that writes append and
    reads return what was written, read positions.
  \<^item> \<open>FifoBuffer\<close> (\<^verbatim>\<open>base/stream.cc\<close>): the ring buffer refines a bounded byte queue; staging out of
    order reassembles; resizing keeps the contents. The other streams of the file are I/O.
  \<^item> \<open>Crc32\<close>, \<open>TimeUtils\<close>, \<open>MessageDigest\<close> (\<^verbatim>\<open>base/crc32.cc\<close>, \<^verbatim>\<open>base/timeutils.cc\<close>,
    \<^verbatim>\<open>base/messagedigest.cc\<close>): the table-driven CRC is the bitwise one; the two implementations of
    wrap-around time agree except at distance \<open>2 ^ 31\<close>; HMAC is the one of RFC 2104 for digests of at most 32
    bytes. The digest itself is a parameter.
  \<^item> \<open>Base64\<close> (\<^verbatim>\<open>base/base64.cc\<close>): encoding and decoding with all options; strict decoding
    accepts exactly the encodings.

  \<^bold>\<open>STUN.\<close> \<open>StunMessage\<close> models \<^verbatim>\<open>p2p/base/stun.cc\<close>: messages, the attribute classes (one constructor
  of a datatype per class), their readers and writers over \<open>ByteBuffer\<close>. \<open>StunCodec\<close> shows that well-formed
  messages of all four message classes round trip, and that what is read is well typed.
  \<open>StunIntegrity\<close> models MESSAGE-INTEGRITY and FINGERPRINT with the digest as a parameter: signed
  messages validate, and validation is characterised exactly, together with the packets on which it reads
  outside of them.

  \<^bold>\<open>Messages and requests.\<close> \<open>MessageQueue\<close> (\<^verbatim>\<open>base/messagequeue.cc\<close>) models a thread's queue with delayed
  messages; the socket server that waits is a parameter and the waiting loop of \<^verbatim>\<open>Get\<close> has fuel, which the
  theorems show to be enough. Messages come out in order, except around the wrap-around of the clock.
  \<open>StunRequest\<close> (\<^verbatim>\<open>p2p/base/stunrequest.cc\<close>) has requests and their manager as objects in a store, with their
  messages on the queue; the virtual callbacks are recorded events. \<open>StunRequestSafety\<close> shows that no message reaches a
  deleted request and that every request ends, \<open>StunRequestSchedule\<close> when exactly it is sent.

  \<^bold>\<open>ICE.\<close> \<open>IpAddress\<close> (\<^verbatim>\<open>base/ipaddress.cc\<close>) models addresses, their classes, truncation and masks.
  \<open>IceConnection\<close> and \<open>IcePort\<close> model candidates (\<^verbatim>\<open>p2p/base/candidate.h\<close>), connections and ports
  (\<^verbatim>\<open>p2p/base/port.cc\<close>, \<^verbatim>\<open>UDPPort::CreateConnection\<close> of \<^verbatim>\<open>p2p/base/stunport.cc\<close>): a port keeps its connections as objects
  in a store, a connection keeps a \<open>StunRequestManager\<close>, and packets are the bytes of \<open>StunMessage\<close>. \<open>IceCheck\<close>
  follows a connectivity check through both peers, \<open>IceRoles\<close> a conflict of roles and the priority of a pair,
  \<open>IceStates\<close> the timeouts. \<open>IcePortSafety\<close> interprets \<open>safe_system\<close> for a port with all its connections.
  \<open>P2PTransportChannel\<close> models \<^verbatim>\<open>p2p/base/p2ptransportchannel.cc\<close> over a store of ports; \<open>ChannelSort\<close> shows what
  sorting the connections achieves, \<open>ChannelCalls\<close> how remote candidates are kept, which connection is pinged and what
  becomes of replaced ports.

  \<^bold>\<open>PseudoTcp.\<close> \<open>PseudoTcp\<close> and \<open>PseudoTcpProcess\<close> model the whole of \<^verbatim>\<open>p2p/base/pseudotcp.cc\<close>; the
  clock, the transport and the notification object are the record \<open>tcp_env\<close>, and \<open>None\<close> stands for
  undefined behaviour (a read outside of a buffer, a failed assertion the code relies on, an undefined shift).
  The loops terminate by measures on the queue or on the segment size; no fuel is used. \<open>PseudoTcpSend\<close>,
  \<open>PseudoTcpAck\<close>, \<open>PseudoTcpRecv\<close> hold the invariants of the sending queue, of acknowledgement and of
  reassembly, \<open>PseudoTcpSafety\<close> and \<open>PseudoTcpCalls\<close> that every call keeps them. \<open>Transition\<close> has
  reachability and the locale \<open>safe_system\<close> (an invariant that makes permitted calls defined);
  \<open>PseudoTcpConnection\<close> interprets it for one endpoint against an arbitrary peer, \<open>PseudoTcpPair\<close> for
  two endpoints over a network that loses, reorders and repeats packets. \<open>PseudoTcpTheorems\<close> has the
  resulting properties: what one side reads is a prefix of what the other side wrote.

  \<^bold>\<open>Media filters.\<close> \<open>RtpUtils\<close> (\<^verbatim>\<open>media/base/rtputils.cc\<close>) models the RTP and RTCP accessors with
  reads outside of the packet visible; \<open>StreamParams\<close> (\<^verbatim>\<open>media/base/streamparams.cc\<close>,
  \<^verbatim>\<open>session/media/ssrcmuxfilter.cc\<close>) refines the SSRC filter to a set. \<open>OfferAnswer\<close> has the
  locale \<open>offer_answer\<close>, the contract of a filter that takes part in an offer/answer exchange, interpreted by
  \<open>RtcpMuxFilter\<close> (\<^verbatim>\<open>session/media/rtcpmuxfilter.cc\<close>) and \<open>SrtpFilter\<close>. \<open>SrtpSession\<close> and
  \<open>SrtpFilter\<close> model \<^verbatim>\<open>session/media/srtpfilter.cc\<close> built with libsrtp, which is the record
  \<open>srtp_lib\<close>; undefined behaviour is a value of \<open>srtp_fault\<close>. \<open>SrtpSafety\<close> interprets
  \<open>safe_system\<close> for the filter and shows that a completed exchange keys the two ends crosswise.

  \<^bold>\<open>Assumptions on parameters.\<close> A digest returns as many bytes as it says. libsrtp works on packets in
  place. A caller respects \<open>call_permitted\<close>, \<open>stun_permitted\<close>, \<open>ice_permitted\<close> and \<open>srtp_permitted\<close>, which the
  respective theories state and whose violations are shown to be harmful where they are. The channel is sorted in
  states of \<open>channel_ok\<close>: its connections exist, have local candidates and one protocol, and generations stay
  below \<open>2 ^ 31\<close>.

  \<^bold>\<open>Not modelled.\<close> Sockets, threads, SSL, HTTP, files, logging and devices, because they are operating
  system or third-party calls; XML and XMPP, which rest on expat; media engines and the vendored WebRTC
  code; the transports, sessions and media sessions, which are glue across threads; SDP. Memory ownership and locking are left out throughout: every object is
  used from one thread, as its class requires.
\<close>

end
